(* ===== verification/Garnet_Prelude.thy ===== *)
theory Garnet_Prelude
  imports Main "HOL-Library.Word" "HOL-Library.Multiset"
begin

text \<open>
  What every component of the Garnet model shares.

  \<^item> The result type \<open>'a res\<close>: a C++ call either returns (\<open>Inr\<close>) or aborts the
    simulation (\<open>Inl\<close>), by a failed \<open>assert\<close>, a \<open>panic\<close>, a \<open>fatal\<close>, an
    uncaught exception of the standard library (\<open>std::out_of_range\<close>), or by
    undefined behaviour (a vector index out of range, \<open>front()\<close> of an empty queue, a
    null pointer).
  \<^item> \<open>rbind\<close> sequences calls, \<open>check\<close> is a guard, \<open>rfold\<close> is a \<open>for\<close> loop.
  \<^item> \<open>vget\<close>, \<open>vset\<close>, \<open>vmod\<close> are \<open>std::vector\<close> accesses by an \<open>int\<close> index.
  \<^item> Ticks and cycle counts are 64-bit words and wrap around as \<open>uint64_t\<close> does.
  \<^item> The collections \<open>res_iff\<close> (inversion of a successful run) and \<open>vec_simps\<close>.
\<close>

named_theorems res_iff "inversion rules for calls that return"
named_theorems vec_simps "rules for vector reads and writes"

datatype fault = Assertion | Panic | Fatal | Exception | Undefined

type_synonym 'a res = "fault + 'a"
type_synonym tick = "64 word"
type_synonym cycles = "64 word"
type_synonym u32 = "32 word"

definition rbind :: "'a res \<Rightarrow> ('a \<Rightarrow> 'b res) \<Rightarrow> 'b res" where
  "rbind m f = (case m of Inl e \<Rightarrow> Inl e | Inr x \<Rightarrow> f x)"

definition check :: "fault \<Rightarrow> bool \<Rightarrow> unit res" where
  "check e b = (if b then Inr () else Inl e)"

fun rfold :: "('i \<Rightarrow> 's \<Rightarrow> 's res) \<Rightarrow> 'i list \<Rightarrow> 's \<Rightarrow> 's res" where
  "rfold f [] s = Inr s"
| "rfold f (x # xs) s = rbind (f x s) (rfold f xs)"

definition vget :: "'a list \<Rightarrow> int \<Rightarrow> 'a res" where
  "vget xs i = (if 0 \<le> i \<and> i < int (length xs) then Inr (xs ! nat i) else Inl Undefined)"

definition vset :: "'a list \<Rightarrow> int \<Rightarrow> 'a \<Rightarrow> 'a list res" where
  "vset xs i v = (if 0 \<le> i \<and> i < int (length xs) then Inr (xs[nat i := v]) else Inl Undefined)"

definition vmod :: "'a list \<Rightarrow> int \<Rightarrow> ('a \<Rightarrow> 'a res) \<Rightarrow> 'a list res" where
  "vmod xs i f = rbind (vget xs i) (\<lambda>x. rbind (f x) (vset xs i))"

text \<open>
  \<open>std::vector::resize\<close>: keeps what fits and fills with the given value.
\<close>

definition vresize :: "'a \<Rightarrow> nat \<Rightarrow> 'a list \<Rightarrow> 'a list" where
  "vresize d n xs = take n xs @ replicate (n - length xs) d"

text \<open>
  Integer division of C++, which truncates towards zero and is undefined for a zero divisor.
\<close>

definition cdiv :: "int \<Rightarrow> int \<Rightarrow> int res" where
  "cdiv a b = (if b = 0 then Inl Undefined else Inr (sgn a * sgn b * (\<bar>a\<bar> div \<bar>b\<bar>)))"

text \<open>
  A round-robin scan: at most \<open>k\<close> probes from index \<open>i\<close> on, wrapping to 0 at \<open>n\<close>, up to the
  first probe that gives a value.
\<close>

fun rr_scan :: "int \<Rightarrow> (int \<Rightarrow> 'a option res) \<Rightarrow> nat \<Rightarrow> int \<Rightarrow> 'a option res" where
  "rr_scan n f 0 i = Inr None"
| "rr_scan n f (Suc k) i =
     rbind (f i) (\<lambda>r. case r of
       Some x \<Rightarrow> Inr (Some x)
     | None \<Rightarrow> rr_scan n f k (if n \<le> i + 1 then 0 else i + 1))"

fun map_res :: "('a \<Rightarrow> 'b res) \<Rightarrow> 'a list \<Rightarrow> 'b list res" where
  "map_res f [] = Inr []"
| "map_res f (x # xs) = rbind (f x) (\<lambda>y. rbind (map_res f xs) (\<lambda>ys. Inr (y # ys)))"

text \<open>The first value a loop with an early exit finds.\<close>

fun first_res :: "('i \<Rightarrow> 'a option res) \<Rightarrow> 'i list \<Rightarrow> 'a option res" where
  "first_res f [] = Inr None"
| "first_res f (x # xs) =
     rbind (f x) (\<lambda>r. case r of Some y \<Rightarrow> Inr (Some y) | None \<Rightarrow> first_res f xs)"

definition returns :: "'a res \<Rightarrow> bool" where
  "returns m = (case m of Inl _ \<Rightarrow> False | Inr _ \<Rightarrow> True)"

section \<open>Results\<close>

lemma rbind_Inl [simp]: "rbind (Inl e) f = Inl e"
  by (simp add: rbind_def)

lemma rbind_Inr [simp]: "rbind (Inr x) f = f x"
  by (simp add: rbind_def)

lemma rbind_eq_Inr [res_iff]: "rbind m f = Inr y \<longleftrightarrow> (\<exists>x. m = Inr x \<and> f x = Inr y)"
  by (cases m) auto

lemma rbind_eq_Inl: "rbind m f = Inl e \<longleftrightarrow> m = Inl e \<or> (\<exists>x. m = Inr x \<and> f x = Inl e)"
  by (cases m) auto

lemma rbind_assoc: "rbind (rbind m f) g = rbind m (\<lambda>x. rbind (f x) g)"
  by (cases m) auto

lemma rbind_cong [fundef_cong]:
  "m = m' \<Longrightarrow> (\<And>x. m' = Inr x \<Longrightarrow> f x = f' x) \<Longrightarrow> rbind m f = rbind m' f'"
  by (cases m') auto

lemma check_eq_Inr [simp]: "check e b = Inr u \<longleftrightarrow> b"
  by (simp add: check_def)

lemma check_eq_Inl [simp]: "check e b = Inl e' \<longleftrightarrow> \<not> b \<and> e' = e"
  by (auto simp: check_def)

lemma check_True [simp]: "check e True = Inr ()"
  by (simp add: check_def)

lemma check_False [simp]: "check e False = Inl e"
  by (simp add: check_def)

lemma returns_iff: "returns m \<longleftrightarrow> (\<exists>x. m = Inr x)"
  by (cases m) (auto simp: returns_def)

lemma returns_Inr [simp]: "returns (Inr x)"
  by (simp add: returns_def)

lemma returns_Inl [simp]: "\<not> returns (Inl e)"
  by (simp add: returns_def)

section \<open>Loops\<close>

lemma rfold_append: "rfold f (xs @ ys) s = rbind (rfold f xs s) (rfold f ys)"
  by (induction xs arbitrary: s) (auto simp: rbind_assoc cong: rbind_cong)

text \<open>An invariant kept by every iteration that returns holds when the loop returns.\<close>

lemma rfold_inv:
  assumes "rfold f xs s = Inr t" and "I s"
    and "\<And>x s s'. x \<in> set xs \<Longrightarrow> I s \<Longrightarrow> f x s = Inr s' \<Longrightarrow> I s'"
  shows "I t"
  using assms
proof (induction xs arbitrary: s)
  case Nil
  then show ?case by simp
next
  case (Cons x xs)
  from Cons.prems(1) obtain u where u: "f x s = Inr u" "rfold f xs u = Inr t"
    by (auto simp: res_iff)
  have "I u" using Cons.prems(2,3) u(1) by auto
  then show ?case using Cons.IH [OF u(2)] Cons.prems(3) by auto
qed

text \<open>A loop returns, and establishes the invariant, if every iteration does.\<close>

lemma rfold_total:
  assumes "I s" and "\<And>x s. x \<in> set xs \<Longrightarrow> I s \<Longrightarrow> \<exists>s'. f x s = Inr s' \<and> I s'"
  shows "\<exists>t. rfold f xs s = Inr t \<and> I t"
  using assms
proof (induction xs arbitrary: s)
  case Nil
  then show ?case by simp
next
  case (Cons x xs)
  obtain u where u: "f x s = Inr u" "I u" using Cons.prems by (metis list.set_intros(1))
  with Cons.IH [of u] Cons.prems(2) show ?case by auto
qed

text \<open>A counting loop returns, and establishes its invariant, if every iteration does.\<close>

lemma rfold_upto:
  fixes a n :: int
  assumes "I a s" and "\<And>k s. a \<le> k \<Longrightarrow> k < n \<Longrightarrow> I k s \<Longrightarrow> \<exists>s'. f k s = Inr s' \<and> I (k + 1) s'"
    and "a \<le> n"
  shows "\<exists>t. rfold f [a..n - 1] s = Inr t \<and> I n t"
  using assms
proof (induction "nat (n - a)" arbitrary: a s)
  case 0
  then have "a = n" by simp
  then show ?case using 0 by simp
next
  case (Suc d)
  then have lt: "a < n" by simp
  then obtain s' where s': "f a s = Inr s'" "I (a + 1) s'" using Suc.prems(1) Suc.prems(2) [of a s] by auto
  have "\<exists>t. rfold f [a + 1..n - 1] s' = Inr t \<and> I n t"
    by (rule Suc.hyps(1)) (use Suc.hyps(2) Suc.prems lt s'(2) in auto)
  then show ?case using s'(1) lt by (simp add: upto_rec1)
qed

lemma map_res_eq_Inr: "map_res f xs = Inr ys \<longleftrightarrow> list_all2 (\<lambda>x y. f x = Inr y) xs ys"
  by (induction xs arbitrary: ys) (auto simp: res_iff list_all2_Cons1)

section \<open>Scans with an early exit\<close>

lemma cdiv_nonneg: "0 \<le> a \<Longrightarrow> 0 < b \<Longrightarrow> cdiv a b = Inr (a div b)"
  by (cases "a = 0") (simp_all add: cdiv_def sgn_if)

lemma int_div_less: "0 < n \<Longrightarrow> a < n * b \<Longrightarrow> a div n < b" for a b n :: int
proof (rule ccontr)
  assume n: "0 < n" "a < n * b" "\<not> a div n < b"
  have "n * b \<le> n * (a div n)" using n by (intro mult_left_mono) auto
  moreover have "n * (a div n) + a mod n = a" "0 \<le> a mod n" using n by simp_all
  ultimately show False using n(2) by linarith
qed

lemma first_res_Some:
  assumes "first_res f xs = Inr (Some y)"
  shows "\<exists>ys x zs. xs = ys @ x # zs \<and> f x = Inr (Some y) \<and> (\<forall>z\<in>set ys. f z = Inr None)"
  using assms
proof (induction xs)
  case Nil
  then show ?case by simp
next
  case (Cons a xs)
  then obtain r where r: "f a = Inr r" by (auto simp: res_iff)
  show ?case
  proof (cases r)
    case None
    with Cons r obtain ys x zs where "xs = ys @ x # zs" "f x = Inr (Some y)" "\<forall>z\<in>set ys. f z = Inr None"
      by auto
    then show ?thesis using None r by (intro exI [of _ "a # ys"]) auto
  next
    case (Some b)
    with Cons.prems r show ?thesis by (intro exI [of _ "[]"]) auto
  qed
qed

lemma first_res_None: "first_res f xs = Inr None \<longleftrightarrow> (\<forall>x\<in>set xs. f x = Inr None)"
  by (induction xs) (auto simp: res_iff rbind_def split: sum.splits option.splits)

lemma first_res_find:
  assumes "\<forall>x\<in>set xs. f x = Inr (if P x then Some x else None)"
  shows "first_res f xs = Inr (find P xs)"
  using assms by (induction xs) simp_all

lemma first_res_returns: "\<forall>x\<in>set xs. returns (f x) \<Longrightarrow> returns (first_res f xs)"
  by (induction xs) (auto simp: returns_iff split: option.splits)

lemma rr_next: "0 \<le> i \<Longrightarrow> i < n \<Longrightarrow> (if n \<le> i + 1 then 0 else i + 1) = (i + 1) mod n" for i :: int
  by (cases "n = i + 1") auto

text \<open>A scan that returns found the first hit in cyclic order, or probed every index in reach.\<close>

lemma rr_scan_result:
  assumes "rr_scan n f k i = Inr r" and "0 \<le> i" "i < n"
  shows "case r of
      Some x \<Rightarrow> \<exists>d<k. f ((i + int d) mod n) = Inr (Some x) \<and> (\<forall>e<d. f ((i + int e) mod n) = Inr None)
    | None \<Rightarrow> \<forall>d<k. f ((i + int d) mod n) = Inr None"
  using assms
proof (induction k arbitrary: i)
  case 0
  then show ?case by auto
next
  case (Suc k)
  let ?j = "(i + 1) mod n"
  obtain q where q: "f i = Inr q" using Suc.prems by (auto simp: res_iff)
  have i: "(i + int 0) mod n = i" using Suc.prems by simp
  have j: "(?j + int d) mod n = (i + int (Suc d)) mod n" for d
    by (simp add: mod_simps algebra_simps)
  have split: "(\<forall>e<Suc d. P e) \<longleftrightarrow> P 0 \<and> (\<forall>e<d. P (Suc e))" for P d
    by (auto simp: less_Suc_eq_0_disj)
  show ?case
  proof (cases q)
    case (Some x)
    then have "r = Some x" using Suc.prems q by simp
    then show ?thesis using Some q i by (simp only: option.case) (rule exI [of _ 0], simp)
  next
    case None
    then have "rr_scan n f k ?j = Inr r"
      using Suc.prems q rr_next [OF Suc.prems(2,3)] by simp
    from Suc.IH [OF this] Suc.prems have ih: "case r of
        Some x \<Rightarrow> \<exists>d<k. f ((i + int (Suc d)) mod n) = Inr (Some x) \<and> (\<forall>e<d. f ((i + int (Suc e)) mod n) = Inr None)
      | None \<Rightarrow> \<forall>d<k. f ((i + int (Suc d)) mod n) = Inr None" by (simp only: j) simp
    have first: "f ((i + int 0) mod n) = Inr None" using i q None by simp
    show ?thesis
    proof (cases r)
      case None
      then show ?thesis using ih first by (simp only: option.case split)
    next
      case (Some x)
      then obtain d where "d < k" "f ((i + int (Suc d)) mod n) = Inr (Some x)"
        "\<forall>e<d. f ((i + int (Suc e)) mod n) = Inr None" using ih by (simp only: option.case) blast
      then show ?thesis using Some first
        by (simp only: option.case) (rule exI [of _ "Suc d"], simp only: split Suc_less_eq)
    qed
  qed
qed

lemma rr_scan_returns:
  assumes "\<And>i. 0 \<le> i \<Longrightarrow> i < n \<Longrightarrow> returns (f i)" "0 \<le> i" "i < n"
  shows "returns (rr_scan n f k i)"
  using assms(2,3)
proof (induction k arbitrary: i)
  case 0
  then show ?case by simp
next
  case (Suc k)
  obtain q where q: "f i = Inr q" using assms(1) [of i] Suc.prems by (auto simp: returns_iff)
  have "returns (rr_scan n f k (if n \<le> i + 1 then 0 else i + 1))" by (rule Suc.IH) (use Suc.prems in auto)
  then show ?case using q by (cases q) simp_all
qed

lemma rr_scan_Some:
  assumes "rr_scan n f k i = Inr (Some x)" "0 \<le> i" "i < n"
  shows "\<exists>j. 0 \<le> j \<and> j < n \<and> f j = Inr (Some x)"
  using rr_scan_result [OF assms] assms(2,3) by (auto intro: exI [of _ "(i + int _) mod n"])

section \<open>Vectors\<close>

lemma vget_eq_Inr [res_iff]:
  "vget xs i = Inr x \<longleftrightarrow> 0 \<le> i \<and> i < int (length xs) \<and> x = xs ! nat i"
  by (auto simp: vget_def)

lemma vset_eq_Inr [res_iff]:
  "vset xs i v = Inr ys \<longleftrightarrow> 0 \<le> i \<and> i < int (length xs) \<and> ys = xs[nat i := v]"
  by (auto simp: vset_def)

lemma vmod_eq_Inr [res_iff]:
  "vmod xs i f = Inr ys \<longleftrightarrow>
     0 \<le> i \<and> i < int (length xs) \<and> (\<exists>y. f (xs ! nat i) = Inr y \<and> ys = xs[nat i := y])"
  by (auto simp: vmod_def res_iff)

lemma vget_ok [vec_simps]: "0 \<le> i \<Longrightarrow> i < int (length xs) \<Longrightarrow> vget xs i = Inr (xs ! nat i)"
  by (simp add: vget_def)

lemma vset_ok [vec_simps]:
  "0 \<le> i \<Longrightarrow> i < int (length xs) \<Longrightarrow> vset xs i v = Inr (xs[nat i := v])"
  by (simp add: vset_def)

lemma vmod_ok [vec_simps]:
  "0 \<le> i \<Longrightarrow> i < int (length xs) \<Longrightarrow>
   vmod xs i f = rbind (f (xs ! nat i)) (\<lambda>y. Inr (xs[nat i := y]))"
  by (simp add: vmod_def vget_ok vset_ok cong: rbind_cong)

lemma nth_update_int [vec_simps]:
  "0 \<le> i \<Longrightarrow> 0 \<le> j \<Longrightarrow> i < int (length xs) \<Longrightarrow>
   xs[nat i := v] ! nat j = (if i = j then v else xs ! nat j)"
  by (auto simp: nth_list_update)

lemma nat_less_length [vec_simps]: "0 \<le> i \<Longrightarrow> i < int (length xs) \<Longrightarrow> nat i < length xs"
  by simp

lemma all_less_int: "(\<forall>i<n. P i) = (\<forall>i. 0 \<le> i \<and> i < int n \<longrightarrow> P (nat i))"
proof
  assume "\<forall>i. 0 \<le> i \<and> i < int n \<longrightarrow> P (nat i)"
  then have "P i" if "i < n" for i using that by (auto dest!: spec [of _ "int i"])
  then show "\<forall>i<n. P i" by blast
qed auto

lemma vget_vset:
  "vset xs i v = Inr ys \<Longrightarrow> vget ys j = (if j = i then Inr v else vget xs j)"
  by (auto simp: vset_eq_Inr vget_def nth_list_update)

lemma length_vresize [simp]: "length (vresize d n xs) = n"
  by (simp add: vresize_def)

lemma vresize_same [simp]: "length xs = n \<Longrightarrow> vresize d n xs = xs"
  by (simp add: vresize_def)

lemma vresize_replicate: "vresize d n [] = replicate n d"
  by (simp add: vresize_def)

section \<open>Multisets of list elements\<close>

lemma mset_update_swap:
  "i < length xs \<Longrightarrow> add_mset (xs ! i) (mset (xs[i := v])) = add_mset v (mset xs)"
  by (simp add: mset_update mset_swap)

lemma sum_list_map_update:
  fixes f :: "'a \<Rightarrow> 'b::cancel_comm_monoid_add"
  assumes "i < length xs"
  shows "sum_list (map f (xs[i := y])) + f (xs ! i) = sum_list (map f xs) + f y"
  using assms
proof (induction xs arbitrary: i)
  case Nil
  then show ?case by simp
next
  case (Cons x xs)
  then show ?case
    by (cases i) (simp add: ac_simps, metis (no_types, lifting) Suc_less_eq add.assoc length_Cons
        list.simps(9) list_update_code(3) nth_Cons_Suc sum_list.Cons)
qed

end
