(* ===== verification/Garnet_NetDest.thy ===== *)
theory Garnet_NetDest
  imports Garnet_Prelude
begin

text \<open>
  Destination sets: \<open>Set\<close> (mem/ruby/common/Set.hh), a \<open>std::bitset\<close> of
  \<open>NUMBER_BITS_PER_SET\<close> bits with the number of bits in use, and \<open>NetDest\<close>
  (mem/ruby/common/NetDest.cc), one \<open>Set\<close> per machine type. The bit count of the build is
  the parameter \<open>nb\<close>; the number of controllers of each machine type, which the protocol
  compiler fixes, is the list \<open>cs\<close>, from which \<open>MachineType_base_count\<close>,
  \<open>MachineType_base_level\<close> and \<open>MachineType_base_number\<close> are computed as the generated functions compute them.

  The locale \<open>dest_set\<close> is what the routing table and the network interface rely on:
  both classes behave as finite sets over a universe fixed by their shape.
\<close>

section \<open>Definitions: Set\<close>

record bset =
  m_nSize :: int
  bits :: "bool list"

definition Set_new :: "nat \<Rightarrow> int \<Rightarrow> bset res" where
  "Set_new nb sz =
     (if int nb < sz then Inl Fatal else Inr \<lparr>m_nSize = sz, bits = replicate nb False\<rparr>)"

definition Set_setSize :: "nat \<Rightarrow> int \<Rightarrow> bset \<Rightarrow> bset res" where
  "Set_setSize nb sz s =
     (if int nb < sz then Inl Fatal else Inr (s\<lparr>m_nSize := sz, bits := replicate nb False\<rparr>))"

definition bit_in :: "bset \<Rightarrow> int \<Rightarrow> bool" where
  "bit_in s i = (0 \<le> i \<and> i < int (length (bits s)))"

definition Set_add :: "int \<Rightarrow> bset \<Rightarrow> bset res" where
  "Set_add i s =
     (if bit_in s i then Inr (s\<lparr>bits := (bits s)[nat i := True]\<rparr>) else Inl Exception)"

definition Set_addSet :: "bset \<Rightarrow> bset \<Rightarrow> bset res" where
  "Set_addSet obj s =
     rbind (check Assertion (m_nSize s = m_nSize obj))
       (\<lambda>_. Inr (s\<lparr>bits := map2 (\<or>) (bits s) (bits obj)\<rparr>))"

definition Set_remove :: "int \<Rightarrow> bset \<Rightarrow> bset res" where
  "Set_remove i s =
     (if bit_in s i then Inr (s\<lparr>bits := (bits s)[nat i := False]\<rparr>) else Inl Exception)"

definition Set_removeSet :: "bset \<Rightarrow> bset \<Rightarrow> bset res" where
  "Set_removeSet obj s =
     rbind (check Assertion (m_nSize s = m_nSize obj))
       (\<lambda>_. Inr (s\<lparr>bits := map2 (\<lambda>a b. a \<and> \<not> b) (bits s) (bits obj)\<rparr>))"

definition Set_clear :: "bset \<Rightarrow> bset" where
  "Set_clear s = s\<lparr>bits := map (\<lambda>_. False) (bits s)\<rparr>"

definition Set_broadcast :: "bset \<Rightarrow> bset" where
  "Set_broadcast s =
     s\<lparr>bits := map (\<lambda>j. \<not> (m_nSize s \<le> int j)) [0..<length (bits s)]\<rparr>"

definition Set_count :: "bset \<Rightarrow> int" where
  "Set_count s = int (length (filter id (bits s)))"

definition Set_isEqual :: "bset \<Rightarrow> bset \<Rightarrow> bool res" where
  "Set_isEqual obj s =
     rbind (check Assertion (m_nSize s = m_nSize obj)) (\<lambda>_. Inr (bits s = bits obj))"

definition Set_OR :: "bset \<Rightarrow> bset \<Rightarrow> bset res" where
  "Set_OR obj s =
     rbind (check Assertion (m_nSize s = m_nSize obj))
       (\<lambda>_. rbind (Set_new (length (bits s)) (m_nSize s))
         (\<lambda>r. Inr (r\<lparr>bits := map2 (\<or>) (bits s) (bits obj)\<rparr>)))"

definition Set_AND :: "bset \<Rightarrow> bset \<Rightarrow> bset res" where
  "Set_AND obj s =
     rbind (check Assertion (m_nSize s = m_nSize obj))
       (\<lambda>_. rbind (Set_new (length (bits s)) (m_nSize s))
         (\<lambda>r. Inr (r\<lparr>bits := map2 (\<and>) (bits s) (bits obj)\<rparr>)))"

definition Set_isEmpty :: "bset \<Rightarrow> bool" where
  "Set_isEmpty s = list_all Not (bits s)"

definition Set_intersectionIsEmpty :: "bset \<Rightarrow> bset \<Rightarrow> bool" where
  "Set_intersectionIsEmpty obj s = list_all Not (map2 (\<and>) (bits s) (bits obj))"

definition Set_isSuperset :: "bset \<Rightarrow> bset \<Rightarrow> bool res" where
  "Set_isSuperset test s =
     rbind (check Assertion (m_nSize s = m_nSize test))
       (\<lambda>_. Inr (map2 (\<or>) (bits s) (bits test) = bits s))"

definition Set_isElement :: "int \<Rightarrow> bset \<Rightarrow> bool res" where
  "Set_isElement i s = (if bit_in s i then Inr (bits s ! nat i) else Inl Exception)"

definition Set_isSubset :: "bset \<Rightarrow> bset \<Rightarrow> bool res" where
  "Set_isSubset test s = Set_isSuperset s test"

text \<open>\<open>elementAt\<close> indexes the bits without the range check of \<open>test\<close>.\<close>

definition Set_elementAt :: "int \<Rightarrow> bset \<Rightarrow> bool res" where
  "Set_elementAt index s = (if bit_in s index then Inr (bits s ! nat index) else Inl Undefined)"

definition Set_isBroadcast :: "bset \<Rightarrow> bool" where
  "Set_isBroadcast s = (Set_count s = m_nSize s)"

fun first_bit :: "bset \<Rightarrow> int list \<Rightarrow> int res" where
  "first_bit s [] = Inl Panic"
| "first_bit s (i # is) =
     rbind (Set_isElement i s) (\<lambda>b. if b then Inr i else first_bit s is)"

definition Set_smallestElement :: "bset \<Rightarrow> int res" where
  "Set_smallestElement s = first_bit s [0..m_nSize s - 1]"

section \<open>Definitions: machine types and NetDest\<close>

record machine_id =
  mach_type :: int
  mach_num :: int

definition MachineType_NUM :: "int list \<Rightarrow> int" where
  "MachineType_NUM cs = int (length cs)"

definition MachineType_base_count :: "int list \<Rightarrow> int \<Rightarrow> int res" where
  "MachineType_base_count cs m =
     (if 0 \<le> m \<and> m < MachineType_NUM cs then Inr (cs ! nat m) else Inl Panic)"

definition MachineType_base_number :: "int list \<Rightarrow> int \<Rightarrow> int res" where
  "MachineType_base_number cs m =
     (if 0 \<le> m \<and> m \<le> MachineType_NUM cs then Inr (sum_list (take (nat m) cs)) else Inl Panic)"

definition MachineType_base_level :: "int list \<Rightarrow> int \<Rightarrow> int res" where
  "MachineType_base_level cs m = (if 0 \<le> m \<and> m \<le> MachineType_NUM cs then Inr m else Inl Panic)"

record net_dest =
  m_bits :: "bset list"

fun Sets_of_sizes :: "nat \<Rightarrow> int list \<Rightarrow> bset list res" where
  "Sets_of_sizes nb [] = Inr []"
| "Sets_of_sizes nb (c # cs) =
     rbind (Set_setSize nb c \<lparr>m_nSize = 0, bits = replicate nb False\<rparr>)
       (\<lambda>s. rbind (Sets_of_sizes nb cs) (\<lambda>ss. Inr (s # ss)))"

definition NetDest_new :: "nat \<Rightarrow> int list \<Rightarrow> net_dest res" where
  "NetDest_new nb cs = rbind (Sets_of_sizes nb cs) (\<lambda>ss. Inr \<lparr>m_bits = ss\<rparr>)"

definition vecIndex :: "machine_id \<Rightarrow> net_dest \<Rightarrow> int res" where
  "vecIndex m d =
     rbind (check Assertion (mach_type m < int (length (m_bits d)))) (\<lambda>_. Inr (mach_type m))"

definition NetDest_add :: "machine_id \<Rightarrow> net_dest \<Rightarrow> net_dest res" where
  "NetDest_add m d =
     rbind (vecIndex m d) (\<lambda>v.
     rbind (vget (m_bits d) v) (\<lambda>s.
     rbind (check Assertion (mach_num m < m_nSize s)) (\<lambda>_.
     rbind (vmod (m_bits d) v (Set_add (mach_num m))) (\<lambda>bs.
     Inr (d\<lparr>m_bits := bs\<rparr>)))))"

definition NetDest_remove :: "machine_id \<Rightarrow> net_dest \<Rightarrow> net_dest res" where
  "NetDest_remove m d =
     rbind (vecIndex m d) (\<lambda>v.
     rbind (vmod (m_bits d) v (Set_remove (mach_num m))) (\<lambda>bs.
     Inr (d\<lparr>m_bits := bs\<rparr>)))"

fun map2_res :: "('a \<Rightarrow> 'b \<Rightarrow> 'c res) \<Rightarrow> 'a list \<Rightarrow> 'b list \<Rightarrow> 'c list res" where
  "map2_res f (x # xs) (y # ys) =
     rbind (f x y) (\<lambda>z. rbind (map2_res f xs ys) (\<lambda>zs. Inr (z # zs)))"
| "map2_res f [] [] = Inr []"
| "map2_res f _ _ = Inl Assertion"

definition NetDest_addNetDest :: "net_dest \<Rightarrow> net_dest \<Rightarrow> net_dest res" where
  "NetDest_addNetDest obj d =
     rbind (check Assertion (length (m_bits d) = length (m_bits obj))) (\<lambda>_.
     rbind (map2_res Set_addSet (m_bits obj) (m_bits d)) (\<lambda>bs. Inr (d\<lparr>m_bits := bs\<rparr>)))"

definition NetDest_removeNetDest :: "net_dest \<Rightarrow> net_dest \<Rightarrow> net_dest res" where
  "NetDest_removeNetDest obj d =
     rbind (check Assertion (length (m_bits d) = length (m_bits obj))) (\<lambda>_.
     rbind (map2_res Set_removeSet (m_bits obj) (m_bits d)) (\<lambda>bs. Inr (d\<lparr>m_bits := bs\<rparr>)))"

definition NetDest_OR :: "net_dest \<Rightarrow> net_dest \<Rightarrow> net_dest res" where
  "NetDest_OR obj d =
     rbind (check Assertion (length (m_bits d) = length (m_bits obj))) (\<lambda>_.
     rbind (map2_res Set_OR (m_bits obj) (m_bits d)) (\<lambda>bs. Inr (d\<lparr>m_bits := bs\<rparr>)))"

definition NetDest_AND :: "net_dest \<Rightarrow> net_dest \<Rightarrow> net_dest res" where
  "NetDest_AND obj d =
     rbind (check Assertion (length (m_bits d) = length (m_bits obj))) (\<lambda>_.
     rbind (map2_res Set_AND (m_bits obj) (m_bits d)) (\<lambda>bs. Inr (d\<lparr>m_bits := bs\<rparr>)))"

definition NetDest_clear :: "net_dest \<Rightarrow> net_dest" where
  "NetDest_clear d = d\<lparr>m_bits := map Set_clear (m_bits d)\<rparr>"

definition NetDest_broadcast_type :: "int list \<Rightarrow> int \<Rightarrow> net_dest \<Rightarrow> net_dest res" where
  "NetDest_broadcast_type cs m d =
     rbind (MachineType_base_count cs m) (\<lambda>n.
     rfold (\<lambda>i. NetDest_add \<lparr>mach_type = m, mach_num = i\<rparr>) [0..n - 1] d)"

definition NetDest_broadcast :: "int list \<Rightarrow> net_dest \<Rightarrow> net_dest res" where
  "NetDest_broadcast cs d = rfold (NetDest_broadcast_type cs) [0..MachineType_NUM cs - 1] d"

fun dest_of_set :: "int \<Rightarrow> bset \<Rightarrow> int list \<Rightarrow> int list res" where
  "dest_of_set base s [] = Inr []"
| "dest_of_set base s (j # js) =
     rbind (Set_isElement j s) (\<lambda>b.
     rbind (dest_of_set base s js) (\<lambda>ds. Inr (if b then (base + j) # ds else ds)))"

fun dest_of_sets :: "int list \<Rightarrow> int \<Rightarrow> bset list \<Rightarrow> int list res" where
  "dest_of_sets cs i [] = Inr []"
| "dest_of_sets cs i (s # ss) =
     rbind (MachineType_base_number cs i) (\<lambda>base.
     rbind (dest_of_set base s [0..m_nSize s - 1]) (\<lambda>ds.
     rbind (dest_of_sets cs (i + 1) ss) (\<lambda>es. Inr (ds @ es))))"

definition NetDest_getAllDest :: "int list \<Rightarrow> net_dest \<Rightarrow> int list res" where
  "NetDest_getAllDest cs d = dest_of_sets cs 0 (m_bits d)"

definition NetDest_count :: "net_dest \<Rightarrow> int" where
  "NetDest_count d = sum_list (map Set_count (m_bits d))"

definition NetDest_isBroadcast :: "net_dest \<Rightarrow> bool" where
  "NetDest_isBroadcast d = list_all Set_isBroadcast (m_bits d)"

definition NetDest_isEmpty :: "net_dest \<Rightarrow> bool" where
  "NetDest_isEmpty d = list_all Set_isEmpty (m_bits d)"

definition NetDest_intersectionIsNotEmpty :: "net_dest \<Rightarrow> net_dest \<Rightarrow> bool res" where
  "NetDest_intersectionIsNotEmpty obj d =
     rbind (check Assertion (length (m_bits d) = length (m_bits obj))) (\<lambda>_.
     Inr (list_ex (\<lambda>(s, t). \<not> Set_intersectionIsEmpty t s) (zip (m_bits d) (m_bits obj))))"

fun all_superset :: "bset list \<Rightarrow> bset list \<Rightarrow> bool res" where
  "all_superset (t # ts) (s # ss) =
     rbind (Set_isSuperset t s) (\<lambda>b. if b then all_superset ts ss else Inr False)"
| "all_superset _ _ = Inr True"

definition NetDest_isSuperset :: "net_dest \<Rightarrow> net_dest \<Rightarrow> bool res" where
  "NetDest_isSuperset test d =
     rbind (check Assertion (length (m_bits d) = length (m_bits test))) (\<lambda>_.
     all_superset (m_bits test) (m_bits d))"

definition NetDest_isSubset :: "net_dest \<Rightarrow> net_dest \<Rightarrow> bool res" where
  "NetDest_isSubset test d = NetDest_isSuperset d test"

definition NetDest_elementAt :: "machine_id \<Rightarrow> net_dest \<Rightarrow> int res" where
  "NetDest_elementAt m d =
     rbind (vecIndex m d) (\<lambda>v.
     rbind (vget (m_bits d) v) (\<lambda>s.
     rbind (Set_elementAt (mach_num m) s) (\<lambda>b. Inr (if b then 1 else 0))))"

definition NetDest_isElement :: "machine_id \<Rightarrow> net_dest \<Rightarrow> bool res" where
  "NetDest_isElement m d =
     rbind (vecIndex m d) (\<lambda>v. rbind (vget (m_bits d) v) (Set_isElement (mach_num m)))"

fun all_equal :: "bset list \<Rightarrow> bset list \<Rightarrow> bool res" where
  "all_equal (t # ts) (s # ss) =
     rbind (Set_isEqual t s) (\<lambda>b. if b then all_equal ts ss else Inr False)"
| "all_equal _ _ = Inr True"

definition NetDest_isEqual :: "net_dest \<Rightarrow> net_dest \<Rightarrow> bool res" where
  "NetDest_isEqual n d =
     rbind (check Assertion (length (m_bits d) = length (m_bits n))) (\<lambda>_.
     all_equal (m_bits n) (m_bits d))"

definition NetDest_setNetDest :: "int list \<Rightarrow> int \<Rightarrow> bset \<Rightarrow> net_dest \<Rightarrow> net_dest res" where
  "NetDest_setNetDest cs machine s d =
     rbind (MachineType_base_level cs (machine + 1)) (\<lambda>next.
     rbind (MachineType_base_level cs machine) (\<lambda>level.
     rbind (check Assertion (next - level = 1)) (\<lambda>_.
     rbind (vset (m_bits d) level s) (\<lambda>bs. Inr (d\<lparr>m_bits := bs\<rparr>)))))"

fun first_machine :: "int \<Rightarrow> bset list \<Rightarrow> machine_id res" where
  "first_machine i [] = Inl Panic"
| "first_machine i (s # ss) =
     (case first_bit s [0..m_nSize s - 1] of
        Inr j \<Rightarrow> Inr \<lparr>mach_type = i, mach_num = j\<rparr>
      | Inl Panic \<Rightarrow> first_machine (i + 1) ss
      | Inl e \<Rightarrow> Inl e)"

definition NetDest_smallestElement :: "net_dest \<Rightarrow> machine_id res" where
  "NetDest_smallestElement d =
     rbind (check Assertion (0 < NetDest_count d)) (\<lambda>_. first_machine 0 (m_bits d))"

definition NetDest_smallestElement_type :: "int \<Rightarrow> net_dest \<Rightarrow> machine_id res" where
  "NetDest_smallestElement_type machine d =
     rbind (vget (m_bits d) machine) (\<lambda>s.
     rbind (first_bit s [0..m_nSize s - 1]) (\<lambda>j. Inr \<lparr>mach_type = machine, mach_num = j\<rparr>))"

text \<open>The sets the two classes stand for, and their well-formedness.\<close>

definition Set_elems :: "bset \<Rightarrow> int set" where
  "Set_elems s = {i. 0 \<le> i \<and> i < int (length (bits s)) \<and> bits s ! nat i}"

definition Set_wf :: "nat \<Rightarrow> bset \<Rightarrow> bool" where
  "Set_wf nb s =
     (length (bits s) = nb \<and> 0 \<le> m_nSize s \<and> m_nSize s \<le> int nb \<and>
      (\<forall>i\<in>Set_elems s. i < m_nSize s))"

definition Set_univ :: "bset \<Rightarrow> int set" where
  "Set_univ s = {0..<m_nSize s}"

definition Set_compat :: "nat \<Rightarrow> bset \<Rightarrow> bset \<Rightarrow> bool" where
  "Set_compat nb s t = (Set_wf nb s \<and> Set_wf nb t \<and> m_nSize s = m_nSize t)"

definition NetDest_elems :: "net_dest \<Rightarrow> machine_id set" where
  "NetDest_elems d =
     {m. 0 \<le> mach_type m \<and> mach_type m < int (length (m_bits d)) \<and>
         mach_num m \<in> Set_elems (m_bits d ! nat (mach_type m))}"

definition NetDest_univ :: "net_dest \<Rightarrow> machine_id set" where
  "NetDest_univ d =
     {m. 0 \<le> mach_type m \<and> mach_type m < int (length (m_bits d)) \<and>
         mach_num m \<in> Set_univ (m_bits d ! nat (mach_type m))}"

definition NetDest_compat :: "nat \<Rightarrow> net_dest \<Rightarrow> net_dest \<Rightarrow> bool" where
  "NetDest_compat nb d e = list_all2 (Set_compat nb) (m_bits d) (m_bits e)"

section \<open>The interface of a destination set\<close>

locale dest_set =
  fixes compat :: "'s \<Rightarrow> 's \<Rightarrow> bool"
    and elems :: "'s \<Rightarrow> 'e set"
    and univ :: "'s \<Rightarrow> 'e set"
    and add :: "'e \<Rightarrow> 's \<Rightarrow> 's res"
    and remove :: "'e \<Rightarrow> 's \<Rightarrow> 's res"
    and addSet :: "'s \<Rightarrow> 's \<Rightarrow> 's res"
    and removeSet :: "'s \<Rightarrow> 's \<Rightarrow> 's res"
    and isEmpty :: "'s \<Rightarrow> bool"
  assumes compat_refl: "compat s t \<Longrightarrow> compat s s"
    and compat_sym: "compat s t \<Longrightarrow> compat t s"
    and compat_trans: "compat s t \<Longrightarrow> compat t u \<Longrightarrow> compat s u"
    and compat_univ: "compat s t \<Longrightarrow> univ t = univ s"
    and elems_univ: "compat s s \<Longrightarrow> elems s \<subseteq> univ s"
    and add_spec: "compat s s \<Longrightarrow> x \<in> univ s \<Longrightarrow>
      \<exists>t. add x s = Inr t \<and> compat s t \<and> elems t = insert x (elems s)"
    and remove_spec: "compat s s \<Longrightarrow> x \<in> univ s \<Longrightarrow>
      \<exists>t. remove x s = Inr t \<and> compat s t \<and> elems t = elems s - {x}"
    and addSet_spec: "compat s r \<Longrightarrow>
      \<exists>t. addSet r s = Inr t \<and> compat s t \<and> elems t = elems s \<union> elems r"
    and removeSet_spec: "compat s r \<Longrightarrow>
      \<exists>t. removeSet r s = Inr t \<and> compat s t \<and> elems t = elems s - elems r"
    and isEmpty_spec: "compat s s \<Longrightarrow> isEmpty s = (elems s = {})"
begin

text \<open>Adding a list of elements in a loop returns and adds exactly those.\<close>

lemma rfold_add:
  assumes "compat s s" and "set xs \<subseteq> univ s"
  shows "\<exists>t. rfold add xs s = Inr t \<and> compat s t \<and> elems t = elems s \<union> set xs"
  using assms
proof (induction xs arbitrary: s)
  case Nil
  then show ?case by simp
next
  case (Cons x xs)
  then obtain u where u: "add x s = Inr u" "compat s u" "elems u = insert x (elems s)"
    using add_spec [of s x] by auto
  have cu: "compat u u" "set xs \<subseteq> univ u"
    using u(2) compat_sym compat_refl compat_univ Cons.prems by auto
  from Cons.IH [OF cu] obtain t
    where t: "rfold add xs u = Inr t" "compat u t" "elems t = elems u \<union> set xs" by auto
  then show ?case using u compat_trans by auto
qed

text \<open>
  Peeling destinations off one at a time, as a multicast is split into unicasts: what is
  left are the destinations not yet peeled, and after all of them the set is empty.
\<close>

lemma rfold_removeSet:
  assumes "compat s s" and "\<forall>r\<in>set rs. compat s r"
  shows "\<exists>t. rfold removeSet rs s = Inr t \<and> compat s t \<and>
    elems t = elems s - (\<Union>r\<in>set rs. elems r)"
  using assms
proof (induction rs arbitrary: s)
  case Nil
  then show ?case by simp
next
  case (Cons r rs)
  then obtain u where u: "removeSet r s = Inr u" "compat s u" "elems u = elems s - elems r"
    using removeSet_spec [of s r] by auto
  have cu: "compat u u" "\<forall>q\<in>set rs. compat u q"
    using u(2) Cons.prems by (auto intro: compat_refl compat_sym compat_trans)
  from Cons.IH [OF cu] obtain t where t: "rfold removeSet rs u = Inr t" "compat u t"
      "elems t = elems u - (\<Union>q\<in>set rs. elems q)" by auto
  then show ?case using u compat_trans by auto
qed

lemma peel_all:
  assumes "compat s s" and "\<forall>r\<in>set rs. compat s r" and "elems s \<subseteq> (\<Union>r\<in>set rs. elems r)"
  shows "\<exists>t. rfold removeSet rs s = Inr t \<and> isEmpty t"
proof -
  obtain t where t: "rfold removeSet rs s = Inr t" "compat s t"
      "elems t = elems s - (\<Union>r\<in>set rs. elems r)"
    using rfold_removeSet [OF assms(1,2)] by auto
  have "compat t t" using t(2) by (auto intro: compat_refl compat_sym)
  then show ?thesis using t assms(3) isEmpty_spec by auto
qed

end

section \<open>Set implements it\<close>

lemma Set_compat_lengths:
  "Set_compat nb s t \<Longrightarrow> length (bits s) = nb \<and> length (bits t) = nb"
  by (simp add: Set_compat_def Set_wf_def)

lemma Set_elems_update:
  "bit_in s i \<Longrightarrow>
   Set_elems (s\<lparr>bits := (bits s)[nat i := b]\<rparr>) =
     (if b then insert i (Set_elems s) else Set_elems s - {i})"
  by (auto simp: Set_elems_def bit_in_def nth_list_update split: if_splits)

lemma Set_elems_map2:
  "length bs = length (bits s) \<Longrightarrow>
   Set_elems (s\<lparr>bits := map2 f (bits s) bs\<rparr>) =
     {i. 0 \<le> i \<and> i < int (length (bits s)) \<and> f (bits s ! nat i) (bs ! nat i)}"
  by (auto simp: Set_elems_def)

lemma Set_add_spec:
  assumes "Set_compat nb s s" and "x \<in> Set_univ s"
  shows "\<exists>t. Set_add x s = Inr t \<and> Set_compat nb s t \<and> Set_elems t = insert x (Set_elems s)"
proof -
  have b: "bit_in s x" using assms by (auto simp: Set_compat_def Set_wf_def Set_univ_def bit_in_def)
  with assms show ?thesis
    by (auto simp: Set_add_def Set_elems_update Set_compat_def Set_wf_def Set_univ_def)
qed

lemma Set_remove_spec:
  assumes "Set_compat nb s s" and "x \<in> Set_univ s"
  shows "\<exists>t. Set_remove x s = Inr t \<and> Set_compat nb s t \<and> Set_elems t = Set_elems s - {x}"
proof -
  have b: "bit_in s x" using assms by (auto simp: Set_compat_def Set_wf_def Set_univ_def bit_in_def)
  with assms show ?thesis
    by (auto simp: Set_remove_def Set_elems_update Set_compat_def Set_wf_def Set_univ_def)
qed

lemma Set_addSet_spec:
  assumes "Set_compat nb s r"
  shows "\<exists>t. Set_addSet r s = Inr t \<and> Set_compat nb s t \<and> Set_elems t = Set_elems s \<union> Set_elems r"
proof -
  have l: "length (bits r) = length (bits s)" using Set_compat_lengths [OF assms] by simp
  then have e: "Set_elems (s\<lparr>bits := map2 (\<or>) (bits s) (bits r)\<rparr>) = Set_elems s \<union> Set_elems r"
    by (auto simp: Set_elems_map2) (auto simp: Set_elems_def)
  show ?thesis using assms l e by (auto simp: Set_addSet_def Set_compat_def Set_wf_def)
qed

lemma Set_removeSet_spec:
  assumes "Set_compat nb s r"
  shows "\<exists>t. Set_removeSet r s = Inr t \<and> Set_compat nb s t \<and> Set_elems t = Set_elems s - Set_elems r"
proof -
  have l: "length (bits r) = length (bits s)" using Set_compat_lengths [OF assms] by simp
  then have e: "Set_elems (s\<lparr>bits := map2 (\<lambda>a b. a \<and> \<not> b) (bits s) (bits r)\<rparr>) =
      Set_elems s - Set_elems r"
    by (auto simp: Set_elems_map2) (auto simp: Set_elems_def)
  show ?thesis using assms l e by (auto simp: Set_removeSet_def Set_compat_def Set_wf_def)
qed

lemma list_all_nth_int: "list_all P xs = (\<forall>i. 0 \<le> i \<and> i < int (length xs) \<longrightarrow> P (xs ! nat i))"
  by (simp add: list_all_length all_less_int)

lemma Set_isEmpty_spec: "Set_isEmpty s = (Set_elems s = {})"
  by (auto simp: Set_isEmpty_def Set_elems_def list_all_nth_int)

interpretation bs: dest_set "Set_compat nb" Set_elems Set_univ Set_add Set_remove
    Set_addSet Set_removeSet Set_isEmpty for nb
  by unfold_locales
    (auto simp: Set_isEmpty_spec intro: Set_add_spec Set_remove_spec Set_addSet_spec
      Set_removeSet_spec, auto simp: Set_compat_def Set_univ_def Set_wf_def Set_elems_def)

lemma Set_intersectionIsEmpty_iff:
  "length (bits r) = length (bits s) \<Longrightarrow>
   Set_intersectionIsEmpty r s = (Set_elems s \<inter> Set_elems r = {})"
  by (auto simp: Set_intersectionIsEmpty_def Set_elems_def list_all_nth_int)

lemma Set_isSuperset_iff:
  assumes "Set_compat nb s r"
  shows "Set_isSuperset r s = Inr (Set_elems r \<subseteq> Set_elems s)"
proof -
  have l: "length (bits r) = length (bits s)" using Set_compat_lengths [OF assms] by simp
  have "map2 (\<or>) (bits s) (bits r) = bits s \<longleftrightarrow>
      (\<forall>i<length (bits s). bits r ! i \<longrightarrow> bits s ! i)"
    using l by (auto simp: list_eq_iff_nth_eq)
  also have "\<dots> \<longleftrightarrow> Set_elems r \<subseteq> Set_elems s"
    using l by (auto simp: Set_elems_def all_less_int)
  finally show ?thesis using assms by (auto simp: Set_isSuperset_def Set_compat_def)
qed

lemma Set_count_card: "Set_count s = int (card (Set_elems s))"
proof -
  have "Set_elems s = int ` {i. i < length (bits s) \<and> id (bits s ! i)}"
    by (auto simp: Set_elems_def intro!: image_eqI [where x = "nat _"])
  then have "card (Set_elems s) = card {i. i < length (bits s) \<and> id (bits s ! i)}"
    by (simp add: card_image)
  then show ?thesis by (simp add: Set_count_def length_filter_conv_card)
qed

text \<open>\<open>isBroadcast\<close> counts bits; on a well-formed set that is "every bit in use is set".\<close>

lemma Set_isBroadcast_iff:
  assumes "Set_wf nb s"
  shows "Set_isBroadcast s = (Set_elems s = Set_univ s)"
proof -
  have sub: "Set_elems s \<subseteq> Set_univ s" using assms
    by (auto simp: Set_wf_def Set_univ_def Set_elems_def)
  have fin: "finite (Set_univ s)" by (simp add: Set_univ_def)
  have "int (card (Set_univ s)) = m_nSize s" using assms by (simp add: Set_univ_def Set_wf_def)
  then show ?thesis using card_subset_eq [OF fin sub]
    by (auto simp: Set_isBroadcast_def Set_count_card)
qed

section \<open>NetDest implements it\<close>

lemma map2_res_spec:
  assumes "list_all2 C ss rs"
    and "\<And>s r. C s r \<Longrightarrow> \<exists>t. f r s = Inr t \<and> C s t \<and> E t = g (E s) (E r)"
  shows "\<exists>ts. map2_res f rs ss = Inr ts \<and> list_all2 C ss ts \<and>
    (\<forall>i<length ss. E (ts ! i) = g (E (ss ! i)) (E (rs ! i)))"
  using assms(1)
proof (induction rule: list_all2_induct)
  case Nil
  then show ?case by simp
next
  case (Cons s ss r rs)
  then obtain t ts where "f r s = Inr t" "C s t" "E t = g (E s) (E r)"
    and "map2_res f rs ss = Inr ts" "list_all2 C ss ts"
      "\<forall>i<length ss. E (ts ! i) = g (E (ss ! i)) (E (rs ! i))"
    using assms(2) [of s r] by auto
  then show ?case by (auto simp: less_Suc_eq_0_disj)
qed

lemma NetDest_compat_length: "NetDest_compat nb d e \<Longrightarrow> length (m_bits e) = length (m_bits d)"
  by (simp add: NetDest_compat_def list_all2_lengthD)

lemma NetDest_compat_nth:
  "NetDest_compat nb d e \<Longrightarrow> i < length (m_bits d) \<Longrightarrow> Set_compat nb (m_bits d ! i) (m_bits e ! i)"
  by (simp add: NetDest_compat_def list_all2_nthD)

lemma NetDest_compat_sym: "NetDest_compat nb d e \<Longrightarrow> NetDest_compat nb e d"
  by (auto simp: NetDest_compat_def list_all2_conv_all_nth intro: bs.compat_sym)

lemma NetDest_compat_trans: "NetDest_compat nb d e \<Longrightarrow> NetDest_compat nb e f \<Longrightarrow> NetDest_compat nb d f"
  by (fastforce simp: NetDest_compat_def list_all2_conv_all_nth intro: bs.compat_trans)

lemma NetDest_compat_refl: "NetDest_compat nb d e \<Longrightarrow> NetDest_compat nb d d"
  using NetDest_compat_sym NetDest_compat_trans by blast

lemma NetDest_compat_univ: "NetDest_compat nb d e \<Longrightarrow> NetDest_univ e = NetDest_univ d"
  using bs.compat_univ [OF NetDest_compat_nth]
  by (fastforce simp: NetDest_univ_def NetDest_compat_length)

lemma NetDest_elems_univ:
  assumes "NetDest_compat nb d d"
  shows "NetDest_elems d \<subseteq> NetDest_univ d"
proof -
  have "Set_elems (m_bits d ! i) \<subseteq> Set_univ (m_bits d ! i)" if "i < length (m_bits d)" for i
    using bs.elems_univ NetDest_compat_nth [OF assms that] by blast
  from subsetD [OF this [OF nat_less_length]] show ?thesis
    by (auto simp: NetDest_univ_def NetDest_elems_def)
qed

text \<open>Updating one machine type's set.\<close>

lemma NetDest_update:
  assumes "NetDest_compat nb d d" and i: "0 \<le> i" "i < int (length (m_bits d))"
    and t: "Set_compat nb (m_bits d ! nat i) t"
  shows "NetDest_compat nb d (d\<lparr>m_bits := (m_bits d)[nat i := t]\<rparr>)"
    and "NetDest_elems (d\<lparr>m_bits := (m_bits d)[nat i := t]\<rparr>) =
      {m \<in> NetDest_elems d. mach_type m \<noteq> i} \<union> {m. mach_type m = i \<and> mach_num m \<in> Set_elems t}"
  using assms
  by (auto simp: NetDest_compat_def list_all2_conv_all_nth nth_list_update NetDest_elems_def
      split: if_splits)

lemma machine_id_eq_iff: "m = n \<longleftrightarrow> mach_type m = mach_type n \<and> mach_num m = mach_num n" for m n :: machine_id
  by (cases m; cases n) simp

lemma NetDest_add_spec:
  assumes c: "NetDest_compat nb d d" and x: "x \<in> NetDest_univ d"
  shows "\<exists>t. NetDest_add x d = Inr t \<and> NetDest_compat nb d t \<and>
    NetDest_elems t = insert x (NetDest_elems d)"
proof -
  let ?i = "mach_type x" and ?s = "m_bits d ! nat (mach_type x)"
  have i: "0 \<le> ?i" "?i < int (length (m_bits d))" and u: "mach_num x \<in> Set_univ ?s"
    using x by (auto simp: NetDest_univ_def)
  then have "Set_compat nb ?s ?s" using c by (auto intro: NetDest_compat_nth)
  then obtain t where t: "Set_add (mach_num x) ?s = Inr t" "Set_compat nb ?s t"
      "Set_elems t = insert (mach_num x) (Set_elems ?s)" using bs.add_spec [OF _ u] by meson
  have "NetDest_add x d = Inr (d\<lparr>m_bits := (m_bits d)[nat ?i := t]\<rparr>)"
    using i u t by (simp add: NetDest_add_def vecIndex_def vec_simps Set_univ_def)
  moreover have "insert x (NetDest_elems d) =
      {m \<in> NetDest_elems d. mach_type m \<noteq> ?i} \<union> {m. mach_type m = ?i \<and> mach_num m \<in> Set_elems t}"
    by (rule set_eqI) (use i t(3) in \<open>simp add: NetDest_elems_def machine_id_eq_iff, metis\<close>)
  ultimately show ?thesis using NetDest_update [OF c i t(2)] by simp
qed

lemma NetDest_remove_spec:
  assumes c: "NetDest_compat nb d d" and x: "x \<in> NetDest_univ d"
  shows "\<exists>t. NetDest_remove x d = Inr t \<and> NetDest_compat nb d t \<and>
    NetDest_elems t = NetDest_elems d - {x}"
proof -
  let ?i = "mach_type x" and ?s = "m_bits d ! nat (mach_type x)"
  have i: "0 \<le> ?i" "?i < int (length (m_bits d))" and u: "mach_num x \<in> Set_univ ?s"
    using x by (auto simp: NetDest_univ_def)
  then have "Set_compat nb ?s ?s" using c by (auto intro: NetDest_compat_nth)
  then obtain t where t: "Set_remove (mach_num x) ?s = Inr t" "Set_compat nb ?s t"
      "Set_elems t = Set_elems ?s - {mach_num x}" using bs.remove_spec [OF _ u] by meson
  have "NetDest_remove x d = Inr (d\<lparr>m_bits := (m_bits d)[nat ?i := t]\<rparr>)"
    using i u t by (simp add: NetDest_remove_def vecIndex_def vec_simps)
  moreover have "NetDest_elems d - {x} =
      {m \<in> NetDest_elems d. mach_type m \<noteq> ?i} \<union> {m. mach_type m = ?i \<and> mach_num m \<in> Set_elems t}"
    by (rule set_eqI) (use i t(3) in \<open>simp add: NetDest_elems_def machine_id_eq_iff, metis\<close>)
  ultimately show ?thesis using NetDest_update [OF c i t(2)] by simp
qed

lemma NetDest_elems_pointwise:
  assumes l: "length es = length (m_bits d)" "length (m_bits r) = length (m_bits d)"
    and e: "\<forall>i<length (m_bits d). Set_elems (es ! i) = g (Set_elems (m_bits d ! i)) (Set_elems (m_bits r ! i))"
    and h: "\<And>A B x. x \<in> g A B \<longleftrightarrow> h (x \<in> A) (x \<in> B)" and "\<not> h False False"
  shows "NetDest_elems (d\<lparr>m_bits := es\<rparr>) = {x. h (x \<in> NetDest_elems d) (x \<in> NetDest_elems r)}"
proof (rule set_eqI)
  fix x
  show "x \<in> NetDest_elems (d\<lparr>m_bits := es\<rparr>) \<longleftrightarrow> x \<in> {x. h (x \<in> NetDest_elems d) (x \<in> NetDest_elems r)}"
  proof (cases "0 \<le> mach_type x \<and> mach_type x < int (length (m_bits d))")
    case True
    then show ?thesis using l e by (simp add: NetDest_elems_def h nat_less_length)
  next
    case False
    then have "x \<notin> NetDest_elems (d\<lparr>m_bits := es\<rparr>)" "x \<notin> NetDest_elems d" "x \<notin> NetDest_elems r"
      using l by (auto simp: NetDest_elems_def)
    then show ?thesis using assms(5) by simp
  qed
qed

lemma NetDest_addNetDest_spec:
  assumes "NetDest_compat nb d r"
  shows "\<exists>t. NetDest_addNetDest r d = Inr t \<and> NetDest_compat nb d t \<and>
    NetDest_elems t = NetDest_elems d \<union> NetDest_elems r"
proof -
  obtain ts where ts: "map2_res Set_addSet (m_bits r) (m_bits d) = Inr ts"
      "list_all2 (Set_compat nb) (m_bits d) ts"
      "\<forall>i<length (m_bits d). Set_elems (ts ! i) = Set_elems (m_bits d ! i) \<union> Set_elems (m_bits r ! i)"
    using map2_res_spec [of "Set_compat nb" "m_bits d" "m_bits r" Set_addSet Set_elems "(\<union>)"]
      bs.addSet_spec assms by (auto simp: NetDest_compat_def)
  have "NetDest_elems (d\<lparr>m_bits := ts\<rparr>) = {x. x \<in> NetDest_elems d \<or> x \<in> NetDest_elems r}"
    by (rule NetDest_elems_pointwise [OF _ _ ts(3)])
      (use ts(2) NetDest_compat_length [OF assms] in \<open>auto dest: list_all2_lengthD\<close>)
  then show ?thesis using ts NetDest_compat_length [OF assms]
    by (auto simp: NetDest_addNetDest_def NetDest_compat_def)
qed

lemma NetDest_removeNetDest_spec:
  assumes "NetDest_compat nb d r"
  shows "\<exists>t. NetDest_removeNetDest r d = Inr t \<and> NetDest_compat nb d t \<and>
    NetDest_elems t = NetDest_elems d - NetDest_elems r"
proof -
  obtain ts where ts: "map2_res Set_removeSet (m_bits r) (m_bits d) = Inr ts"
      "list_all2 (Set_compat nb) (m_bits d) ts"
      "\<forall>i<length (m_bits d). Set_elems (ts ! i) = Set_elems (m_bits d ! i) - Set_elems (m_bits r ! i)"
    using map2_res_spec [of "Set_compat nb" "m_bits d" "m_bits r" Set_removeSet Set_elems "(-)"]
      bs.removeSet_spec assms by (auto simp: NetDest_compat_def)
  have "NetDest_elems (d\<lparr>m_bits := ts\<rparr>) = {x. x \<in> NetDest_elems d \<and> \<not> x \<in> NetDest_elems r}"
    by (rule NetDest_elems_pointwise [OF _ _ ts(3)])
      (use ts(2) NetDest_compat_length [OF assms] in \<open>auto dest: list_all2_lengthD\<close>)
  then show ?thesis using ts NetDest_compat_length [OF assms]
    by (auto simp: NetDest_removeNetDest_def NetDest_compat_def)
qed

lemma NetDest_isEmpty_iff: "NetDest_isEmpty d = (NetDest_elems d = {})"
proof -
  have "(\<forall>i<length (m_bits d). Set_elems (m_bits d ! i) = {}) = (NetDest_elems d = {})"
  proof
    assume none: "NetDest_elems d = {}"
    have "x \<notin> Set_elems (m_bits d ! i)" if "i < length (m_bits d)" for i x
    proof
      assume "x \<in> Set_elems (m_bits d ! i)"
      with that have "\<lparr>mach_type = int i, mach_num = x\<rparr> \<in> NetDest_elems d"
        by (simp add: NetDest_elems_def)
      with none show False by simp
    qed
    then show "\<forall>i<length (m_bits d). Set_elems (m_bits d ! i) = {}" by auto
  qed (auto simp: NetDest_elems_def)
  then show ?thesis by (simp add: NetDest_isEmpty_def list_all_length Set_isEmpty_spec)
qed

interpretation nd: dest_set "NetDest_compat nb" NetDest_elems NetDest_univ NetDest_add
    NetDest_remove NetDest_addNetDest NetDest_removeNetDest NetDest_isEmpty for nb
  by unfold_locales
    (fact NetDest_compat_refl NetDest_compat_sym NetDest_compat_trans NetDest_compat_univ
      NetDest_elems_univ NetDest_add_spec NetDest_remove_spec NetDest_addNetDest_spec
      NetDest_removeNetDest_spec | rule NetDest_isEmpty_iff)+

lemma NetDest_intersectionIsNotEmpty_iff:
  assumes "NetDest_compat nb d r"
  shows "NetDest_intersectionIsNotEmpty r d = Inr (NetDest_elems d \<inter> NetDest_elems r \<noteq> {})"
proof -
  have l: "length (m_bits r) = length (m_bits d)" by (rule NetDest_compat_length [OF assms])
  have "list_ex (\<lambda>(s, t). \<not> Set_intersectionIsEmpty t s) (zip (m_bits d) (m_bits r)) \<longleftrightarrow>
      (\<exists>i<length (m_bits d). Set_elems (m_bits d ! i) \<inter> Set_elems (m_bits r ! i) \<noteq> {})"
    using l Set_compat_lengths [OF NetDest_compat_nth [OF assms]]
    by (simp add: list_ex_length Set_intersectionIsEmpty_iff cong: conj_cong)
  also have "\<dots> \<longleftrightarrow> NetDest_elems d \<inter> NetDest_elems r \<noteq> {}"
  proof
    assume "\<exists>i<length (m_bits d). Set_elems (m_bits d ! i) \<inter> Set_elems (m_bits r ! i) \<noteq> {}"
    then obtain i x where "i < length (m_bits d)" "x \<in> Set_elems (m_bits d ! i)"
      "x \<in> Set_elems (m_bits r ! i)" by auto
    then have "\<lparr>mach_type = int i, mach_num = x\<rparr> \<in> NetDest_elems d \<inter> NetDest_elems r"
      using l by (simp add: NetDest_elems_def)
    then show "NetDest_elems d \<inter> NetDest_elems r \<noteq> {}" by blast
  next
    assume "NetDest_elems d \<inter> NetDest_elems r \<noteq> {}"
    then obtain m where "m \<in> NetDest_elems d" "m \<in> NetDest_elems r" by blast
    then show "\<exists>i<length (m_bits d). Set_elems (m_bits d ! i) \<inter> Set_elems (m_bits r ! i) \<noteq> {}"
      by (intro exI [of _ "nat (mach_type m)"]) (auto simp: NetDest_elems_def)
  qed
  finally show ?thesis using l by (simp add: NetDest_intersectionIsNotEmpty_def)
qed

end
