(* ===== verification/Garnet_Clock.thy ===== *)
theory Garnet_Clock
  imports Garnet_Prelude
begin

text \<open>
  Clocked objects and consumers: \<open>Clocked\<close> (sim/clocked_object.hh), \<open>divCeil\<close>
  (base/intmath.hh) and \<open>Consumer\<close> (mem/ruby/common/Consumer.cc), through which every
  router, link and network interface is woken up.

  A \<open>Clocked\<close> caches the tick of its next clock edge and its cycle number and brings them up to
  date when it is asked. The cache is a record that \<open>clock_update\<close> updates; as long as it stems
  from an earlier moment (\<open>clock_ok\<close>) its answers depend on the period and the current tick
  only, and are those of \<open>edge_at\<close> (lemma \<open>clockEdge_eq\<close>). The components of the network
  therefore read the clock with \<open>edge_at\<close> and do not thread the cache.

  A \<open>Consumer\<close> keeps the ordered set of the ticks at which it is to wake up and one event of the
  event queue. The set is a strictly ascending list, the event the tick it is scheduled for. What
  the event queue guarantees (it never passes the tick of a scheduled event, and an event is not
  scheduled any more while it is processed) is in the step relation \<open>consumer_step\<close>.
\<close>

section \<open>Definitions: the clock\<close>

definition divCeil :: "64 word \<Rightarrow> 64 word \<Rightarrow> 64 word res" where
  "divCeil a b = (if b = 0 then Inl Undefined else Inr ((a + b - 1) div b))"

record clock =
  ck_tick :: tick
  ck_cycle :: cycles

definition clock_new :: clock where
  "clock_new = \<lparr>ck_tick = 0, ck_cycle = 0\<rparr>"

definition clock_update :: "tick \<Rightarrow> tick \<Rightarrow> clock \<Rightarrow> clock res" where
  "clock_update p now c =
     (if now \<le> ck_tick c then Inr c
      else
        let c1 = c\<lparr>ck_tick := ck_tick c + p, ck_cycle := ck_cycle c + 1\<rparr> in
        if now \<le> ck_tick c1 then Inr c1
        else rbind (divCeil (now - ck_tick c1) p) (\<lambda>elapsed.
          Inr (c1\<lparr>ck_cycle := ck_cycle c1 + elapsed, ck_tick := ck_tick c1 + elapsed * p\<rparr>)))"

definition clock_resetClock :: "tick \<Rightarrow> tick \<Rightarrow> clock \<Rightarrow> clock res" where
  "clock_resetClock p now c =
     rbind (divCeil now p) (\<lambda>elapsed. Inr (c\<lparr>ck_cycle := elapsed, ck_tick := elapsed * p\<rparr>))"

definition clockEdge :: "tick \<Rightarrow> tick \<Rightarrow> cycles \<Rightarrow> clock \<Rightarrow> (tick \<times> clock) res" where
  "clockEdge p now n c = rbind (clock_update p now c) (\<lambda>c'. Inr (ck_tick c' + p * n, c'))"

definition curCycle :: "tick \<Rightarrow> tick \<Rightarrow> clock \<Rightarrow> (cycles \<times> clock) res" where
  "curCycle p now c = rbind (clock_update p now c) (\<lambda>c'. Inr (ck_cycle c', c'))"

definition nextCycle :: "tick \<Rightarrow> tick \<Rightarrow> clock \<Rightarrow> (tick \<times> clock) res" where
  "nextCycle p now c = clockEdge p now 1 c"

definition ticksToCycles :: "tick \<Rightarrow> tick \<Rightarrow> cycles res" where
  "ticksToCycles p t = divCeil t p"

definition cyclesToTicks :: "tick \<Rightarrow> cycles \<Rightarrow> tick" where
  "cyclesToTicks p c = p * c"

text \<open>The answers of \<open>clockEdge\<close> and \<open>curCycle\<close> as functions of the period and the time.\<close>

definition cycle_at :: "tick \<Rightarrow> tick \<Rightarrow> cycles" where
  "cycle_at p now = (now + p - 1) div p"

definition edge_at :: "tick \<Rightarrow> tick \<Rightarrow> cycles \<Rightarrow> tick" where
  "edge_at p now n = cycle_at p now * p + p * n"

definition ceil_div :: "nat \<Rightarrow> nat \<Rightarrow> nat" where
  "ceil_div n p = (n + p - 1) div p"

definition clock_ok :: "tick \<Rightarrow> tick \<Rightarrow> clock \<Rightarrow> bool" where
  "clock_ok p now c =
     (unat (ck_tick c) = unat (ck_cycle c) * unat p \<and> unat (ck_tick c) < unat now + unat p)"

text \<open>The period is positive and one more period after the current tick is representable.\<close>

definition time_ok :: "tick \<Rightarrow> tick \<Rightarrow> bool" where
  "time_ok p now = (p \<noteq> 0 \<and> unat now + unat p \<le> 2 ^ 64)"

section \<open>Definitions: the consumer\<close>

record consumer =
  m_wakeup_ticks :: "tick list"
  m_wakeup_event :: "tick option"

definition consumer_new :: consumer where
  "consumer_new = \<lparr>m_wakeup_ticks = [], m_wakeup_event = None\<rparr>"

fun tick_insert :: "tick \<Rightarrow> tick list \<Rightarrow> tick list" where
  "tick_insert t [] = [t]"
| "tick_insert t (x # xs) =
     (if t < x then t # x # xs else if t = x then x # xs else x # tick_insert t xs)"

fun lower_bound :: "tick \<Rightarrow> tick list \<Rightarrow> tick option" where
  "lower_bound t [] = None"
| "lower_bound t (x # xs) = (if x < t then lower_bound t xs else Some x)"

definition scheduleNextWakeup :: "tick \<Rightarrow> tick \<Rightarrow> consumer \<Rightarrow> consumer res" where
  "scheduleNextWakeup p now c =
     (case lower_bound (edge_at p now 0) (m_wakeup_ticks c) of
        None \<Rightarrow> Inr c
      | Some when \<Rightarrow>
          rbind (check Assertion (edge_at p now 0 \<le> when)) (\<lambda>_.
          case m_wakeup_event c of
            Some w \<Rightarrow> Inr (if when < w then c\<lparr>m_wakeup_event := Some when\<rparr> else c)
          | None \<Rightarrow> Inr (c\<lparr>m_wakeup_event := Some when\<rparr>)))"

definition scheduleEvent :: "tick \<Rightarrow> tick \<Rightarrow> cycles \<Rightarrow> consumer \<Rightarrow> consumer res" where
  "scheduleEvent p now delta c =
     scheduleNextWakeup p now
       (c\<lparr>m_wakeup_ticks := tick_insert (edge_at p now delta) (m_wakeup_ticks c)\<rparr>)"

definition scheduleEventAbsolute :: "tick \<Rightarrow> tick \<Rightarrow> tick \<Rightarrow> consumer \<Rightarrow> consumer res" where
  "scheduleEventAbsolute p now evt_time c =
     rbind (divCeil evt_time p) (\<lambda>n.
     scheduleNextWakeup p now (c\<lparr>m_wakeup_ticks := tick_insert (n * p) (m_wakeup_ticks c)\<rparr>))"

definition alreadyScheduled :: "tick \<Rightarrow> consumer \<Rightarrow> bool" where
  "alreadyScheduled t c = (t \<in> set (m_wakeup_ticks c))"

text \<open>
  \<open>processCurrentEvent\<close>, run by the event queue at the tick of the event, which is then not
  scheduled. The consumer's own \<open>wakeup\<close> is the argument \<open>wake\<close>: what it does to this
  consumer are calls to the two scheduling functions.
\<close>

datatype wake_req = After cycles | At tick

fun schedule_req :: "tick \<Rightarrow> tick \<Rightarrow> wake_req \<Rightarrow> consumer \<Rightarrow> consumer res" where
  "schedule_req p now (After n) c = scheduleEvent p now n c"
| "schedule_req p now (At t) c = scheduleEventAbsolute p now t c"

definition processCurrentEvent ::
    "tick \<Rightarrow> tick \<Rightarrow> wake_req list \<Rightarrow> consumer \<Rightarrow> consumer res" where
  "processCurrentEvent p now wake c =
     (case m_wakeup_ticks c of
        [] \<Rightarrow> Inl Undefined
      | cur # rest \<Rightarrow>
          rbind (check Assertion (edge_at p now 0 = cur)) (\<lambda>_.
          rbind (rfold (schedule_req p now) wake
                   (c\<lparr>m_wakeup_ticks := rest, m_wakeup_event := None\<rparr>))
            (scheduleNextWakeup p now)))"

section \<open>Division rounding up\<close>

lemma ceil_div_bounds:
  assumes "0 < p"
  shows "n \<le> ceil_div n p * p" and "ceil_div n p * p < n + p"
proof -
  have "ceil_div n p * p + (n + p - 1) mod p = n + p - 1"
    by (simp add: ceil_div_def)
  moreover have "(n + p - 1) mod p < p" using assms by simp
  ultimately show "n \<le> ceil_div n p * p" "ceil_div n p * p < n + p" using assms by linarith+
qed

lemma ceil_div_unique:
  assumes "n \<le> k * p" and "k * p < n + p"
  shows "k = ceil_div n p"
proof -
  have p: "0 < p" using assms by (cases p) auto
  note b = ceil_div_bounds [OF p, of n]
  have "k * p < Suc (ceil_div n p) * p" "ceil_div n p * p < Suc k * p" using assms b by simp_all
  then have "k < Suc (ceil_div n p)" "ceil_div n p < Suc k" by (simp_all only: mult_less_cancel2)
  then show ?thesis by simp
qed

lemma ceil_div_mult [simp]: "0 < p \<Longrightarrow> ceil_div (k * p) p = k"
  using ceil_div_unique [of "k * p" k p] by simp

lemma unat_plus: "unat a + unat b < 2 ^ 64 \<Longrightarrow> unat (a + b) = unat a + unat b" for a b :: "64 word"
  using unat_add_lem [of a b] by simp

lemma unat_times: "unat a * unat b < 2 ^ 64 \<Longrightarrow> unat (a * b) = unat a * unat b" for a b :: "64 word"
  using unat_mult_lem [of a b] by simp

lemma unat_pos: "p \<noteq> 0 \<Longrightarrow> 0 < unat p" for p :: "64 word"
  by (simp add: unat_gt_0)

lemma unat_cycle_at:
  assumes "time_ok p now"
  shows "unat (cycle_at p now) = ceil_div (unat now) (unat p)"
proof -
  have p: "p \<noteq> 0" "0 < unat p" using assms by (auto simp: time_ok_def unat_pos)
  have "unat (p - 1) = unat p - 1" by (rule unat_minus_one) (use p in simp)
  then have "unat (now + (p - 1)) = unat now + (unat p - 1)"
    using assms p unat_plus [of now "p - 1"] by (simp add: time_ok_def)
  then have "unat (now + p - 1) = unat now + unat p - 1" using p by (simp add: add_diff_eq)
  then show ?thesis by (simp add: cycle_at_def ceil_div_def unat_div)
qed

lemma unat_edge_now:
  assumes "time_ok p now"
  shows "unat (edge_at p now 0) = ceil_div (unat now) (unat p) * unat p"
proof -
  have "ceil_div (unat now) (unat p) * unat p < 2 ^ 64"
    using assms ceil_div_bounds [of "unat p" "unat now"] by (auto simp: time_ok_def unat_pos)
  then show ?thesis using assms unat_times [of "cycle_at p now" p]
    by (simp add: edge_at_def unat_cycle_at)
qed

lemma edge_now_bounds:
  assumes "time_ok p now"
  shows "now \<le> edge_at p now 0" and "unat (edge_at p now 0) < unat now + unat p"
  using ceil_div_bounds [of "unat p" "unat now"] assms
  by (auto simp: unat_edge_now word_le_nat_alt time_ok_def unat_pos)

section \<open>The cached clock answers as a function of the time\<close>

lemma clock_aligned:
  assumes t: "time_ok p now" and "unat (ck_tick c) = unat (ck_cycle c) * unat p"
    and "unat now \<le> unat (ck_tick c)" and "unat (ck_tick c) < unat now + unat p"
  shows "c = \<lparr>ck_tick = edge_at p now 0, ck_cycle = cycle_at p now\<rparr>"
proof -
  have "unat (ck_cycle c) = ceil_div (unat now) (unat p)" using assms by (intro ceil_div_unique) auto
  then have "ck_cycle c = cycle_at p now" "ck_tick c = edge_at p now 0"
    using assms(2) by (auto simp: word_unat_eq_iff unat_cycle_at [OF t] unat_edge_now [OF t])
  then show ?thesis by (cases c) simp
qed

text \<open>One period further, and the jump over the remaining cycles, stay aligned.\<close>

lemma clock_advance:
  assumes "time_ok p now" and "unat (ck_tick c) = unat (ck_cycle c) * unat p"
    and e: "unat e * unat p \<le> unat now - unat (ck_tick c) + unat p - 1" and "unat (ck_tick c) < unat now"
  shows "unat (ck_tick c + e * p) = (unat (ck_cycle c) + unat e) * unat p"
    and "unat (ck_cycle c + e) = unat (ck_cycle c) + unat e"
proof -
  let ?k = "unat (ck_cycle c)" and ?p = "unat p"
  have p: "0 < ?p" and n: "unat now + ?p \<le> 2 ^ 64" using assms(1) by (auto simp: time_ok_def unat_pos)
  have sum: "(?k + unat e) * ?p = ?k * ?p + unat e * ?p" by (simp add: distrib_right)
  have lt: "(?k + unat e) * ?p < 2 ^ 64" using assms n p sum by linarith
  moreover have "(?k + unat e) * 1 \<le> (?k + unat e) * ?p" using p by (intro mult_le_mono) auto
  ultimately have "?k + unat e < 2 ^ 64" by (simp only: mult_1_right le_less_trans)
  then show "unat (ck_cycle c + e) = ?k + unat e" by (rule unat_plus)
  have "unat (e * p) = unat e * ?p" using unat_times [of e p] lt sum by linarith
  then show "unat (ck_tick c + e * p) = (?k + unat e) * ?p"
    using unat_plus [of "ck_tick c" "e * p"] lt sum assms(2) by simp
qed

lemma clock_update_eq:
  assumes t: "time_ok p now" and c: "clock_ok p now c"
  shows "clock_update p now c = Inr \<lparr>ck_tick = edge_at p now 0, ck_cycle = cycle_at p now\<rparr>"
proof -
  have k: "unat (ck_tick c) = unat (ck_cycle c) * unat p" "unat (ck_tick c) < unat now + unat p"
    and p: "p \<noteq> 0" "0 < unat p" using t c by (auto simp: clock_ok_def time_ok_def unat_pos)
  let ?c1 = "c\<lparr>ck_tick := ck_tick c + p, ck_cycle := ck_cycle c + 1\<rparr>"
  consider "now \<le> ck_tick c" | "\<not> now \<le> ck_tick c" "now \<le> ck_tick c + p"
    | "\<not> now \<le> ck_tick c" "\<not> now \<le> ck_tick c + p" by blast
  then show ?thesis
  proof cases
    case 1
    then show ?thesis using clock_aligned [OF t k(1)] k by (simp add: clock_update_def word_le_nat_alt)
  next
    case 2
    then have lt: "unat (ck_tick c) < unat now" by (simp add: word_le_nat_alt)
    note adv = clock_advance [OF t k(1) _ lt, of 1]
    have "?c1 = \<lparr>ck_tick = edge_at p now 0, ck_cycle = cycle_at p now\<rparr>"
      by (rule clock_aligned [OF t]) (use adv lt 2 k in \<open>auto simp: word_le_nat_alt\<close>)
    moreover have "clock_update p now c = Inr ?c1" using 2 by (simp add: clock_update_def)
    ultimately show ?thesis by simp
  next
    case 3
    then have lt: "unat (ck_tick c) < unat now" by (simp add: word_le_nat_alt)
    note adv = clock_advance [OF t k(1) _ lt, of 1]
    have k1: "unat (ck_tick ?c1) = unat (ck_cycle ?c1) * unat p" and lt1: "unat (ck_tick ?c1) < unat now"
      using adv lt 3 k by (auto simp: word_le_nat_alt)
    define d where "d = now - ck_tick ?c1"
    have d: "unat d = unat now - unat (ck_tick ?c1)"
      unfolding d_def by (rule unat_sub) (use lt1 in \<open>simp add: word_le_nat_alt\<close>)
    have dt: "time_ok p d" using t d unfolding time_ok_def by linarith
    let ?e = "cycle_at p d"
    let ?c2 = "?c1\<lparr>ck_cycle := ck_cycle ?c1 + ?e, ck_tick := ck_tick ?c1 + ?e * p\<rparr>"
    note b = ceil_div_bounds [OF p(2), of "unat d"]
    note adv2 = clock_advance [OF t k1 _ lt1, of ?e]
    have "?c2 = \<lparr>ck_tick = edge_at p now 0, ck_cycle = cycle_at p now\<rparr>"
      by (rule clock_aligned [OF t])
        (use adv2 b d lt1 k1 in \<open>simp_all add: unat_cycle_at [OF dt] distrib_right\<close>)
    moreover have "clock_update p now c = Inr ?c2"
      using 3 p(1) by (simp add: clock_update_def Let_def divCeil_def cycle_at_def d_def)
    ultimately show ?thesis by simp
  qed
qed

lemma clock_ok_new: "p \<noteq> 0 \<Longrightarrow> clock_ok p now clock_new"
  by (simp add: clock_ok_def clock_new_def unat_pos)

lemma clock_ok_later: "clock_ok p now c \<Longrightarrow> now \<le> now' \<Longrightarrow> clock_ok p now' c"
  by (auto simp: clock_ok_def word_le_nat_alt)

lemma clock_ok_update: "time_ok p now \<Longrightarrow>
    clock_ok p now \<lparr>ck_tick = edge_at p now 0, ck_cycle = cycle_at p now\<rparr>"
  using edge_now_bounds [of p now] by (simp add: clock_ok_def unat_edge_now unat_cycle_at)

lemma clockEdge_eq:
  assumes "time_ok p now" "clock_ok p now c"
  shows "\<exists>c'. clockEdge p now n c = Inr (edge_at p now n, c') \<and> clock_ok p now c'"
  using clock_update_eq [OF assms] clock_ok_update [OF assms(1)]
  by (simp add: clockEdge_def edge_at_def)

lemma curCycle_eq:
  assumes "time_ok p now" "clock_ok p now c"
  shows "\<exists>c'. curCycle p now c = Inr (cycle_at p now, c') \<and> clock_ok p now c'"
  using clock_update_eq [OF assms] clock_ok_update [OF assms(1)] by (simp add: curCycle_def)

section \<open>A consumer is woken up at every tick it asked for\<close>

definition consumer_ok :: "tick \<Rightarrow> tick \<Rightarrow> consumer \<Rightarrow> bool" where
  "consumer_ok p now c =
     (sorted_wrt (<) (m_wakeup_ticks c) \<and>
      (\<forall>t\<in>set (m_wakeup_ticks c). unat p dvd unat t \<and> now \<le> t) \<and>
      m_wakeup_event c = (case m_wakeup_ticks c of [] \<Rightarrow> None | t # _ \<Rightarrow> Some t))"

text \<open>The tick a request stands for, and the requests that do not point into the past or wrap.\<close>

fun req_tick :: "tick \<Rightarrow> tick \<Rightarrow> wake_req \<Rightarrow> tick" where
  "req_tick p now (After n) = edge_at p now n"
| "req_tick p now (At t) = cycle_at p t * p"

fun req_ok :: "tick \<Rightarrow> tick \<Rightarrow> wake_req \<Rightarrow> bool" where
  "req_ok p now (After n) = (unat (edge_at p now 0) + unat p * unat n < 2 ^ 64)"
| "req_ok p now (At t) = (time_ok p t \<and> now \<le> t)"

lemma set_tick_insert [simp]: "set (tick_insert t ts) = insert t (set ts)"
  by (induction ts) auto

lemma sorted_tick_insert: "sorted_wrt (<) ts \<Longrightarrow> sorted_wrt (<) (tick_insert t ts)"
  by (induction ts) auto

lemma lower_bound_all: "\<forall>t\<in>set ts. e \<le> t \<Longrightarrow> lower_bound e ts = (case ts of [] \<Rightarrow> None | t # _ \<Rightarrow> Some t)"
  by (cases ts) auto

text \<open>The next clock edge is the first multiple of the period from now on.\<close>

lemma edge_least:
  assumes t: "time_ok p now" and m: "unat p dvd unat w" and "now \<le> w"
  shows "edge_at p now 0 \<le> w"
proof -
  let ?p = "unat p" and ?n = "unat now"
  have p: "0 < ?p" using t by (simp add: time_ok_def unat_pos)
  obtain k where k: "unat w = k * ?p" using m by (metis dvdE mult.commute)
  have "?n \<le> k * ?p" using \<open>now \<le> w\<close> k by (simp add: word_le_nat_alt)
  then have "ceil_div ?n ?p * ?p < Suc k * ?p" using ceil_div_bounds(2) [OF p, of ?n] by simp
  then have "ceil_div ?n ?p < Suc k" by (simp only: mult_less_cancel2)
  then have "ceil_div ?n ?p * ?p \<le> k * ?p" by (intro mult_le_mono) auto
  then show ?thesis using k by (simp add: word_le_nat_alt unat_edge_now [OF t])
qed

lemma edge_aligned: "time_ok p now \<Longrightarrow> unat p dvd unat now \<Longrightarrow> edge_at p now 0 = now"
  using edge_least [of p now now] edge_now_bounds(1) [of p now] by (simp add: order_antisym)

lemma req_tick_ok:
  assumes "time_ok p now" "req_ok p now r"
  shows "unat p dvd unat (req_tick p now r)" and "now \<le> req_tick p now r"
proof -
  have "unat p dvd unat (req_tick p now r) \<and> now \<le> req_tick p now r"
  proof (cases r)
    case (After n)
    have l: "unat (edge_at p now 0) + unat p * unat n < 2 ^ 64" using assms After by simp
    then have pn: "unat (p * n) = unat p * unat n" using unat_times [of p n] by simp
    have "unat (edge_at p now n) = unat (edge_at p now 0) + unat p * unat n"
      using unat_plus [of "edge_at p now 0" "p * n"] pn l by (simp add: edge_at_def)
    then show ?thesis using After edge_now_bounds(1) [OF assms(1)]
      by (auto simp: word_le_nat_alt unat_edge_now [OF assms(1)])
  next
    case (At t)
    then have "req_tick p now r = edge_at p t 0" "time_ok p t" "now \<le> t"
      using assms by (simp_all add: edge_at_def)
    then show ?thesis using edge_now_bounds(1) [of p t] unat_edge_now [of p t] by auto
  qed
  then show "unat p dvd unat (req_tick p now r)" "now \<le> req_tick p now r" by auto
qed

lemma schedule_req_insert:
  assumes "p \<noteq> 0"
  shows "schedule_req p now r c =
    scheduleNextWakeup p now (c\<lparr>m_wakeup_ticks := tick_insert (req_tick p now r) (m_wakeup_ticks c)\<rparr>)"
  using assms by (cases r) (simp_all add: scheduleEvent_def scheduleEventAbsolute_def divCeil_def cycle_at_def)

text \<open>
  Arming the event: the pending ticks lie in the future, and an event, if scheduled, is for the
  first of them or a later one.
\<close>

lemma scheduleNextWakeup_ok:
  assumes t: "time_ok p now" and s: "sorted_wrt (<) (m_wakeup_ticks c)"
    and m: "\<forall>t\<in>set (m_wakeup_ticks c). unat p dvd unat t \<and> now \<le> t"
    and e: "case m_wakeup_event c of None \<Rightarrow> True | Some w \<Rightarrow> w \<in> set (m_wakeup_ticks c)"
  shows "\<exists>c'. scheduleNextWakeup p now c = Inr c' \<and> m_wakeup_ticks c' = m_wakeup_ticks c \<and> consumer_ok p now c'"
proof -
  have le: "\<forall>t\<in>set (m_wakeup_ticks c). edge_at p now 0 \<le> t" using m edge_least [OF t] by blast
  show ?thesis
    using s m e le lower_bound_all [OF le]
    by (cases "m_wakeup_ticks c"; cases "m_wakeup_event c")
      (auto simp: scheduleNextWakeup_def consumer_ok_def)
qed

lemma schedule_req_ok:
  assumes t: "time_ok p now" and r: "req_ok p now r"
    and s: "sorted_wrt (<) (m_wakeup_ticks c)"
    and m: "\<forall>t\<in>set (m_wakeup_ticks c). unat p dvd unat t \<and> now \<le> t"
    and e: "case m_wakeup_event c of None \<Rightarrow> True | Some w \<Rightarrow> w \<in> set (m_wakeup_ticks c)"
  shows "\<exists>c'. schedule_req p now r c = Inr c' \<and> consumer_ok p now c' \<and>
    set (m_wakeup_ticks c') = insert (req_tick p now r) (set (m_wakeup_ticks c))"
proof -
  let ?c = "c\<lparr>m_wakeup_ticks := tick_insert (req_tick p now r) (m_wakeup_ticks c)\<rparr>"
  have "\<exists>c'. scheduleNextWakeup p now ?c = Inr c' \<and> m_wakeup_ticks c' = m_wakeup_ticks ?c \<and> consumer_ok p now c'"
    by (rule scheduleNextWakeup_ok [OF t])
      (use s m e req_tick_ok [OF t r] in \<open>auto intro: sorted_tick_insert split: option.splits\<close>)
  then show ?thesis using schedule_req_insert t by (auto simp: time_ok_def)
qed

lemma consumer_ok_event: "consumer_ok p now c \<Longrightarrow>
    case m_wakeup_event c of None \<Rightarrow> True | Some w \<Rightarrow> w \<in> set (m_wakeup_ticks c)"
  by (auto simp: consumer_ok_def split: list.splits)

lemma schedule_reqs_ok:
  assumes t: "time_ok p now" and "\<forall>r\<in>set rs. req_ok p now r"
    and "sorted_wrt (<) (m_wakeup_ticks c)"
    and "\<forall>t\<in>set (m_wakeup_ticks c). unat p dvd unat t \<and> now \<le> t"
    and "case m_wakeup_event c of None \<Rightarrow> True | Some w \<Rightarrow> w \<in> set (m_wakeup_ticks c)"
  shows "\<exists>c'. rbind (rfold (schedule_req p now) rs c) (scheduleNextWakeup p now) = Inr c' \<and>
    consumer_ok p now c' \<and>
    set (m_wakeup_ticks c') = req_tick p now ` set rs \<union> set (m_wakeup_ticks c)"
  using assms(2-)
proof (induction rs arbitrary: c)
  case Nil
  then show ?case using scheduleNextWakeup_ok [OF t, of c] by auto
next
  case (Cons r rs)
  then obtain c1 where c1: "schedule_req p now r c = Inr c1" "consumer_ok p now c1"
      "set (m_wakeup_ticks c1) = insert (req_tick p now r) (set (m_wakeup_ticks c))"
    using schedule_req_ok [OF t, of r c] by auto
  have "\<exists>c'. rbind (rfold (schedule_req p now) rs c1) (scheduleNextWakeup p now) = Inr c' \<and>
      consumer_ok p now c' \<and> set (m_wakeup_ticks c') = req_tick p now ` set rs \<union> set (m_wakeup_ticks c1)"
    by (rule Cons.IH) (use Cons.prems c1(2) consumer_ok_event [OF c1(2)] in \<open>auto simp: consumer_ok_def\<close>)
  then show ?case using c1(1,3) by (auto simp: rbind_assoc)
qed

lemma processCurrentEvent_ok:
  assumes t: "time_ok p now" and ok: "consumer_ok p now c" and ev: "m_wakeup_event c = Some now"
    and rs: "\<forall>r\<in>set rs. req_ok p now r"
  shows "\<exists>c'. processCurrentEvent p now rs c = Inr c' \<and> consumer_ok p now c' \<and>
    set (m_wakeup_ticks c') = req_tick p now ` set rs \<union> (set (m_wakeup_ticks c) - {now})"
proof -
  obtain rest where ts: "m_wakeup_ticks c = now # rest"
    using ok ev unfolding consumer_ok_def by (cases "m_wakeup_ticks c") auto
  have f: "sorted_wrt (<) (now # rest)" "\<forall>t\<in>set (now # rest). unat p dvd unat t \<and> now \<le> t"
    using ok ts unfolding consumer_ok_def by simp_all
  let ?c = "c\<lparr>m_wakeup_ticks := rest, m_wakeup_event := None\<rparr>"
  have "edge_at p now 0 = now" using f(2) by (intro edge_aligned [OF t]) simp
  moreover obtain c' where
      "rbind (rfold (schedule_req p now) rs ?c) (scheduleNextWakeup p now) = Inr c'" "consumer_ok p now c'"
      "set (m_wakeup_ticks c') = req_tick p now ` set rs \<union> set rest"
    using schedule_reqs_ok [OF t rs, of ?c] f by auto
  moreover have "set (m_wakeup_ticks c) - {now} = set rest"
    using f(1) unfolding ts by auto
  ultimately show ?thesis using ts by (simp add: processCurrentEvent_def)
qed

text \<open>
  The life of a consumer: it is asked to wake up (by itself or by another object), time passes
  without skipping its event, and its event is processed. The last argument is the set of the ticks
  that were asked for and at which the consumer has not been woken up since: a request adds its tick
  to the set, a wake-up at tick \<open>now\<close> takes \<open>now\<close> out and adds what is asked for meanwhile. It depends
  on the requests and the wake-ups only, not on the state of the consumer.
\<close>

inductive consumer_life :: "tick \<Rightarrow> tick \<Rightarrow> consumer \<Rightarrow> tick set \<Rightarrow> bool" for p where
  start: "time_ok p now \<Longrightarrow> consumer_life p now consumer_new {}"
| request: "consumer_life p now c Q \<Longrightarrow> req_ok p now r \<Longrightarrow> schedule_req p now r c = Inr c' \<Longrightarrow>
    consumer_life p now c' (insert (req_tick p now r) Q)"
| pass: "consumer_life p now c Q \<Longrightarrow> now \<le> now' \<Longrightarrow> time_ok p now' \<Longrightarrow>
    (case m_wakeup_event c of None \<Rightarrow> True | Some w \<Rightarrow> now' \<le> w) \<Longrightarrow> consumer_life p now' c Q"
| fire: "consumer_life p now c Q \<Longrightarrow> m_wakeup_event c = Some now \<Longrightarrow> \<forall>r\<in>set rs. req_ok p now r \<Longrightarrow>
    processCurrentEvent p now rs c = Inr c' \<Longrightarrow> consumer_life p now c' (req_tick p now ` set rs \<union> (Q - {now}))"

lemma consumer_life_inv: "consumer_life p now c Q \<Longrightarrow> time_ok p now \<and> consumer_ok p now c \<and> set (m_wakeup_ticks c) = Q"
proof (induction rule: consumer_life.induct)
  case (start now)
  then show ?case by (simp add: consumer_new_def consumer_ok_def)
next
  case (request now c Q r c')
  then show ?case using schedule_req_ok [of p now r c] consumer_ok_event [of p now c]
    by (auto simp: consumer_ok_def)
next
  case (pass now c Q now')
  have "now' \<le> t" if "t \<in> set (m_wakeup_ticks c)" for t
    using that pass.IH pass.hyps(4)
    by (cases "m_wakeup_ticks c") (auto simp: consumer_ok_def)
  then show ?case using pass by (auto simp: consumer_ok_def)
next
  case (fire now c Q rs c')
  then show ?case using processCurrentEvent_ok [of p now c rs] by auto
qed

lemma consumer_event_first:
  assumes "consumer_ok p now c" "t \<in> set (m_wakeup_ticks c)"
  shows "\<exists>w. m_wakeup_event c = Some w \<and> now \<le> w \<and> w \<le> t \<and> w \<in> set (m_wakeup_ticks c)"
  using assms unfolding consumer_ok_def by (cases "m_wakeup_ticks c") auto

text \<open>
  C10. No wake-up of a consumer is lost. Let \<open>Q\<close> be the ticks that a consumer was asked for (a delay
  counted from the next clock edge, an absolute time rounded up to a clock edge) and at which it has
  not been woken up since. However requests, passing time and events follow each other: every tick of
  \<open>Q\<close> lies ahead and the event of the consumer is scheduled for a tick of \<open>Q\<close> no later, so that the
  event queue cannot pass it by; a further request that does not point into the past returns; and when
  the event is due, \<open>processCurrentEvent\<close> returns (its assertion on the clock edge holds), whatever
  wake-ups are asked for meanwhile. The consumer is not woken up for a tick outside \<open>Q\<close>.
\<close>

theorem consumer_no_lost_wakeup:
  assumes "consumer_life p now c Q"
  shows "(\<forall>t\<in>Q. \<exists>w. m_wakeup_event c = Some w \<and> now \<le> w \<and> w \<le> t \<and> w \<in> Q) \<and> (Q = {} \<longrightarrow> m_wakeup_event c = None) \<and>
    (\<forall>r. req_ok p now r \<longrightarrow> (\<exists>c'. schedule_req p now r c = Inr c')) \<and>
    (\<forall>rs. m_wakeup_event c = Some now \<and> (\<forall>r\<in>set rs. req_ok p now r) \<longrightarrow> (\<exists>c'. processCurrentEvent p now rs c = Inr c'))"
proof (intro conjI ballI impI allI)
  note inv = consumer_life_inv [OF assms]
  show "\<exists>w. m_wakeup_event c = Some w \<and> now \<le> w \<and> w \<le> t \<and> w \<in> Q" if "t \<in> Q" for t
    using consumer_event_first [of p now c t] inv that by auto
  show "m_wakeup_event c = None" if "Q = {}" using inv that by (simp add: consumer_ok_def)
  show "\<exists>c'. schedule_req p now r c = Inr c'" if "req_ok p now r" for r
    using schedule_req_ok [of p now r c] consumer_ok_event [of p now c] inv that by (auto simp: consumer_ok_def)
  show "\<exists>c'. processCurrentEvent p now rs c = Inr c'" if "m_wakeup_event c = Some now \<and> (\<forall>r\<in>set rs. req_ok p now r)" for rs
    using processCurrentEvent_ok [of p now c rs] inv that by blast
qed

text \<open>Two requests between clock edges, for the tick 6 and for the next edge 4, and the event at 4.\<close>

theorem consumer_no_lost_wakeup_witness:
  "\<exists>c c'. consumer_life 2 4 c {4, 6} \<and> m_wakeup_event c = Some 4 \<and> processCurrentEvent 2 4 [After 1] c = Inr c'"
proof -
  let ?c1 = "\<lparr>m_wakeup_ticks = [6], m_wakeup_event = Some 6\<rparr>"
  let ?c2 = "\<lparr>m_wakeup_ticks = [4, 6], m_wakeup_event = Some 4\<rparr>"
  have r: "schedule_req 2 3 (At 5) consumer_new = Inr ?c1" "schedule_req 2 3 (After 0) ?c1 = Inr ?c2"
    by (simp_all add: consumer_new_def scheduleEventAbsolute_def scheduleEvent_def scheduleNextWakeup_def divCeil_def edge_at_def cycle_at_def)
  have ok: "req_ok 2 3 (At 5)" "req_ok 2 3 (After 0)" "req_ok 2 4 (After 1)" by (simp_all add: time_ok_def edge_at_def cycle_at_def)
  have "consumer_life 2 3 consumer_new {}" by (rule start) (simp add: time_ok_def)
  from pass [OF request [OF request [OF this ok(1) r(1)] ok(2) r(2)], of 4]
  have l: "consumer_life 2 4 ?c2 {4, 6}" by (simp add: time_ok_def edge_at_def cycle_at_def)
  then obtain c' where "processCurrentEvent 2 4 [After 1] ?c2 = Inr c'"
    using consumer_no_lost_wakeup [OF l, THEN conjunct2, THEN conjunct2, THEN conjunct2, THEN spec [of _ "[After 1]"]] ok(3) by auto
  then show ?thesis using l by (intro exI [where x = ?c2] exI [where x = c']) simp
qed

text \<open>
  C19. A request for a tick of the past breaks a consumer: \<open>scheduleEventAbsolute\<close> returns and
  leaves the event where it was, but the stale tick stays first in the set, and the next
  \<open>processCurrentEvent\<close> fails its assertion.
\<close>

theorem consumer_stale_request_fails:
  assumes t: "time_ok p now" "time_ok p t" "time_ok p w" and ok: "consumer_ok p now c"
    and ev: "m_wakeup_event c = Some w" and past: "edge_at p t 0 < now"
  shows "\<exists>c'. scheduleEventAbsolute p now t c = Inr c' \<and> m_wakeup_event c' = Some w \<and>
    processCurrentEvent p w rs c' = Inl Assertion"
proof -
  obtain rest where ts: "m_wakeup_ticks c = w # rest"
    using ok ev unfolding consumer_ok_def by (cases "m_wakeup_ticks c") auto
  have w: "unat p dvd unat w" "now \<le> w" using ok ts by (simp_all add: consumer_ok_def)
  have edges: "edge_at p now 0 \<le> w" "edge_at p w 0 = w" "edge_at p t 0 < w" "edge_at p t 0 < edge_at p now 0"
    using edge_least [OF t(1) w] edge_aligned [OF t(3) w(1)] past w(2) edge_now_bounds(1) [OF t(1)] by auto
  let ?c = "c\<lparr>m_wakeup_ticks := edge_at p t 0 # w # rest\<rparr>"
  have "scheduleEventAbsolute p now t c = scheduleNextWakeup p now ?c"
    using t ts edges(3) by (simp add: scheduleEventAbsolute_def divCeil_def time_ok_def edge_at_def cycle_at_def)
  also have "\<dots> = Inr ?c" using edges ev leD [OF edges(1)] by (simp add: scheduleNextWakeup_def)
  finally show ?thesis using edges(2,3) less_imp_neq [OF edges(3)] ev
    by (simp add: processCurrentEvent_def check_def)
qed

theorem consumer_stale_request_fails_witness:
  "\<exists>c'. scheduleEventAbsolute 2 4 1 \<lparr>m_wakeup_ticks = [6], m_wakeup_event = Some 6\<rparr> = Inr c' \<and>
    m_wakeup_event c' = Some 6 \<and> processCurrentEvent 2 6 [] c' = Inl Assertion"
  by (rule consumer_stale_request_fails)
    (simp_all add: time_ok_def consumer_ok_def edge_at_def cycle_at_def)

section \<open>The cache of the clock\<close>

text \<open>
  A clocked object that is asked for a clock edge or for its cycle at a sequence of moments. Each
  query is one call; the cache is whatever the calls before have left.
\<close>

datatype clock_query = AskEdge tick cycles | AskCycle tick

fun query_time :: "clock_query \<Rightarrow> tick" where
  "query_time (AskEdge now n) = now"
| "query_time (AskCycle now) = now"

fun clock_answer :: "tick \<Rightarrow> clock_query \<Rightarrow> clock \<Rightarrow> (64 word \<times> clock) res" where
  "clock_answer p (AskEdge now n) c = clockEdge p now n c"
| "clock_answer p (AskCycle now) c = curCycle p now c"

fun clock_answers :: "tick \<Rightarrow> clock_query list \<Rightarrow> clock \<Rightarrow> 64 word list res" where
  "clock_answers p [] c = Inr []"
| "clock_answers p (q # qs) c = rbind (clock_answer p q c) (\<lambda>(a, c'). rbind (clock_answers p qs c') (\<lambda>as. Inr (a # as)))"

text \<open>The answers without a cache: the quotient rounded up, and its multiple of the period.\<close>

fun uncached_answer :: "tick \<Rightarrow> clock_query \<Rightarrow> 64 word" where
  "uncached_answer p (AskEdge now n) = of_nat (ceil_div (unat now) (unat p) * unat p) + p * n"
| "uncached_answer p (AskCycle now) = of_nat (ceil_div (unat now) (unat p))"

lemma clock_answer_eq:
  assumes t: "time_ok p (query_time q)" and "clock_ok p (query_time q) c"
  shows "\<exists>c'. clock_answer p q c = Inr (uncached_answer p q, c') \<and> clock_ok p (query_time q) c'"
proof -
  have c: "cycle_at p now = of_nat (ceil_div (unat now) (unat p))" if "time_ok p now" for now
    unfolding unat_cycle_at [OF that, symmetric] by simp
  show ?thesis
  proof (cases q)
    case (AskEdge now n)
    then show ?thesis using clockEdge_eq [of p now c n] assms c [of now] by (simp add: edge_at_def)
  next
    case (AskCycle now)
    then show ?thesis using curCycle_eq [of p now c] assms c [of now] by simp
  qed
qed

lemma clock_answers_eq:
  "\<lbrakk>sorted (map query_time qs); list_all (time_ok p \<circ> query_time) qs; list_all (\<lambda>q. clock_ok p (query_time q) c) qs\<rbrakk> \<Longrightarrow>
   clock_answers p qs c = Inr (map (uncached_answer p) qs)"
proof (induction qs arbitrary: c)
  case (Cons q qs)
  obtain c' where c': "clock_answer p q c = Inr (uncached_answer p q, c')" "clock_ok p (query_time q) c'"
    using clock_answer_eq [of p q c] Cons.prems(2,3) by auto
  have "list_all (\<lambda>q. clock_ok p (query_time q) c') qs"
    using Cons.prems(1) clock_ok_later [OF c'(2)] by (auto simp: list_all_iff)
  then have "clock_answers p qs c' = Inr (map (uncached_answer p) qs)" using Cons.prems(1,2) by (intro Cons.IH) auto
  then show ?case using c'(1) by simp
qed simp

text \<open>
  C16. The cache of a clocked object is not visible. However calls of \<open>clockEdge\<close> and \<open>curCycle\<close> on a
  new object follow each other (in the order of time, with one more period representable), every answer
  is the one of the definition without a cache: the current cycle is the quotient of the time by the
  period, rounded up, and an edge is the start of that cycle plus the cycles asked for.
\<close>

theorem clock_cache_transparent:
  assumes "sorted (map query_time qs)" "list_all (time_ok p \<circ> query_time) qs" "p \<noteq> 0"
  shows "clock_answers p qs clock_new = Inr (map (uncached_answer p) qs)"
  using assms clock_ok_new [OF assms(3)] by (intro clock_answers_eq) (simp_all add: list_all_iff)

theorem clock_cache_transparent_witness:
  "clock_answers 500 [AskEdge 0 1, AskCycle 700, AskEdge 701 2, AskCycle 5000, AskCycle 5001] clock_new = Inr [500, 2, 2000, 10, 11]"
proof -
  let ?qs = "[AskEdge 0 1, AskCycle 700, AskEdge 701 2, AskCycle 5000, AskCycle 5001]"
  have "sorted (map query_time ?qs)" "list_all (time_ok 500 \<circ> query_time) ?qs" by (simp_all add: time_ok_def)
  from clock_cache_transparent [OF this] show ?thesis by (simp add: ceil_div_def)
qed

end
