(* ===== verification/Garnet_Flit.thy ===== *)
theory Garnet_Flit
  imports Garnet_NetDest Garnet_Clock
begin

text \<open>
  Flits, credits and the buffers that hold them: CommonTypes.hh, flit.hh/cc, Credit.hh/cc and
  flitBuffer.hh/cc of the Garnet directory, the base class of messages
  (mem/ruby/slicc_interface/Message.hh), and the parameters of the network that its components
  read through their pointer to \<open>GarnetNetwork\<close>.

  A \<open>Credit\<close> is a flit with the additional field \<open>m_is_free_signal\<close>, here an optional field
  of the one record; reading it from a flit that is not a credit is undefined. A message pointer
  is an optional message, \<open>None\<close> the null pointer. Fields that the constructor leaves
  uninitialised (\<open>m_outport\<close>, \<open>src_delay\<close>) are optional, and reading them before they are set is
  undefined. The divisions in \<open>float\<close> of the serialisation code are exact integer divisions
  (widths and message sizes lie far below the 24 bits of a \<open>float\<close>'s significand).

  The locale \<open>fifo\<close> is the contract of a flit buffer; it is interpreted on \<open>flitBuffer\<close> here
  and on the input virtual channel in its theory.
\<close>

section \<open>Definitions: common types\<close>

datatype flit_type = HEAD | BODY | TAIL | HEAD_TAIL | CREDIT
datatype VC_state_type = IDLE | VC_AB | ACTIVE
datatype VNET_type = CTRL_VNET | DATA_VNET | NULL_VNET
datatype flit_stage = I_STAGE | VA | SA | ST | LT
datatype link_type = EXT_IN | EXT_OUT | INT_LINK | NUM_LINK_TYPES

definition INFINITE :: int where
  "INFINITE = 10000"

record RouteInfo =
  ri_vnet :: int
  net_dest_of :: net_dest
  src_ni :: int
  src_router :: int
  dest_ni :: int
  dest_router :: int
  hops_traversed :: int
  last_flit :: bool
  network_idx :: int
  input_idx :: int
  phase_id :: int

definition RouteInfo_new :: "net_dest \<Rightarrow> RouteInfo" where
  "RouteInfo_new d =
     \<lparr>ri_vnet = 0, net_dest_of = d, src_ni = 0, src_router = 0, dest_ni = 0, dest_router = 0,
      hops_traversed = 0, last_flit = False, network_idx = 0, input_idx = 0, phase_id = 0\<rparr>"

text \<open>
  Messages. \<open>msg_dest\<close> and \<open>msg_bytes\<close> stand for what the virtual \<open>getDestination\<close> and the
  network's \<open>MessageSizeType_to_int\<close> of \<open>getMessageSize\<close> return; \<open>msg_payload\<close> identifies the
  protocol's own content.
\<close>

record message =
  msg_time :: tick
  m_LastEnqueueTime :: tick
  m_DelayedTicks :: tick
  m_msg_counter :: "64 word"
  incoming_link :: int
  msg_vnet :: int
  msg_dest :: net_dest
  msg_bytes :: int
  msg_payload :: int

definition Message_updateDelayedTicks :: "tick \<Rightarrow> message \<Rightarrow> message res" where
  "Message_updateDelayedTicks now m =
     rbind (check Assertion (m_LastEnqueueTime m \<le> now)) (\<lambda>_.
     Inr (m\<lparr>m_DelayedTicks := m_DelayedTicks m + (now - m_LastEnqueueTime m)\<rparr>))"

definition Message_greater :: "message \<Rightarrow> message \<Rightarrow> bool" where
  "Message_greater l r =
     (if m_LastEnqueueTime l = m_LastEnqueueTime r then m_msg_counter r < m_msg_counter l
      else m_LastEnqueueTime r < m_LastEnqueueTime l)"

section \<open>Definitions: flits\<close>

record flit =
  m_width :: u32
  msgSize :: int
  m_packet_id :: int
  m_id :: int
  m_vnet :: int
  m_vc :: int
  m_route :: RouteInfo
  m_size :: int
  m_enqueue_time :: tick
  m_dequeue_time :: tick
  m_time :: tick
  m_type :: flit_type
  m_msg_ptr :: "message option"
  m_outport :: "int option"
  src_delay :: "tick option"
  m_stage :: "flit_stage \<times> tick"
  m_is_free_signal :: "bool option"

definition flit_type_of :: "int \<Rightarrow> int \<Rightarrow> flit_type" where
  "flit_type_of i sz =
     (if sz = 1 then HEAD_TAIL
      else if i = 0 then HEAD
      else if i = sz - 1 then TAIL
      else BODY)"

definition flit_new ::
    "int \<Rightarrow> int \<Rightarrow> int \<Rightarrow> int \<Rightarrow> RouteInfo \<Rightarrow> int \<Rightarrow> message option \<Rightarrow> int \<Rightarrow> u32 \<Rightarrow> tick \<Rightarrow> flit" where
  "flit_new packet_id i vc vnet route sz msg_ptr MsgSize bWidth curTime =
     \<lparr>m_width = bWidth, msgSize = MsgSize, m_packet_id = packet_id, m_id = i, m_vnet = vnet,
      m_vc = vc, m_route = route, m_size = sz, m_enqueue_time = curTime,
      m_dequeue_time = curTime, m_time = curTime, m_type = flit_type_of i sz,
      m_msg_ptr = msg_ptr, m_outport = None, src_delay = None, m_stage = (I_STAGE, curTime),
      m_is_free_signal = None\<rparr>"

definition increment_hops :: "flit \<Rightarrow> flit" where
  "increment_hops f = f\<lparr>m_route := (m_route f)\<lparr>hops_traversed := hops_traversed (m_route f) + 1\<rparr>\<rparr>"

definition is_stage :: "flit_stage \<Rightarrow> tick \<Rightarrow> flit \<Rightarrow> bool" where
  "is_stage st t f = (st = fst (m_stage f) \<and> snd (m_stage f) \<le> t)"

definition advance_stage :: "flit_stage \<Rightarrow> tick \<Rightarrow> flit \<Rightarrow> flit" where
  "advance_stage st t f = f\<lparr>m_stage := (st, t)\<rparr>"

definition get_outport :: "flit \<Rightarrow> int res" where
  "get_outport f = (case m_outport f of None \<Rightarrow> Inl Undefined | Some v \<Rightarrow> Inr v)"

definition get_src_delay :: "flit \<Rightarrow> tick res" where
  "get_src_delay f = (case src_delay f of None \<Rightarrow> Inl Undefined | Some v \<Rightarrow> Inr v)"

definition flit_greater :: "flit \<Rightarrow> flit \<Rightarrow> bool" where
  "flit_greater n1 n2 =
     (if m_time n1 = m_time n2 then m_id n2 < m_id n1 else m_time n2 < m_time n1)"

definition divCeil32 :: "u32 \<Rightarrow> u32 \<Rightarrow> u32 res" where
  "divCeil32 a b = (if b = 0 then Inl Undefined else Inr ((a + b - 1) div b))"

definition divCeilF :: "int \<Rightarrow> int \<Rightarrow> int res" where
  "divCeilF a b = cdiv (a + b - 1) b"

definition flit_serialize :: "int \<Rightarrow> int \<Rightarrow> u32 \<Rightarrow> flit \<Rightarrow> flit res" where
  "flit_serialize ser_id parts bWidth f =
     rbind (check Assertion (bWidth < m_width f)) (\<lambda>_.
     rbind (divCeil32 (m_width f) bWidth) (\<lambda>ratio.
     let new_id = m_id f * sint ratio + ser_id in
     rbind (divCeilF (msgSize f) (uint bWidth)) (\<lambda>new_size.
     rbind (check Assertion (new_id < new_size)) (\<lambda>_.
     Inr ((flit_new (m_packet_id f) new_id (m_vc f) (m_vnet f) (m_route f) new_size (m_msg_ptr f)
             (msgSize f) bWidth (m_time f))
          \<lparr>m_enqueue_time := m_enqueue_time f, src_delay := src_delay f\<rparr>)))))"

definition flit_deserialize :: "int \<Rightarrow> int \<Rightarrow> u32 \<Rightarrow> flit \<Rightarrow> flit res" where
  "flit_deserialize des_id num_flits bWidth f =
     rbind (divCeilF (uint bWidth) (uint (m_width f))) (\<lambda>ratio.
     rbind (divCeilF (m_id f + 1) ratio) (\<lambda>n.
     let new_id = n - 1 in
     rbind (divCeilF (msgSize f) (uint bWidth)) (\<lambda>new_size.
     rbind (check Assertion (new_id < new_size)) (\<lambda>_.
     Inr ((flit_new (m_packet_id f) new_id (m_vc f) (m_vnet f) (m_route f) new_size (m_msg_ptr f)
             (msgSize f) bWidth (m_time f))
          \<lparr>m_enqueue_time := m_enqueue_time f, src_delay := src_delay f\<rparr>)))))"

text \<open>
  Functional accesses. What a protocol's message class does with a packet is an argument: a read
  may change the packet and the mask, a write may change the message.
\<close>

definition flit_functionalRead :: "(message \<Rightarrow> 'pk \<Rightarrow> bool \<times> 'pk) \<Rightarrow> 'pk \<Rightarrow> flit \<Rightarrow> (bool \<times> 'pk) res" where
  "flit_functionalRead fr pk f =
     (case m_msg_ptr f of None \<Rightarrow> Inl Undefined | Some m \<Rightarrow> Inr (fr m pk))"

definition flit_functionalWrite :: "('pk \<Rightarrow> message \<Rightarrow> bool \<times> message) \<Rightarrow> 'pk \<Rightarrow> flit \<Rightarrow> (bool \<times> flit) res" where
  "flit_functionalWrite fw pk f =
     (case m_msg_ptr f of None \<Rightarrow> Inl Undefined
      | Some m \<Rightarrow> Inr (fst (fw pk m), f\<lparr>m_msg_ptr := Some (snd (fw pk m))\<rparr>))"

section \<open>Definitions: credits\<close>

text \<open>The route of a credit is never read; its destination set is left empty.\<close>

definition no_dest :: net_dest where
  "no_dest = \<lparr>m_bits = []\<rparr>"

definition Credit_new :: "int \<Rightarrow> bool \<Rightarrow> tick \<Rightarrow> flit" where
  "Credit_new vc is_free curTime =
     (flit_new 0 0 vc 0 (RouteInfo_new no_dest) 0 None 0 0 curTime)
       \<lparr>m_is_free_signal := Some is_free, m_type := CREDIT\<rparr>"

definition is_free_signal :: "flit \<Rightarrow> bool res" where
  "is_free_signal f = (case m_is_free_signal f of None \<Rightarrow> Inl Undefined | Some b \<Rightarrow> Inr b)"

definition Credit_serialize :: "int \<Rightarrow> int \<Rightarrow> u32 \<Rightarrow> flit \<Rightarrow> flit res" where
  "Credit_serialize ser_id parts bWidth f =
     rbind (is_free_signal f) (\<lambda>b.
     Inr (Credit_new (m_vc f) (ser_id + 1 = parts \<and> b) (m_time f)))"

definition Credit_deserialize :: "int \<Rightarrow> int \<Rightarrow> u32 \<Rightarrow> flit \<Rightarrow> flit res" where
  "Credit_deserialize des_id num_flits bWidth f =
     rbind (is_free_signal f) (\<lambda>b. Inr (Credit_new (m_vc f) b (m_time f)))"

text \<open>The virtual \<open>serialize\<close> and \<open>deserialize\<close>, dispatched on the class of the object.\<close>

definition serialize :: "int \<Rightarrow> int \<Rightarrow> u32 \<Rightarrow> flit \<Rightarrow> flit res" where
  "serialize ser_id parts bWidth f =
     (if m_is_free_signal f = None then flit_serialize ser_id parts bWidth f
      else Credit_serialize ser_id parts bWidth f)"

definition deserialize :: "int \<Rightarrow> int \<Rightarrow> u32 \<Rightarrow> flit \<Rightarrow> flit res" where
  "deserialize des_id num_flits bWidth f =
     (if m_is_free_signal f = None then flit_deserialize des_id num_flits bWidth f
      else Credit_deserialize des_id num_flits bWidth f)"

section \<open>Definitions: flit buffers\<close>

record flitBuffer =
  m_buffer :: "flit list"
  max_size :: int

definition flitBuffer_new :: flitBuffer where
  "flitBuffer_new = \<lparr>m_buffer = [], max_size = INFINITE\<rparr>"

definition flitBuffer_new_size :: "int \<Rightarrow> flitBuffer" where
  "flitBuffer_new_size maximum_size = \<lparr>m_buffer = [], max_size = maximum_size\<rparr>"

definition flitBuffer_isEmpty :: "flitBuffer \<Rightarrow> bool" where
  "flitBuffer_isEmpty b = (m_buffer b = [])"

definition flitBuffer_peekTopFlit :: "flitBuffer \<Rightarrow> flit res" where
  "flitBuffer_peekTopFlit b = (case m_buffer b of [] \<Rightarrow> Inl Undefined | f # _ \<Rightarrow> Inr f)"

definition flitBuffer_getTopFlit :: "flitBuffer \<Rightarrow> (flit \<times> flitBuffer) res" where
  "flitBuffer_getTopFlit b =
     (case m_buffer b of [] \<Rightarrow> Inl Undefined | f # fs \<Rightarrow> Inr (f, b\<lparr>m_buffer := fs\<rparr>))"

definition flitBuffer_insert :: "flit \<Rightarrow> flitBuffer \<Rightarrow> flitBuffer" where
  "flitBuffer_insert f b = b\<lparr>m_buffer := m_buffer b @ [f]\<rparr>"

definition flitBuffer_isReady :: "tick \<Rightarrow> flitBuffer \<Rightarrow> bool" where
  "flitBuffer_isReady curTime b = (case m_buffer b of [] \<Rightarrow> False | f # _ \<Rightarrow> m_time f \<le> curTime)"

text \<open>\<open>m_buffer.size() >= max_size\<close> compares as unsigned 64-bit numbers.\<close>

definition flitBuffer_isFull :: "flitBuffer \<Rightarrow> bool" where
  "flitBuffer_isFull b = (max_size b mod 2 ^ 64 \<le> int (length (m_buffer b)))"

definition flitBuffer_setMaxSize :: "int \<Rightarrow> flitBuffer \<Rightarrow> flitBuffer" where
  "flitBuffer_setMaxSize maximum b = b\<lparr>max_size := maximum\<rparr>"

definition flitBuffer_getSize :: "flitBuffer \<Rightarrow> int" where
  "flitBuffer_getSize b = int (length (m_buffer b))"

fun read_all :: "(message \<Rightarrow> 'pk \<Rightarrow> bool \<times> 'pk) \<Rightarrow> flit list \<Rightarrow> 'pk \<Rightarrow> (bool \<times> 'pk) res" where
  "read_all fr [] pk = Inr (False, pk)"
| "read_all fr (f # fs) pk =
     rbind (flit_functionalRead fr pk f) (\<lambda>(b, pk1).
     rbind (read_all fr fs pk1) (\<lambda>(c, pk2). Inr (b \<or> c, pk2)))"

definition flitBuffer_functionalRead ::
    "(message \<Rightarrow> 'pk \<Rightarrow> bool \<times> 'pk) \<Rightarrow> 'pk \<Rightarrow> flitBuffer \<Rightarrow> (bool \<times> 'pk) res" where
  "flitBuffer_functionalRead fr pk b = read_all fr (m_buffer b) pk"

fun write_all :: "('pk \<Rightarrow> message \<Rightarrow> bool \<times> message) \<Rightarrow> 'pk \<Rightarrow> flit list \<Rightarrow> (u32 \<times> flit list) res" where
  "write_all fw pk [] = Inr (0, [])"
| "write_all fw pk (f # fs) =
     rbind (flit_functionalWrite fw pk f) (\<lambda>(b, f').
     rbind (write_all fw pk fs) (\<lambda>(n, fs'). Inr (if b then n + 1 else n, f' # fs')))"

definition flitBuffer_functionalWrite ::
    "('pk \<Rightarrow> message \<Rightarrow> bool \<times> message) \<Rightarrow> 'pk \<Rightarrow> flitBuffer \<Rightarrow> (u32 \<times> flitBuffer) res" where
  "flitBuffer_functionalWrite fw pk b =
     rbind (write_all fw pk (m_buffer b)) (\<lambda>(n, fs). Inr (n, b\<lparr>m_buffer := fs\<rparr>))"

section \<open>Definitions: network parameters, references, wake-ups\<close>

record net_params =
  m_num_rows :: int
  m_num_cols :: int
  m_ni_flit_size :: u32
  m_max_vcs_per_vnet :: u32
  m_buffers_per_ctrl_vc :: int
  m_buffers_per_data_vc :: int
  m_routing_algorithm :: int
  m_virtual_networks :: int
  m_vnet_type :: "VNET_type list"
  m_ordered :: "bool list"

definition isVNetOrdered :: "net_params \<Rightarrow> int \<Rightarrow> bool res" where
  "isVNetOrdered net vnet = vget (m_ordered net) vnet"

definition get_vnet_type :: "net_params \<Rightarrow> int \<Rightarrow> VNET_type res" where
  "get_vnet_type net vnet = vget (m_vnet_type net) vnet"

text \<open>References to the objects that can be woken up, and to the buffers a link reads from.\<close>

datatype cref = ToRouter int | ToOutputUnit int int | ToLink int | ToNI int | ToNetwork

datatype qref = RouterOut int int | RouterCredit int int | NIOut int int | NICredit int int | LinkBuf int

type_synonym wakes = "(cref \<times> wake_req) list"

section \<open>The contract of a flit buffer\<close>

text \<open>Taking \<open>n\<close> elements one after the other.\<close>

fun drain :: "('b \<Rightarrow> ('a \<times> 'b) res) \<Rightarrow> nat \<Rightarrow> 'b \<Rightarrow> ('a list \<times> 'b) res" where
  "drain get 0 b = Inr ([], b)"
| "drain get (Suc n) b =
     rbind (get b) (\<lambda>(x, b'). rbind (drain get n b') (\<lambda>(xs, b''). Inr (x # xs, b'')))"

locale fifo =
  fixes items :: "'b \<Rightarrow> 'a list"
    and put :: "'a \<Rightarrow> 'b \<Rightarrow> 'b"
    and get :: "'b \<Rightarrow> ('a \<times> 'b) res"
    and peek :: "'b \<Rightarrow> 'a res"
  assumes items_put: "items (put x b) = items b @ [x]"
    and get_Nil: "items b = [] \<Longrightarrow> get b = Inl Undefined \<and> peek b = Inl Undefined"
    and get_Cons: "items b = x # xs \<Longrightarrow> \<exists>b'. get b = Inr (x, b') \<and> peek b = Inr x \<and> items b' = xs"
begin

lemma get_InrD: "get b = Inr (x, b') \<Longrightarrow> items b = x # items b' \<and> peek b = Inr x"
  using get_Nil [of b] get_Cons [of b] by (cases "items b") auto

lemma peek_InrD: "peek b = Inr x \<Longrightarrow> \<exists>xs. items b = x # xs"
  using get_Nil [of b] get_Cons [of b] by (cases "items b") auto

text \<open>What was put in comes out in the same order, and nothing else.\<close>

lemma items_puts: "items (fold put xs b) = items b @ xs"
  by (induction xs arbitrary: b) (simp_all add: items_put)

lemma drain_items: "n \<le> length (items b) \<Longrightarrow>
    \<exists>b'. drain get n b = Inr (take n (items b), b') \<and> items b' = drop n (items b)"
proof (induction n arbitrary: b)
  case 0
  then show ?case by simp
next
  case (Suc n)
  then obtain x xs where xs: "items b = x # xs" by (cases "items b") auto
  from get_Cons [OF this] obtain b' where b': "get b = Inr (x, b')" "items b' = xs" by blast
  with Suc xs obtain b'' where "drain get n b' = Inr (take n xs, b'')" "items b'' = drop n xs"
    by fastforce
  then show ?case using b' xs by simp
qed

lemma drain_puts: "items b = [] \<Longrightarrow> \<exists>b'. drain get (length xs) (fold put xs b) = Inr (xs, b') \<and> items b' = []"
  using drain_items [of "length xs" "fold put xs b"] by (simp add: items_puts)

end

interpretation fb: fifo m_buffer flitBuffer_insert flitBuffer_getTopFlit flitBuffer_peekTopFlit
  by unfold_locales
    (auto simp: flitBuffer_insert_def flitBuffer_getTopFlit_def flitBuffer_peekTopFlit_def)

lemma flitBuffer_new_items [simp]: "m_buffer flitBuffer_new = []"
  by (simp add: flitBuffer_new_def)

lemma flitBuffer_insert_items [simp]: "m_buffer (flitBuffer_insert f b) = m_buffer b @ [f]"
  by (simp add: flitBuffer_insert_def)

lemma flitBuffer_getTopFlit_eq_Inr [res_iff]:
  "flitBuffer_getTopFlit b = Inr (f, b') \<longleftrightarrow> (\<exists>fs. m_buffer b = f # fs \<and> b' = b\<lparr>m_buffer := fs\<rparr>)"
  by (auto simp: flitBuffer_getTopFlit_def split: list.splits)

lemma flitBuffer_peekTopFlit_eq_Inr [res_iff]:
  "flitBuffer_peekTopFlit b = Inr f \<longleftrightarrow> (\<exists>fs. m_buffer b = f # fs)"
  by (auto simp: flitBuffer_peekTopFlit_def split: list.splits)

lemma flitBuffer_isReady_iff:
  "flitBuffer_isReady t b \<longleftrightarrow> (\<exists>f fs. m_buffer b = f # fs \<and> m_time f \<le> t)"
  by (auto simp: flitBuffer_isReady_def split: list.splits)

section \<open>Packets\<close>

text \<open>The flits of a packet are those that \<open>flit_new\<close> makes with the ids \<open>0 .. size - 1\<close>.\<close>

lemma flit_new_fields [simp]:
  "m_type (flit_new pk i vc vn r sz mp ms w t) = flit_type_of i sz"
  "m_vc (flit_new pk i vc vn r sz mp ms w t) = vc" "m_vnet (flit_new pk i vc vn r sz mp ms w t) = vn"
  "m_id (flit_new pk i vc vn r sz mp ms w t) = i" "m_size (flit_new pk i vc vn r sz mp ms w t) = sz"
  "m_width (flit_new pk i vc vn r sz mp ms w t) = w" "msgSize (flit_new pk i vc vn r sz mp ms w t) = ms"
  "m_time (flit_new pk i vc vn r sz mp ms w t) = t" "m_route (flit_new pk i vc vn r sz mp ms w t) = r"
  "m_msg_ptr (flit_new pk i vc vn r sz mp ms w t) = mp"
  "m_packet_id (flit_new pk i vc vn r sz mp ms w t) = pk"
  "m_is_free_signal (flit_new pk i vc vn r sz mp ms w t) = None"
  "m_enqueue_time (flit_new pk i vc vn r sz mp ms w t) = t"
  by (simp_all add: flit_new_def)

lemma Credit_new_fields [simp]:
  "m_vc (Credit_new vc b t) = vc" "m_is_free_signal (Credit_new vc b t) = Some b"
  "m_time (Credit_new vc b t) = t" "m_type (Credit_new vc b t) = CREDIT"
  "is_free_signal (Credit_new vc b t) = Inr b"
  by (simp_all add: Credit_new_def is_free_signal_def)

definition packet_types :: "nat \<Rightarrow> flit_type list" where
  "packet_types n =
     (if n = 0 then [] else if n = 1 then [HEAD_TAIL] else HEAD # replicate (n - 2) BODY @ [TAIL])"

lemma flit_types_of_packet:
  "map (\<lambda>i. flit_type_of (int i) (int n)) [0..<n] = packet_types n"
proof (rule nth_equalityI)
  show "length (map (\<lambda>i. flit_type_of (int i) (int n)) [0..<n]) = length (packet_types n)"
    by (simp add: packet_types_def) arith
next
  fix i
  assume "i < length (map (\<lambda>i. flit_type_of (int i) (int n)) [0..<n])"
  then have i: "i < n" by simp
  consider "n = 1" | "n > 1" "i = 0" | "n > 1" "0 < i" "i < n - 1" | "n > 1" "i = n - 1"
    using i by linarith
  then show "map (\<lambda>i. flit_type_of (int i) (int n)) [0..<n] ! i = packet_types n ! i"
  proof cases
    case 3
    then obtain j where j: "i = Suc j" "j < n - 2" by (cases i) auto
    then show ?thesis using 3 i by (simp add: packet_types_def flit_type_of_def nth_append of_nat_diff)
  next
    case 4
    then obtain j where j: "i = Suc j" "j = n - 2" by (cases i) auto
    then show ?thesis using 4 i by (auto simp: packet_types_def flit_type_of_def nth_append of_nat_diff)
  qed (use i in \<open>auto simp: packet_types_def flit_type_of_def\<close>)
qed

end
