(* ===== verification/Garnet_VC.thy ===== *)
theory Garnet_VC
  imports Garnet_Flit
begin

text \<open>
  The two ends of a virtual channel: the input virtual channel of a router
  (VirtualChannel.hh/cc) with its buffer and state, and what the upstream end knows of it
  (OutVcState.hh/cc): idle or active, and the number of free buffer slots (credits). The input
  virtual channel is a \<open>fifo\<close>. The locale \<open>credit_counter\<close> is what the output unit and the
  network interface rely on: a counter between 0 and its maximum whose two operations abort
  exactly when they would leave that range.
\<close>

section \<open>Definitions: VirtualChannel\<close>

record VirtualChannel =
  inputBuffer :: flitBuffer
  vc_state :: "VC_state_type \<times> tick"
  m_output_port :: int
  vc_enqueue_time :: tick
  m_output_vc :: int

definition VirtualChannel_new :: VirtualChannel where
  "VirtualChannel_new =
     \<lparr>inputBuffer = flitBuffer_new, vc_state = (IDLE, 0), m_output_port = -1,
      vc_enqueue_time = of_int INFINITE, m_output_vc = -1\<rparr>"

definition VC_set_idle :: "tick \<Rightarrow> VirtualChannel \<Rightarrow> VirtualChannel" where
  "VC_set_idle curTime v =
     v\<lparr>vc_state := (IDLE, curTime), vc_enqueue_time := of_int INFINITE,
       m_output_port := -1, m_output_vc := -1\<rparr>"

definition VC_set_active :: "tick \<Rightarrow> VirtualChannel \<Rightarrow> VirtualChannel" where
  "VC_set_active curTime v = v\<lparr>vc_state := (ACTIVE, curTime), vc_enqueue_time := curTime\<rparr>"

definition VC_isReady :: "tick \<Rightarrow> VirtualChannel \<Rightarrow> bool" where
  "VC_isReady curTime v = flitBuffer_isReady curTime (inputBuffer v)"

definition VC_insertFlit :: "flit \<Rightarrow> VirtualChannel \<Rightarrow> VirtualChannel" where
  "VC_insertFlit f v = v\<lparr>inputBuffer := flitBuffer_insert f (inputBuffer v)\<rparr>"

definition VC_set_state :: "VC_state_type \<Rightarrow> tick \<Rightarrow> VirtualChannel \<Rightarrow> VirtualChannel" where
  "VC_set_state st curTime v = v\<lparr>vc_state := (st, curTime)\<rparr>"

definition VC_peekTopFlit :: "VirtualChannel \<Rightarrow> flit res" where
  "VC_peekTopFlit v = flitBuffer_peekTopFlit (inputBuffer v)"

definition VC_getTopFlit :: "VirtualChannel \<Rightarrow> (flit \<times> VirtualChannel) res" where
  "VC_getTopFlit v =
     rbind (flitBuffer_getTopFlit (inputBuffer v)) (\<lambda>(f, b). Inr (f, v\<lparr>inputBuffer := b\<rparr>))"

definition VC_need_stage :: "flit_stage \<Rightarrow> tick \<Rightarrow> VirtualChannel \<Rightarrow> bool res" where
  "VC_need_stage st t v =
     (if flitBuffer_isReady t (inputBuffer v) then
        rbind (check Assertion (fst (vc_state v) = ACTIVE \<and> snd (vc_state v) \<le> t)) (\<lambda>_.
        rbind (flitBuffer_peekTopFlit (inputBuffer v)) (\<lambda>f. Inr (is_stage st t f)))
      else Inr False)"

definition VC_functionalRead ::
    "(message \<Rightarrow> 'pk \<Rightarrow> bool \<times> 'pk) \<Rightarrow> 'pk \<Rightarrow> VirtualChannel \<Rightarrow> (bool \<times> 'pk) res" where
  "VC_functionalRead fr pk v = flitBuffer_functionalRead fr pk (inputBuffer v)"

definition VC_functionalWrite ::
    "('pk \<Rightarrow> message \<Rightarrow> bool \<times> message) \<Rightarrow> 'pk \<Rightarrow> VirtualChannel \<Rightarrow> (u32 \<times> VirtualChannel) res" where
  "VC_functionalWrite fw pk v =
     rbind (flitBuffer_functionalWrite fw pk (inputBuffer v)) (\<lambda>(n, b). Inr (n, v\<lparr>inputBuffer := b\<rparr>))"

section \<open>Definitions: OutVcState\<close>

record OutVcState =
  ov_id :: int
  ov_time :: tick
  ov_state :: VC_state_type
  m_credit_count :: int
  m_max_credit_count :: int

text \<open>
  \<open>id / consumerVcs\<close> is an unsigned 32-bit division; \<open>id\<close> counts up from 0.
\<close>

definition OutVcState_new :: "net_params \<Rightarrow> u32 \<Rightarrow> int \<Rightarrow> OutVcState res" where
  "OutVcState_new net consumerVcs i =
     rbind (if consumerVcs = 0 then Inl Undefined else Inr (uint (of_int i div consumerVcs))) (\<lambda>vnet.
     rbind (get_vnet_type net vnet) (\<lambda>ty.
     let mx = (if ty = DATA_VNET then m_buffers_per_data_vc net else m_buffers_per_ctrl_vc net) in
     rbind (check Assertion (1 \<le> mx)) (\<lambda>_.
     Inr \<lparr>ov_id = i, ov_time = 0, ov_state = IDLE, m_credit_count = mx, m_max_credit_count = mx\<rparr>)))"

definition OutVcState_has_credit :: "OutVcState \<Rightarrow> bool" where
  "OutVcState_has_credit s = (0 < m_credit_count s)"

definition OutVcState_increment_credit :: "OutVcState \<Rightarrow> OutVcState res" where
  "OutVcState_increment_credit s =
     (let s' = s\<lparr>m_credit_count := m_credit_count s + 1\<rparr> in
      rbind (check Assertion (m_credit_count s' \<le> m_max_credit_count s')) (\<lambda>_. Inr s'))"

definition OutVcState_decrement_credit :: "OutVcState \<Rightarrow> OutVcState res" where
  "OutVcState_decrement_credit s =
     (let s' = s\<lparr>m_credit_count := m_credit_count s - 1\<rparr> in
      rbind (check Assertion (0 \<le> m_credit_count s')) (\<lambda>_. Inr s'))"

definition OutVcState_isInState :: "VC_state_type \<Rightarrow> tick \<Rightarrow> OutVcState \<Rightarrow> bool" where
  "OutVcState_isInState st request_time s = (ov_state s = st \<and> ov_time s \<le> request_time)"

definition OutVcState_setState :: "VC_state_type \<Rightarrow> tick \<Rightarrow> OutVcState \<Rightarrow> OutVcState" where
  "OutVcState_setState st t s = s\<lparr>ov_state := st, ov_time := t\<rparr>"

section \<open>The input virtual channel is a queue\<close>

definition VC_items :: "VirtualChannel \<Rightarrow> flit list" where
  "VC_items v = m_buffer (inputBuffer v)"

interpretation vcq: fifo VC_items VC_insertFlit VC_getTopFlit VC_peekTopFlit
proof
  show "VC_items (VC_insertFlit x b) = VC_items b @ [x]" for x b
    by (simp add: VC_items_def VC_insertFlit_def)
  show "VC_items b = [] \<Longrightarrow> VC_getTopFlit b = Inl Undefined \<and> VC_peekTopFlit b = Inl Undefined" for b
    using fb.get_Nil by (simp add: VC_items_def VC_getTopFlit_def VC_peekTopFlit_def)
  show "\<exists>b'. VC_getTopFlit b = Inr (x, b') \<and> VC_peekTopFlit b = Inr x \<and> VC_items b' = xs"
    if "VC_items b = x # xs" for b x xs
    using fb.get_Cons [of "inputBuffer b" x xs] that
    by (auto simp: VC_items_def VC_getTopFlit_def VC_peekTopFlit_def)
qed

lemma VC_items_simps [simp]:
  "VC_items (VC_set_idle t v) = VC_items v" "VC_items (VC_set_active t v) = VC_items v"
  "VC_items (VC_insertFlit f v) = VC_items v @ [f]" "VC_items VirtualChannel_new = []"
  by (simp_all add: VC_items_def VC_set_idle_def VC_set_active_def VC_insertFlit_def VirtualChannel_new_def)

lemma VC_getTopFlit_eq_Inr [res_iff]:
  "VC_getTopFlit v = Inr (f, v') \<longleftrightarrow>
     (\<exists>fs. VC_items v = f # fs \<and> v' = v\<lparr>inputBuffer := (inputBuffer v)\<lparr>m_buffer := fs\<rparr>\<rparr>)"
  by (auto simp: VC_getTopFlit_def VC_items_def res_iff)

section \<open>Credit counters\<close>

locale credit_counter =
  fixes count :: "'s \<Rightarrow> int" and max_count :: "'s \<Rightarrow> int"
    and inc :: "'s \<Rightarrow> 's res" and dec :: "'s \<Rightarrow> 's res"
  assumes inc_ok: "count s < max_count s \<Longrightarrow>
      \<exists>s'. inc s = Inr s' \<and> count s' = count s + 1 \<and> max_count s' = max_count s"
    and inc_full: "max_count s \<le> count s \<Longrightarrow> inc s = Inl Assertion"
    and dec_ok: "0 < count s \<Longrightarrow>
      \<exists>s'. dec s = Inr s' \<and> count s' = count s - 1 \<and> max_count s' = max_count s"
    and dec_empty: "count s \<le> 0 \<Longrightarrow> dec s = Inl Assertion"
begin

lemma inc_returns_iff: "returns (inc s) \<longleftrightarrow> count s < max_count s"
  using inc_ok [of s] inc_full [of s] by (cases "count s < max_count s") auto

lemma dec_returns_iff: "returns (dec s) \<longleftrightarrow> 0 < count s"
  using dec_ok [of s] dec_empty [of s] by (cases "0 < count s") auto

text \<open>Any run of operations that does not abort keeps the count within its range.\<close>

lemma run_range:
  assumes "rfold (\<lambda>up s. if up then inc s else dec s) ops s = Inr t" "0 \<le> count s" "count s \<le> max_count s"
  shows "0 \<le> count t \<and> count t \<le> max_count t \<and> max_count t = max_count s"
proof (rule rfold_inv [OF assms(1), where I = "\<lambda>t. 0 \<le> count t \<and> count t \<le> max_count t \<and> max_count t = max_count s"])
  show "0 \<le> count s \<and> count s \<le> max_count s \<and> max_count s = max_count s" using assms by simp
  show "0 \<le> count v \<and> count v \<le> max_count v \<and> max_count v = max_count s"
    if "0 \<le> count u \<and> count u \<le> max_count u \<and> max_count u = max_count s"
      and "(if up then inc u else dec u) = Inr v" for up u v
    using that inc_ok [of u] inc_full [of u] dec_ok [of u] dec_empty [of u]
    by (cases up; cases "count u < max_count u"; cases "0 < count u") auto
qed

end

interpretation ov: credit_counter m_credit_count m_max_credit_count
    OutVcState_increment_credit OutVcState_decrement_credit
  by unfold_locales
    (simp_all add: OutVcState_increment_credit_def OutVcState_decrement_credit_def check_def)

definition OutVcState_ok :: "OutVcState \<Rightarrow> bool" where
  "OutVcState_ok s =
     (0 \<le> m_credit_count s \<and> m_credit_count s \<le> m_max_credit_count s \<and> 1 \<le> m_max_credit_count s)"

lemma OutVcState_increment_eq_Inr [res_iff]:
  "OutVcState_increment_credit s = Inr s' \<longleftrightarrow>
     m_credit_count s < m_max_credit_count s \<and> s' = s\<lparr>m_credit_count := m_credit_count s + 1\<rparr>"
  by (auto simp: OutVcState_increment_credit_def res_iff)

lemma OutVcState_decrement_eq_Inr [res_iff]:
  "OutVcState_decrement_credit s = Inr s' \<longleftrightarrow>
     0 < m_credit_count s \<and> s' = s\<lparr>m_credit_count := m_credit_count s - 1\<rparr>"
  by (auto simp: OutVcState_decrement_credit_def res_iff)

lemma OutVcState_new_ok: "OutVcState_new net n i = Inr s \<Longrightarrow>
    OutVcState_ok s \<and> ov_state s = IDLE \<and> m_credit_count s = m_max_credit_count s"
  by (auto simp: OutVcState_new_def OutVcState_ok_def res_iff Let_def split: if_splits)

end
