(* ===== verification/Garnet_NetworkLink.thy ===== *)
theory Garnet_NetworkLink
  imports Garnet_VC
begin

text \<open>
  Links: NetworkLink.hh/cc, also the base of \<open>CreditLink\<close> (CreditLink.hh). A link takes one flit
  per cycle from the buffer of its source, holds it for its latency and wakes up its consumer
  when the flit arrives. The source buffer, which belongs to another object, is an argument of
  \<open>NetworkLink_wakeup\<close> and part of its result; so are the wake-ups it asks for. The link's
  \<open>self\<close> is the reference under which it asks to be woken up itself.

  A bridge (\<open>NetworkBridge\<close>, a subclass) is a link with the additional fields of the record \<open>bridge\<close>;
  its operations are in their own theory. Links and bridges are shared objects: they stand in a list,
  and other objects refer to them by index. The virtual \<open>setVcsPerVnet\<close>, which a bridge passes on to
  the link next to it, is \<open>links_setVcsPerVnet\<close> on the list.
\<close>

datatype bridge_type = LINK_OBJECT | OBJECT_LINK

record bridge =
  coBridge :: "int option"
  nLink :: int
  enCdc :: bool
  enSerDes :: bool
  mType :: bridge_type
  cdcLatency :: cycles
  serDesLatency :: cycles
  lastScheduledAt :: tick
  lenBuffer :: "int list"
  sizeSent :: "int list"
  flitsSent :: "int list"
  extraCredit :: "int list list"

record NetworkLink =
  nl_id :: int
  nl_type :: link_type
  nl_latency :: cycles
  bitWidth :: u32
  mVnets :: "int list"
  m_link_utilized :: u32
  m_vc_load :: "u32 list"
  nl_virt_nets :: u32
  linkBuffer :: flitBuffer
  link_consumer :: "cref option"
  link_srcQueue :: "qref option"
  nl_bridge :: "bridge option"

definition NetworkLink_new :: "int \<Rightarrow> cycles \<Rightarrow> u32 \<Rightarrow> int list \<Rightarrow> u32 \<Rightarrow> NetworkLink" where
  "NetworkLink_new link_id link_latency virt_nets supported_vnets width =
     \<lparr>nl_id = link_id, nl_type = NUM_LINK_TYPES, nl_latency = link_latency, bitWidth = width,
      mVnets = supported_vnets, m_link_utilized = 0, m_vc_load = [], nl_virt_nets = virt_nets,
      linkBuffer = flitBuffer_new, link_consumer = None, link_srcQueue = None,
      nl_bridge = None\<rparr>"

definition NetworkLink_setLinkConsumer :: "cref \<Rightarrow> NetworkLink \<Rightarrow> NetworkLink" where
  "NetworkLink_setLinkConsumer c l = l\<lparr>link_consumer := Some c\<rparr>"

definition bridge_resize :: "nat \<Rightarrow> bridge \<Rightarrow> bridge" where
  "bridge_resize n b =
     b\<lparr>lenBuffer := vresize 0 n (lenBuffer b), sizeSent := vresize 0 n (sizeSent b),
       flitsSent := vresize 0 n (flitsSent b), extraCredit := vresize [] n (extraCredit b)\<rparr>"

definition NetworkLink_setVcsPerVnet :: "u32 \<Rightarrow> NetworkLink \<Rightarrow> NetworkLink" where
  "NetworkLink_setVcsPerVnet consumerVcs l =
     (let n = unat (nl_virt_nets l * consumerVcs) in
      l\<lparr>m_vc_load := vresize 0 n (m_vc_load l), nl_bridge := map_option (bridge_resize n) (nl_bridge l)\<rparr>)"

definition mod_link :: "int \<Rightarrow> (NetworkLink \<Rightarrow> NetworkLink) \<Rightarrow> NetworkLink list \<Rightarrow> NetworkLink list res" where
  "mod_link i f links = vmod links i (\<lambda>l. Inr (f l))"

definition links_setVcsPerVnet :: "int \<Rightarrow> u32 \<Rightarrow> NetworkLink list \<Rightarrow> NetworkLink list res" where
  "links_setVcsPerVnet i consumerVcs links =
     rbind (mod_link i (NetworkLink_setVcsPerVnet consumerVcs) links) (\<lambda>links1.
     rbind (vget links1 i) (\<lambda>l.
     case nl_bridge l of
       None \<Rightarrow> Inr links1
     | Some b \<Rightarrow> mod_link (nLink b) (NetworkLink_setVcsPerVnet consumerVcs) links1))"

definition NetworkLink_setSourceQueue :: "qref \<Rightarrow> NetworkLink \<Rightarrow> NetworkLink" where
  "NetworkLink_setSourceQueue q l = l\<lparr>link_srcQueue := Some q\<rparr>"

definition NetworkLink_isReady :: "tick \<Rightarrow> NetworkLink \<Rightarrow> bool" where
  "NetworkLink_isReady curTime l = flitBuffer_isReady curTime (linkBuffer l)"

definition NetworkLink_peekLink :: "NetworkLink \<Rightarrow> flit res" where
  "NetworkLink_peekLink l = flitBuffer_peekTopFlit (linkBuffer l)"

definition NetworkLink_consumeLink :: "NetworkLink \<Rightarrow> (flit \<times> NetworkLink) res" where
  "NetworkLink_consumeLink l =
     rbind (flitBuffer_getTopFlit (linkBuffer l)) (\<lambda>(f, b). Inr (f, l\<lparr>linkBuffer := b\<rparr>))"

definition link_transfer ::
    "tick \<Rightarrow> tick \<Rightarrow> flitBuffer \<Rightarrow> NetworkLink \<Rightarrow> (flitBuffer \<times> NetworkLink \<times> wakes) res" where
  "link_transfer p now src l =
     rbind (flitBuffer_getTopFlit src) (\<lambda>(f, src').
     rbind (if nl_type l \<noteq> NUM_LINK_TYPES then
              rbind (check Assertion (m_width f = bitWidth l)) (\<lambda>_.
              check Assertion (m_vnet f \<in> set (mVnets l) \<or> mVnets l = []))
            else Inr ()) (\<lambda>_.
     let arrival = edge_at p now (nl_latency l); f' = f\<lparr>m_time := arrival\<rparr> in
     rbind (case link_consumer l of None \<Rightarrow> Inl Undefined | Some c \<Rightarrow> Inr [(c, At arrival)]) (\<lambda>ws.
     rbind (vmod (m_vc_load l) (m_vc f') (\<lambda>n. Inr (n + 1))) (\<lambda>load.
     Inr (src', l\<lparr>linkBuffer := flitBuffer_insert f' (linkBuffer l),
                  m_link_utilized := m_link_utilized l + 1, m_vc_load := load\<rparr>, ws)))))"

definition NetworkLink_wakeup ::
    "int \<Rightarrow> tick \<Rightarrow> tick \<Rightarrow> flitBuffer \<Rightarrow> NetworkLink \<Rightarrow> (flitBuffer \<times> NetworkLink \<times> wakes) res" where
  "NetworkLink_wakeup self p now src l =
     rbind (check Assertion (link_srcQueue l \<noteq> None)) (\<lambda>_.
     rbind (check Assertion (now = edge_at p now 0)) (\<lambda>_.
     rbind (if flitBuffer_isReady now src then link_transfer p now src l else Inr (src, l, []))
       (\<lambda>(src', l', ws).
     Inr (src', l', ws @ (if flitBuffer_isEmpty src' then [] else [(ToLink self, After 1)])))))"

definition NetworkLink_resetStats :: "NetworkLink \<Rightarrow> NetworkLink" where
  "NetworkLink_resetStats l = l\<lparr>m_vc_load := map (\<lambda>_. 0) (m_vc_load l), m_link_utilized := 0\<rparr>"

definition NetworkLink_functionalRead ::
    "(message \<Rightarrow> 'pk \<Rightarrow> bool \<times> 'pk) \<Rightarrow> 'pk \<Rightarrow> NetworkLink \<Rightarrow> (bool \<times> 'pk) res" where
  "NetworkLink_functionalRead fr pk l = flitBuffer_functionalRead fr pk (linkBuffer l)"

definition NetworkLink_functionalWrite ::
    "('pk \<Rightarrow> message \<Rightarrow> bool \<times> message) \<Rightarrow> 'pk \<Rightarrow> NetworkLink \<Rightarrow> (u32 \<times> NetworkLink) res" where
  "NetworkLink_functionalWrite fw pk l =
     rbind (flitBuffer_functionalWrite fw pk (linkBuffer l)) (\<lambda>(n, b). Inr (n, l\<lparr>linkBuffer := b\<rparr>))"

section \<open>What a wake-up of a link moves\<close>

definition link_items :: "NetworkLink \<Rightarrow> flit list" where
  "link_items l = m_buffer (linkBuffer l)"

lemma NetworkLink_consumeLink_eq_Inr [res_iff]:
  "NetworkLink_consumeLink l = Inr (f, l') \<longleftrightarrow>
     (\<exists>fs. link_items l = f # fs \<and> l' = l\<lparr>linkBuffer := (linkBuffer l)\<lparr>m_buffer := fs\<rparr>\<rparr>)"
  by (auto simp: NetworkLink_consumeLink_def link_items_def res_iff)

text \<open>
  A wake-up moves the first flit of the source, if it is ready, to the end of the link, changed
  only in its time stamp, and keeps everything else.
\<close>

lemma link_transferD:
  assumes "link_transfer p now src l = Inr (src', l', ws)"
  shows "\<exists>f fs c load. m_buffer src = f # fs \<and> src' = src\<lparr>m_buffer := fs\<rparr> \<and> link_consumer l = Some c \<and>
    ws = [(c, At (edge_at p now (nl_latency l)))] \<and> length load = length (m_vc_load l) \<and>
    l' = l\<lparr>linkBuffer := flitBuffer_insert (f\<lparr>m_time := edge_at p now (nl_latency l)\<rparr>) (linkBuffer l),
           m_link_utilized := m_link_utilized l + 1, m_vc_load := load\<rparr>"
proof (cases "m_buffer src")
  case Nil
  then show ?thesis using assms by (simp add: link_transfer_def flitBuffer_getTopFlit_def)
next
  case (Cons f fs)
  let ?load = "(m_vc_load l)[nat (m_vc f) := m_vc_load l ! nat (m_vc f) + 1]"
  obtain c where c: "link_consumer l = Some c"
    using assms Cons by (cases "link_consumer l")
      (simp_all add: link_transfer_def flitBuffer_getTopFlit_def Let_def rbind_eq_Inr)
  then have "src' = src\<lparr>m_buffer := fs\<rparr>" "ws = [(c, At (edge_at p now (nl_latency l)))]"
    "l' = l\<lparr>linkBuffer := flitBuffer_insert (f\<lparr>m_time := edge_at p now (nl_latency l)\<rparr>) (linkBuffer l),
           m_link_utilized := m_link_utilized l + 1, m_vc_load := ?load\<rparr>"
    using assms Cons
    by (simp_all add: link_transfer_def flitBuffer_getTopFlit_def Let_def rbind_eq_Inr vmod_eq_Inr)
  then show ?thesis using c Cons by (intro exI [of _ f] exI [of _ fs] exI [of _ c] exI [of _ ?load]) simp
qed

lemma NetworkLink_wakeupD:
  assumes "NetworkLink_wakeup self p now src l = Inr (src', l', ws)"
  shows "(\<not> flitBuffer_isReady now src \<and> src' = src \<and> l' = l) \<or>
    (flitBuffer_isReady now src \<and> (\<exists>ws'. link_transfer p now src l = Inr (src', l', ws')))"
  using assms by (auto simp: NetworkLink_wakeup_def rbind_eq_Inr split: if_splits)

lemma NetworkLink_wakeup_moves:
  assumes "NetworkLink_wakeup self p now src l = Inr (src', l', ws)"
  shows "if flitBuffer_isReady now src
    then \<exists>f fs. m_buffer src = f # fs \<and> m_buffer src' = fs \<and>
      link_items l' = link_items l @ [f\<lparr>m_time := edge_at p now (nl_latency l)\<rparr>]
    else src' = src \<and> l' = l"
  using NetworkLink_wakeupD [OF assms] by (fastforce dest: link_transferD simp: link_items_def)

lemma NetworkLink_wakeup_keeps:
  assumes "NetworkLink_wakeup self p now src l = Inr (src', l', ws)"
  shows "nl_type l' = nl_type l \<and> bitWidth l' = bitWidth l \<and> mVnets l' = mVnets l \<and>
    length (m_vc_load l') = length (m_vc_load l) \<and> link_consumer l' = link_consumer l \<and>
    link_srcQueue l' = link_srcQueue l \<and> nl_latency l' = nl_latency l"
  using NetworkLink_wakeupD [OF assms] by (auto dest!: link_transferD)

text \<open>When it returns: a connected link, on its clock edge, fed with flits it supports.\<close>

definition link_accepts :: "NetworkLink \<Rightarrow> flit \<Rightarrow> bool" where
  "link_accepts l f =
     ((nl_type l = NUM_LINK_TYPES \<or>
       m_width f = bitWidth l \<and> (m_vnet f \<in> set (mVnets l) \<or> mVnets l = [])) \<and>
      0 \<le> m_vc f \<and> m_vc f < int (length (m_vc_load l)))"

lemma NetworkLink_wakeup_returns:
  assumes "link_srcQueue l \<noteq> None" "link_consumer l \<noteq> None" "edge_at p now 0 = now"
    and "flitBuffer_isReady now src \<Longrightarrow> link_accepts l (hd (m_buffer src))"
  shows "\<exists>r. NetworkLink_wakeup self p now src l = Inr r"
proof (cases "flitBuffer_isReady now src")
  case True
  then obtain f fs where f: "m_buffer src = f # fs" by (auto simp: flitBuffer_isReady_iff)
  have a: "link_accepts l f" using assms(4) [OF True] f by simp
  have ty: "(if nl_type l \<noteq> NUM_LINK_TYPES then
              rbind (check Assertion (m_width f = bitWidth l)) (\<lambda>_.
              check Assertion (m_vnet f \<in> set (mVnets l) \<or> mVnets l = []))
            else Inr ()) = Inr ()" using a by (auto simp: link_accepts_def)
  have "\<exists>r. link_transfer p now src l = Inr r"
    using a assms(2) f unfolding link_transfer_def
    by (auto simp: flitBuffer_getTopFlit_def ty link_accepts_def Let_def vec_simps)
  then show ?thesis using assms(1,3) True by (auto simp: NetworkLink_wakeup_def)
next
  case False
  then show ?thesis using assms(1,3) by (simp add: NetworkLink_wakeup_def)
qed

text \<open>
  A flit waiting in the source is not forgotten: the link asks to be woken up again whenever it
  leaves the source non-empty.
\<close>

lemma NetworkLink_wakeup_again:
  assumes "NetworkLink_wakeup self p now src l = Inr (src', l', ws)" "m_buffer src' \<noteq> []"
  shows "(ToLink self, After 1) \<in> set ws"
  using assms by (auto simp: NetworkLink_wakeup_def res_iff flitBuffer_isEmpty_def)

end
