(* ===== verification/Garnet_RoutingUnit.thy ===== *)
theory Garnet_RoutingUnit
  imports Garnet_VC "HOL-Library.AList"
begin

text \<open>
  Route computation: RoutingUnit.hh/cc. The routing table has, per virtual network, one
  destination set per output link, and a weight per output link. \<open>rand()\<close> is the argument
  \<open>rnd\<close>, the non-negative number the call returns. The two direction maps that the code only
  writes (\<open>m_inports_*\<close>, \<open>m_outports_idx2dirn\<close>) are kept as it keeps them. Reading
  \<open>m_outports_dirn2idx\<close> with \<open>operator[]\<close> gives 0 for a missing direction; that it also adds the
  missing key with the value 0 changes no later answer and is not recorded.
\<close>

section \<open>Definitions\<close>

type_synonym PortDirection = string

record RoutingUnit =
  m_routing_table :: "net_dest list list"
  m_weight_table :: "int list"
  m_inports_dirn2idx :: "(PortDirection \<times> int) list"
  m_inports_idx2dirn :: "(int \<times> PortDirection) list"
  m_outports_idx2dirn :: "(int \<times> PortDirection) list"
  m_outports_dirn2idx :: "(PortDirection \<times> int) list"

definition RoutingUnit_new :: RoutingUnit where
  "RoutingUnit_new =
     \<lparr>m_routing_table = [], m_weight_table = [], m_inports_dirn2idx = [], m_inports_idx2dirn = [],
      m_outports_idx2dirn = [], m_outports_dirn2idx = []\<rparr>"

definition RoutingUnit_addRoute :: "net_dest list \<Rightarrow> RoutingUnit \<Rightarrow> RoutingUnit" where
  "RoutingUnit_addRoute entry u =
     (let t = (if length (m_routing_table u) < length entry
               then vresize [] (length entry) (m_routing_table u) else m_routing_table u) in
      u\<lparr>m_routing_table :=
          map (\<lambda>(v, row). if v < length entry then row @ [entry ! v] else row)
            (zip [0..<length t] t)\<rparr>)"

definition RoutingUnit_addWeight :: "int \<Rightarrow> RoutingUnit \<Rightarrow> RoutingUnit" where
  "RoutingUnit_addWeight link_weight u = u\<lparr>m_weight_table := m_weight_table u @ [link_weight]\<rparr>"

definition supportsVnet :: "int \<Rightarrow> int list \<Rightarrow> bool" where
  "supportsVnet vnet sVnets = (if length sVnets = 0 then True else vnet \<in> set sVnets)"

definition RoutingUnit_addInDirection :: "PortDirection \<Rightarrow> int \<Rightarrow> RoutingUnit \<Rightarrow> RoutingUnit" where
  "RoutingUnit_addInDirection dirn idx u =
     u\<lparr>m_inports_dirn2idx := AList.update dirn idx (m_inports_dirn2idx u),
       m_inports_idx2dirn := AList.update idx dirn (m_inports_idx2dirn u)\<rparr>"

definition RoutingUnit_addOutDirection :: "PortDirection \<Rightarrow> int \<Rightarrow> RoutingUnit \<Rightarrow> RoutingUnit" where
  "RoutingUnit_addOutDirection dirn idx u =
     u\<lparr>m_outports_dirn2idx := AList.update dirn idx (m_outports_dirn2idx u),
       m_outports_idx2dirn := AList.update idx dirn (m_outports_idx2dirn u)\<rparr>"

fun min_weight :: "net_dest \<Rightarrow> net_dest list \<Rightarrow> int list \<Rightarrow> int list \<Rightarrow> int \<Rightarrow> int res" where
  "min_weight dest row ws [] mw = Inr mw"
| "min_weight dest row ws (link # links) mw =
     rbind (vget row link) (\<lambda>entry.
     rbind (NetDest_intersectionIsNotEmpty entry dest) (\<lambda>b.
     if b then
       rbind (vget ws link) (\<lambda>w. min_weight dest row ws links (if w \<le> mw then w else mw))
     else min_weight dest row ws links mw))"

fun candidates :: "net_dest \<Rightarrow> net_dest list \<Rightarrow> int list \<Rightarrow> int \<Rightarrow> int list \<Rightarrow> int list res" where
  "candidates dest row ws mw [] = Inr []"
| "candidates dest row ws mw (link # links) =
     rbind (vget row link) (\<lambda>entry.
     rbind (NetDest_intersectionIsNotEmpty entry dest) (\<lambda>b.
     rbind (if b then rbind (vget ws link) (\<lambda>w. Inr (w = mw)) else Inr False) (\<lambda>hit.
     rbind (candidates dest row ws mw links) (\<lambda>ls. Inr (if hit then link # ls else ls)))))"

definition lookupRoutingTable :: "net_params \<Rightarrow> RoutingUnit \<Rightarrow> int \<Rightarrow> int \<Rightarrow> net_dest \<Rightarrow> int res" where
  "lookupRoutingTable net u rnd vnet dest =
     rbind (vget (m_routing_table u) vnet) (\<lambda>row.
     let links = [0..int (length row) - 1] in
     rbind (min_weight dest row (m_weight_table u) links INFINITE) (\<lambda>mw.
     rbind (candidates dest row (m_weight_table u) mw links) (\<lambda>cands.
     rbind (check Fatal (cands \<noteq> [])) (\<lambda>_.
     rbind (isVNetOrdered net vnet) (\<lambda>ordered.
     vget cands (if ordered then 0 else rnd mod int (length cands)))))))"

text \<open>Router ids are not negative, so the code's \<open>%\<close> and \<open>/\<close> are \<open>mod\<close> and \<open>div\<close>.\<close>

definition XY_direction :: "net_params \<Rightarrow> int \<Rightarrow> int \<Rightarrow> PortDirection \<Rightarrow> PortDirection res" where
  "XY_direction net my_id dest_id inport_dirn =
     (let num_rows = m_num_rows net; num_cols = m_num_cols net in
      rbind (check Assertion (0 < num_rows \<and> 0 < num_cols)) (\<lambda>_.
      let my_x = my_id mod num_cols; my_y = my_id div num_cols;
          dest_x = dest_id mod num_cols; dest_y = dest_id div num_cols;
          x_hops = \<bar>dest_x - my_x\<bar>; y_hops = \<bar>dest_y - my_y\<bar>;
          x_dirn = (my_x \<le> dest_x); y_dirn = (my_y \<le> dest_y) in
      rbind (check Assertion (\<not> (x_hops = 0 \<and> y_hops = 0))) (\<lambda>_.
      if 0 < x_hops then
        if x_dirn then
          rbind (check Assertion (inport_dirn = ''Local'' \<or> inport_dirn = ''West'')) (\<lambda>_. Inr ''East'')
        else
          rbind (check Assertion (inport_dirn = ''Local'' \<or> inport_dirn = ''East'')) (\<lambda>_. Inr ''West'')
      else if 0 < y_hops then
        if y_dirn then rbind (check Assertion (inport_dirn \<noteq> ''North'')) (\<lambda>_. Inr ''North'')
        else rbind (check Assertion (inport_dirn \<noteq> ''South'')) (\<lambda>_. Inr ''South'')
      else Inl Panic)))"

definition outportComputeXY :: "net_params \<Rightarrow> RoutingUnit \<Rightarrow> int \<Rightarrow> RouteInfo \<Rightarrow> int \<Rightarrow> PortDirection \<Rightarrow> int res" where
  "outportComputeXY net u my_id route inport inport_dirn =
     rbind (XY_direction net my_id (dest_router route) inport_dirn) (\<lambda>outport_dirn.
     Inr (case map_of (m_outports_dirn2idx u) outport_dirn of None \<Rightarrow> 0 | Some i \<Rightarrow> i))"

definition outportComputeCustom :: "RouteInfo \<Rightarrow> int \<Rightarrow> PortDirection \<Rightarrow> int res" where
  "outportComputeCustom route inport inport_dirn = Inl Panic"

definition outportCompute ::
    "net_params \<Rightarrow> RoutingUnit \<Rightarrow> int \<Rightarrow> int \<Rightarrow> RouteInfo \<Rightarrow> int \<Rightarrow> PortDirection \<Rightarrow> int res" where
  "outportCompute net u my_id rnd route inport inport_dirn =
     (if dest_router route = my_id then lookupRoutingTable net u rnd (ri_vnet route) (net_dest_of route)
      else
        rbind (if m_routing_algorithm net = 0 then
                 lookupRoutingTable net u rnd (ri_vnet route) (net_dest_of route)
               else if m_routing_algorithm net = 1 then outportComputeXY net u my_id route inport inport_dirn
               else if m_routing_algorithm net = 2 then outportComputeCustom route inport inport_dirn
               else lookupRoutingTable net u rnd (ri_vnet route) (net_dest_of route)) (\<lambda>outport.
        rbind (check Assertion (outport \<noteq> -1)) (\<lambda>_. Inr outport)))"

section \<open>Table lookup\<close>

text \<open>
  The links of a row that lead to a destination of the message, and a table whose entries and
  weights fit together.
\<close>

definition leads_to :: "net_dest \<Rightarrow> net_dest list \<Rightarrow> int \<Rightarrow> bool" where
  "leads_to dest row i =
     (0 \<le> i \<and> i < int (length row) \<and> NetDest_elems dest \<inter> NetDest_elems (row ! nat i) \<noteq> {})"

definition row_ok :: "nat \<Rightarrow> net_dest \<Rightarrow> net_dest list \<Rightarrow> int list \<Rightarrow> bool" where
  "row_ok nb dest row ws =
     (length row \<le> length ws \<and> (\<forall>entry\<in>set row. NetDest_compat nb dest entry))"

lemma probe_row:
  assumes "row_ok nb dest row ws" "0 \<le> i" "i < int (length row)"
  shows "vget row i = Inr (row ! nat i)" "vget ws i = Inr (ws ! nat i)"
    "NetDest_intersectionIsNotEmpty (row ! nat i) dest = Inr (leads_to dest row i)"
proof -
  have "row ! nat i \<in> set row" using assms by simp
  then have "NetDest_compat nb dest (row ! nat i)" using assms(1) by (simp add: row_ok_def)
  then show "NetDest_intersectionIsNotEmpty (row ! nat i) dest = Inr (leads_to dest row i)"
    using assms by (simp add: NetDest_intersectionIsNotEmpty_iff leads_to_def)
qed (use assms in \<open>auto simp: row_ok_def vget_def\<close>)

lemma min_weight_eq:
  assumes "row_ok nb dest row ws" "\<forall>i\<in>set links. 0 \<le> i \<and> i < int (length row)"
  shows "min_weight dest row ws links mw =
    Inr (fold (\<lambda>i m. min (ws ! nat i) m) (filter (leads_to dest row) links) mw)"
  using assms(2)
proof (induction links arbitrary: mw)
  case Nil
  then show ?case by simp
next
  case (Cons i links)
  then show ?case using probe_row [OF assms(1), of i] by (simp add: min_def)
qed

lemma candidates_eq:
  assumes "row_ok nb dest row ws" "\<forall>i\<in>set links. 0 \<le> i \<and> i < int (length row)"
  shows "candidates dest row ws mw links =
    Inr (filter (\<lambda>i. leads_to dest row i \<and> ws ! nat i = mw) links)"
  using assms(2)
proof (induction links)
  case Nil
  then show ?case by simp
next
  case (Cons i links)
  then show ?case using probe_row [OF assms(1), of i] by simp
qed

lemma fold_min:
  "fold (\<lambda>i m. min (w i) m) xs init \<le> init" "i \<in> set xs \<Longrightarrow> fold (\<lambda>i m. min (w i) m) xs init \<le> w i"
  "fold (\<lambda>i m. min (w i) m) xs init = init \<or> (\<exists>i\<in>set xs. fold (\<lambda>i m. min (w i) m) xs init = w i)"
  for w :: "'i \<Rightarrow> int"
proof (induction xs arbitrary: init)
  case (Cons x xs)
  { case 1 show ?case using Cons(1) [of "min (w x) init"] by simp }
  { case 2 then show ?case using Cons(1) [of "min (w x) init"] Cons(2) [of "min (w x) init"] by auto }
  { case 3 show ?case using Cons(3) [of "min (w x) init"] by (auto simp: min_def split: if_splits) }
qed auto

text \<open>The least weight among the links that lead to the destination, as a choice of links.\<close>

definition best_links :: "net_dest \<Rightarrow> net_dest list \<Rightarrow> int list \<Rightarrow> int list" where
  "best_links dest row ws =
     filter (\<lambda>i. leads_to dest row i \<and> ws ! nat i \<le> INFINITE \<and>
         (\<forall>j\<in>set [0..int (length row) - 1]. leads_to dest row j \<longrightarrow> ws ! nat i \<le> ws ! nat j))
       [0..int (length row) - 1]"

lemma lookup_candidates:
  assumes "row_ok nb dest row ws"
  shows "rbind (min_weight dest row ws [0..int (length row) - 1] INFINITE) (\<lambda>mw.
      candidates dest row ws mw [0..int (length row) - 1]) = Inr (best_links dest row ws)"
proof -
  let ?ls = "[0..int (length row) - 1]"
  have r: "\<forall>i\<in>set ?ls. 0 \<le> i \<and> i < int (length row)" by auto
  define mw where "mw = fold (\<lambda>i m. min (ws ! nat i) m) (filter (leads_to dest row) ?ls) INFINITE"
  note mw = fold_min [where w = "\<lambda>i. ws ! nat i" and xs = "filter (leads_to dest row) ?ls" and init = INFINITE,
      folded mw_def]
  have "ws ! nat i = mw \<longleftrightarrow> ws ! nat i \<le> INFINITE \<and> (\<forall>j\<in>set ?ls. leads_to dest row j \<longrightarrow> ws ! nat i \<le> ws ! nat j)"
    if "i \<in> set ?ls" "leads_to dest row i" for i
  proof
    assume "ws ! nat i = mw"
    then show "ws ! nat i \<le> INFINITE \<and> (\<forall>j\<in>set ?ls. leads_to dest row j \<longrightarrow> ws ! nat i \<le> ws ! nat j)"
      using mw(1) mw(2) by simp
  next
    assume low: "ws ! nat i \<le> INFINITE \<and> (\<forall>j\<in>set ?ls. leads_to dest row j \<longrightarrow> ws ! nat i \<le> ws ! nat j)"
    have "mw \<le> ws ! nat i" using mw(2) [of i] that by simp
    moreover have "ws ! nat i \<le> mw" using mw(3) low by auto
    ultimately show "ws ! nat i = mw" by simp
  qed
  then have "filter (\<lambda>i. leads_to dest row i \<and> ws ! nat i = mw) ?ls = best_links dest row ws"
    unfolding best_links_def by (intro filter_cong) auto
  then show ?thesis using min_weight_eq [OF assms r] candidates_eq [OF assms r] by (simp add: mw_def)
qed

lemma leads_to_range: "leads_to dest row i \<Longrightarrow> 0 \<le> i \<and> i < int (length row)"
  by (simp add: leads_to_def)

lemma best_links_iff:
  "i \<in> set (best_links dest row ws) \<longleftrightarrow>
     leads_to dest row i \<and> ws ! nat i \<le> INFINITE \<and> (\<forall>j. leads_to dest row j \<longrightarrow> ws ! nat i \<le> ws ! nat j)"
proof -
  have "(\<forall>j\<in>set [0..int (length row) - 1]. leads_to dest row j \<longrightarrow> P j) \<longleftrightarrow> (\<forall>j. leads_to dest row j \<longrightarrow> P j)" for P
    using leads_to_range [of dest row] by auto
  then show ?thesis using leads_to_range [of dest row i] by (auto simp: best_links_def)
qed

lemma best_links_empty:
  assumes "best_links dest row ws = []" "leads_to dest row j"
  shows "INFINITE < ws ! nat j"
proof (rule ccontr)
  assume low: "\<not> INFINITE < ws ! nat j"
  let ?L = "filter (leads_to dest row) [0..int (length row) - 1]"
  have ne: "?L \<noteq> []" using assms(2) by (auto simp: filter_empty_conv leads_to_def)
  define k where "k = arg_min_list (\<lambda>i. ws ! nat i) ?L"
  have k: "k \<in> set ?L" unfolding k_def by (rule arg_min_list_in [OF ne])
  have m: "ws ! nat k = Min ((\<lambda>i. ws ! nat i) ` set ?L)"
    using f_arg_min_list_f [OF ne, of "\<lambda>i. ws ! nat i"] unfolding k_def .
  have least: "ws ! nat k \<le> ws ! nat i" if "leads_to dest row i" for i
    unfolding m by (rule Min_le, rule finite_imageI, rule finite_set, rule imageI)
      (use leads_to_range [OF that] that in simp)
  have "k \<in> set (best_links dest row ws)"
    unfolding best_links_iff using k least least [OF assms(2)] low by auto
  then show False using assms(1) by simp
qed

lemma sorted_hd_le: "sorted xs \<Longrightarrow> x \<in> set xs \<Longrightarrow> hd xs \<le> x"
  by (cases xs) auto

lemma best_links_hd: "j \<in> set (best_links dest row ws) \<Longrightarrow> hd (best_links dest row ws) \<le> j"
  by (rule sorted_hd_le) (simp_all add: best_links_def sorted_wrt_filter del: set_upto)

lemma lookupRoutingTable_eq:
  assumes "row_ok nb dest (m_routing_table u ! nat vnet) (m_weight_table u)"
    and "0 \<le> vnet" "vnet < int (length (m_routing_table u))" "vnet < int (length (m_ordered net))"
  shows "lookupRoutingTable net u rnd vnet dest =
    (let bs = best_links dest (m_routing_table u ! nat vnet) (m_weight_table u) in
     if bs = [] then Inl Fatal
     else Inr (if m_ordered net ! nat vnet then hd bs else bs ! nat (rnd mod int (length bs))))"
proof -
  let ?row = "m_routing_table u ! nat vnet"
  let ?bs = "best_links dest ?row (m_weight_table u)"
  have "lookupRoutingTable net u rnd vnet dest =
      rbind (rbind (min_weight dest ?row (m_weight_table u) [0..int (length ?row) - 1] INFINITE) (\<lambda>mw.
        candidates dest ?row (m_weight_table u) mw [0..int (length ?row) - 1])) (\<lambda>cands.
      rbind (check Fatal (cands \<noteq> [])) (\<lambda>_.
      rbind (isVNetOrdered net vnet) (\<lambda>ordered.
      vget cands (if ordered then 0 else rnd mod int (length cands)))))"
    using assms by (simp add: lookupRoutingTable_def vget_ok rbind_assoc Let_def)
  also have "\<dots> = rbind (check Fatal (?bs \<noteq> [])) (\<lambda>_.
      vget ?bs (if m_ordered net ! nat vnet then 0 else rnd mod int (length ?bs)))"
    using assms by (simp add: lookup_candidates [OF assms(1)] isVNetOrdered_def vget_ok)
  also have "\<dots> = (if ?bs = [] then Inl Fatal
      else Inr (if m_ordered net ! nat vnet then hd ?bs else ?bs ! nat (rnd mod int (length ?bs))))"
    by (cases "?bs = []") (simp_all add: vget_def check_def hd_conv_nth)
  finally show ?thesis by (simp add: Let_def)
qed

text \<open>
  C12. Table routing picks a best link. For a destination and a table row of the same machine
  configuration, \<open>lookupRoutingTable\<close> either returns an output link whose destination set meets
  the destination and whose weight is least among all such links (for an ordered virtual network
  the first one of that weight, so that all packets take the same link), or aborts with \<open>fatal\<close>,
  which happens only if every link towards the destination is heavier than \<open>INFINITE_\<close>.
\<close>

theorem lookup_least_weight_link:
  assumes "row_ok nb dest (m_routing_table u ! nat vnet) (m_weight_table u)"
    and "0 \<le> vnet" "vnet < int (length (m_routing_table u))" "vnet < int (length (m_ordered net))"
  shows "case lookupRoutingTable net u rnd vnet dest of
      Inr link \<Rightarrow> leads_to dest (m_routing_table u ! nat vnet) link \<and>
        (\<forall>j. leads_to dest (m_routing_table u ! nat vnet) j \<longrightarrow>
           m_weight_table u ! nat link < m_weight_table u ! nat j \<or>
           m_weight_table u ! nat link = m_weight_table u ! nat j \<and> (m_ordered net ! nat vnet \<longrightarrow> link \<le> j))
    | Inl e \<Rightarrow> e = Fatal \<and>
        (\<forall>j. leads_to dest (m_routing_table u ! nat vnet) j \<longrightarrow> INFINITE < m_weight_table u ! nat j)"
proof -
  let ?row = "m_routing_table u ! nat vnet" and ?ws = "m_weight_table u"
  define bs where "bs = best_links dest ?row ?ws"
  show ?thesis
  proof (cases "bs = []")
    case True
    then show ?thesis using lookupRoutingTable_eq [OF assms] best_links_empty [of dest ?row ?ws]
      by (simp add: bs_def [symmetric])
  next
    case False
    define link where "link = (if m_ordered net ! nat vnet then hd bs else bs ! nat (rnd mod int (length bs)))"
    have eq: "lookupRoutingTable net u rnd vnet dest = Inr link"
      using lookupRoutingTable_eq [OF assms] False by (simp add: bs_def [symmetric] link_def)
    have m: "link \<in> set bs" using False by (simp add: link_def nat_less_iff)
    then have least: "leads_to dest ?row link" "\<forall>j. leads_to dest ?row j \<longrightarrow> ?ws ! nat link \<le> ?ws ! nat j"
      and low: "?ws ! nat link \<le> INFINITE" by (auto simp: bs_def best_links_iff)
    have "link \<le> j" if "m_ordered net ! nat vnet" "leads_to dest ?row j" "?ws ! nat link = ?ws ! nat j" for j
    proof -
      have "j \<in> set bs" using that least low by (simp add: bs_def best_links_iff)
      then show ?thesis using best_links_hd [of j dest ?row ?ws] that(1) by (simp add: bs_def link_def)
    qed
    then show ?thesis using eq least by (auto simp: order_less_le)
  qed
qed

section \<open>XY routing reaches the destination\<close>

text \<open>
  The mesh the XY algorithm is written for: router \<open>y * cols + x\<close> at column \<open>x\<close> and row \<open>y\<close>; a flit
  that leaves to the east arrives from the west, and so on. \<open>xy_walk\<close> follows the direction
  that the code computes at each router, up to \<open>n\<close> hops, and returns the routers it visited.
\<close>

definition xy_hop :: "int \<Rightarrow> PortDirection \<Rightarrow> int \<Rightarrow> int \<times> PortDirection" where
  "xy_hop cols d r =
     (if d = ''East'' then (r + 1, ''West'')
      else if d = ''West'' then (r - 1, ''East'')
      else if d = ''North'' then (r + cols, ''South'')
      else (r - cols, ''North''))"

fun xy_walk :: "net_params \<Rightarrow> int \<Rightarrow> nat \<Rightarrow> int \<Rightarrow> PortDirection \<Rightarrow> int list res" where
  "xy_walk net dest 0 r inport = Inr [r]"
| "xy_walk net dest (Suc n) r inport =
     (if r = dest then Inr [r]
      else rbind (XY_direction net r dest inport) (\<lambda>d.
        rbind (xy_walk net dest n (fst (xy_hop (m_num_cols net) d r)) (snd (xy_hop (m_num_cols net) d r)))
          (\<lambda>rs. Inr (r # rs))))"

definition mesh_distance :: "int \<Rightarrow> int \<Rightarrow> int \<Rightarrow> nat" where
  "mesh_distance cols r dest =
     nat (\<bar>dest mod cols - r mod cols\<bar> + \<bar>dest div cols - r div cols\<bar>)"

text \<open>The input ports at which a flit can arrive on its XY path.\<close>

definition xy_inport_ok :: "int \<Rightarrow> int \<Rightarrow> int \<Rightarrow> PortDirection \<Rightarrow> bool" where
  "xy_inport_ok cols r dest inport =
     (inport = ''Local'' \<or>
      inport = ''West'' \<and> r mod cols \<le> dest mod cols \<or>
      inport = ''East'' \<and> dest mod cols \<le> r mod cols \<or>
      inport = ''South'' \<and> r mod cols = dest mod cols \<and> r div cols \<le> dest div cols \<or>
      inport = ''North'' \<and> r mod cols = dest mod cols \<and> dest div cols \<le> r div cols)"

lemma mesh_coords:
  fixes y :: int
  assumes "0 < cols" "0 \<le> x" "x < cols"
  shows "(y * cols + x) mod cols = x" "(y * cols + x) div cols = y"
  using assms by simp_all

lemma xy_step:
  assumes pos: "0 < m_num_rows net" "0 < m_num_cols net" and r: "0 \<le> r" "r \<noteq> dest" "0 \<le> dest"
    and inport: "xy_inport_ok (m_num_cols net) r dest inport"
  shows "\<exists>d. XY_direction net r dest inport = Inr d \<and>
    0 \<le> fst (xy_hop (m_num_cols net) d r) \<and>
    xy_inport_ok (m_num_cols net) (fst (xy_hop (m_num_cols net) d r)) dest (snd (xy_hop (m_num_cols net) d r)) \<and>
    mesh_distance (m_num_cols net) r dest =
      Suc (mesh_distance (m_num_cols net) (fst (xy_hop (m_num_cols net) d r)) dest)"
proof -
  define c x y u v where "c = m_num_cols net" and "x = r mod c" and "y = r div c"
    and "u = dest mod c" and "v = dest div c"
  have c: "0 < c" using pos by (simp add: c_def)
  have xy: "0 \<le> x" "x < c" "0 \<le> y" "0 \<le> u" "u < c" "0 \<le> v"
    using c r by (auto simp: x_def y_def u_def v_def pos_imp_zdiv_nonneg_iff)
  have rr: "r = y * c + x" and dd: "dest = v * c + u" by (simp_all add: x_def y_def u_def v_def)
  have ne: "x \<noteq> u \<or> y \<noteq> v" using r rr dd by auto
  have shift: "r + 1 = y * c + (x + 1)" "r - 1 = y * c + (x - 1)" "r + c = (y + 1) * c + x" "r - c = (y - 1) * c + x"
    using rr by (simp_all add: algebra_simps)
  have moves: "x < u \<Longrightarrow> (r + 1) mod c = x + 1 \<and> (r + 1) div c = y"
    "u < x \<Longrightarrow> (r - 1) mod c = x - 1 \<and> (r - 1) div c = y"
    "(r + c) mod c = x \<and> (r + c) div c = y + 1" "(r - c) mod c = x \<and> (r - c) div c = y - 1"
    unfolding shift using xy by (simp_all only: mesh_coords [OF c])
  have yc: "0 \<le> y * c" "v < y \<Longrightarrow> 1 * c \<le> y * c" using xy c by (simp, intro mult_right_mono) auto
  have ge: "u < x \<Longrightarrow> 0 \<le> r - 1" "v < y \<Longrightarrow> 0 \<le> r - c" using yc rr xy by linarith+
  have dist: "mesh_distance c r dest = Suc (mesh_distance c r' dest)"
    if "\<bar>u - x\<bar> + \<bar>v - y\<bar> = 1 + (\<bar>u - r' mod c\<bar> + \<bar>v - r' div c\<bar>)" for r'
    using that by (simp add: mesh_distance_def u_def [symmetric] v_def [symmetric] x_def [symmetric]
        y_def [symmetric] Suc_nat_eq_nat_zadd1)
  have dir: "XY_direction net r dest inport =
      (if x < u then rbind (check Assertion (inport = ''Local'' \<or> inport = ''West'')) (\<lambda>_. Inr ''East'')
       else if u < x then rbind (check Assertion (inport = ''Local'' \<or> inport = ''East'')) (\<lambda>_. Inr ''West'')
       else if y < v then rbind (check Assertion (inport \<noteq> ''North'')) (\<lambda>_. Inr ''North'')
       else rbind (check Assertion (inport \<noteq> ''South'')) (\<lambda>_. Inr ''South''))"
    using pos ne by (auto simp: XY_direction_def Let_def c_def x_def y_def u_def v_def)
  have ip: "xy_inport_ok c r' dest i \<longleftrightarrow> i = ''Local'' \<or> i = ''West'' \<and> r' mod c \<le> u \<or> i = ''East'' \<and> u \<le> r' mod c \<or>
      i = ''South'' \<and> r' mod c = u \<and> r' div c \<le> v \<or> i = ''North'' \<and> r' mod c = u \<and> v \<le> r' div c" for r' i
    by (simp add: xy_inport_ok_def u_def v_def)
  note inp = inport [folded c_def, unfolded ip, folded x_def y_def]
  consider "x < u" | "u < x" | "x = u" "y < v" | "x = u" "v < y" using ne by linarith
  then show ?thesis
  proof cases
    case 1
    then have "XY_direction net r dest inport = Inr ''East''" using inp dir by auto
    then show ?thesis using 1 moves(1) r xy by (simp add: c_def [symmetric] dist ip xy_hop_def)
  next
    case 2
    then have "XY_direction net r dest inport = Inr ''West''" using inp dir by auto
    then show ?thesis using 2 moves(2) ge(1) by (simp add: c_def [symmetric] dist ip xy_hop_def)
  next
    case 3
    then have "XY_direction net r dest inport = Inr ''North''" using inp dir by auto
    then show ?thesis using 3 moves(3) r xy c by (simp add: c_def [symmetric] dist ip xy_hop_def)
  next
    case 4
    then have "XY_direction net r dest inport = Inr ''South''" using inp dir by auto
    then show ?thesis using 4 moves(4) ge(2) by (simp add: c_def [symmetric] dist ip xy_hop_def)
  qed
qed

lemma mesh_distance_0: "mesh_distance c r dest = 0 \<longleftrightarrow> r = dest"
proof
  assume "mesh_distance c r dest = 0"
  then have "r mod c = dest mod c" "r div c = dest div c" by (auto simp: mesh_distance_def)
  then show "r = dest" by (metis div_mult_mod_eq)
qed (simp add: mesh_distance_def)

lemma xy_walk_ok:
  assumes pos: "0 < m_num_rows net" "0 < m_num_cols net" "0 \<le> dest"
    and "0 \<le> r" "xy_inport_ok (m_num_cols net) r dest inport" "mesh_distance (m_num_cols net) r dest = n"
  shows "\<exists>path. xy_walk net dest n r inport = Inr path \<and> path \<noteq> [] \<and> last path = dest \<and>
    map (\<lambda>r. mesh_distance (m_num_cols net) r dest) path = rev [0..<Suc n]"
  using assms(4-)
proof (induction n arbitrary: r inport)
  case 0
  then show ?case by (simp add: mesh_distance_0)
next
  case (Suc n)
  let ?c = "m_num_cols net"
  have ne: "r \<noteq> dest" using Suc.prems(3) mesh_distance_0 [of ?c r dest] by auto
  from xy_step [OF pos(1,2) Suc.prems(1) ne pos(3) Suc.prems(2)] obtain d where
    d: "XY_direction net r dest inport = Inr d" and nxt:
      "0 \<le> fst (xy_hop ?c d r)" "xy_inport_ok ?c (fst (xy_hop ?c d r)) dest (snd (xy_hop ?c d r))"
      "mesh_distance ?c r dest = Suc (mesh_distance ?c (fst (xy_hop ?c d r)) dest)"
    by blast
  then obtain path where "xy_walk net dest n (fst (xy_hop ?c d r)) (snd (xy_hop ?c d r)) = Inr path"
      "path \<noteq> []" "last path = dest" "map (\<lambda>r. mesh_distance ?c r dest) path = rev [0..<Suc n]"
    using Suc.IH [of "fst (xy_hop ?c d r)" "snd (xy_hop ?c d r)"] Suc.prems(3) by auto
  then show ?case using d ne Suc.prems(3) by (intro exI [of _ "r # path"]) simp
qed

text \<open>
  C11. XY routing delivers. In a mesh, following the direction that \<open>outportComputeXY\<close> computes at
  each router, from any router where a flit was injected to any destination, no assertion of the
  algorithm fails, every hop comes one step closer, and the walk ends at the destination after
  as many hops as the two routers are apart (so it is a shortest path and visits no router twice).
\<close>

theorem xy_routing_delivers:
  assumes "0 < m_num_rows net" "0 < m_num_cols net" "0 \<le> src" "0 \<le> dest"
  shows "\<exists>path. xy_walk net dest (mesh_distance (m_num_cols net) src dest) src ''Local'' = Inr path \<and>
    path \<noteq> [] \<and> last path = dest \<and>
    map (\<lambda>r. mesh_distance (m_num_cols net) r dest) path =
      rev [0..<Suc (mesh_distance (m_num_cols net) src dest)]"
  by (rule xy_walk_ok) (use assms in \<open>simp_all add: xy_inport_ok_def\<close>)

definition mesh_2x3 :: net_params where
  "mesh_2x3 =
     \<lparr>m_num_rows = 2, m_num_cols = 3, m_ni_flit_size = 16, m_max_vcs_per_vnet = 4,
      m_buffers_per_ctrl_vc = 1, m_buffers_per_data_vc = 4, m_routing_algorithm = 1,
      m_virtual_networks = 2, m_vnet_type = [CTRL_VNET, DATA_VNET], m_ordered = [True, False]\<rparr>"

theorem xy_routing_delivers_witness:
  "\<exists>path. xy_walk mesh_2x3 5 3 0 ''Local'' = Inr path \<and> path \<noteq> [] \<and> last path = 5 \<and>
    map (\<lambda>r. mesh_distance 3 r 5) path = rev [0..<4]"
  using xy_routing_delivers [of mesh_2x3 0 5] by (simp add: mesh_2x3_def mesh_distance_def)

text \<open>A table row with three links: the first and the third lead to the destination.\<close>

definition demo_dest :: net_dest where
  "demo_dest = \<lparr>m_bits = [\<lparr>m_nSize = 2, bits = [True, False]\<rparr>]\<rparr>"

definition demo_ru :: RoutingUnit where
  "demo_ru = RoutingUnit_new
     \<lparr>m_routing_table := [[demo_dest, \<lparr>m_bits = [\<lparr>m_nSize = 2, bits = [False, True]\<rparr>]\<rparr>, demo_dest]],
      m_weight_table := [2, 1, 2]\<rparr>"

theorem lookup_least_weight_link_witness:
  "lookupRoutingTable mesh_2x3 demo_ru 7 0 demo_dest = Inr 0 \<and>
   leads_to demo_dest (m_routing_table demo_ru ! nat 0) 0 \<and>
   leads_to demo_dest (m_routing_table demo_ru ! nat 0) 2 \<and>
   (m_weight_table demo_ru ! nat 0 < m_weight_table demo_ru ! nat 2 \<or>
    m_weight_table demo_ru ! nat 0 = m_weight_table demo_ru ! nat 2 \<and> (0::int) \<le> 2)"
proof -
  have "row_ok 2 demo_dest (m_routing_table demo_ru ! nat 0) (m_weight_table demo_ru)"
    by (auto simp: row_ok_def demo_ru_def demo_dest_def NetDest_compat_def Set_compat_def Set_wf_def Set_elems_def)
  moreover have "lookupRoutingTable mesh_2x3 demo_ru 7 0 demo_dest = Inr 0" by code_simp
  moreover have "leads_to demo_dest (m_routing_table demo_ru ! nat 0) 2"
    by (auto simp: leads_to_def demo_ru_def demo_dest_def NetDest_elems_def Set_elems_def
        intro!: exI [of _ "\<lparr>mach_type = 0, mach_num = 0\<rparr>"])
  ultimately show ?thesis
    using lookup_least_weight_link [of 2 demo_dest demo_ru 0 mesh_2x3 7]
    by (auto simp: demo_ru_def mesh_2x3_def)
qed

end
