(* ===== verification/Garnet_OutputUnit.thy ===== *)
theory Garnet_OutputUnit
  imports Garnet_NetworkLink Garnet_RoutingUnit
begin

text \<open>
  The output unit of a router: OutputUnit.hh/cc. It tracks the state of the input virtual
  channels at the other end of its link, takes back credits, and holds the flits that wait for
  the link. Links are referred to by their index; the credit link, which the wake-up reads, is an
  argument. Also here: the parameters of a router (Router.hh) that its units read through their
  pointer to the router.
\<close>

section \<open>Definitions\<close>

record router_cfg =
  r_id :: int
  r_latency :: cycles
  r_virtual_networks :: u32
  r_vc_per_vnet :: u32
  r_num_vcs :: u32
  r_bit_width :: u32

record OutputUnit =
  ou_id :: int
  ou_direction :: PortDirection
  ou_vc_per_vnet :: int
  m_out_link :: int
  ou_credit_link :: int
  outBuffer :: flitBuffer
  outVcState :: "OutVcState list"

definition OutputUnit_new ::
    "net_params \<Rightarrow> router_cfg \<Rightarrow> int \<Rightarrow> PortDirection \<Rightarrow> u32 \<Rightarrow> int \<Rightarrow> int \<Rightarrow> OutputUnit res" where
  "OutputUnit_new net cfg i direction consumerVcs out_link credit_link =
     rbind (map_res (OutVcState_new net consumerVcs)
              [0..sint (consumerVcs * r_virtual_networks cfg) - 1]) (\<lambda>states.
     Inr \<lparr>ou_id = i, ou_direction = direction, ou_vc_per_vnet = sint consumerVcs,
          m_out_link = out_link, ou_credit_link = credit_link, outBuffer = flitBuffer_new,
          outVcState = states\<rparr>)"

definition OutputUnit_decrement_credit :: "int \<Rightarrow> OutputUnit \<Rightarrow> OutputUnit res" where
  "OutputUnit_decrement_credit out_vc ou =
     rbind (vmod (outVcState ou) out_vc OutVcState_decrement_credit) (\<lambda>s. Inr (ou\<lparr>outVcState := s\<rparr>))"

definition OutputUnit_increment_credit :: "int \<Rightarrow> OutputUnit \<Rightarrow> OutputUnit res" where
  "OutputUnit_increment_credit out_vc ou =
     rbind (vmod (outVcState ou) out_vc OutVcState_increment_credit) (\<lambda>s. Inr (ou\<lparr>outVcState := s\<rparr>))"

definition OutputUnit_has_credit :: "tick \<Rightarrow> int \<Rightarrow> OutputUnit \<Rightarrow> bool res" where
  "OutputUnit_has_credit now out_vc ou =
     rbind (vget (outVcState ou) out_vc) (\<lambda>s.
     rbind (check Assertion (OutVcState_isInState ACTIVE now s)) (\<lambda>_. Inr (OutVcState_has_credit s)))"

definition is_vc_idle :: "tick \<Rightarrow> OutputUnit \<Rightarrow> int \<Rightarrow> bool res" where
  "is_vc_idle now ou vc =
     rbind (vget (outVcState ou) vc) (\<lambda>s. Inr (OutVcState_isInState IDLE now s))"

definition vcs_of_vnet :: "int \<Rightarrow> OutputUnit \<Rightarrow> int list" where
  "vcs_of_vnet vnet ou =
     (let vc_base = vnet * ou_vc_per_vnet ou in [vc_base..vc_base + ou_vc_per_vnet ou - 1])"

definition first_idle_vc :: "tick \<Rightarrow> int \<Rightarrow> OutputUnit \<Rightarrow> int option res" where
  "first_idle_vc now vnet ou =
     first_res (\<lambda>vc. rbind (is_vc_idle now ou vc) (\<lambda>b. Inr (if b then Some vc else None)))
       (vcs_of_vnet vnet ou)"

definition OutputUnit_has_free_vc :: "tick \<Rightarrow> int \<Rightarrow> OutputUnit \<Rightarrow> bool res" where
  "OutputUnit_has_free_vc now vnet ou = rbind (first_idle_vc now vnet ou) (\<lambda>r. Inr (r \<noteq> None))"

definition OutputUnit_select_free_vc :: "tick \<Rightarrow> int \<Rightarrow> OutputUnit \<Rightarrow> (int \<times> OutputUnit) res" where
  "OutputUnit_select_free_vc now vnet ou =
     rbind (first_idle_vc now vnet ou) (\<lambda>r.
     case r of
       Some vc \<Rightarrow>
         rbind (vmod (outVcState ou) vc (\<lambda>s. Inr (OutVcState_setState ACTIVE now s))) (\<lambda>s.
         Inr (vc, ou\<lparr>outVcState := s\<rparr>))
     | None \<Rightarrow> Inr (-1, ou))"

definition OutputUnit_set_vc_state :: "VC_state_type \<Rightarrow> int \<Rightarrow> tick \<Rightarrow> OutputUnit \<Rightarrow> OutputUnit res" where
  "OutputUnit_set_vc_state st vc curTime ou =
     rbind (vmod (outVcState ou) vc (\<lambda>s. Inr (OutVcState_setState st curTime s))) (\<lambda>s.
     Inr (ou\<lparr>outVcState := s\<rparr>))"

definition OutputUnit_take_credit :: "tick \<Rightarrow> flit \<Rightarrow> OutputUnit \<Rightarrow> OutputUnit res" where
  "OutputUnit_take_credit now t_credit ou =
     rbind (OutputUnit_increment_credit (m_vc t_credit) ou) (\<lambda>ou1.
     rbind (is_free_signal t_credit) (\<lambda>free.
     if free then OutputUnit_set_vc_state IDLE (m_vc t_credit) now ou1 else Inr ou1))"

definition OutputUnit_wakeup ::
    "router_cfg \<Rightarrow> tick \<Rightarrow> NetworkLink \<Rightarrow> OutputUnit \<Rightarrow> (OutputUnit \<times> NetworkLink \<times> wakes) res" where
  "OutputUnit_wakeup cfg now credit_link ou =
     (if NetworkLink_isReady now credit_link then
        rbind (NetworkLink_consumeLink credit_link) (\<lambda>(t_credit, credit_link').
        rbind (OutputUnit_take_credit now t_credit ou) (\<lambda>ou'.
        Inr (ou', credit_link',
          if NetworkLink_isReady now credit_link' then [(ToOutputUnit (r_id cfg) (ou_id ou), After 1)]
          else [])))
      else Inr (ou, credit_link, []))"

definition OutputUnit_insert_flit :: "tick \<Rightarrow> tick \<Rightarrow> flit \<Rightarrow> OutputUnit \<Rightarrow> OutputUnit \<times> wakes" where
  "OutputUnit_insert_flit p now f ou =
     (ou\<lparr>outBuffer := flitBuffer_insert f (outBuffer ou)\<rparr>, [(ToLink (m_out_link ou), At (edge_at p now 1))])"

definition OutputUnit_functionalRead ::
    "(message \<Rightarrow> 'pk \<Rightarrow> bool \<times> 'pk) \<Rightarrow> 'pk \<Rightarrow> OutputUnit \<Rightarrow> (bool \<times> 'pk) res" where
  "OutputUnit_functionalRead fr pk ou = flitBuffer_functionalRead fr pk (outBuffer ou)"

definition OutputUnit_functionalWrite ::
    "('pk \<Rightarrow> message \<Rightarrow> bool \<times> message) \<Rightarrow> 'pk \<Rightarrow> OutputUnit \<Rightarrow> (u32 \<times> OutputUnit) res" where
  "OutputUnit_functionalWrite fw pk ou =
     rbind (flitBuffer_functionalWrite fw pk (outBuffer ou)) (\<lambda>(n, b). Inr (n, ou\<lparr>outBuffer := b\<rparr>))"

section \<open>Free virtual channels\<close>

text \<open>The virtual channel \<open>vc\<close> of the unit exists and is idle now.\<close>

definition vc_idle :: "tick \<Rightarrow> OutputUnit \<Rightarrow> int \<Rightarrow> bool" where
  "vc_idle now ou vc =
     (0 \<le> vc \<and> vc < int (length (outVcState ou)) \<and> OutVcState_isInState IDLE now (outVcState ou ! nat vc))"

definition vnet_ok :: "int \<Rightarrow> OutputUnit \<Rightarrow> bool" where
  "vnet_ok vnet ou =
     (0 \<le> vnet \<and> 0 \<le> ou_vc_per_vnet ou \<and> (vnet + 1) * ou_vc_per_vnet ou \<le> int (length (outVcState ou)))"

lemma vcs_of_vnet_range:
  assumes "vnet_ok vnet ou" "vc \<in> set (vcs_of_vnet vnet ou)"
  shows "0 \<le> vc" "vc < int (length (outVcState ou))"
proof -
  have "0 \<le> vnet * ou_vc_per_vnet ou" "(vnet + 1) * ou_vc_per_vnet ou = vnet * ou_vc_per_vnet ou + ou_vc_per_vnet ou"
    using assms(1) by (simp_all add: vnet_ok_def distrib_right)
  moreover have "vnet * ou_vc_per_vnet ou \<le> vc" "vc \<le> vnet * ou_vc_per_vnet ou + ou_vc_per_vnet ou - 1"
    using assms(2) by (simp_all add: vcs_of_vnet_def Let_def)
  ultimately show "0 \<le> vc" "vc < int (length (outVcState ou))" using assms(1) unfolding vnet_ok_def by linarith+
qed

lemma is_vc_idle_eq: "0 \<le> vc \<Longrightarrow> vc < int (length (outVcState ou)) \<Longrightarrow> is_vc_idle now ou vc = Inr (vc_idle now ou vc)"
  by (simp add: is_vc_idle_def vc_idle_def vget_ok)

lemma first_idle_vc_eq:
  assumes "vnet_ok vnet ou"
  shows "first_idle_vc now vnet ou = Inr (find (vc_idle now ou) (vcs_of_vnet vnet ou))"
  unfolding first_idle_vc_def
  by (rule first_res_find) (simp add: is_vc_idle_eq vcs_of_vnet_range [OF assms] del: set_upto)

text \<open>
  \<open>has_free_vc\<close> and \<open>select_free_vc\<close> agree: a virtual channel is selected exactly when one is free;
  it is the first idle one of the virtual network, and only its state changes.
\<close>

lemma has_free_vc_eq:
  assumes "vnet_ok vnet ou"
  shows "OutputUnit_has_free_vc now vnet ou = Inr (\<exists>vc\<in>set (vcs_of_vnet vnet ou). vc_idle now ou vc)"
  using find_None_iff [of "vc_idle now ou" "vcs_of_vnet vnet ou"]
  by (simp add: OutputUnit_has_free_vc_def first_idle_vc_eq [OF assms] del: not_None_eq) blast

lemma select_free_vc_eq:
  assumes "vnet_ok vnet ou"
  shows "OutputUnit_select_free_vc now vnet ou =
    (case find (vc_idle now ou) (vcs_of_vnet vnet ou) of
       None \<Rightarrow> Inr (-1, ou)
     | Some vc \<Rightarrow> Inr (vc, ou\<lparr>outVcState := (outVcState ou)
          [nat vc := OutVcState_setState ACTIVE now (outVcState ou ! nat vc)]\<rparr>))"
proof (cases "find (vc_idle now ou) (vcs_of_vnet vnet ou)")
  case None
  then show ?thesis by (simp add: OutputUnit_select_free_vc_def first_idle_vc_eq [OF assms])
next
  case (Some vc)
  then have "vc_idle now ou vc" by (auto simp: find_Some_iff)
  then show ?thesis using Some
    by (simp add: OutputUnit_select_free_vc_def first_idle_vc_eq [OF assms] vc_idle_def vmod_ok)
qed

section \<open>Credits\<close>

lemma OutputUnit_decrement_eq_Inr [res_iff]:
  "OutputUnit_decrement_credit vc ou = Inr ou' \<longleftrightarrow>
     0 \<le> vc \<and> vc < int (length (outVcState ou)) \<and> 0 < m_credit_count (outVcState ou ! nat vc) \<and>
     ou' = ou\<lparr>outVcState := (outVcState ou)[nat vc := (outVcState ou ! nat vc)
       \<lparr>m_credit_count := m_credit_count (outVcState ou ! nat vc) - 1\<rparr>]\<rparr>"
  by (cases "0 \<le> vc \<and> vc < int (length (outVcState ou))"; cases "0 < m_credit_count (outVcState ou ! nat vc)")
    (simp_all add: OutputUnit_decrement_credit_def vmod_def vget_def vset_def
      OutVcState_decrement_credit_def check_def, safe)

lemma OutputUnit_increment_eq_Inr [res_iff]:
  "OutputUnit_increment_credit vc ou = Inr ou' \<longleftrightarrow>
     0 \<le> vc \<and> vc < int (length (outVcState ou)) \<and>
     m_credit_count (outVcState ou ! nat vc) < m_max_credit_count (outVcState ou ! nat vc) \<and>
     ou' = ou\<lparr>outVcState := (outVcState ou)[nat vc := (outVcState ou ! nat vc)
       \<lparr>m_credit_count := m_credit_count (outVcState ou ! nat vc) + 1\<rparr>]\<rparr>"
  by (cases "0 \<le> vc \<and> vc < int (length (outVcState ou))";
      cases "m_credit_count (outVcState ou ! nat vc) < m_max_credit_count (outVcState ou ! nat vc)")
    (simp_all add: OutputUnit_increment_credit_def vmod_def vget_def vset_def
      OutVcState_increment_credit_def check_def, safe)

lemma OutputUnit_has_credit_eq:
  assumes "0 \<le> vc" "vc < int (length (outVcState ou))" "OutVcState_isInState ACTIVE now (outVcState ou ! nat vc)"
  shows "OutputUnit_has_credit now vc ou = Inr (0 < m_credit_count (outVcState ou ! nat vc))"
  using assms by (simp add: OutputUnit_has_credit_def vget_ok OutVcState_has_credit_def)

text \<open>Taking a credit back: the state of its virtual channel, and only that, changes.\<close>

definition credited :: "tick \<Rightarrow> bool \<Rightarrow> OutVcState \<Rightarrow> OutVcState" where
  "credited now free s =
     (let s' = s\<lparr>m_credit_count := m_credit_count s + 1\<rparr> in if free then OutVcState_setState IDLE now s' else s')"

lemma OutputUnit_take_credit_eq_Inr:
  "OutputUnit_take_credit now c ou = Inr ou' \<longleftrightarrow>
     (\<exists>free. m_is_free_signal c = Some free \<and> 0 \<le> m_vc c \<and> m_vc c < int (length (outVcState ou)) \<and>
       m_credit_count (outVcState ou ! nat (m_vc c)) < m_max_credit_count (outVcState ou ! nat (m_vc c)) \<and>
       ou' = ou\<lparr>outVcState := (outVcState ou)[nat (m_vc c) := credited now free (outVcState ou ! nat (m_vc c))]\<rparr>)"
proof -
  let ?s = "outVcState ou ! nat (m_vc c)"
  let ?ou = "ou\<lparr>outVcState := (outVcState ou)[nat (m_vc c) := ?s\<lparr>m_credit_count := m_credit_count ?s + 1\<rparr>]\<rparr>"
  consider (room) "0 \<le> m_vc c" "m_vc c < int (length (outVcState ou))" "m_credit_count ?s < m_max_credit_count ?s"
    | (none) "\<not> (0 \<le> m_vc c \<and> m_vc c < int (length (outVcState ou)) \<and> m_credit_count ?s < m_max_credit_count ?s)"
    by blast
  then show ?thesis
  proof cases
    case room
    then have inc: "OutputUnit_increment_credit (m_vc c) ou = Inr ?ou" by (simp add: OutputUnit_increment_eq_Inr)
    have idle: "OutputUnit_set_vc_state IDLE (m_vc c) now ?ou =
        Inr (ou\<lparr>outVcState := (outVcState ou)[nat (m_vc c) := credited now True ?s]\<rparr>)"
      using room by (simp add: OutputUnit_set_vc_state_def vmod_ok credited_def)
    show ?thesis
      using room unfolding OutputUnit_take_credit_def inc rbind_Inr is_free_signal_def
      by (cases "m_is_free_signal c") (auto simp: idle credited_def)
  next
    case none
    then have "\<not> returns (OutputUnit_increment_credit (m_vc c) ou)"
      unfolding returns_iff OutputUnit_increment_eq_Inr by blast
    then obtain e where "OutputUnit_increment_credit (m_vc c) ou = Inl e"
      by (cases "OutputUnit_increment_credit (m_vc c) ou") auto
    then show ?thesis using none by (auto simp: OutputUnit_take_credit_def)
  qed
qed

lemma OutputUnit_wakeupD:
  assumes "OutputUnit_wakeup cfg now cl ou = Inr (ou', cl', ws)"
  shows "\<not> NetworkLink_isReady now cl \<and> ou' = ou \<and> cl' = cl \<or>
    (\<exists>c cs. link_items cl = c # cs \<and> m_time c \<le> now \<and>
       cl' = cl\<lparr>linkBuffer := (linkBuffer cl)\<lparr>m_buffer := cs\<rparr>\<rparr> \<and> OutputUnit_take_credit now c ou = Inr ou')"
proof (cases "NetworkLink_isReady now cl")
  case True
  then obtain c cs where c: "link_items cl = c # cs" "m_time c \<le> now"
    by (auto simp: NetworkLink_isReady_def flitBuffer_isReady_iff link_items_def)
  then show ?thesis using assms True
    by (auto simp: OutputUnit_wakeup_def rbind_eq_Inr NetworkLink_consumeLink_eq_Inr)
next
  case False
  then show ?thesis using assms by (simp add: OutputUnit_wakeup_def)
qed

end
