(* ===== verification/Garnet_InputUnit.thy ===== *)
theory Garnet_InputUnit
  imports Garnet_OutputUnit
begin

text \<open>
  The input unit of a router: InputUnit.hh/cc. It takes one flit per wake-up from its link,
  computes the route of a head flit, buffers the flit in the virtual channel it arrived for, and
  sends credits back when the switch allocator takes a flit out. The input link is an argument of
  the wake-up; the routing unit it consults and the number the random generator gives are too.
  The statistics, which the code keeps in \<open>double\<close>s, are integers. A flit that the code changes
  after it has put it into a buffer is here changed before.
\<close>

section \<open>Definitions\<close>

record InputUnit =
  iu_id :: int
  iu_direction :: PortDirection
  iu_vc_per_vnet :: int
  m_in_link :: int
  iu_credit_link :: int
  creditQueue :: flitBuffer
  virtualChannels :: "VirtualChannel list"
  m_num_buffer_writes :: "int list"
  m_num_buffer_reads :: "int list"

definition InputUnit_new :: "router_cfg \<Rightarrow> int \<Rightarrow> PortDirection \<Rightarrow> int \<Rightarrow> int \<Rightarrow> InputUnit res" where
  "InputUnit_new cfg i direction in_link credit_link =
     (let num_vcs = sint (r_num_vcs cfg) in
      rbind (cdiv num_vcs (sint (r_vc_per_vnet cfg))) (\<lambda>n.
      Inr \<lparr>iu_id = i, iu_direction = direction, iu_vc_per_vnet = sint (r_vc_per_vnet cfg),
           m_in_link = in_link, iu_credit_link = credit_link, creditQueue = flitBuffer_new,
           virtualChannels = replicate (nat num_vcs) VirtualChannel_new,
           m_num_buffer_writes = replicate (nat n) 0, m_num_buffer_reads = replicate (nat n) 0\<rparr>))"

definition iu_mod_vc :: "int \<Rightarrow> (VirtualChannel \<Rightarrow> VirtualChannel) \<Rightarrow> InputUnit \<Rightarrow> InputUnit res" where
  "iu_mod_vc vc f iu =
     rbind (vmod (virtualChannels iu) vc (\<lambda>v. Inr (f v))) (\<lambda>vs. Inr (iu\<lparr>virtualChannels := vs\<rparr>))"

definition InputUnit_set_vc_idle :: "int \<Rightarrow> tick \<Rightarrow> InputUnit \<Rightarrow> InputUnit res" where
  "InputUnit_set_vc_idle vc curTime iu = iu_mod_vc vc (VC_set_idle curTime) iu"

definition InputUnit_set_vc_active :: "int \<Rightarrow> tick \<Rightarrow> InputUnit \<Rightarrow> InputUnit res" where
  "InputUnit_set_vc_active vc curTime iu = iu_mod_vc vc (VC_set_active curTime) iu"

definition InputUnit_grant_outport :: "int \<Rightarrow> int \<Rightarrow> InputUnit \<Rightarrow> InputUnit res" where
  "InputUnit_grant_outport vc outport iu = iu_mod_vc vc (\<lambda>v. v\<lparr>m_output_port := outport\<rparr>) iu"

definition InputUnit_grant_outvc :: "int \<Rightarrow> int \<Rightarrow> InputUnit \<Rightarrow> InputUnit res" where
  "InputUnit_grant_outvc vc outvc iu = iu_mod_vc vc (\<lambda>v. v\<lparr>m_output_vc := outvc\<rparr>) iu"

definition InputUnit_get_outport :: "int \<Rightarrow> InputUnit \<Rightarrow> int res" where
  "InputUnit_get_outport invc iu = rbind (vget (virtualChannels iu) invc) (\<lambda>v. Inr (m_output_port v))"

definition InputUnit_get_outvc :: "int \<Rightarrow> InputUnit \<Rightarrow> int res" where
  "InputUnit_get_outvc invc iu = rbind (vget (virtualChannels iu) invc) (\<lambda>v. Inr (m_output_vc v))"

definition InputUnit_get_enqueue_time :: "int \<Rightarrow> InputUnit \<Rightarrow> tick res" where
  "InputUnit_get_enqueue_time invc iu = rbind (vget (virtualChannels iu) invc) (\<lambda>v. Inr (vc_enqueue_time v))"

definition InputUnit_getTopFlit :: "int \<Rightarrow> InputUnit \<Rightarrow> (flit \<times> InputUnit) res" where
  "InputUnit_getTopFlit vc iu =
     rbind (vget (virtualChannels iu) vc) (\<lambda>v.
     rbind (VC_getTopFlit v) (\<lambda>(f, v').
     rbind (vset (virtualChannels iu) vc v') (\<lambda>vs. Inr (f, iu\<lparr>virtualChannels := vs\<rparr>))))"

definition InputUnit_need_stage :: "int \<Rightarrow> flit_stage \<Rightarrow> tick \<Rightarrow> InputUnit \<Rightarrow> bool res" where
  "InputUnit_need_stage vc st t iu = rbind (vget (virtualChannels iu) vc) (VC_need_stage st t)"

definition InputUnit_isReady :: "int \<Rightarrow> tick \<Rightarrow> InputUnit \<Rightarrow> bool res" where
  "InputUnit_isReady invc curTime iu = rbind (vget (virtualChannels iu) invc) (\<lambda>v. Inr (VC_isReady curTime v))"

text \<open>
  The arrival of a flit: the state of its virtual channel, and for a head flit the route. The
  argument \<open>route_compute\<close> is the router's, applied to the unit's id and direction.
\<close>

definition InputUnit_admit ::
    "(RouteInfo \<Rightarrow> int \<Rightarrow> PortDirection \<Rightarrow> int res) \<Rightarrow> tick \<Rightarrow> flit \<Rightarrow> InputUnit \<Rightarrow> InputUnit res" where
  "InputUnit_admit route_compute now f iu =
     (let vc = m_vc f in
      rbind (vget (virtualChannels iu) vc) (\<lambda>v.
      if m_type f = HEAD \<or> m_type f = HEAD_TAIL then
        rbind (check Assertion (fst (vc_state v) = IDLE)) (\<lambda>_.
        rbind (InputUnit_set_vc_active vc now iu) (\<lambda>iu1.
        rbind (route_compute (m_route f) (iu_id iu) (iu_direction iu)) (\<lambda>outport.
        InputUnit_grant_outport vc outport iu1)))
      else
        rbind (check Assertion (fst (vc_state v) = ACTIVE)) (\<lambda>_. Inr iu)))"

definition pipe_stage :: "tick \<Rightarrow> tick \<Rightarrow> router_cfg \<Rightarrow> (tick \<times> wakes) res" where
  "pipe_stage p now cfg =
     (if r_latency cfg = 1 then Inr (now, [])
      else
        rbind (check Assertion (1 < r_latency cfg)) (\<lambda>_.
        let wait_time = r_latency cfg - 1 in
        Inr (edge_at p now wait_time, [(ToRouter (r_id cfg), After wait_time)])))"

definition InputUnit_wakeup ::
    "(RouteInfo \<Rightarrow> int \<Rightarrow> PortDirection \<Rightarrow> int res) \<Rightarrow> router_cfg \<Rightarrow> tick \<Rightarrow> tick \<Rightarrow> NetworkLink \<Rightarrow> InputUnit \<Rightarrow>
      (InputUnit \<times> NetworkLink \<times> wakes) res" where
  "InputUnit_wakeup route_compute cfg p now in_link iu =
     (if NetworkLink_isReady now in_link then
        rbind (NetworkLink_consumeLink in_link) (\<lambda>(f0, in_link').
        rbind (check Assertion (m_width f0 = r_bit_width cfg)) (\<lambda>_.
        let f = increment_hops f0; vc = m_vc f in
        rbind (InputUnit_admit route_compute now f iu) (\<lambda>iu1.
        rbind (cdiv vc (iu_vc_per_vnet iu)) (\<lambda>vnet.
        rbind (vmod (m_num_buffer_writes iu) vnet (\<lambda>n. Inr (n + 1))) (\<lambda>writes.
        rbind (vmod (m_num_buffer_reads iu) vnet (\<lambda>n. Inr (n + 1))) (\<lambda>reads.
        rbind (pipe_stage p now cfg) (\<lambda>(t, ws).
        rbind (iu_mod_vc vc (VC_insertFlit (advance_stage SA t f)) iu1) (\<lambda>iu2.
        Inr (iu2\<lparr>m_num_buffer_writes := writes, m_num_buffer_reads := reads\<rparr>, in_link',
          ws @ (if NetworkLink_isReady now in_link' then [(ToRouter (r_id cfg), After 1)] else []))))))))))
      else Inr (iu, in_link, []))"

definition InputUnit_increment_credit ::
    "tick \<Rightarrow> tick \<Rightarrow> int \<Rightarrow> bool \<Rightarrow> InputUnit \<Rightarrow> InputUnit \<times> wakes" where
  "InputUnit_increment_credit p now in_vc free_signal iu =
     (iu\<lparr>creditQueue := flitBuffer_insert (Credit_new in_vc free_signal now) (creditQueue iu)\<rparr>,
      [(ToLink (iu_credit_link iu), At (edge_at p now 1))])"

fun read_vcs :: "(message \<Rightarrow> 'pk \<Rightarrow> bool \<times> 'pk) \<Rightarrow> VirtualChannel list \<Rightarrow> 'pk \<Rightarrow> (bool \<times> 'pk) res" where
  "read_vcs fr [] pk = Inr (False, pk)"
| "read_vcs fr (v # vs) pk =
     rbind (VC_functionalRead fr pk v) (\<lambda>(b, pk1).
     rbind (read_vcs fr vs pk1) (\<lambda>(c, pk2). Inr (b \<or> c, pk2)))"

definition InputUnit_functionalRead ::
    "(message \<Rightarrow> 'pk \<Rightarrow> bool \<times> 'pk) \<Rightarrow> 'pk \<Rightarrow> InputUnit \<Rightarrow> (bool \<times> 'pk) res" where
  "InputUnit_functionalRead fr pk iu = read_vcs fr (virtualChannels iu) pk"

fun write_vcs ::
    "('pk \<Rightarrow> message \<Rightarrow> bool \<times> message) \<Rightarrow> 'pk \<Rightarrow> VirtualChannel list \<Rightarrow> (u32 \<times> VirtualChannel list) res" where
  "write_vcs fw pk [] = Inr (0, [])"
| "write_vcs fw pk (v # vs) =
     rbind (VC_functionalWrite fw pk v) (\<lambda>(n, v').
     rbind (write_vcs fw pk vs) (\<lambda>(m, vs'). Inr (n + m, v' # vs')))"

definition InputUnit_functionalWrite ::
    "('pk \<Rightarrow> message \<Rightarrow> bool \<times> message) \<Rightarrow> 'pk \<Rightarrow> InputUnit \<Rightarrow> (u32 \<times> InputUnit) res" where
  "InputUnit_functionalWrite fw pk iu =
     rbind (write_vcs fw pk (virtualChannels iu)) (\<lambda>(n, vs). Inr (n, iu\<lparr>virtualChannels := vs\<rparr>))"

definition InputUnit_resetStats :: "InputUnit \<Rightarrow> InputUnit" where
  "InputUnit_resetStats iu =
     iu\<lparr>m_num_buffer_reads := map (\<lambda>_. 0) (m_num_buffer_reads iu),
        m_num_buffer_writes := map (\<lambda>_. 0) (m_num_buffer_writes iu)\<rparr>"

section \<open>Arrival of a flit\<close>

lemma iu_mod_vc_eq_Inr [res_iff]:
  "iu_mod_vc vc f iu = Inr iu' \<longleftrightarrow> 0 \<le> vc \<and> vc < int (length (virtualChannels iu)) \<and>
     iu' = iu\<lparr>virtualChannels := (virtualChannels iu)[nat vc := f (virtualChannels iu ! nat vc)]\<rparr>"
  by (cases "0 \<le> vc \<and> vc < int (length (virtualChannels iu))")
    (auto simp: iu_mod_vc_def vmod_def vget_def vset_def)

lemma iu_mod_vc_ok:
  "0 \<le> vc \<Longrightarrow> vc < int (length (virtualChannels iu)) \<Longrightarrow>
   iu_mod_vc vc f iu = Inr (iu\<lparr>virtualChannels := (virtualChannels iu)[nat vc := f (virtualChannels iu ! nat vc)]\<rparr>)"
  by (simp add: iu_mod_vc_eq_Inr)

text \<open>The virtual channel after the admission of a flit that is a head or not.\<close>

definition is_head :: "flit \<Rightarrow> bool" where
  "is_head f = (m_type f = HEAD \<or> m_type f = HEAD_TAIL)"

definition is_tail :: "flit \<Rightarrow> bool" where
  "is_tail f = (m_type f = TAIL \<or> m_type f = HEAD_TAIL)"

definition admitted :: "tick \<Rightarrow> bool \<Rightarrow> int \<Rightarrow> VirtualChannel \<Rightarrow> VirtualChannel" where
  "admitted now hd_flit outport v =
     (if hd_flit then (VC_set_active now v)\<lparr>m_output_port := outport\<rparr> else v)"

lemma admitted_items [simp]: "VC_items (admitted now b o' v) = VC_items v"
  by (simp add: admitted_def VC_items_def VC_set_active_def)

lemma InputUnit_admit_eq_Inr:
  "InputUnit_admit rc now f iu = Inr iu' \<longleftrightarrow>
     0 \<le> m_vc f \<and> m_vc f < int (length (virtualChannels iu)) \<and>
     fst (vc_state (virtualChannels iu ! nat (m_vc f))) = (if is_head f then IDLE else ACTIVE) \<and>
     (\<exists>outport. (is_head f \<longrightarrow> rc (m_route f) (iu_id iu) (iu_direction iu) = Inr outport) \<and>
       iu' = iu\<lparr>virtualChannels := (virtualChannels iu)
         [nat (m_vc f) := admitted now (is_head f) outport (virtualChannels iu ! nat (m_vc f))]\<rparr>)"
proof (cases "0 \<le> m_vc f \<and> m_vc f < int (length (virtualChannels iu))")
  case True
  let ?v = "virtualChannels iu ! nat (m_vc f)"
  have len: "nat (m_vc f) < length (virtualChannels iu)" using True by (simp add: nat_less_iff)
  show ?thesis
  proof (cases "is_head f")
    case head: True
    have "InputUnit_admit rc now f iu = rbind (check Assertion (fst (vc_state ?v) = IDLE)) (\<lambda>_.
        rbind (rc (m_route f) (iu_id iu) (iu_direction iu)) (\<lambda>outport.
        Inr (iu\<lparr>virtualChannels := (virtualChannels iu)[nat (m_vc f) := admitted now True outport ?v]\<rparr>)))"
      using True len head by (simp add: InputUnit_admit_def is_head_def Let_def vget_ok InputUnit_set_vc_active_def
          InputUnit_grant_outport_def iu_mod_vc_ok admitted_def)
    then show ?thesis using True head by (auto simp: rbind_eq_Inr)
  next
    case body: False
    have "InputUnit_admit rc now f iu = rbind (check Assertion (fst (vc_state ?v) = ACTIVE)) (\<lambda>_. Inr iu)"
      using True body by (simp add: InputUnit_admit_def is_head_def Let_def vget_ok)
    then show ?thesis using True body by (auto simp: rbind_eq_Inr admitted_def)
  qed
next
  case False
  then show ?thesis by (auto simp: InputUnit_admit_def vget_def)
qed

text \<open>
  What a wake-up does, in one step: the first flit of the link, with one hop more and in the
  allocation stage, goes to the end of the virtual channel it names, which a head flit activates
  and routes.
\<close>

definition staged :: "tick \<Rightarrow> flit \<Rightarrow> flit" where
  "staged t f = advance_stage SA t (increment_hops f)"

lemma staged_simps [simp]:
  "m_vc (staged t f) = m_vc f" "m_type (staged t f) = m_type f" "m_time (staged t f) = m_time f"
  "m_width (staged t f) = m_width f" "m_vnet (staged t f) = m_vnet f" "m_stage (staged t f) = (SA, t)"
  "is_head (staged t f) = is_head f" "is_tail (staged t f) = is_tail f"
  "m_packet_id (staged t f) = m_packet_id f" "m_id (staged t f) = m_id f"
  "m_is_free_signal (staged t f) = m_is_free_signal f"
  by (simp_all add: staged_def advance_stage_def increment_hops_def is_head_def is_tail_def)

lemma increment_hops_simps [simp]:
  "m_vc (increment_hops f) = m_vc f" "is_head (increment_hops f) = is_head f"
  "m_width (increment_hops f) = m_width f"
  by (simp_all add: increment_hops_def is_head_def)

lemma InputUnit_wakeupD:
  assumes "InputUnit_wakeup rc cfg p now l iu = Inr (iu', l', ws)" "NetworkLink_isReady now l"
  shows "\<exists>f fs outport t ws'. link_items l = f # fs \<and> m_time f \<le> now \<and> m_width f = r_bit_width cfg \<and>
    l' = l\<lparr>linkBuffer := (linkBuffer l)\<lparr>m_buffer := fs\<rparr>\<rparr> \<and>
    0 \<le> m_vc f \<and> m_vc f < int (length (virtualChannels iu)) \<and>
    fst (vc_state (virtualChannels iu ! nat (m_vc f))) = (if is_head f then IDLE else ACTIVE) \<and>
    (is_head f \<longrightarrow> rc (m_route (increment_hops f)) (iu_id iu) (iu_direction iu) = Inr outport) \<and>
    pipe_stage p now cfg = Inr (t, ws') \<and>
    virtualChannels iu' = (virtualChannels iu)[nat (m_vc f) :=
      VC_insertFlit (staged t f) (admitted now (is_head f) outport (virtualChannels iu ! nat (m_vc f)))] \<and>
    creditQueue iu' = creditQueue iu \<and> iu_id iu' = iu_id iu \<and> iu_direction iu' = iu_direction iu \<and>
    iu_vc_per_vnet iu' = iu_vc_per_vnet iu \<and> m_in_link iu' = m_in_link iu \<and> iu_credit_link iu' = iu_credit_link iu"
proof -
  obtain f fs where f: "link_items l = f # fs" "m_time f \<le> now"
    using assms(2) by (auto simp: NetworkLink_isReady_def flitBuffer_isReady_iff link_items_def)
  let ?l = "l\<lparr>linkBuffer := (linkBuffer l)\<lparr>m_buffer := fs\<rparr>\<rparr>"
  have "NetworkLink_consumeLink l = Inr (f, ?l)" using f by (simp add: NetworkLink_consumeLink_eq_Inr)
  then obtain iu1 vnet writes reads t ws' iu2 where
      w: "m_width f = r_bit_width cfg" and adm: "InputUnit_admit rc now (increment_hops f) iu = Inr iu1"
      and pipe: "pipe_stage p now cfg = Inr (t, ws')"
      and ins: "iu_mod_vc (m_vc f) (VC_insertFlit (staged t f)) iu1 = Inr iu2"
      and res: "iu' = iu2\<lparr>m_num_buffer_writes := writes, m_num_buffer_reads := reads\<rparr>" "l' = ?l"
    using assms by (auto simp: InputUnit_wakeup_def rbind_eq_Inr Let_def staged_def)
  from adm obtain outport where o: "is_head f \<longrightarrow> rc (m_route (increment_hops f)) (iu_id iu) (iu_direction iu) = Inr outport"
      and r: "0 \<le> m_vc f" "m_vc f < int (length (virtualChannels iu))"
        "fst (vc_state (virtualChannels iu ! nat (m_vc f))) = (if is_head f then IDLE else ACTIVE)"
      and iu1: "iu1 = iu\<lparr>virtualChannels := (virtualChannels iu)
         [nat (m_vc f) := admitted now (is_head f) outport (virtualChannels iu ! nat (m_vc f))]\<rparr>"
    by (auto simp: InputUnit_admit_eq_Inr)
  have "iu2 = iu\<lparr>virtualChannels := (virtualChannels iu)[nat (m_vc f) :=
      VC_insertFlit (staged t f) (admitted now (is_head f) outport (virtualChannels iu ! nat (m_vc f)))]\<rparr>"
    using ins r by (simp add: iu1 iu_mod_vc_eq_Inr nat_less_length)
  then show ?thesis using f w o r pipe res
    by (intro exI [of _ f] exI [of _ fs] exI [of _ outport] exI [of _ t] exI [of _ ws']) simp
qed

lemma one_less_word: "0 < x \<Longrightarrow> x \<noteq> 1 \<Longrightarrow> 1 < x" for x :: "64 word"
  by (simp add: word_less_nat_alt word_unat_eq_iff)

text \<open>When it returns: the flit respects the state of its virtual channel and can be routed.\<close>

lemma InputUnit_wakeup_returns:
  assumes f: "link_items l = f # fs" "m_width f = r_bit_width cfg" "0 < r_latency cfg"
    and vc: "0 \<le> m_vc f" "m_vc f < int (length (virtualChannels iu))"
      "fst (vc_state (virtualChannels iu ! nat (m_vc f))) = (if is_head f then IDLE else ACTIVE)"
    and route: "is_head f \<Longrightarrow> returns (rc (m_route (increment_hops f)) (iu_id iu) (iu_direction iu))"
    and shape: "0 < iu_vc_per_vnet iu" "m_vc f div iu_vc_per_vnet iu < int (length (m_num_buffer_writes iu))"
      "length (m_num_buffer_reads iu) = length (m_num_buffer_writes iu)"
  shows "returns (InputUnit_wakeup rc cfg p now l iu)"
proof (cases "NetworkLink_isReady now l")
  case True
  let ?l = "l\<lparr>linkBuffer := (linkBuffer l)\<lparr>m_buffer := fs\<rparr>\<rparr>"
  have take: "NetworkLink_consumeLink l = Inr (f, ?l)" using f by (simp add: NetworkLink_consumeLink_eq_Inr)
  obtain outport where o: "is_head f \<longrightarrow> rc (m_route (increment_hops f)) (iu_id iu) (iu_direction iu) = Inr outport"
    using route by (auto simp: returns_iff)
  define iu1 where "iu1 = iu\<lparr>virtualChannels := (virtualChannels iu)
    [nat (m_vc f) := admitted now (is_head f) outport (virtualChannels iu ! nat (m_vc f))]\<rparr>"
  have adm: "InputUnit_admit rc now (increment_hops f) iu = Inr iu1"
    unfolding InputUnit_admit_eq_Inr using vc o by (auto simp: iu1_def)
  have len: "length (virtualChannels iu1) = length (virtualChannels iu)" by (simp add: iu1_def)
  have "0 \<le> m_vc f div iu_vc_per_vnet iu" using vc shape by (simp add: pos_imp_zdiv_nonneg_iff)
  moreover obtain t ws where "pipe_stage p now cfg = Inr (t, ws)"
    using f(3) one_less_word by (cases "r_latency cfg = 1") (auto simp: pipe_stage_def Let_def)
  moreover have "iu_mod_vc (m_vc f) (VC_insertFlit (advance_stage SA t (increment_hops f))) iu1 =
      Inr (iu1\<lparr>virtualChannels := (virtualChannels iu1)[nat (m_vc f) :=
        VC_insertFlit (advance_stage SA t (increment_hops f)) (virtualChannels iu1 ! nat (m_vc f))]\<rparr>)"
    using vc len by (simp add: iu_mod_vc_ok)
  ultimately show ?thesis using True take adm f vc shape
    by (simp add: InputUnit_wakeup_def Let_def cdiv_nonneg vmod_ok returns_def)
next
  case False
  then show ?thesis by (simp add: InputUnit_wakeup_def)
qed

end
