(* ===== verification/Garnet_Router.thy ===== *)
theory Garnet_Router
  imports Garnet_InputUnit
begin

text \<open>
  The router: SwitchAllocator.hh/cc, CrossbarSwitch.hh/cc and Router.hh/cc. A wake-up of the
  router runs its input units, its output units, the two arbitration stages of the switch
  allocator and the crossbar, in this order. The allocator and the crossbar reach the input and
  output units through the router, so the operations here work on the whole router record. The
  links around the router are in a list that the units refer to by index. Every operation that
  asks for wake-ups returns them in the order of the calls.
\<close>

section \<open>Definitions: state\<close>

record SwitchAllocator =
  m_num_inports :: int
  m_num_outports :: int
  sa_num_vcs :: int
  sa_vc_per_vnet :: int
  m_input_arbiter_activity :: int
  m_output_arbiter_activity :: int
  m_round_robin_invc :: "int list"
  m_round_robin_inport :: "int list"
  m_port_requests :: "int list"
  m_vc_winners :: "int list"

record CrossbarSwitch =
  m_crossbar_activity :: int
  switchBuffers :: "flitBuffer list"

record Router =
  r_cfg :: router_cfg
  routingUnit :: RoutingUnit
  switchAllocator :: SwitchAllocator
  crossbarSwitch :: CrossbarSwitch
  m_input_unit :: "InputUnit list"
  m_output_unit :: "OutputUnit list"

definition SwitchAllocator_new :: "router_cfg \<Rightarrow> SwitchAllocator" where
  "SwitchAllocator_new cfg =
     \<lparr>m_num_inports = 0, m_num_outports = 0, sa_num_vcs = sint (r_num_vcs cfg),
      sa_vc_per_vnet = sint (r_vc_per_vnet cfg), m_input_arbiter_activity = 0,
      m_output_arbiter_activity = 0, m_round_robin_invc = [], m_round_robin_inport = [],
      m_port_requests = [], m_vc_winners = []\<rparr>"

definition CrossbarSwitch_new :: CrossbarSwitch where
  "CrossbarSwitch_new = \<lparr>m_crossbar_activity = 0, switchBuffers = []\<rparr>"

definition Router_new :: "int \<Rightarrow> cycles \<Rightarrow> u32 \<Rightarrow> u32 \<Rightarrow> u32 \<Rightarrow> Router" where
  "Router_new i latency virt_nets vcs_per_vnet width =
     (let cfg = \<lparr>r_id = i, r_latency = latency, r_virtual_networks = virt_nets,
                r_vc_per_vnet = vcs_per_vnet, r_num_vcs = virt_nets * vcs_per_vnet,
                r_bit_width = width\<rparr> in
      \<lparr>r_cfg = cfg, routingUnit = RoutingUnit_new, switchAllocator = SwitchAllocator_new cfg,
       crossbarSwitch = CrossbarSwitch_new, m_input_unit = [], m_output_unit = []\<rparr>)"

definition getInputUnit :: "int \<Rightarrow> Router \<Rightarrow> InputUnit res" where
  "getInputUnit port r =
     rbind (check Assertion (0 \<le> port \<and> port < int (length (m_input_unit r)))) (\<lambda>_.
     vget (m_input_unit r) port)"

definition getOutputUnit :: "int \<Rightarrow> Router \<Rightarrow> OutputUnit res" where
  "getOutputUnit port r =
     rbind (check Assertion (0 \<le> port \<and> port < int (length (m_output_unit r)))) (\<lambda>_.
     vget (m_output_unit r) port)"

definition putInputUnit :: "int \<Rightarrow> InputUnit \<Rightarrow> Router \<Rightarrow> Router res" where
  "putInputUnit port iu r = rbind (vset (m_input_unit r) port iu) (\<lambda>us. Inr (r\<lparr>m_input_unit := us\<rparr>))"

definition putOutputUnit :: "int \<Rightarrow> OutputUnit \<Rightarrow> Router \<Rightarrow> Router res" where
  "putOutputUnit port ou r = rbind (vset (m_output_unit r) port ou) (\<lambda>us. Inr (r\<lparr>m_output_unit := us\<rparr>))"

definition Router_route_compute ::
    "net_params \<Rightarrow> int \<Rightarrow> Router \<Rightarrow> RouteInfo \<Rightarrow> int \<Rightarrow> PortDirection \<Rightarrow> int res" where
  "Router_route_compute net rnd r route inport inport_dirn =
     outportCompute net (routingUnit r) (r_id (r_cfg r)) rnd route inport inport_dirn"

definition Router_grant_switch :: "int \<Rightarrow> flit \<Rightarrow> Router \<Rightarrow> Router res" where
  "Router_grant_switch inport f r =
     rbind (vmod (switchBuffers (crossbarSwitch r)) inport (\<lambda>b. Inr (flitBuffer_insert f b))) (\<lambda>bs.
     Inr (r\<lparr>crossbarSwitch := (crossbarSwitch r)\<lparr>switchBuffers := bs\<rparr>\<rparr>))"

section \<open>Definitions: switch allocation\<close>

definition SwitchAllocator_init :: "Router \<Rightarrow> Router" where
  "SwitchAllocator_init r =
     (let ni = length (m_input_unit r); no = length (m_output_unit r) in
      r\<lparr>switchAllocator := (switchAllocator r)
          \<lparr>m_num_inports := int ni, m_num_outports := int no,
           m_round_robin_inport := replicate no 0, m_round_robin_invc := replicate ni 0,
           m_port_requests := replicate ni (-1), m_vc_winners := replicate ni (-1)\<rparr>\<rparr>)"

definition SwitchAllocator_get_vnet :: "Router \<Rightarrow> int \<Rightarrow> int res" where
  "SwitchAllocator_get_vnet r invc =
     rbind (cdiv invc (sa_vc_per_vnet (switchAllocator r))) (\<lambda>vnet.
     rbind (check Assertion (0 \<le> vnet \<and> vnet < uint (r_virtual_networks (r_cfg r)))) (\<lambda>_. Inr vnet))"

text \<open>
  The ordering check of \<open>send_allowed\<close>: another virtual channel of the network that is ready for
  allocation, wants the same output port and became active earlier.
\<close>

definition earlier_rival :: "tick \<Rightarrow> InputUnit \<Rightarrow> int \<Rightarrow> tick \<Rightarrow> int \<Rightarrow> unit option res" where
  "earlier_rival now iu outport t_enqueue_time temp_vc =
     rbind (InputUnit_need_stage temp_vc SA now iu) (\<lambda>b.
     if \<not> b then Inr None
     else rbind (InputUnit_get_outport temp_vc iu) (\<lambda>op.
       if op \<noteq> outport then Inr None
       else rbind (InputUnit_get_enqueue_time temp_vc iu) (\<lambda>e.
         Inr (if e < t_enqueue_time then Some () else None))))"

definition order_allows :: "tick \<Rightarrow> net_params \<Rightarrow> Router \<Rightarrow> int \<Rightarrow> int \<Rightarrow> int \<Rightarrow> int \<Rightarrow> bool res" where
  "order_allows now net r inport invc outport vnet =
     rbind (isVNetOrdered net vnet) (\<lambda>ordered.
     if \<not> ordered then Inr True
     else rbind (getInputUnit inport r) (\<lambda>iu.
       rbind (InputUnit_get_enqueue_time invc iu) (\<lambda>t_enqueue_time.
       let n = sa_vc_per_vnet (switchAllocator r); vc_base = vnet * n in
       rbind (first_res (\<lambda>vc_offset. earlier_rival now iu outport t_enqueue_time (vc_base + vc_offset))
                [0..n - 1]) (\<lambda>rival. Inr (rival = None)))))"

definition SwitchAllocator_send_allowed ::
    "tick \<Rightarrow> net_params \<Rightarrow> Router \<Rightarrow> int \<Rightarrow> int \<Rightarrow> int \<Rightarrow> int \<Rightarrow> bool res" where
  "SwitchAllocator_send_allowed now net r inport invc outport outvc =
     rbind (SwitchAllocator_get_vnet r invc) (\<lambda>vnet.
     rbind (getOutputUnit outport r) (\<lambda>output_unit.
     rbind (if outvc = -1 then OutputUnit_has_free_vc now vnet output_unit
            else OutputUnit_has_credit now outvc output_unit) (\<lambda>ok.
     if \<not> ok then Inr False else order_allows now net r inport invc outport vnet)))"

definition inport_probe ::
    "tick \<Rightarrow> net_params \<Rightarrow> Router \<Rightarrow> int \<Rightarrow> int \<Rightarrow> (int \<times> int) option res" where
  "inport_probe now net r inport invc =
     rbind (getInputUnit inport r) (\<lambda>input_unit.
     rbind (InputUnit_need_stage invc SA now input_unit) (\<lambda>b.
     if \<not> b then Inr None
     else rbind (InputUnit_get_outport invc input_unit) (\<lambda>outport.
       rbind (InputUnit_get_outvc invc input_unit) (\<lambda>outvc.
       rbind (SwitchAllocator_send_allowed now net r inport invc outport outvc) (\<lambda>make_request.
       Inr (if make_request then Some (outport, invc) else None))))))"

definition SwitchAllocator_arbitrate_inport :: "tick \<Rightarrow> net_params \<Rightarrow> int \<Rightarrow> Router \<Rightarrow> Router res" where
  "SwitchAllocator_arbitrate_inport now net inport r =
     (let sa = switchAllocator r in
      rbind (vget (m_round_robin_invc sa) inport) (\<lambda>invc.
      rbind (rr_scan (sa_num_vcs sa) (inport_probe now net r inport) (nat (sa_num_vcs sa)) invc) (\<lambda>winner.
      case winner of
        None \<Rightarrow> Inr r
      | Some (outport, vc) \<Rightarrow>
          rbind (vset (m_port_requests sa) inport outport) (\<lambda>reqs.
          rbind (vset (m_vc_winners sa) inport vc) (\<lambda>winners.
          Inr (r\<lparr>switchAllocator := sa\<lparr>m_input_arbiter_activity := m_input_arbiter_activity sa + 1,
                                        m_port_requests := reqs, m_vc_winners := winners\<rparr>\<rparr>))))))"

definition SwitchAllocator_arbitrate_inports :: "tick \<Rightarrow> net_params \<Rightarrow> Router \<Rightarrow> Router res" where
  "SwitchAllocator_arbitrate_inports now net r =
     rfold (SwitchAllocator_arbitrate_inport now net) [0..m_num_inports (switchAllocator r) - 1] r"

definition SwitchAllocator_vc_allocate :: "tick \<Rightarrow> int \<Rightarrow> int \<Rightarrow> int \<Rightarrow> Router \<Rightarrow> (int \<times> Router) res" where
  "SwitchAllocator_vc_allocate now outport inport invc r =
     rbind (getOutputUnit outport r) (\<lambda>ou.
     rbind (SwitchAllocator_get_vnet r invc) (\<lambda>vnet.
     rbind (OutputUnit_select_free_vc now vnet ou) (\<lambda>(outvc, ou').
     rbind (putOutputUnit outport ou' r) (\<lambda>r1.
     rbind (check Assertion (outvc \<noteq> -1)) (\<lambda>_.
     rbind (getInputUnit inport r1) (\<lambda>iu.
     rbind (InputUnit_grant_outvc invc outvc iu) (\<lambda>iu'.
     rbind (putInputUnit inport iu' r1) (\<lambda>r2. Inr (outvc, r2)))))))))"

text \<open>
  The input side of a grant: the flit leaves its virtual channel, a credit goes back, and after
  the last flit of a packet the channel is idle again.
\<close>

definition release_flit :: "tick \<Rightarrow> tick \<Rightarrow> int \<Rightarrow> InputUnit \<Rightarrow> (flit \<times> InputUnit \<times> wakes) res" where
  "release_flit p now invc iu =
     rbind (InputUnit_getTopFlit invc iu) (\<lambda>(f, iu1).
     if m_type f = TAIL \<or> m_type f = HEAD_TAIL then
       rbind (InputUnit_isReady invc now iu1) (\<lambda>b.
       rbind (check Assertion (\<not> b)) (\<lambda>_.
       rbind (InputUnit_set_vc_idle invc now iu1) (\<lambda>iu2.
       let (iu3, ws) = InputUnit_increment_credit p now invc True iu2 in Inr (f, iu3, ws))))
     else
       let (iu3, ws) = InputUnit_increment_credit p now invc False iu1 in Inr (f, iu3, ws))"

definition granted_flit :: "tick \<Rightarrow> int \<Rightarrow> int \<Rightarrow> flit \<Rightarrow> flit" where
  "granted_flit now outport outvc f = advance_stage ST now (f\<lparr>m_outport := Some outport, m_vc := outvc\<rparr>)"

definition next_index :: "int \<Rightarrow> int \<Rightarrow> int" where
  "next_index n i = (if n \<le> i + 1 then 0 else i + 1)"

definition SwitchAllocator_grant ::
    "tick \<Rightarrow> tick \<Rightarrow> int \<Rightarrow> int \<Rightarrow> Router \<Rightarrow> (Router \<times> wakes) res" where
  "SwitchAllocator_grant p now outport inport r =
     rbind (getOutputUnit outport r) (\<lambda>_.
     rbind (getInputUnit inport r) (\<lambda>input_unit.
     rbind (vget (m_vc_winners (switchAllocator r)) inport) (\<lambda>invc.
     rbind (InputUnit_get_outvc invc input_unit) (\<lambda>outvc0.
     rbind (if outvc0 = -1 then SwitchAllocator_vc_allocate now outport inport invc r
            else Inr (outvc0, r)) (\<lambda>(outvc, r1).
     rbind (getInputUnit inport r1) (\<lambda>iu1.
     rbind (release_flit p now invc iu1) (\<lambda>(f, iu2, ws).
     rbind (getOutputUnit outport r1) (\<lambda>ou1.
     rbind (OutputUnit_decrement_credit outvc ou1) (\<lambda>ou2.
     rbind (putInputUnit inport iu2 r1) (\<lambda>r2.
     rbind (putOutputUnit outport ou2 r2) (\<lambda>r3.
     rbind (Router_grant_switch inport (granted_flit now outport outvc f) r3) (\<lambda>r4.
     let sa = switchAllocator r4 in
     rbind (vset (m_port_requests sa) inport (-1)) (\<lambda>reqs.
     rbind (vset (m_round_robin_inport sa) outport (next_index (m_num_inports sa) inport)) (\<lambda>rri.
     rbind (vset (m_round_robin_invc sa) inport (next_index (sa_num_vcs sa) invc)) (\<lambda>rrv.
     Inr (r4\<lparr>switchAllocator := sa\<lparr>m_output_arbiter_activity := m_output_arbiter_activity sa + 1,
                m_port_requests := reqs, m_round_robin_inport := rri, m_round_robin_invc := rrv\<rparr>\<rparr>,
          ws))))))))))))))))"

definition SwitchAllocator_arbitrate_outport ::
    "tick \<Rightarrow> tick \<Rightarrow> int \<Rightarrow> Router \<times> wakes \<Rightarrow> (Router \<times> wakes) res" where
  "SwitchAllocator_arbitrate_outport p now outport = (\<lambda>(r, ws).
     let sa = switchAllocator r in
     rbind (vget (m_round_robin_inport sa) outport) (\<lambda>inport.
     rbind (rr_scan (m_num_inports sa)
              (\<lambda>i. rbind (vget (m_port_requests sa) i) (\<lambda>q. Inr (if q = outport then Some i else None)))
              (nat (m_num_inports sa)) inport) (\<lambda>winner.
     case winner of
       None \<Rightarrow> Inr (r, ws)
     | Some i \<Rightarrow> rbind (SwitchAllocator_grant p now outport i r) (\<lambda>(r', ws'). Inr (r', ws @ ws')))))"

definition SwitchAllocator_arbitrate_outports ::
    "tick \<Rightarrow> tick \<Rightarrow> Router \<times> wakes \<Rightarrow> (Router \<times> wakes) res" where
  "SwitchAllocator_arbitrate_outports p now rw =
     rfold (SwitchAllocator_arbitrate_outport p now) [0..m_num_outports (switchAllocator (fst rw)) - 1] rw"

definition SwitchAllocator_clear_request_vector :: "Router \<Rightarrow> Router" where
  "SwitchAllocator_clear_request_vector r =
     r\<lparr>switchAllocator := (switchAllocator r)
         \<lparr>m_port_requests := map (\<lambda>_. -1) (m_port_requests (switchAllocator r))\<rparr>\<rparr>"

text \<open>
  \<open>alreadyScheduled\<close> asks the router's consumer, whose ticks before this wake-up are the argument
  \<open>sched\<close>; the requests made since are those of the list.
\<close>

definition router_scheduled :: "(tick \<Rightarrow> bool) \<Rightarrow> tick \<Rightarrow> tick \<Rightarrow> Router \<Rightarrow> wakes \<Rightarrow> tick \<Rightarrow> bool" where
  "router_scheduled sched p now r ws t =
     (sched t \<or> list_ex (\<lambda>(c, w). c = ToRouter (r_id (r_cfg r)) \<and> req_tick p now w = t) ws)"

definition SwitchAllocator_check_for_wakeup ::
    "(tick \<Rightarrow> bool) \<Rightarrow> tick \<Rightarrow> tick \<Rightarrow> Router \<times> wakes \<Rightarrow> (Router \<times> wakes) res" where
  "SwitchAllocator_check_for_wakeup sched p now = (\<lambda>(r, ws).
     let nextCycle = edge_at p now 1; sa = switchAllocator r in
     if router_scheduled sched p now r ws nextCycle then Inr (r, ws)
     else
       rbind (first_res (\<lambda>(i, j).
                rbind (getInputUnit i r) (\<lambda>iu.
                rbind (InputUnit_need_stage j SA nextCycle iu) (\<lambda>b. Inr (if b then Some () else None))))
              (List.product [0..m_num_inports sa - 1] [0..sa_num_vcs sa - 1])) (\<lambda>found.
       Inr (r, if found = None then ws else ws @ [(ToRouter (r_id (r_cfg r)), After 1)])))"

definition SwitchAllocator_wakeup ::
    "(tick \<Rightarrow> bool) \<Rightarrow> tick \<Rightarrow> tick \<Rightarrow> net_params \<Rightarrow> Router \<times> wakes \<Rightarrow> (Router \<times> wakes) res" where
  "SwitchAllocator_wakeup sched p now net = (\<lambda>(r, ws).
     rbind (SwitchAllocator_arbitrate_inports now net r) (\<lambda>r1.
     rbind (SwitchAllocator_arbitrate_outports p now (r1, ws)) (\<lambda>(r2, ws2).
     SwitchAllocator_check_for_wakeup sched p now (SwitchAllocator_clear_request_vector r2, ws2))))"

definition SwitchAllocator_resetStats :: "SwitchAllocator \<Rightarrow> SwitchAllocator" where
  "SwitchAllocator_resetStats sa = sa\<lparr>m_input_arbiter_activity := 0, m_output_arbiter_activity := 0\<rparr>"

section \<open>Definitions: crossbar\<close>

definition CrossbarSwitch_init :: "Router \<Rightarrow> Router" where
  "CrossbarSwitch_init r =
     r\<lparr>crossbarSwitch := (crossbarSwitch r)
         \<lparr>switchBuffers := vresize flitBuffer_new (length (m_input_unit r)) (switchBuffers (crossbarSwitch r))\<rparr>\<rparr>"

definition departed_flit :: "tick \<Rightarrow> tick \<Rightarrow> flit \<Rightarrow> flit" where
  "departed_flit p now f = (advance_stage LT (edge_at p now 1) f)\<lparr>m_time := edge_at p now 1\<rparr>"

definition CrossbarSwitch_traverse ::
    "tick \<Rightarrow> tick \<Rightarrow> int \<Rightarrow> Router \<times> wakes \<Rightarrow> (Router \<times> wakes) res" where
  "CrossbarSwitch_traverse p now i = (\<lambda>(r, ws).
     let cb = crossbarSwitch r in
     rbind (vget (switchBuffers cb) i) (\<lambda>switch_buffer.
     if \<not> flitBuffer_isReady now switch_buffer then Inr (r, ws)
     else rbind (flitBuffer_peekTopFlit switch_buffer) (\<lambda>f.
       if \<not> is_stage ST now f then Inr (r, ws)
       else
         rbind (get_outport f) (\<lambda>outport.
         rbind (getOutputUnit outport r) (\<lambda>ou.
         let (ou', ws') = OutputUnit_insert_flit p now (departed_flit p now f) ou in
         rbind (putOutputUnit outport ou' r) (\<lambda>r1.
         rbind (flitBuffer_getTopFlit switch_buffer) (\<lambda>(_, switch_buffer').
         rbind (vset (switchBuffers cb) i switch_buffer') (\<lambda>bs.
         Inr (r1\<lparr>crossbarSwitch := cb\<lparr>switchBuffers := bs, m_crossbar_activity := m_crossbar_activity cb + 1\<rparr>\<rparr>,
              ws @ ws')))))))))"

definition CrossbarSwitch_wakeup :: "tick \<Rightarrow> tick \<Rightarrow> Router \<times> wakes \<Rightarrow> (Router \<times> wakes) res" where
  "CrossbarSwitch_wakeup p now rw =
     rfold (CrossbarSwitch_traverse p now)
       [0..int (length (switchBuffers (crossbarSwitch (fst rw)))) - 1] rw"

fun read_buffers :: "(message \<Rightarrow> 'pk \<Rightarrow> bool \<times> 'pk) \<Rightarrow> flitBuffer list \<Rightarrow> 'pk \<Rightarrow> (bool \<times> 'pk) res" where
  "read_buffers fr [] pk = Inr (False, pk)"
| "read_buffers fr (b # bs) pk =
     rbind (flitBuffer_functionalRead fr pk b) (\<lambda>(x, pk1).
     rbind (read_buffers fr bs pk1) (\<lambda>(y, pk2). Inr (x \<or> y, pk2)))"

definition CrossbarSwitch_functionalRead ::
    "(message \<Rightarrow> 'pk \<Rightarrow> bool \<times> 'pk) \<Rightarrow> 'pk \<Rightarrow> CrossbarSwitch \<Rightarrow> (bool \<times> 'pk) res" where
  "CrossbarSwitch_functionalRead fr pk cb = read_buffers fr (switchBuffers cb) pk"

fun write_buffers ::
    "('pk \<Rightarrow> message \<Rightarrow> bool \<times> message) \<Rightarrow> 'pk \<Rightarrow> flitBuffer list \<Rightarrow> (u32 \<times> flitBuffer list) res" where
  "write_buffers fw pk [] = Inr (0, [])"
| "write_buffers fw pk (b # bs) =
     rbind (flitBuffer_functionalWrite fw pk b) (\<lambda>(n, b').
     rbind (write_buffers fw pk bs) (\<lambda>(m, bs'). Inr (n + m, b' # bs')))"

definition CrossbarSwitch_functionalWrite ::
    "('pk \<Rightarrow> message \<Rightarrow> bool \<times> message) \<Rightarrow> 'pk \<Rightarrow> CrossbarSwitch \<Rightarrow> (u32 \<times> CrossbarSwitch) res" where
  "CrossbarSwitch_functionalWrite fw pk cb =
     rbind (write_buffers fw pk (switchBuffers cb)) (\<lambda>(n, bs). Inr (n, cb\<lparr>switchBuffers := bs\<rparr>))"

definition CrossbarSwitch_resetStats :: "CrossbarSwitch \<Rightarrow> CrossbarSwitch" where
  "CrossbarSwitch_resetStats cb = cb\<lparr>m_crossbar_activity := 0\<rparr>"

section \<open>Definitions: router\<close>

definition Router_init :: "Router \<Rightarrow> Router" where
  "Router_init r = CrossbarSwitch_init (SwitchAllocator_init r)"

definition Router_addInPort ::
    "PortDirection \<Rightarrow> int \<Rightarrow> int \<Rightarrow> Router \<times> NetworkLink list \<Rightarrow> (Router \<times> NetworkLink list) res" where
  "Router_addInPort inport_dirn in_link credit_link = (\<lambda>(r, links).
     let cfg = r_cfg r; port_num = int (length (m_input_unit r)) in
     rbind (vget links in_link) (\<lambda>l.
     rbind (check Fatal (bitWidth l = r_bit_width cfg)) (\<lambda>_.
     rbind (InputUnit_new cfg port_num inport_dirn in_link credit_link) (\<lambda>iu.
     rbind (mod_link in_link (NetworkLink_setLinkConsumer (ToRouter (r_id cfg))) links) (\<lambda>links1.
     rbind (links_setVcsPerVnet in_link (r_vc_per_vnet cfg) links1) (\<lambda>links2.
     rbind (mod_link credit_link (NetworkLink_setSourceQueue (RouterCredit (r_id cfg) port_num)) links2) (\<lambda>links3.
     rbind (links_setVcsPerVnet credit_link (r_vc_per_vnet cfg) links3) (\<lambda>links4.
     Inr (r\<lparr>m_input_unit := m_input_unit r @ [iu],
            routingUnit := RoutingUnit_addInDirection inport_dirn port_num (routingUnit r)\<rparr>, links4)))))))))"

definition Router_addOutPort ::
    "net_params \<Rightarrow> PortDirection \<Rightarrow> int \<Rightarrow> net_dest list \<Rightarrow> int \<Rightarrow> int \<Rightarrow> u32 \<Rightarrow>
      Router \<times> NetworkLink list \<Rightarrow> (Router \<times> NetworkLink list) res" where
  "Router_addOutPort net outport_dirn out_link entry link_weight credit_link consumerVcs = (\<lambda>(r, links).
     let cfg = r_cfg r; port_num = int (length (m_output_unit r)) in
     rbind (vget links out_link) (\<lambda>l.
     rbind (check Fatal (bitWidth l = r_bit_width cfg)) (\<lambda>_.
     rbind (OutputUnit_new net cfg port_num outport_dirn consumerVcs out_link credit_link) (\<lambda>ou.
     rbind (mod_link credit_link (NetworkLink_setLinkConsumer (ToRouter (r_id cfg))) links) (\<lambda>links1.
     rbind (links_setVcsPerVnet credit_link consumerVcs links1) (\<lambda>links2.
     rbind (mod_link out_link (NetworkLink_setSourceQueue (RouterOut (r_id cfg) port_num)) links2) (\<lambda>links3.
     rbind (links_setVcsPerVnet out_link consumerVcs links3) (\<lambda>links4.
     Inr (r\<lparr>m_output_unit := m_output_unit r @ [ou],
            routingUnit := RoutingUnit_addOutDirection outport_dirn port_num
              (RoutingUnit_addWeight link_weight (RoutingUnit_addRoute entry (routingUnit r)))\<rparr>, links4)))))))))"

definition Router_wake_input ::
    "net_params \<Rightarrow> (int \<Rightarrow> int) \<Rightarrow> tick \<Rightarrow> tick \<Rightarrow> int \<Rightarrow> Router \<times> NetworkLink list \<times> wakes \<Rightarrow>
      (Router \<times> NetworkLink list \<times> wakes) res" where
  "Router_wake_input net rnd p now inport = (\<lambda>(r, links, ws).
     rbind (vget (m_input_unit r) inport) (\<lambda>iu.
     rbind (vget links (m_in_link iu)) (\<lambda>l.
     rbind (InputUnit_wakeup (Router_route_compute net (rnd inport) r) (r_cfg r) p now l iu) (\<lambda>(iu', l', ws').
     rbind (putInputUnit inport iu' r) (\<lambda>r'.
     rbind (vset links (m_in_link iu) l') (\<lambda>links'. Inr (r', links', ws @ ws')))))))"

definition Router_wake_output ::
    "tick \<Rightarrow> int \<Rightarrow> Router \<times> NetworkLink list \<times> wakes \<Rightarrow> (Router \<times> NetworkLink list \<times> wakes) res" where
  "Router_wake_output now outport = (\<lambda>(r, links, ws).
     rbind (vget (m_output_unit r) outport) (\<lambda>ou.
     rbind (vget links (ou_credit_link ou)) (\<lambda>l.
     rbind (OutputUnit_wakeup (r_cfg r) now l ou) (\<lambda>(ou', l', ws').
     rbind (putOutputUnit outport ou' r) (\<lambda>r'.
     rbind (vset links (ou_credit_link ou) l') (\<lambda>links'. Inr (r', links', ws @ ws')))))))"

definition Router_wakeup ::
    "net_params \<Rightarrow> (tick \<Rightarrow> bool) \<Rightarrow> (int \<Rightarrow> int) \<Rightarrow> tick \<Rightarrow> tick \<Rightarrow> Router \<times> NetworkLink list \<Rightarrow>
      (Router \<times> NetworkLink list \<times> wakes) res" where
  "Router_wakeup net sched rnd p now = (\<lambda>(r, links).
     rbind (check Assertion (edge_at p now 0 = now)) (\<lambda>_.
     rbind (rfold (Router_wake_input net rnd p now) [0..int (length (m_input_unit r)) - 1] (r, links, []))
       (\<lambda>(r1, links1, ws1).
     rbind (rfold (Router_wake_output now) [0..int (length (m_output_unit r1)) - 1] (r1, links1, ws1))
       (\<lambda>(r2, links2, ws2).
     rbind (SwitchAllocator_wakeup sched p now net (r2, ws2)) (\<lambda>(r3, ws3).
     rbind (CrossbarSwitch_wakeup p now (r3, ws3)) (\<lambda>(r4, ws4). Inr (r4, links2, ws4)))))))"

text \<open>The statistics a router reports: buffer reads and writes, arbiter and crossbar activity.\<close>

record RouterStats =
  m_buffer_reads :: int
  m_buffer_writes :: int
  m_sw_input_arbiter_activity :: int
  m_sw_output_arbiter_activity :: int
  rs_crossbar_activity :: int

definition Router_collateStats :: "Router \<Rightarrow> RouterStats \<Rightarrow> RouterStats res" where
  "Router_collateStats r st =
     rbind (rfold (\<lambda>(j, i) s.
              rbind (getInputUnit i r) (\<lambda>iu.
              rbind (vget (m_num_buffer_reads iu) j) (\<lambda>rd.
              rbind (vget (m_num_buffer_writes iu) j) (\<lambda>wr.
              Inr (s\<lparr>m_buffer_reads := m_buffer_reads s + rd, m_buffer_writes := m_buffer_writes s + wr\<rparr>)))))
            (List.product [0..uint (r_virtual_networks (r_cfg r)) - 1] [0..int (length (m_input_unit r)) - 1]) st)
     (\<lambda>s. Inr (s\<lparr>m_sw_input_arbiter_activity := m_input_arbiter_activity (switchAllocator r),
                 m_sw_output_arbiter_activity := m_output_arbiter_activity (switchAllocator r),
                 rs_crossbar_activity := m_crossbar_activity (crossbarSwitch r)\<rparr>))"

definition Router_resetStats :: "Router \<Rightarrow> Router" where
  "Router_resetStats r =
     r\<lparr>m_input_unit := map InputUnit_resetStats (m_input_unit r),
       crossbarSwitch := CrossbarSwitch_resetStats (crossbarSwitch r),
       switchAllocator := SwitchAllocator_resetStats (switchAllocator r)\<rparr>"

fun read_units :: "('u \<Rightarrow> 'pk \<Rightarrow> (bool \<times> 'pk) res) \<Rightarrow> 'u list \<Rightarrow> 'pk \<Rightarrow> (bool \<times> 'pk) res" where
  "read_units g [] pk = Inr (False, pk)"
| "read_units g (u # us) pk =
     rbind (g u pk) (\<lambda>(x, pk1). rbind (read_units g us pk1) (\<lambda>(y, pk2). Inr (x \<or> y, pk2)))"

fun write_units :: "('u \<Rightarrow> (u32 \<times> 'u) res) \<Rightarrow> 'u list \<Rightarrow> (u32 \<times> 'u list) res" where
  "write_units g [] = Inr (0, [])"
| "write_units g (u # us) =
     rbind (g u) (\<lambda>(n, u'). rbind (write_units g us) (\<lambda>(m, us'). Inr (n + m, u' # us')))"

definition Router_functionalRead ::
    "(message \<Rightarrow> 'pk \<Rightarrow> bool \<times> 'pk) \<Rightarrow> 'pk \<Rightarrow> Router \<Rightarrow> (bool \<times> 'pk) res" where
  "Router_functionalRead fr pk r =
     rbind (CrossbarSwitch_functionalRead fr pk (crossbarSwitch r)) (\<lambda>(a, pk1).
     rbind (read_units (\<lambda>u pk. InputUnit_functionalRead fr pk u) (m_input_unit r) pk1) (\<lambda>(b, pk2).
     rbind (read_units (\<lambda>u pk. OutputUnit_functionalRead fr pk u) (m_output_unit r) pk2) (\<lambda>(c, pk3).
     Inr (a \<or> b \<or> c, pk3))))"

definition Router_functionalWrite ::
    "('pk \<Rightarrow> message \<Rightarrow> bool \<times> message) \<Rightarrow> 'pk \<Rightarrow> Router \<Rightarrow> (u32 \<times> Router) res" where
  "Router_functionalWrite fw pk r =
     rbind (CrossbarSwitch_functionalWrite fw pk (crossbarSwitch r)) (\<lambda>(a, cb).
     rbind (write_units (InputUnit_functionalWrite fw pk) (m_input_unit r)) (\<lambda>(b, ius).
     rbind (write_units (OutputUnit_functionalWrite fw pk) (m_output_unit r)) (\<lambda>(c, ous).
     Inr (a + b + c, r\<lparr>crossbarSwitch := cb, m_input_unit := ius, m_output_unit := ous\<rparr>))))"

end
