(* ===== verification/Garnet_Router_Flow.thy ===== *)
theory Garnet_Router_Flow
  imports Garnet_Router
begin

text \<open>
  What a wake-up of a router does with flits. First the inversion of each step of the wake-up (what
  it changes when it returns), then conservation: no flit is lost, duplicated or made up
  between the input links, the virtual channels, the crossbar and the output buffers.
\<close>

section \<open>Counting flits\<close>

text \<open>
  What identifies a flit while the router changes its time, stage, hop count, output port and
  virtual channel. Credits are not counted.
\<close>

definition flit_key :: "flit \<Rightarrow> int \<times> int \<times> flit_type \<times> int \<times> int \<times> message option" where
  "flit_key f = (m_packet_id f, m_id f, m_type f, m_size f, m_vnet f, m_msg_ptr f)"

definition keys :: "flit list \<Rightarrow> (int \<times> int \<times> flit_type \<times> int \<times> int \<times> message option) multiset" where
  "keys fs = image_mset flit_key (mset (filter (\<lambda>f. m_is_free_signal f = None) fs))"

definition same_flit :: "flit \<Rightarrow> flit \<Rightarrow> bool" where
  "same_flit f g = (flit_key f = flit_key g \<and> m_is_free_signal f = m_is_free_signal g)"

definition iu_keys where
  "iu_keys iu = (\<Sum>v\<leftarrow>virtualChannels iu. keys (VC_items v))"

definition ou_keys where
  "ou_keys ou = keys (m_buffer (outBuffer ou))"

definition router_keys where
  "router_keys r =
     (\<Sum>iu\<leftarrow>m_input_unit r. iu_keys iu) +
     (\<Sum>b\<leftarrow>switchBuffers (crossbarSwitch r). keys (m_buffer b)) +
     (\<Sum>ou\<leftarrow>m_output_unit r. ou_keys ou)"

definition links_keys where
  "links_keys links = (\<Sum>l\<leftarrow>links. keys (link_items l))"

lemma keys_simps [simp]: "keys [] = {#}" "keys (fs @ gs) = keys fs + keys gs"
  by (simp_all add: keys_def)

lemma keys_Cons: "keys (f # fs) = keys [f] + keys fs"
  by (simp add: keys_def)

lemma keys_same: "same_flit f g \<Longrightarrow> keys [f] = keys [g]"
  by (simp add: same_flit_def keys_def)

lemma same_flit_changes:
  "same_flit (staged t f) f" "same_flit (granted_flit now op ov f) f" "same_flit (departed_flit p now f) f"
  "same_flit (f\<lparr>m_time := t\<rparr>) f"
  by (simp_all add: same_flit_def flit_key_def staged_def granted_flit_def departed_flit_def
      advance_stage_def increment_hops_def)

lemmas keys_changes [simp] = same_flit_changes [THEN keys_same]

section \<open>What each step changes\<close>

lemma getInputUnit_eq_Inr [res_iff]:
  "getInputUnit i r = Inr iu \<longleftrightarrow> 0 \<le> i \<and> i < int (length (m_input_unit r)) \<and> iu = m_input_unit r ! nat i"
  by (auto simp: getInputUnit_def rbind_eq_Inr vget_eq_Inr)

lemma getOutputUnit_eq_Inr [res_iff]:
  "getOutputUnit i r = Inr ou \<longleftrightarrow> 0 \<le> i \<and> i < int (length (m_output_unit r)) \<and> ou = m_output_unit r ! nat i"
  by (auto simp: getOutputUnit_def rbind_eq_Inr vget_eq_Inr)

lemma putInputUnit_eq_Inr [res_iff]:
  "putInputUnit i iu r = Inr r' \<longleftrightarrow>
     0 \<le> i \<and> i < int (length (m_input_unit r)) \<and> r' = r\<lparr>m_input_unit := (m_input_unit r)[nat i := iu]\<rparr>"
  by (auto simp: putInputUnit_def rbind_eq_Inr vset_eq_Inr)

lemma putOutputUnit_eq_Inr [res_iff]:
  "putOutputUnit i ou r = Inr r' \<longleftrightarrow>
     0 \<le> i \<and> i < int (length (m_output_unit r)) \<and> r' = r\<lparr>m_output_unit := (m_output_unit r)[nat i := ou]\<rparr>"
  by (auto simp: putOutputUnit_def rbind_eq_Inr vset_eq_Inr)

lemma release_flitD:
  assumes "release_flit p now invc iu = Inr (f, iu', ws)"
  shows "\<exists>fs v'. 0 \<le> invc \<and> invc < int (length (virtualChannels iu)) \<and>
    VC_items (virtualChannels iu ! nat invc) = f # fs \<and> VC_items v' = fs \<and>
    (v' = (virtualChannels iu ! nat invc)\<lparr>inputBuffer := (inputBuffer (virtualChannels iu ! nat invc))\<lparr>m_buffer := fs\<rparr>\<rparr> \<and> \<not> is_tail f \<or>
     v' = VC_set_idle now ((virtualChannels iu ! nat invc)\<lparr>inputBuffer := (inputBuffer (virtualChannels iu ! nat invc))\<lparr>m_buffer := fs\<rparr>\<rparr>) \<and>
       is_tail f \<and> \<not> VC_isReady now v') \<and>
    iu' = iu\<lparr>virtualChannels := (virtualChannels iu)[nat invc := v'],
             creditQueue := flitBuffer_insert (Credit_new invc (is_tail f) now) (creditQueue iu)\<rparr> \<and>
    ws = [(ToLink (iu_credit_link iu), At (edge_at p now 1))]"
proof -
  let ?v = "virtualChannels iu ! nat invc"
  obtain fs where r: "0 \<le> invc" "invc < int (length (virtualChannels iu))" and fs: "VC_items ?v = f # fs"
    and top: "InputUnit_getTopFlit invc iu = Inr (f, iu\<lparr>virtualChannels := (virtualChannels iu)
       [nat invc := ?v\<lparr>inputBuffer := (inputBuffer ?v)\<lparr>m_buffer := fs\<rparr>\<rparr>]\<rparr>)"
    using assms by (auto simp: release_flit_def rbind_eq_Inr InputUnit_getTopFlit_def vget_eq_Inr vset_eq_Inr
        VC_getTopFlit_eq_Inr split: if_splits prod.splits)
  let ?v1 = "?v\<lparr>inputBuffer := (inputBuffer ?v)\<lparr>m_buffer := fs\<rparr>\<rparr>"
  have n: "nat invc < length (virtualChannels iu)" using r by (simp add: nat_less_iff)
  show ?thesis
  proof (cases "is_tail f")
    case True
    then have "\<not> VC_isReady now (VC_set_idle now ?v1)" and
      "iu' = iu\<lparr>virtualChannels := (virtualChannels iu)[nat invc := VC_set_idle now ?v1],
             creditQueue := flitBuffer_insert (Credit_new invc (is_tail f) now) (creditQueue iu)\<rparr>"
      "ws = [(ToLink (iu_credit_link iu), At (edge_at p now 1))]"
      using assms top n r
      by (auto simp: release_flit_def rbind_eq_Inr is_tail_def InputUnit_isReady_def vget_eq_Inr
          InputUnit_set_vc_idle_def iu_mod_vc_eq_Inr InputUnit_increment_credit_def VC_isReady_def VC_set_idle_def)
    moreover have "VC_items (VC_set_idle now ?v1) = fs" by (simp add: VC_items_def VC_set_idle_def)
    ultimately show ?thesis using True r fs by blast
  next
    case False
    then have "iu' = iu\<lparr>virtualChannels := (virtualChannels iu)[nat invc := ?v1],
             creditQueue := flitBuffer_insert (Credit_new invc (is_tail f) now) (creditQueue iu)\<rparr>"
      "ws = [(ToLink (iu_credit_link iu), At (edge_at p now 1))]"
      using assms top by (auto simp: release_flit_def is_tail_def InputUnit_increment_credit_def)
    moreover have "VC_items ?v1 = fs" by (simp add: VC_items_def)
    ultimately show ?thesis using False r fs by blast
  qed
qed

lemma iu_keys_update:
  assumes "0 \<le> invc" "invc < int (length (virtualChannels iu))"
  shows "(\<Sum>v\<leftarrow>(virtualChannels iu)[nat invc := v']. keys (VC_items v)) + keys (VC_items (virtualChannels iu ! nat invc)) =
    iu_keys iu + keys (VC_items v')"
  unfolding iu_keys_def by (rule sum_list_map_update) (use assms in \<open>simp add: nat_less_iff\<close>)

lemma release_flit_keys:
  assumes "release_flit p now invc iu = Inr (f, iu', ws)"
  shows "iu_keys iu' + keys [f] = iu_keys iu"
proof -
  obtain fs v' where "0 \<le> invc" "invc < int (length (virtualChannels iu))"
    "VC_items (virtualChannels iu ! nat invc) = f # fs" "VC_items v' = fs"
    "virtualChannels iu' = (virtualChannels iu)[nat invc := v']"
    using release_flitD [OF assms] by auto
  then have "iu_keys iu' + keys (f # fs) = iu_keys iu + keys fs"
    using iu_keys_update [of invc iu v'] by (simp add: iu_keys_def)
  then have "iu_keys iu' + keys [f] + keys fs = iu_keys iu + keys fs"
    by (simp only: keys_Cons [of f fs] ac_simps)
  then show ?thesis by (rule add_right_imp_eq)
qed

section \<open>Conservation of flits\<close>

lemma router_keys_sa [simp]: "router_keys (r\<lparr>switchAllocator := sa\<rparr>) = router_keys r"
  by (simp add: router_keys_def)

lemma router_keys_input:
  assumes "0 \<le> i" "i < int (length (m_input_unit r))"
  shows "router_keys (r\<lparr>m_input_unit := (m_input_unit r)[nat i := iu]\<rparr>) + iu_keys (m_input_unit r ! nat i) =
    router_keys r + iu_keys iu"
proof -
  have "(\<Sum>u\<leftarrow>(m_input_unit r)[nat i := iu]. iu_keys u) + iu_keys (m_input_unit r ! nat i) =
      (\<Sum>u\<leftarrow>m_input_unit r. iu_keys u) + iu_keys iu"
    by (rule sum_list_map_update) (use assms in \<open>simp add: nat_less_iff\<close>)
  then show ?thesis by (simp add: router_keys_def ac_simps)
qed

lemma router_keys_output:
  assumes "0 \<le> i" "i < int (length (m_output_unit r))"
  shows "router_keys (r\<lparr>m_output_unit := (m_output_unit r)[nat i := ou]\<rparr>) + ou_keys (m_output_unit r ! nat i) =
    router_keys r + ou_keys ou"
proof -
  have "(\<Sum>u\<leftarrow>(m_output_unit r)[nat i := ou]. ou_keys u) + ou_keys (m_output_unit r ! nat i) =
      (\<Sum>u\<leftarrow>m_output_unit r. ou_keys u) + ou_keys ou"
    by (rule sum_list_map_update) (use assms in \<open>simp add: nat_less_iff\<close>)
  then show ?thesis by (simp add: router_keys_def ac_simps)
qed

lemma router_keys_switch:
  assumes "0 \<le> i" "i < int (length (switchBuffers (crossbarSwitch r)))"
  shows "router_keys (r\<lparr>crossbarSwitch := cb\<lparr>switchBuffers := (switchBuffers (crossbarSwitch r))[nat i := b]\<rparr>\<rparr>) +
      keys (m_buffer (switchBuffers (crossbarSwitch r) ! nat i)) = router_keys r + keys (m_buffer b)"
proof -
  have "(\<Sum>u\<leftarrow>(switchBuffers (crossbarSwitch r))[nat i := b]. keys (m_buffer u)) +
      keys (m_buffer (switchBuffers (crossbarSwitch r) ! nat i)) =
      (\<Sum>u\<leftarrow>switchBuffers (crossbarSwitch r). keys (m_buffer u)) + keys (m_buffer b)"
    by (rule sum_list_map_update) (use assms in \<open>simp add: nat_less_iff\<close>)
  then show ?thesis by (simp add: router_keys_def ac_simps)
qed

lemma router_keys_input_same:
  "0 \<le> i \<Longrightarrow> i < int (length (m_input_unit r)) \<Longrightarrow> iu_keys iu = iu_keys (m_input_unit r ! nat i) \<Longrightarrow>
   router_keys (r\<lparr>m_input_unit := (m_input_unit r)[nat i := iu]\<rparr>) = router_keys r"
  using router_keys_input [of i r iu] by simp

lemma router_keys_output_same:
  "0 \<le> i \<Longrightarrow> i < int (length (m_output_unit r)) \<Longrightarrow> ou_keys ou = ou_keys (m_output_unit r ! nat i) \<Longrightarrow>
   router_keys (r\<lparr>m_output_unit := (m_output_unit r)[nat i := ou]\<rparr>) = router_keys r"
  using router_keys_output [of i r ou] by simp

lemma sa_same: "\<exists>sa. r = r\<lparr>switchAllocator := sa\<rparr>" for r :: Router
  by (rule exI [of _ "switchAllocator r"]) simp

lemma arbitrate_inport_sa:
  assumes "SwitchAllocator_arbitrate_inport now net i r = Inr r'"
  shows "\<exists>sa. r' = r\<lparr>switchAllocator := sa\<rparr>"
proof -
  let ?sa = "switchAllocator r"
  obtain invc w where "vget (m_round_robin_invc ?sa) i = Inr invc"
    "rr_scan (sa_num_vcs ?sa) (inport_probe now net r i) (nat (sa_num_vcs ?sa)) invc = Inr w"
    using assms by (auto simp: SwitchAllocator_arbitrate_inport_def Let_def rbind_eq_Inr)
  then show ?thesis using assms sa_same [of r]
    by (cases w) (auto simp: SwitchAllocator_arbitrate_inport_def Let_def rbind_eq_Inr)
qed

lemma arbitrate_inports_sa:
  assumes "SwitchAllocator_arbitrate_inports now net r = Inr r'"
  shows "\<exists>sa. r' = r\<lparr>switchAllocator := sa\<rparr>"
  by (rule rfold_inv [OF assms [unfolded SwitchAllocator_arbitrate_inports_def]
        , where I = "\<lambda>r'. \<exists>sa. r' = r\<lparr>switchAllocator := sa\<rparr>"])
    (rule sa_same, use arbitrate_inport_sa in fastforce)

lemma select_free_vc_outBuffer:
  assumes "OutputUnit_select_free_vc now vnet ou = Inr (vc, ou')"
  shows "outBuffer ou' = outBuffer ou"
proof -
  obtain q where "first_idle_vc now vnet ou = Inr q"
    using assms by (auto simp: OutputUnit_select_free_vc_def rbind_eq_Inr)
  then show ?thesis using assms
    by (cases q) (auto simp: OutputUnit_select_free_vc_def rbind_eq_Inr)
qed

lemma grant_outvc_keys: "InputUnit_grant_outvc invc outvc iu = Inr iu' \<Longrightarrow> iu_keys iu' = iu_keys iu"
  using iu_keys_update [of invc iu "(virtualChannels iu ! nat invc)\<lparr>m_output_vc := outvc\<rparr>"]
  by (auto simp: InputUnit_grant_outvc_def iu_mod_vc_eq_Inr iu_keys_def VC_items_def)

lemma vc_allocateD:
  assumes "SwitchAllocator_vc_allocate now outport inport invc r = Inr (outvc, r')"
  shows "\<exists>vnet ou' iu'. 0 \<le> outport \<and> outport < int (length (m_output_unit r)) \<and>
    OutputUnit_select_free_vc now vnet (m_output_unit r ! nat outport) = Inr (outvc, ou') \<and>
    0 \<le> inport \<and> inport < int (length (m_input_unit r)) \<and>
    InputUnit_grant_outvc invc outvc (m_input_unit r ! nat inport) = Inr iu' \<and>
    r' = r\<lparr>m_output_unit := (m_output_unit r)[nat outport := ou'], m_input_unit := (m_input_unit r)[nat inport := iu']\<rparr>"
  using assms by (auto simp: SwitchAllocator_vc_allocate_def rbind_eq_Inr getOutputUnit_eq_Inr
      getInputUnit_eq_Inr putOutputUnit_eq_Inr putInputUnit_eq_Inr)

lemma vc_allocate_keys:
  assumes "SwitchAllocator_vc_allocate now outport inport invc r = Inr (outvc, r')"
  shows "router_keys r' = router_keys r"
proof -
  obtain vnet ou' iu' where
    o: "0 \<le> outport" "outport < int (length (m_output_unit r))"
      "OutputUnit_select_free_vc now vnet (m_output_unit r ! nat outport) = Inr (outvc, ou')" and
    i: "0 \<le> inport" "inport < int (length (m_input_unit r))"
      "InputUnit_grant_outvc invc outvc (m_input_unit r ! nat inport) = Inr iu'" and
    r': "r' = r\<lparr>m_output_unit := (m_output_unit r)[nat outport := ou'], m_input_unit := (m_input_unit r)[nat inport := iu']\<rparr>"
    using vc_allocateD [OF assms] by blast
  let ?r1 = "r\<lparr>m_output_unit := (m_output_unit r)[nat outport := ou']\<rparr>"
  have "router_keys ?r1 = router_keys r"
    using o select_free_vc_outBuffer [OF o(3)] by (intro router_keys_output_same) (auto simp: ou_keys_def)
  moreover have "router_keys (?r1\<lparr>m_input_unit := (m_input_unit ?r1)[nat inport := iu']\<rparr>) = router_keys ?r1"
    using i grant_outvc_keys [OF i(3)] by (intro router_keys_input_same) auto
  ultimately show ?thesis by (simp add: r')
qed

lemma grant_switch_keys:
  assumes "Router_grant_switch inport f r = Inr r'"
  shows "router_keys r' = router_keys r + keys [f]"
proof -
  let ?bs = "switchBuffers (crossbarSwitch r)"
  have i: "0 \<le> inport" "inport < int (length ?bs)" and
    r': "r' = r\<lparr>crossbarSwitch := (crossbarSwitch r)\<lparr>switchBuffers := ?bs[nat inport := flitBuffer_insert f (?bs ! nat inport)]\<rparr>\<rparr>"
    using assms by (auto simp: Router_grant_switch_def rbind_eq_Inr vmod_eq_Inr)
  have "router_keys r' + keys (m_buffer (?bs ! nat inport)) =
      router_keys r + keys [f] + keys (m_buffer (?bs ! nat inport))"
    using router_keys_switch [OF i, where cb = "crossbarSwitch r" and b = "flitBuffer_insert f (?bs ! nat inport)"]
    by (simp add: r' ac_simps)
  then show ?thesis by (rule add_right_imp_eq)
qed

lemma decrement_credit_outBuffer: "OutputUnit_decrement_credit vc ou = Inr ou' \<Longrightarrow> outBuffer ou' = outBuffer ou"
  by (auto simp: OutputUnit_decrement_eq_Inr)

lemma grantD:
  assumes "SwitchAllocator_grant p now outport inport r = Inr (r', ws)"
  shows "\<exists>invc outvc0 outvc r1 f iu2 ou2 r4 sa.
    (if outvc0 = -1 then SwitchAllocator_vc_allocate now outport inport invc r else Inr (outvc0, r)) = Inr (outvc, r1) \<and>
    0 \<le> inport \<and> inport < int (length (m_input_unit r1)) \<and>
    release_flit p now invc (m_input_unit r1 ! nat inport) = Inr (f, iu2, ws) \<and>
    0 \<le> outport \<and> outport < int (length (m_output_unit r1)) \<and>
    OutputUnit_decrement_credit outvc (m_output_unit r1 ! nat outport) = Inr ou2 \<and>
    Router_grant_switch inport (granted_flit now outport outvc f)
      (r1\<lparr>m_input_unit := (m_input_unit r1)[nat inport := iu2],
          m_output_unit := (m_output_unit r1)[nat outport := ou2]\<rparr>) = Inr r4 \<and>
    r' = r4\<lparr>switchAllocator := sa\<rparr>"
proof -
  obtain invc outvc0 outvc r1 f iu2 ou2 r4 sa where
    "(if outvc0 = -1 then SwitchAllocator_vc_allocate now outport inport invc r else Inr (outvc0, r)) = Inr (outvc, r1)"
    "0 \<le> inport" "inport < int (length (m_input_unit r1))"
    "release_flit p now invc (m_input_unit r1 ! nat inport) = Inr (f, iu2, ws)"
    "0 \<le> outport" "outport < int (length (m_output_unit r1))"
    "OutputUnit_decrement_credit outvc (m_output_unit r1 ! nat outport) = Inr ou2"
    "Router_grant_switch inport (granted_flit now outport outvc f)
      (r1\<lparr>m_input_unit := (m_input_unit r1)[nat inport := iu2],
          m_output_unit := (m_output_unit r1)[nat outport := ou2]\<rparr>) = Inr r4"
    "r' = r4\<lparr>switchAllocator := sa\<rparr>"
    using assms
    by (auto simp: SwitchAllocator_grant_def Let_def rbind_eq_Inr getOutputUnit_eq_Inr getInputUnit_eq_Inr
        putOutputUnit_eq_Inr putInputUnit_eq_Inr)
  then show ?thesis by blast
qed

lemma grant_keys:
  assumes "SwitchAllocator_grant p now outport inport r = Inr (r', ws)"
  shows "router_keys r' = router_keys r"
proof -
  obtain invc outvc0 outvc r1 f iu2 ou2 r4 sa where
    alloc: "(if outvc0 = -1 then SwitchAllocator_vc_allocate now outport inport invc r else Inr (outvc0, r)) = Inr (outvc, r1)" and
    i: "0 \<le> inport" "inport < int (length (m_input_unit r1))" and
    rel: "release_flit p now invc (m_input_unit r1 ! nat inport) = Inr (f, iu2, ws)" and
    o: "0 \<le> outport" "outport < int (length (m_output_unit r1))"
      "OutputUnit_decrement_credit outvc (m_output_unit r1 ! nat outport) = Inr ou2" and
    sw: "Router_grant_switch inport (granted_flit now outport outvc f)
      (r1\<lparr>m_input_unit := (m_input_unit r1)[nat inport := iu2],
          m_output_unit := (m_output_unit r1)[nat outport := ou2]\<rparr>) = Inr r4" and
    r': "r' = r4\<lparr>switchAllocator := sa\<rparr>"
    using grantD [OF assms] by blast
  let ?r2 = "r1\<lparr>m_input_unit := (m_input_unit r1)[nat inport := iu2]\<rparr>"
  let ?r3 = "?r2\<lparr>m_output_unit := (m_output_unit ?r2)[nat outport := ou2]\<rparr>"
  have "router_keys r1 = router_keys r"
    using alloc vc_allocate_keys by (auto split: if_splits)
  moreover have "router_keys ?r2 + keys [f] = router_keys r1"
  proof -
    have "router_keys ?r2 + keys [f] + iu_keys iu2 = router_keys r1 + iu_keys iu2"
      using router_keys_input [OF i, of iu2] release_flit_keys [OF rel] by (metis add.assoc add.commute)
    then show ?thesis by (rule add_right_imp_eq)
  qed
  moreover have "router_keys ?r3 = router_keys ?r2"
    using o decrement_credit_outBuffer [OF o(3)] by (intro router_keys_output_same) (auto simp: ou_keys_def)
  moreover have "router_keys r4 = router_keys ?r3 + keys [f]" using grant_switch_keys [OF sw] by simp
  ultimately show ?thesis by (simp add: r')
qed

lemma arbitrate_outportD:
  assumes "SwitchAllocator_arbitrate_outport p now outport (r, ws) = Inr (r', ws')"
  shows "r' = r \<or> (\<exists>i ws1. SwitchAllocator_grant p now outport i r = Inr (r', ws1))"
proof -
  let ?sa = "switchAllocator r"
  obtain inport w where
    scan: "vget (m_round_robin_inport ?sa) outport = Inr inport"
    "rr_scan (m_num_inports ?sa)
       (\<lambda>i. rbind (vget (m_port_requests ?sa) i) (\<lambda>q. Inr (if q = outport then Some i else None)))
       (nat (m_num_inports ?sa)) inport = Inr w"
    using assms by (auto simp: SwitchAllocator_arbitrate_outport_def Let_def rbind_eq_Inr)
  then show ?thesis using assms
    by (cases w) (auto simp: SwitchAllocator_arbitrate_outport_def Let_def rbind_eq_Inr)
qed

lemma arbitrate_outport_keys:
  "SwitchAllocator_arbitrate_outport p now outport (r, ws) = Inr (r', ws') \<Longrightarrow> router_keys r' = router_keys r"
  using arbitrate_outportD grant_keys by blast

lemma arbitrate_outports_keys:
  assumes "SwitchAllocator_arbitrate_outports p now (r, ws) = Inr (r', ws')"
  shows "router_keys r' = router_keys r"
proof -
  have "router_keys (fst (r', ws')) = router_keys r"
    by (rule rfold_inv [OF assms [unfolded SwitchAllocator_arbitrate_outports_def],
          where I = "\<lambda>rw. router_keys (fst rw) = router_keys r"])
      (simp, use arbitrate_outport_keys in fastforce)
  then show ?thesis by simp
qed

lemma check_for_wakeup_same:
  "SwitchAllocator_check_for_wakeup sched p now (r, ws) = Inr (r', ws') \<Longrightarrow> r' = r"
  by (auto simp: SwitchAllocator_check_for_wakeup_def Let_def rbind_eq_Inr split: if_splits)

lemma SwitchAllocator_wakeupD:
  assumes "SwitchAllocator_wakeup sched p now net (r, ws) = Inr (r', ws')"
  shows "\<exists>r1 r2 ws2. SwitchAllocator_arbitrate_inports now net r = Inr r1 \<and>
    SwitchAllocator_arbitrate_outports p now (r1, ws) = Inr (r2, ws2) \<and> r' = SwitchAllocator_clear_request_vector r2"
  using assms check_for_wakeup_same by (fastforce simp: SwitchAllocator_wakeup_def rbind_eq_Inr)

lemma SwitchAllocator_wakeup_keys:
  assumes "SwitchAllocator_wakeup sched p now net (r, ws) = Inr (r', ws')"
  shows "router_keys r' = router_keys r"
proof -
  obtain r1 r2 ws2 where a: "SwitchAllocator_arbitrate_inports now net r = Inr r1"
    and b: "SwitchAllocator_arbitrate_outports p now (r1, ws) = Inr (r2, ws2)"
    and c: "r' = SwitchAllocator_clear_request_vector r2"
    using SwitchAllocator_wakeupD [OF assms] by blast
  have "router_keys r1 = router_keys r" using arbitrate_inports_sa [OF a] by auto
  then show ?thesis using arbitrate_outports_keys [OF b]
    by (simp add: c SwitchAllocator_clear_request_vector_def)
qed

text \<open>The crossbar with the flit at the front of buffer \<open>i\<close> gone out of port \<open>outport\<close>.\<close>

definition crossed :: "tick \<Rightarrow> tick \<Rightarrow> int \<Rightarrow> int \<Rightarrow> flit \<Rightarrow> flit list \<Rightarrow> Router \<Rightarrow> Router" where
  "crossed p now i outport f fs r =
     (let cb = crossbarSwitch r; ou = m_output_unit r ! nat outport in
      r\<lparr>m_output_unit := (m_output_unit r)[nat outport :=
          ou\<lparr>outBuffer := flitBuffer_insert (departed_flit p now f) (outBuffer ou)\<rparr>],
        crossbarSwitch := (cb\<lparr>m_crossbar_activity := m_crossbar_activity cb + 1\<rparr>)
          \<lparr>switchBuffers := (switchBuffers cb)[nat i := (switchBuffers cb ! nat i)\<lparr>m_buffer := fs\<rparr>]\<rparr>\<rparr>)"

lemma traverseD:
  assumes "CrossbarSwitch_traverse p now i (r, ws) = Inr (r', ws')"
  shows "0 \<le> i \<and> i < int (length (switchBuffers (crossbarSwitch r))) \<and>
    (r' = r \<or> (\<exists>f fs outport. m_buffer (switchBuffers (crossbarSwitch r) ! nat i) = f # fs \<and>
      m_outport f = Some outport \<and> 0 \<le> outport \<and> outport < int (length (m_output_unit r)) \<and> r' = crossed p now i outport f fs r))"
proof -
  let ?cb = "crossbarSwitch r" and ?b = "switchBuffers (crossbarSwitch r) ! nat i"
  have i: "0 \<le> i" "i < int (length (switchBuffers ?cb))"
    using assms by (auto simp: CrossbarSwitch_traverse_def Let_def rbind_eq_Inr vget_eq_Inr)
  consider (stay) "\<not> flitBuffer_isReady now ?b" | (hold) f fs where "m_buffer ?b = f # fs" "\<not> is_stage ST now f"
    | (go) f fs where "flitBuffer_isReady now ?b" "m_buffer ?b = f # fs" "is_stage ST now f"
    by (cases "flitBuffer_isReady now ?b") (auto simp: flitBuffer_isReady_iff)
  then show ?thesis
  proof cases
    case stay
    then show ?thesis using assms i by (simp add: CrossbarSwitch_traverse_def Let_def vget_ok)
  next
    case hold
    then show ?thesis using assms i
      by (auto simp: CrossbarSwitch_traverse_def Let_def vget_ok flitBuffer_peekTopFlit_def split: if_splits)
  next
    case go
    obtain outport where "m_outport f = Some outport" "0 \<le> outport" "outport < int (length (m_output_unit r))"
        "r' = crossed p now i outport f fs r"
      using assms i go
      by (auto simp: CrossbarSwitch_traverse_def Let_def vget_ok vset_ok flitBuffer_peekTopFlit_def crossed_def
          flitBuffer_getTopFlit_def rbind_eq_Inr getOutputUnit_eq_Inr OutputUnit_insert_flit_def putOutputUnit_eq_Inr
          get_outport_def split: option.splits)
    then show ?thesis using i go(2) by blast
  qed
qed

lemma crossed_keys:
  assumes i: "0 \<le> i" "i < int (length (switchBuffers (crossbarSwitch r)))"
    and o: "0 \<le> outport" "outport < int (length (m_output_unit r))"
    and f: "m_buffer (switchBuffers (crossbarSwitch r) ! nat i) = f # fs"
  shows "router_keys (crossed p now i outport f fs r) = router_keys r"
proof -
  let ?cb = "crossbarSwitch r" and ?b = "switchBuffers (crossbarSwitch r) ! nat i" and ?r' = "crossed p now i outport f fs r"
  let ?ou = "(m_output_unit r ! nat outport)
    \<lparr>outBuffer := flitBuffer_insert (departed_flit p now f) (outBuffer (m_output_unit r ! nat outport))\<rparr>"
  let ?r1 = "r\<lparr>m_output_unit := (m_output_unit r)[nat outport := ?ou]\<rparr>"
  have "router_keys ?r1 = router_keys r + keys [f]"
  proof -
    have "router_keys ?r1 + ou_keys (m_output_unit r ! nat outport) =
        router_keys r + keys [f] + ou_keys (m_output_unit r ! nat outport)"
      using router_keys_output [OF o, of ?ou] by (simp add: ou_keys_def ac_simps)
    then show ?thesis by (rule add_right_imp_eq)
  qed
  moreover have "router_keys ?r' + keys [f] + keys fs = router_keys ?r1 + keys fs"
  proof -
    have "router_keys ?r' + keys (m_buffer ?b) = router_keys ?r1 + keys fs"
      using router_keys_switch [where r = ?r1 and i = i and b = "?b\<lparr>m_buffer := fs\<rparr>"
          and cb = "?cb\<lparr>m_crossbar_activity := m_crossbar_activity ?cb + 1\<rparr>"] i by (simp add: crossed_def Let_def)
    then show ?thesis using f keys_Cons [of f fs] by (simp add: ac_simps)
  qed
  ultimately have "router_keys ?r' + keys [f] = router_keys r + keys [f]" by (metis add_right_imp_eq)
  then show ?thesis by (rule add_right_imp_eq)
qed

lemma traverse_keys:
  "CrossbarSwitch_traverse p now i (r, ws) = Inr (r', ws') \<Longrightarrow> router_keys r' = router_keys r"
  using traverseD crossed_keys by blast

lemma CrossbarSwitch_wakeup_keys:
  assumes "CrossbarSwitch_wakeup p now (r, ws) = Inr (r', ws')"
  shows "router_keys r' = router_keys r"
proof -
  have "router_keys (fst (r', ws')) = router_keys r"
    by (rule rfold_inv [OF assms [unfolded CrossbarSwitch_wakeup_def],
          where I = "\<lambda>rw. router_keys (fst rw) = router_keys r"])
      (simp, use traverse_keys in fastforce)
  then show ?thesis by simp
qed

lemma links_keys_update:
  assumes "0 \<le> i" "i < int (length links)"
  shows "links_keys (links[nat i := l]) + keys (link_items (links ! nat i)) = links_keys links + keys (link_items l)"
  unfolding links_keys_def by (rule sum_list_map_update) (use assms in \<open>simp add: nat_less_iff\<close>)

lemma InputUnit_wakeup_keys:
  assumes "InputUnit_wakeup rc cfg p now l iu = Inr (iu', l', ws)"
  shows "iu_keys iu' + keys (link_items l') = iu_keys iu + keys (link_items l)"
proof (cases "NetworkLink_isReady now l")
  case False
  then show ?thesis using assms by (simp add: InputUnit_wakeup_def)
next
  case True
  obtain f fs outport t where f: "link_items l = f # fs" "link_items l' = fs"
    and r: "0 \<le> m_vc f" "m_vc f < int (length (virtualChannels iu))"
    and vs: "virtualChannels iu' = (virtualChannels iu)[nat (m_vc f) :=
      VC_insertFlit (staged t f) (admitted now (is_head f) outport (virtualChannels iu ! nat (m_vc f)))]"
    using InputUnit_wakeupD [OF assms True] by (auto simp: link_items_def)
  let ?v = "virtualChannels iu ! nat (m_vc f)"
  have "iu_keys iu' + keys (VC_items ?v) = iu_keys iu + keys [f] + keys (VC_items ?v)"
    using iu_keys_update [OF r, of "VC_insertFlit (staged t f) (admitted now (is_head f) outport ?v)"]
    by (simp add: iu_keys_def [of iu'] vs ac_simps)
  then have "iu_keys iu' = iu_keys iu + keys [f]" by (rule add_right_imp_eq)
  then show ?thesis using f keys_Cons [of f fs] by (simp add: ac_simps)
qed

lemma wake_inputD:
  assumes "Router_wake_input net rnd p now i (r, links, ws) = Inr (r', links', ws')"
  shows "\<exists>iu' l' ws1. 0 \<le> i \<and> i < int (length (m_input_unit r)) \<and>
    0 \<le> m_in_link (m_input_unit r ! nat i) \<and> m_in_link (m_input_unit r ! nat i) < int (length links) \<and>
    InputUnit_wakeup (Router_route_compute net (rnd i) r) (r_cfg r) p now
      (links ! nat (m_in_link (m_input_unit r ! nat i))) (m_input_unit r ! nat i) = Inr (iu', l', ws1) \<and>
    r' = r\<lparr>m_input_unit := (m_input_unit r)[nat i := iu']\<rparr> \<and>
    links' = links[nat (m_in_link (m_input_unit r ! nat i)) := l']"
  using assms by (auto simp: Router_wake_input_def rbind_eq_Inr vget_eq_Inr vset_eq_Inr putInputUnit_eq_Inr)

lemma wake_input_keys:
  assumes "Router_wake_input net rnd p now i (r, links, ws) = Inr (r', links', ws')"
  shows "router_keys r' + links_keys links' = router_keys r + links_keys links"
proof -
  let ?iu = "m_input_unit r ! nat i"
  let ?l = "links ! nat (m_in_link ?iu)"
  obtain iu' l' ws1 where i: "0 \<le> i" "i < int (length (m_input_unit r))"
    and li: "0 \<le> m_in_link ?iu" "m_in_link ?iu < int (length links)"
    and w: "InputUnit_wakeup (Router_route_compute net (rnd i) r) (r_cfg r) p now ?l ?iu = Inr (iu', l', ws1)"
    and r': "r' = r\<lparr>m_input_unit := (m_input_unit r)[nat i := iu']\<rparr>" "links' = links[nat (m_in_link ?iu) := l']"
    using wake_inputD [OF assms] by blast
  have "router_keys r' + iu_keys ?iu = router_keys r + iu_keys iu'"
    using router_keys_input [OF i, of iu'] by (simp add: r')
  moreover have "links_keys links' + keys (link_items ?l) = links_keys links + keys (link_items l')"
    using links_keys_update [OF li, of l'] by (simp add: r')
  ultimately have "(router_keys r' + links_keys links') + (iu_keys ?iu + keys (link_items ?l)) =
      (router_keys r + links_keys links) + (iu_keys iu' + keys (link_items l'))"
    by (metis (no_types, lifting) add.assoc add.commute)
  then show ?thesis unfolding InputUnit_wakeup_keys [OF w] by (rule add_right_imp_eq)
qed

lemma take_credit_keys:
  assumes "OutputUnit_wakeup cfg now l ou = Inr (ou', l', ws)"
  shows "ou_keys ou' = ou_keys ou" "keys (link_items l') = keys (link_items l)"
  using OutputUnit_wakeupD [OF assms]
  by (auto simp: OutputUnit_take_credit_eq_Inr ou_keys_def keys_def link_items_def)

lemma wake_outputD:
  assumes "Router_wake_output now i (r, links, ws) = Inr (r', links', ws')"
  shows "\<exists>ou' l' ws1. 0 \<le> i \<and> i < int (length (m_output_unit r)) \<and>
    0 \<le> ou_credit_link (m_output_unit r ! nat i) \<and> ou_credit_link (m_output_unit r ! nat i) < int (length links) \<and>
    OutputUnit_wakeup (r_cfg r) now (links ! nat (ou_credit_link (m_output_unit r ! nat i)))
      (m_output_unit r ! nat i) = Inr (ou', l', ws1) \<and>
    r' = r\<lparr>m_output_unit := (m_output_unit r)[nat i := ou']\<rparr> \<and>
    links' = links[nat (ou_credit_link (m_output_unit r ! nat i)) := l']"
  using assms by (auto simp: Router_wake_output_def rbind_eq_Inr vget_eq_Inr vset_eq_Inr putOutputUnit_eq_Inr)

lemma wake_output_keys:
  assumes "Router_wake_output now i (r, links, ws) = Inr (r', links', ws')"
  shows "router_keys r' + links_keys links' = router_keys r + links_keys links"
proof -
  let ?ou = "m_output_unit r ! nat i"
  let ?l = "links ! nat (ou_credit_link ?ou)"
  obtain ou' l' ws1 where i: "0 \<le> i" "i < int (length (m_output_unit r))"
    and li: "0 \<le> ou_credit_link ?ou" "ou_credit_link ?ou < int (length links)"
    and w: "OutputUnit_wakeup (r_cfg r) now ?l ?ou = Inr (ou', l', ws1)"
    and r': "r' = r\<lparr>m_output_unit := (m_output_unit r)[nat i := ou']\<rparr>" "links' = links[nat (ou_credit_link ?ou) := l']"
    using wake_outputD [OF assms] by blast
  have "router_keys r' = router_keys r"
    using i take_credit_keys(1) [OF w] by (simp add: r' router_keys_output_same)
  moreover have "links_keys links' = links_keys links"
    using links_keys_update [OF li, of l'] take_credit_keys(2) [OF w] by (simp add: r')
  ultimately show ?thesis by simp
qed

lemma rfold_keys:
  assumes "rfold f is (r, links, ws) = Inr (r', links', ws')"
    and "\<And>i r links ws r' links' ws'. f i (r, links, ws) = Inr (r', links', ws') \<Longrightarrow>
      router_keys r' + links_keys links' = router_keys r + links_keys links"
  shows "router_keys r' + links_keys links' = router_keys r + links_keys links"
proof -
  have "case (r', links', ws') of (r'', links'', _) \<Rightarrow>
      router_keys r'' + links_keys links'' = router_keys r + links_keys links"
    by (rule rfold_inv [OF assms(1), where I = "\<lambda>(r'', links'', _).
          router_keys r'' + links_keys links'' = router_keys r + links_keys links"])
      (simp, use assms(2) in fastforce)
  then show ?thesis by simp
qed

lemma Router_wakeupD:
  assumes "Router_wakeup net sched rnd p now (r, links) = Inr (r', links', ws)"
  shows "\<exists>r1 links1 ws1 r2 ws2 r3 ws3.
    rfold (Router_wake_input net rnd p now) [0..int (length (m_input_unit r)) - 1] (r, links, []) = Inr (r1, links1, ws1) \<and>
    rfold (Router_wake_output now) [0..int (length (m_output_unit r1)) - 1] (r1, links1, ws1) = Inr (r2, links', ws2) \<and>
    SwitchAllocator_wakeup sched p now net (r2, ws2) = Inr (r3, ws3) \<and>
    CrossbarSwitch_wakeup p now (r3, ws3) = Inr (r', ws)"
  using assms by (auto simp: Router_wakeup_def rbind_eq_Inr)

lemma Router_wakeup_keys:
  assumes "Router_wakeup net sched rnd p now (r, links) = Inr (r', links', ws)"
  shows "router_keys r' + links_keys links' = router_keys r + links_keys links"
proof -
  obtain r1 links1 ws1 r2 ws2 r3 ws3 where
    a: "rfold (Router_wake_input net rnd p now) [0..int (length (m_input_unit r)) - 1] (r, links, []) = Inr (r1, links1, ws1)" and
    b: "rfold (Router_wake_output now) [0..int (length (m_output_unit r1)) - 1] (r1, links1, ws1) = Inr (r2, links', ws2)" and
    c: "SwitchAllocator_wakeup sched p now net (r2, ws2) = Inr (r3, ws3)" and
    d: "CrossbarSwitch_wakeup p now (r3, ws3) = Inr (r', ws)"
    using Router_wakeupD [OF assms] by blast
  show ?thesis
    using rfold_keys [OF a wake_input_keys] rfold_keys [OF b wake_output_keys]
      SwitchAllocator_wakeup_keys [OF c] CrossbarSwitch_wakeup_keys [OF d] by simp
qed

end
