(* ===== verification/Garnet_Router_Safe.thy ===== *)
theory Garnet_Router_Safe
  imports Garnet_Router_Flow
begin

text \<open>
  No assertion of a router can fail. \<open>router_inv\<close> is the invariant of a router between two
  wake-ups; with the flits and credits that wait on its links respecting the flow-control
  protocol (\<open>arrivals_ok\<close>, \<open>credits_ok\<close>), a wake-up returns and re-establishes it, and leaves the
  crossbar empty: every flit that wins the allocation departs in the same cycle.
\<close>

section \<open>The invariant\<close>

text \<open>The output virtual channel is reserved: it exists and is active.\<close>

definition ovc_active :: "tick \<Rightarrow> OutputUnit \<Rightarrow> int \<Rightarrow> bool" where
  "ovc_active now ou vc =
     (0 \<le> vc \<and> vc < int (length (outVcState ou)) \<and> OutVcState_isInState ACTIVE now (outVcState ou ! nat vc))"

text \<open>
  An input virtual channel: it holds flits only while it is active; while active it has an output
  port and, once allocated, an active output virtual channel; only the last of its flits can end
  a packet.
\<close>

definition vc_inv :: "tick \<Rightarrow> OutputUnit list \<Rightarrow> VirtualChannel \<Rightarrow> bool" where
  "vc_inv now ous v =
     ((if fst (vc_state v) = ACTIVE
       then snd (vc_state v) \<le> now \<and> 0 \<le> m_output_port v \<and> m_output_port v < int (length ous) \<and>
         (m_output_vc v = -1 \<or> ovc_active now (ous ! nat (m_output_port v)) (m_output_vc v))
       else fst (vc_state v) = IDLE \<and> m_output_vc v = -1 \<and> VC_items v = []) \<and>
      (\<forall>f\<in>set (butlast (VC_items v)). \<not> is_tail f))"

text \<open>An output unit: its counters are in range, and an idle virtual channel has a free slot.\<close>

definition ou_inv :: "int \<Rightarrow> OutputUnit \<Rightarrow> bool" where
  "ou_inv vn ou =
     (0 \<le> ou_vc_per_vnet ou \<and> int (length (outVcState ou)) = vn * ou_vc_per_vnet ou \<and>
      (\<forall>s\<in>set (outVcState ou). OutVcState_ok s \<and> (ov_state s = IDLE \<longrightarrow> 0 < m_credit_count s)))"

definition iu_inv :: "tick \<Rightarrow> int \<Rightarrow> OutputUnit list \<Rightarrow> InputUnit \<Rightarrow> bool" where
  "iu_inv now nv ous iu = (int (length (virtualChannels iu)) = nv \<and> (\<forall>v\<in>set (virtualChannels iu). vc_inv now ous v))"

text \<open>The tables of the allocator fit the ports, and its round-robin pointers are in range.\<close>

definition sa_shape :: "net_params \<Rightarrow> Router \<Rightarrow> bool" where
  "sa_shape net r =
     (let sa = switchAllocator r; ni = length (m_input_unit r); no = length (m_output_unit r);
          vn = uint (r_virtual_networks (r_cfg r)) in
      m_num_inports sa = int ni \<and> m_num_outports sa = int no \<and>
      0 < sa_vc_per_vnet sa \<and> 0 < vn \<and> sa_num_vcs sa = vn * sa_vc_per_vnet sa \<and> vn \<le> int (length (m_ordered net)) \<and>
      length (m_round_robin_invc sa) = ni \<and> length (m_port_requests sa) = ni \<and>
      length (m_vc_winners sa) = ni \<and> length (m_round_robin_inport sa) = no \<and>
      length (switchBuffers (crossbarSwitch r)) = ni \<and>
      (\<forall>i\<in>set (m_round_robin_invc sa). 0 \<le> i \<and> i < sa_num_vcs sa) \<and>
      (\<forall>i\<in>set (m_round_robin_inport sa). 0 \<le> i \<and> (i < int ni \<or> ni = 0)))"

definition units_ok :: "tick \<Rightarrow> int \<Rightarrow> int \<Rightarrow> InputUnit list \<Rightarrow> OutputUnit list \<Rightarrow> bool" where
  "units_ok now nv vn ius ous = ((\<forall>iu\<in>set ius. iu_inv now nv ous iu) \<and> (\<forall>ou\<in>set ous. ou_inv vn ou))"

definition units_inv :: "tick \<Rightarrow> Router \<Rightarrow> bool" where
  "units_inv now r =
     units_ok now (sa_num_vcs (switchAllocator r)) (uint (r_virtual_networks (r_cfg r)))
       (m_input_unit r) (m_output_unit r)"

definition sa_inv :: "tick \<Rightarrow> net_params \<Rightarrow> Router \<Rightarrow> bool" where
  "sa_inv now net r = (sa_shape net r \<and> units_inv now r)"

text \<open>
  A request of the first stage, still valid at the second: the winning virtual channel has a flit
  in the allocation stage for this output port, and the port has room for it.
\<close>

definition winner_vc :: "Router \<Rightarrow> int \<Rightarrow> VirtualChannel" where
  "winner_vc r i = virtualChannels (m_input_unit r ! nat i) ! nat (m_vc_winners (switchAllocator r) ! nat i)"

definition has_room :: "tick \<Rightarrow> Router \<Rightarrow> int \<Rightarrow> int \<Rightarrow> VirtualChannel \<Rightarrow> bool" where
  "has_room now r q invc v =
     (let ou = m_output_unit r ! nat q in
      if m_output_vc v = -1
      then \<exists>vc\<in>set (vcs_of_vnet (invc div sa_vc_per_vnet (switchAllocator r)) ou). vc_idle now ou vc
      else 0 < m_credit_count (outVcState ou ! nat (m_output_vc v)))"

definition req_inv :: "tick \<Rightarrow> Router \<Rightarrow> int \<Rightarrow> bool" where
  "req_inv now r i =
     (let q = m_port_requests (switchAllocator r) ! nat i;
          invc = m_vc_winners (switchAllocator r) ! nat i; v = winner_vc r i in
      0 \<le> invc \<and> invc < sa_num_vcs (switchAllocator r) \<and> m_output_port v = q \<and>
      (\<exists>f fs. VC_items v = f # fs \<and> m_time f \<le> now) \<and> has_room now r q invc v)"

section \<open>Probing\<close>

lemma vc_inv_active: "vc_inv now ous v \<Longrightarrow> VC_items v \<noteq> [] \<Longrightarrow> fst (vc_state v) = ACTIVE \<and> snd (vc_state v) \<le> now"
  by (auto simp: vc_inv_def split: if_splits)

lemma need_stage_returns:
  assumes "vc_inv now ous v" "now \<le> t"
  shows "VC_need_stage st t v = Inr (\<exists>f fs. VC_items v = f # fs \<and> m_time f \<le> t \<and> is_stage st t f)"
proof (cases "flitBuffer_isReady t (inputBuffer v)")
  case True
  then obtain f fs where f: "VC_items v = f # fs" "m_time f \<le> t"
    by (auto simp: flitBuffer_isReady_iff VC_items_def)
  then have "fst (vc_state v) = ACTIVE" "snd (vc_state v) \<le> t" using vc_inv_active [OF assms(1)] assms(2) by auto
  then show ?thesis using True f by (simp add: VC_need_stage_def flitBuffer_peekTopFlit_def VC_items_def)
next
  case False
  then show ?thesis by (auto simp: VC_need_stage_def flitBuffer_isReady_iff VC_items_def)
qed

lemma sa_inv_vc:
  assumes "sa_inv now net r" "0 \<le> i" "i < int (length (m_input_unit r))" "0 \<le> vc" "vc < sa_num_vcs (switchAllocator r)"
  shows "vc < int (length (virtualChannels (m_input_unit r ! nat i)))"
    "vc_inv now (m_output_unit r) (virtualChannels (m_input_unit r ! nat i) ! nat vc)"
proof -
  have "m_input_unit r ! nat i \<in> set (m_input_unit r)" using assms by (simp add: nat_less_iff)
  then have iu: "iu_inv now (sa_num_vcs (switchAllocator r)) (m_output_unit r) (m_input_unit r ! nat i)"
    using assms(1) by (simp add: sa_inv_def units_inv_def units_ok_def)
  then show len: "vc < int (length (virtualChannels (m_input_unit r ! nat i)))" using assms(5) by (simp add: iu_inv_def)
  then have "virtualChannels (m_input_unit r ! nat i) ! nat vc \<in> set (virtualChannels (m_input_unit r ! nat i))"
    using assms(4) by (simp add: nat_less_iff)
  then show "vc_inv now (m_output_unit r) (virtualChannels (m_input_unit r ! nat i) ! nat vc)"
    using iu by (simp add: iu_inv_def)
qed

lemma iu_need_stage_returns:
  assumes "sa_inv now net r" "0 \<le> i" "i < int (length (m_input_unit r))" "0 \<le> vc" "vc < sa_num_vcs (switchAllocator r)" "now \<le> t"
  shows "InputUnit_need_stage vc st t (m_input_unit r ! nat i) =
    Inr (\<exists>f fs. VC_items (virtualChannels (m_input_unit r ! nat i) ! nat vc) = f # fs \<and> m_time f \<le> t \<and> is_stage st t f)"
  using sa_inv_vc [OF assms(1-5)] assms(4) need_stage_returns assms(6)
  by (simp add: InputUnit_need_stage_def vget_ok)

lemma sa_inv_ou:
  assumes "sa_inv now net r" "0 \<le> q" "q < int (length (m_output_unit r))"
  shows "ou_inv (uint (r_virtual_networks (r_cfg r))) (m_output_unit r ! nat q)"
  using assms by (simp add: sa_inv_def units_inv_def units_ok_def nat_less_iff)

lemma vnet_of_vc:
  assumes "sa_inv now net r" "0 \<le> vc" "vc < sa_num_vcs (switchAllocator r)"
  shows "SwitchAllocator_get_vnet r vc = Inr (vc div sa_vc_per_vnet (switchAllocator r))"
    "0 \<le> vc div sa_vc_per_vnet (switchAllocator r)"
    "vc div sa_vc_per_vnet (switchAllocator r) < uint (r_virtual_networks (r_cfg r))"
proof -
  let ?k = "sa_vc_per_vnet (switchAllocator r)" and ?vn = "uint (r_virtual_networks (r_cfg r))"
  have k: "0 < ?k" "vc < ?vn * ?k" using assms by (auto simp: sa_inv_def sa_shape_def Let_def)
  show "0 \<le> vc div ?k" using k assms(2) by (simp add: pos_imp_zdiv_nonneg_iff)
  show lt: "vc div ?k < ?vn"
  proof (rule ccontr)
    assume "\<not> vc div ?k < ?vn"
    then have "?vn * ?k \<le> vc div ?k * ?k" using k(1) by (intro mult_right_mono) auto
    then show False using k div_mult_mod_eq [of vc ?k] pos_mod_sign [OF k(1), of vc] by linarith
  qed
  then show "SwitchAllocator_get_vnet r vc = Inr (vc div ?k)"
    using k assms(2) by (simp add: SwitchAllocator_get_vnet_def cdiv_nonneg pos_imp_zdiv_nonneg_iff)
qed

lemma ou_inv_vnet_ok: "ou_inv vn ou \<Longrightarrow> 0 \<le> vnet \<Longrightarrow> vnet < vn \<Longrightarrow> vnet_ok vnet ou"
  unfolding ou_inv_def vnet_ok_def by (auto intro: mult_right_mono)

lemma earlier_rival_returns:
  assumes "sa_inv now net r" "0 \<le> i" "i < int (length (m_input_unit r))" "0 \<le> vc" "vc < sa_num_vcs (switchAllocator r)"
  shows "returns (earlier_rival now (m_input_unit r ! nat i) op t vc)"
  using sa_inv_vc [OF assms] assms(4) iu_need_stage_returns [OF assms order_refl]
  by (simp add: earlier_rival_def InputUnit_get_outport_def InputUnit_get_enqueue_time_def vget_ok)

lemma order_allows_returns:
  assumes inv: "sa_inv now net r" and i: "0 \<le> i" "i < int (length (m_input_unit r))"
    and vc: "0 \<le> invc" "invc < sa_num_vcs (switchAllocator r)"
  shows "returns (order_allows now net r i invc op (invc div sa_vc_per_vnet (switchAllocator r)))"
proof -
  let ?k = "sa_vc_per_vnet (switchAllocator r)"
  let ?vnet = "invc div ?k" and ?t = "vc_enqueue_time (virtualChannels (m_input_unit r ! nat i) ! nat invc)"
  note vn = vnet_of_vc [OF inv vc]
  have sh: "0 < ?k" "sa_num_vcs (switchAllocator r) = uint (r_virtual_networks (r_cfg r)) * ?k"
      "uint (r_virtual_networks (r_cfg r)) \<le> int (length (m_ordered net))"
    using inv by (auto simp: sa_inv_def sa_shape_def Let_def)
  have "isVNetOrdered net ?vnet = Inr (m_ordered net ! nat ?vnet)"
    using vn sh by (simp add: isVNetOrdered_def vget_ok)
  moreover have "InputUnit_get_enqueue_time invc (m_input_unit r ! nat i) =
      Inr (vc_enqueue_time (virtualChannels (m_input_unit r ! nat i) ! nat invc))"
    using sa_inv_vc [OF inv i vc] vc by (simp add: InputUnit_get_enqueue_time_def vget_ok)
  moreover have "returns (first_res (\<lambda>off. earlier_rival now (m_input_unit r ! nat i) op ?t (?vnet * ?k + off)) [0..?k - 1])"
  proof (rule first_res_returns, rule ballI)
    fix off
    assume "off \<in> set [0..?k - 1]"
    then have off: "0 \<le> off" "off < ?k" by auto
    have "(?vnet + 1) * ?k \<le> uint (r_virtual_networks (r_cfg r)) * ?k" "0 \<le> ?vnet * ?k"
      using vn(2,3) sh(1) by (auto intro: mult_right_mono)
    then have "0 \<le> ?vnet * ?k + off" "?vnet * ?k + off < sa_num_vcs (switchAllocator r)"
      using off sh(2) by (auto simp: distrib_right)
    then show "returns (earlier_rival now (m_input_unit r ! nat i) op ?t (?vnet * ?k + off))"
      by (rule earlier_rival_returns [OF inv i])
  qed
  ultimately show ?thesis using i
    by (auto simp: order_allows_def getInputUnit_eq_Inr [THEN iffD2] Let_def returns_iff)
qed

lemma send_allowed_returns:
  assumes inv: "sa_inv now net r" and i: "0 \<le> i" "i < int (length (m_input_unit r))"
    and vc: "0 \<le> invc" "invc < sa_num_vcs (switchAllocator r)"
    and v: "v = virtualChannels (m_input_unit r ! nat i) ! nat invc" "VC_items v \<noteq> []"
  shows "\<exists>b. SwitchAllocator_send_allowed now net r i invc (m_output_port v) (m_output_vc v) = Inr b \<and>
    (b \<longrightarrow> has_room now r (m_output_port v) invc v)"
proof -
  let ?q = "m_output_port v" and ?vnet = "invc div sa_vc_per_vnet (switchAllocator r)"
  let ?ou = "m_output_unit r ! nat ?q"
  have vi: "vc_inv now (m_output_unit r) v" using sa_inv_vc(2) [OF inv i vc] v by simp
  then have q: "0 \<le> ?q" "?q < int (length (m_output_unit r))"
    and act: "m_output_vc v \<noteq> -1 \<Longrightarrow> ovc_active now ?ou (m_output_vc v)"
    using vc_inv_active [OF vi v(2)] by (auto simp: vc_inv_def)
  note vn = vnet_of_vc [OF inv vc]
  have vok: "vnet_ok ?vnet ?ou" by (rule ou_inv_vnet_ok [OF sa_inv_ou [OF inv q] vn(2,3)])
  have "(if m_output_vc v = -1 then OutputUnit_has_free_vc now ?vnet ?ou
         else OutputUnit_has_credit now (m_output_vc v) ?ou) = Inr (has_room now r ?q invc v)"
    using has_free_vc_eq [OF vok] act OutputUnit_has_credit_eq
    by (auto simp: has_room_def Let_def ovc_active_def)
  moreover obtain b where "order_allows now net r i invc ?q ?vnet = Inr b"
    using order_allows_returns [OF inv i vc] by (auto simp: returns_iff)
  moreover have "getOutputUnit ?q r = Inr ?ou" using q by (simp add: getOutputUnit_eq_Inr)
  ultimately show ?thesis using vn(1) by (auto simp: SwitchAllocator_send_allowed_def)
qed

lemma inport_probe_returns:
  assumes inv: "sa_inv now net r" and i: "0 \<le> i" "i < int (length (m_input_unit r))"
    and vc: "0 \<le> invc" "invc < sa_num_vcs (switchAllocator r)"
  shows "\<exists>w. inport_probe now net r i invc = Inr w \<and>
    (w = None \<or> (let v = virtualChannels (m_input_unit r ! nat i) ! nat invc in
      w = Some (m_output_port v, invc) \<and> (\<exists>f fs. VC_items v = f # fs \<and> m_time f \<le> now) \<and>
      has_room now r (m_output_port v) invc v))"
proof -
  let ?v = "virtualChannels (m_input_unit r ! nat i) ! nat invc"
  have get: "getInputUnit i r = Inr (m_input_unit r ! nat i)" using i by (simp add: getInputUnit_eq_Inr)
  note ns = iu_need_stage_returns [OF inv i vc order_refl, of SA]
  show ?thesis
  proof (cases "\<exists>f fs. VC_items ?v = f # fs \<and> m_time f \<le> now \<and> is_stage SA now f")
    case False
    then have "InputUnit_need_stage invc SA now (m_input_unit r ! nat i) = Inr False" unfolding ns by simp
    then show ?thesis using get by (simp add: inport_probe_def)
  next
    case True
    then have yes: "InputUnit_need_stage invc SA now (m_input_unit r ! nat i) = Inr True" unfolding ns by simp
    have "VC_items ?v \<noteq> []" using True by auto
    from send_allowed_returns [OF inv i vc refl this] obtain b where
      "SwitchAllocator_send_allowed now net r i invc (m_output_port ?v) (m_output_vc ?v) = Inr b"
      "b \<longrightarrow> has_room now r (m_output_port ?v) invc ?v" by blast
    then have "inport_probe now net r i invc = Inr (if b then Some (m_output_port ?v, invc) else None)"
      using get yes sa_inv_vc(1) [OF inv i vc] vc
      by (simp add: inport_probe_def InputUnit_get_outport_def InputUnit_get_outvc_def vget_ok)
    then show ?thesis using True \<open>b \<longrightarrow> _\<close> by (auto simp: Let_def)
  qed
qed

section \<open>First stage: requests\<close>

definition requests_inv :: "tick \<Rightarrow> Router \<Rightarrow> bool" where
  "requests_inv now r =
     (\<forall>j. 0 \<le> j \<and> j < int (length (m_input_unit r)) \<and> m_port_requests (switchAllocator r) ! nat j \<noteq> -1 \<longrightarrow> req_inv now r j)"

definition put_request :: "int \<Rightarrow> int \<Rightarrow> int \<Rightarrow> Router \<Rightarrow> Router" where
  "put_request i q vc r =
     (let sa = switchAllocator r in
      r\<lparr>switchAllocator := sa\<lparr>m_input_arbiter_activity := m_input_arbiter_activity sa + 1,
          m_port_requests := (m_port_requests sa)[nat i := q], m_vc_winners := (m_vc_winners sa)[nat i := vc]\<rparr>\<rparr>)"

lemma put_request_simps [simp]:
  "m_input_unit (put_request i q vc r) = m_input_unit r" "m_output_unit (put_request i q vc r) = m_output_unit r"
  "crossbarSwitch (put_request i q vc r) = crossbarSwitch r" "r_cfg (put_request i q vc r) = r_cfg r"
  "routingUnit (put_request i q vc r) = routingUnit r"
  "m_port_requests (switchAllocator (put_request i q vc r)) = (m_port_requests (switchAllocator r))[nat i := q]"
  "m_vc_winners (switchAllocator (put_request i q vc r)) = (m_vc_winners (switchAllocator r))[nat i := vc]"
  "sa_num_vcs (switchAllocator (put_request i q vc r)) = sa_num_vcs (switchAllocator r)"
  "sa_vc_per_vnet (switchAllocator (put_request i q vc r)) = sa_vc_per_vnet (switchAllocator r)"
  "m_num_inports (switchAllocator (put_request i q vc r)) = m_num_inports (switchAllocator r)"
  "m_num_outports (switchAllocator (put_request i q vc r)) = m_num_outports (switchAllocator r)"
  "m_round_robin_invc (switchAllocator (put_request i q vc r)) = m_round_robin_invc (switchAllocator r)"
  "m_round_robin_inport (switchAllocator (put_request i q vc r)) = m_round_robin_inport (switchAllocator r)"
  by (simp_all add: put_request_def Let_def)

lemma sa_inv_put_request: "sa_inv now net r \<Longrightarrow> sa_inv now net (put_request i q vc r)"
  unfolding sa_inv_def sa_shape_def units_inv_def Let_def put_request_simps length_list_update .

lemma has_room_put_request [simp]: "has_room now (put_request i q vc r) q' invc v = has_room now r q' invc v"
  by (simp add: has_room_def)

lemma sa_inv_lengths:
  assumes "sa_inv now net r"
  shows "length (m_port_requests (switchAllocator r)) = length (m_input_unit r)"
    "length (m_vc_winners (switchAllocator r)) = length (m_input_unit r)"
    "length (m_round_robin_invc (switchAllocator r)) = length (m_input_unit r)"
    "length (m_round_robin_inport (switchAllocator r)) = length (m_output_unit r)"
    "length (switchBuffers (crossbarSwitch r)) = length (m_input_unit r)"
    "m_num_inports (switchAllocator r) = int (length (m_input_unit r))"
    "m_num_outports (switchAllocator r) = int (length (m_output_unit r))"
  using assms by (simp_all add: sa_inv_def sa_shape_def Let_def)

lemma requests_inv_put:
  assumes "sa_inv now net r" "requests_inv now r" "0 \<le> i" "i < int (length (m_input_unit r))"
    "0 \<le> vc" "vc < sa_num_vcs (switchAllocator r)"
    and v: "v = virtualChannels (m_input_unit r ! nat i) ! nat vc" "\<exists>f fs. VC_items v = f # fs \<and> m_time f \<le> now"
      "has_room now r (m_output_port v) vc v"
  shows "requests_inv now (put_request i (m_output_port v) vc r)"
  unfolding requests_inv_def
proof (intro allI impI)
  fix j
  let ?r = "put_request i (m_output_port v) vc r"
  assume j: "0 \<le> j \<and> j < int (length (m_input_unit ?r)) \<and> m_port_requests (switchAllocator ?r) ! nat j \<noteq> -1"
  show "req_inv now ?r j"
  proof (cases "j = i")
    case True
    then have "nat i < length (m_port_requests (switchAllocator r))" "nat i < length (m_vc_winners (switchAllocator r))"
      using sa_inv_lengths [OF assms(1)] assms(3,4) by (simp_all add: nat_less_iff)
    then show ?thesis using True v assms(5,6) by (simp add: req_inv_def winner_vc_def Let_def)
  next
    case False
    then have ne: "nat j \<noteq> nat i" using j assms(3) by auto
    then have "req_inv now r j" using assms(2) j by (auto simp: requests_inv_def)
    then show ?thesis using ne by (simp add: req_inv_def winner_vc_def Let_def)
  qed
qed

lemma arbitrate_inport_ok:
  assumes inv: "sa_inv now net r" and req: "requests_inv now r" and i: "0 \<le> i" "i < int (length (m_input_unit r))"
  shows "\<exists>r'. SwitchAllocator_arbitrate_inport now net i r = Inr r' \<and> sa_inv now net r' \<and> requests_inv now r' \<and>
    m_input_unit r' = m_input_unit r \<and> m_output_unit r' = m_output_unit r \<and> crossbarSwitch r' = crossbarSwitch r \<and>
    r_cfg r' = r_cfg r"
proof -
  let ?sa = "switchAllocator r"
  let ?nv = "sa_num_vcs ?sa"
  define start where "start = m_round_robin_invc ?sa ! nat i"
  have ni: "nat i < length (m_round_robin_invc ?sa)" using sa_inv_lengths [OF inv] i by (simp add: nat_less_iff)
  then have "start \<in> set (m_round_robin_invc ?sa)" by (simp add: start_def)
  then have st: "0 \<le> start" "start < ?nv" using inv by (auto simp: sa_inv_def sa_shape_def Let_def)
  have get: "vget (m_round_robin_invc ?sa) i = Inr start" using ni i by (simp add: vget_def start_def nat_less_iff)
  have "returns (rr_scan ?nv (inport_probe now net r i) (nat ?nv) start)"
    by (rule rr_scan_returns) (use inport_probe_returns [OF inv i] st in \<open>auto simp: returns_iff\<close>)
  then obtain w where w: "rr_scan ?nv (inport_probe now net r i) (nat ?nv) start = Inr w" by (auto simp: returns_iff)
  show ?thesis
  proof (cases w)
    case None
    then show ?thesis using inv req get w by (simp add: SwitchAllocator_arbitrate_inport_def Let_def)
  next
    case (Some qv)
    obtain q vc0 where qv: "qv = (q, vc0)" by (cases qv)
    obtain vc where vc: "0 \<le> vc" "vc < ?nv" "inport_probe now net r i vc = Inr (Some (q, vc0))"
      using rr_scan_Some [of ?nv "inport_probe now net r i" "nat ?nv" start qv] w Some st qv by auto
    define v where "v = virtualChannels (m_input_unit r ! nat i) ! nat vc"
    have hit: "q = m_output_port v" "vc0 = vc" "\<exists>f fs. VC_items v = f # fs \<and> m_time f \<le> now" "has_room now r q vc v"
      using inport_probe_returns [OF inv i vc(1,2)] vc(3) by (auto simp: Let_def v_def)
    have "SwitchAllocator_arbitrate_inport now net i r = Inr (put_request i q vc r)"
      using get w Some qv hit(2) i sa_inv_lengths [OF inv]
      by (simp add: SwitchAllocator_arbitrate_inport_def Let_def vset_ok put_request_def)
    then show ?thesis
      using sa_inv_put_request [OF inv] requests_inv_put [OF inv req i vc(1,2) v_def hit(3)] hit by simp
  qed
qed

lemma arbitrate_inports_ok:
  assumes "sa_inv now net r" "requests_inv now r"
  shows "\<exists>r'. SwitchAllocator_arbitrate_inports now net r = Inr r' \<and> sa_inv now net r' \<and> requests_inv now r' \<and>
    m_input_unit r' = m_input_unit r \<and> m_output_unit r' = m_output_unit r \<and> crossbarSwitch r' = crossbarSwitch r \<and>
    r_cfg r' = r_cfg r"
  unfolding SwitchAllocator_arbitrate_inports_def sa_inv_lengths(6) [OF assms(1)]
proof (rule rfold_total)
  show "\<exists>s'. SwitchAllocator_arbitrate_inport now net i s = Inr s' \<and> sa_inv now net s' \<and> requests_inv now s' \<and>
      m_input_unit s' = m_input_unit r \<and> m_output_unit s' = m_output_unit r \<and> crossbarSwitch s' = crossbarSwitch r \<and>
      r_cfg s' = r_cfg r"
    if "i \<in> set [0..int (length (m_input_unit r)) - 1]"
      and "sa_inv now net s \<and> requests_inv now s \<and> m_input_unit s = m_input_unit r \<and> m_output_unit s = m_output_unit r \<and>
        crossbarSwitch s = crossbarSwitch r \<and> r_cfg s = r_cfg r" for i s
    using arbitrate_inport_ok [of now net s i] that by auto
qed (use assms in simp)

section \<open>Changing one unit\<close>

text \<open>An output unit may change as long as it keeps its active virtual channels active.\<close>

definition keeps_active :: "tick \<Rightarrow> OutputUnit \<Rightarrow> OutputUnit \<Rightarrow> bool" where
  "keeps_active now ou ou' = (\<forall>vc. ovc_active now ou vc \<longrightarrow> ovc_active now ou' vc)"

lemma vc_inv_keeps:
  assumes "vc_inv now ous v" "keeps_active now (ous ! nat o') ou'" "0 \<le> o'"
  shows "vc_inv now (ous[nat o' := ou']) v"
proof (cases "fst (vc_state v) = ACTIVE")
  case True
  have "ovc_active now (ous[nat o' := ou'] ! nat (m_output_port v)) (m_output_vc v)"
    if "ovc_active now (ous ! nat (m_output_port v)) (m_output_vc v)" "0 \<le> m_output_port v" "m_output_port v < int (length ous)"
  proof (cases "m_output_port v = o'")
    case True
    then show ?thesis using that assms(2) by (simp add: keeps_active_def nat_less_iff)
  next
    case False
    then have "nat (m_output_port v) \<noteq> nat o'" using that(2) assms(3) by auto
    then show ?thesis using that(1) by simp
  qed
  then show ?thesis using assms(1) True by (auto simp: vc_inv_def)
next
  case False
  then show ?thesis using assms(1) by (simp add: vc_inv_def)
qed

lemma units_ok_update:
  assumes "units_ok now nv vn ius ous" "iu_inv now nv (ous[nat o' := ou']) iu'" "ou_inv vn ou'"
    "keeps_active now (ous ! nat o') ou'" "0 \<le> o'"
  shows "units_ok now nv vn (ius[nat i := iu']) (ous[nat o' := ou'])"
  unfolding units_ok_def
proof (intro conjI ballI)
  fix iu
  assume "iu \<in> set (ius[nat i := iu'])"
  then have "iu = iu' \<or> iu \<in> set ius" using set_update_subset_insert by fastforce
  then show "iu_inv now nv (ous[nat o' := ou']) iu"
    using assms vc_inv_keeps [OF _ assms(4,5)] by (auto simp: units_ok_def iu_inv_def)
next
  fix ou
  assume "ou \<in> set (ous[nat o' := ou'])"
  then have "ou = ou' \<or> ou \<in> set ous" using set_update_subset_insert by fastforce
  then show "ou_inv vn ou" using assms by (auto simp: units_ok_def)
qed

lemma iu_inv_update:
  assumes "iu_inv now nv ous iu" "keeps_active now (ous ! nat o') ou'" "0 \<le> o'" "vc_inv now (ous[nat o' := ou']) v'"
  shows "iu_inv now nv (ous[nat o' := ou']) (iu\<lparr>virtualChannels := (virtualChannels iu)[nat vc := v']\<rparr>)"
  unfolding iu_inv_def
proof (intro conjI ballI)
  show "int (length (virtualChannels (iu\<lparr>virtualChannels := (virtualChannels iu)[nat vc := v']\<rparr>))) = nv"
    using assms(1) by (simp add: iu_inv_def)
  fix v
  assume "v \<in> set (virtualChannels (iu\<lparr>virtualChannels := (virtualChannels iu)[nat vc := v']\<rparr>))"
  then have "v = v' \<or> v \<in> set (virtualChannels iu)" using set_update_subset_insert by fastforce
  then show "vc_inv now (ous[nat o' := ou']) v"
    using assms vc_inv_keeps [OF _ assms(2,3)] by (auto simp: iu_inv_def)
qed

text \<open>Changing the state of one output virtual channel.\<close>

lemma ou_update_state:
  assumes inv: "ou_inv vn ou" and vc: "0 \<le> vc" "vc < int (length (outVcState ou))"
    and s': "OutVcState_ok s'" "ov_state s' = IDLE \<longrightarrow> 0 < m_credit_count s'"
  shows "ou_inv vn (ou\<lparr>outVcState := (outVcState ou)[nat vc := s']\<rparr>)"
proof -
  have "s = s' \<or> s \<in> set (outVcState ou)" if "s \<in> set ((outVcState ou)[nat vc := s'])" for s
    using that set_update_subset_insert by fastforce
  then show ?thesis using inv s' by (auto simp: ou_inv_def)
qed

lemma keeps_active_state:
  assumes "0 \<le> vc" "OutVcState_isInState ACTIVE now (outVcState ou ! nat vc) \<longrightarrow> OutVcState_isInState ACTIVE now s'"
  shows "keeps_active now ou (ou\<lparr>outVcState := (outVcState ou)[nat vc := s']\<rparr>)"
  unfolding keeps_active_def
proof (intro allI impI)
  fix vc'
  assume a: "ovc_active now ou vc'"
  show "ovc_active now (ou\<lparr>outVcState := (outVcState ou)[nat vc := s']\<rparr>) vc'"
  proof (cases "vc' = vc")
    case True
    then show ?thesis using a assms by (simp add: ovc_active_def nat_less_iff)
  next
    case False
    then have "nat vc' \<noteq> nat vc" using a assms(1) by (auto simp: ovc_active_def)
    then show ?thesis using a by (simp add: ovc_active_def)
  qed
qed

section \<open>Second stage: grants\<close>

lemma vcs_of_vnet_vc:
  assumes "vnet_ok vnet ou" "find (vc_idle now ou) (vcs_of_vnet vnet ou) = Some vc"
  shows "0 \<le> vc" "vc < int (length (outVcState ou))" "OutVcState_isInState IDLE now (outVcState ou ! nat vc)"
  using assms(2) by (auto simp: find_Some_iff vc_idle_def)

text \<open>The output virtual channel of a grant: newly allocated or the packet's own; either way with a credit.\<close>

lemma alloc_ok:
  assumes inv: "sa_inv now net r" and i: "0 \<le> i" "i < int (length (m_input_unit r))"
    and o: "0 \<le> q" "q < int (length (m_output_unit r))"
    and req: "req_inv now r i" "m_port_requests (switchAllocator r) ! nat i = q"
    and invc: "invc = m_vc_winners (switchAllocator r) ! nat i" and v: "v = winner_vc r i"
    and iu: "iu = m_input_unit r ! nat i" and ou: "ou = m_output_unit r ! nat q"
  shows "\<exists>outvc s1. (if m_output_vc v = -1 then SwitchAllocator_vc_allocate now q i invc r else Inr (m_output_vc v, r)) =
      Inr (outvc, r\<lparr>m_input_unit := (m_input_unit r)[nat i :=
            iu\<lparr>virtualChannels := (virtualChannels iu)[nat invc := v\<lparr>m_output_vc := outvc\<rparr>]\<rparr>],
          m_output_unit := (m_output_unit r)[nat q := ou\<lparr>outVcState := (outVcState ou)[nat outvc := s1]\<rparr>]\<rparr>) \<and>
    0 \<le> outvc \<and> outvc < int (length (outVcState ou)) \<and> OutVcState_isInState ACTIVE now s1 \<and>
    0 < m_credit_count s1 \<and> OutVcState_ok s1"
proof -
  have vc: "0 \<le> invc" "invc < sa_num_vcs (switchAllocator r)" and port: "m_output_port v = q"
    and room: "has_room now r q invc v" and ne: "VC_items v \<noteq> []"
    using req by (auto simp: req_inv_def Let_def invc v)
  have v': "v = virtualChannels iu ! nat invc" by (simp add: v winner_vc_def invc iu)
  have len: "invc < int (length (virtualChannels iu))" using sa_inv_vc(1) [OF inv i vc] by (simp add: iu)
  have vi: "vc_inv now (m_output_unit r) v" using sa_inv_vc(2) [OF inv i vc] by (simp add: v' iu)
  have oi: "ou_inv (uint (r_virtual_networks (r_cfg r))) ou" using sa_inv_ou [OF inv o] by (simp add: ou)
  note vn = vnet_of_vc [OF inv vc]
  have vok: "vnet_ok (invc div sa_vc_per_vnet (switchAllocator r)) ou" by (rule ou_inv_vnet_ok [OF oi vn(2,3)])
  show ?thesis
  proof (cases "m_output_vc v = -1")
    case True
    then obtain w where "w \<in> set (vcs_of_vnet (invc div sa_vc_per_vnet (switchAllocator r)) ou)" "vc_idle now ou w"
      using room by (auto simp: has_room_def ou Let_def)
    then obtain outvc where fnd: "find (vc_idle now ou) (vcs_of_vnet (invc div sa_vc_per_vnet (switchAllocator r)) ou) = Some outvc"
      by (cases "find (vc_idle now ou) (vcs_of_vnet (invc div sa_vc_per_vnet (switchAllocator r)) ou)")
        (auto simp: find_None_iff)
    note r = vcs_of_vnet_vc [OF vok fnd]
    let ?s = "outVcState ou ! nat outvc"
    have "?s \<in> set (outVcState ou)" using r by (simp add: nat_less_iff)
    then have s: "OutVcState_ok ?s" "0 < m_credit_count ?s"
      using oi r(3) by (auto simp: ou_inv_def OutVcState_isInState_def)
    let ?s1 = "OutVcState_setState ACTIVE now ?s"
    have "SwitchAllocator_vc_allocate now q i invc r = Inr (outvc, r\<lparr>m_input_unit := (m_input_unit r)[nat i :=
            iu\<lparr>virtualChannels := (virtualChannels iu)[nat invc := v\<lparr>m_output_vc := outvc\<rparr>]\<rparr>],
          m_output_unit := (m_output_unit r)[nat q := ou\<lparr>outVcState := (outVcState ou)[nat outvc := ?s1]\<rparr>]\<rparr>)"
      using o i vn(1) select_free_vc_eq [OF vok, of now] fnd r vc len
      by (simp add: SwitchAllocator_vc_allocate_def getOutputUnit_eq_Inr [THEN iffD2] getInputUnit_eq_Inr [THEN iffD2]
          putOutputUnit_eq_Inr [THEN iffD2] putInputUnit_eq_Inr [THEN iffD2] InputUnit_grant_outvc_def iu_mod_vc_ok
          ou iu v')
    then show ?thesis using True r s
      by (auto simp: OutVcState_isInState_def OutVcState_setState_def OutVcState_ok_def intro!: exI [of _ outvc] exI [of _ ?s1])
  next
    case False
    let ?s = "outVcState ou ! nat (m_output_vc v)"
    have a: "ovc_active now ou (m_output_vc v)"
      using vc_inv_active [OF vi ne] vi False port by (auto simp: vc_inv_def ou)
    then have "?s \<in> set (outVcState ou)" by (simp add: ovc_active_def nat_less_iff)
    then have "OutVcState_ok ?s" using oi by (simp add: ou_inv_def)
    moreover have "0 < m_credit_count ?s" using room False by (simp add: has_room_def ou Let_def)
    ultimately show ?thesis using False a
      by (intro exI [of _ "m_output_vc v"] exI [of _ ?s]) (simp add: ovc_active_def v' iu ou)
  qed
qed

text \<open>Taking the flit out: the last flit of a packet leaves the channel empty and idle.\<close>

definition popped :: "tick \<Rightarrow> flit \<Rightarrow> flit list \<Rightarrow> VirtualChannel \<Rightarrow> VirtualChannel" where
  "popped now f fs v =
     (let v1 = v\<lparr>inputBuffer := (inputBuffer v)\<lparr>m_buffer := fs\<rparr>\<rparr> in if is_tail f then VC_set_idle now v1 else v1)"

lemma popped_items [simp]: "VC_items (popped now f fs v) = fs"
  by (simp add: popped_def VC_items_def VC_set_idle_def Let_def)

lemma release_ok:
  assumes "0 \<le> invc" "invc < int (length (virtualChannels iu))"
    and v: "v = virtualChannels iu ! nat invc" "VC_items v = f # fs" "is_tail f \<longrightarrow> fs = []"
  shows "release_flit p now invc iu = Inr (f,
      iu\<lparr>virtualChannels := (virtualChannels iu)[nat invc := popped now f fs v],
         creditQueue := flitBuffer_insert (Credit_new invc (is_tail f) now) (creditQueue iu)\<rparr>,
      [(ToLink (iu_credit_link iu), At (edge_at p now 1))])"
proof -
  let ?v1 = "v\<lparr>inputBuffer := (inputBuffer v)\<lparr>m_buffer := fs\<rparr>\<rparr>"
  have n: "nat invc < length (virtualChannels iu)" using assms by (simp add: nat_less_iff)
  have top: "InputUnit_getTopFlit invc iu = Inr (f, iu\<lparr>virtualChannels := (virtualChannels iu)[nat invc := ?v1]\<rparr>)"
    using assms by (simp add: InputUnit_getTopFlit_def vget_ok vset_ok VC_getTopFlit_def VC_items_def flitBuffer_getTopFlit_def)
  show ?thesis
  proof (cases "is_tail f")
    case True
    then have "fs = []" using v by simp
    then have "\<not> VC_isReady now ?v1" by (simp add: VC_isReady_def flitBuffer_isReady_def)
    then show ?thesis using True top n assms(1,2)
      by (simp add: release_flit_def is_tail_def InputUnit_isReady_def vget_ok InputUnit_set_vc_idle_def
          iu_mod_vc_ok InputUnit_increment_credit_def popped_def Let_def)
  next
    case False
    then show ?thesis using top
      by (auto simp: release_flit_def is_tail_def InputUnit_increment_credit_def popped_def Let_def)
  qed
qed

lemma tail_is_last: "vc_inv now ous v \<Longrightarrow> VC_items v = f # fs \<Longrightarrow> is_tail f \<longrightarrow> fs = []"
  by (auto simp: vc_inv_def split: if_splits)

lemma vc_inv_popped:
  assumes "vc_inv now ous v" "VC_items v = f # fs" "0 \<le> q" "q < int (length ous)" "m_output_port v = q"
    "ovc_active now (ous ! nat q) outvc"
  shows "vc_inv now ous (popped now f fs (v\<lparr>m_output_vc := outvc\<rparr>))"
proof (cases "is_tail f")
  case True
  then have "fs = []" using tail_is_last [OF assms(1,2)] by simp
  then show ?thesis using True by (simp add: vc_inv_def popped_def Let_def VC_set_idle_def VC_items_def)
next
  case False
  have "fst (vc_state v) = ACTIVE" "snd (vc_state v) \<le> now" using vc_inv_active [OF assms(1)] assms(2) by auto
  moreover have "\<forall>g\<in>set (butlast fs). \<not> is_tail g" using assms(1,2) by (cases fs) (auto simp: vc_inv_def)
  ultimately show ?thesis using assms(3-6) False
    by (simp add: vc_inv_def popped_def Let_def VC_items_def)
qed

text \<open>The state after a grant.\<close>

definition spent :: "OutVcState \<Rightarrow> OutVcState" where
  "spent s = s\<lparr>m_credit_count := m_credit_count s - 1\<rparr>"

definition granted :: "tick \<Rightarrow> int \<Rightarrow> int \<Rightarrow> int \<Rightarrow> int \<Rightarrow> OutVcState \<Rightarrow> flit \<Rightarrow> flit list \<Rightarrow> Router \<Rightarrow> Router" where
  "granted now q i invc outvc s1 f fs r =
     (let iu = m_input_unit r ! nat i; ou = m_output_unit r ! nat q; v = virtualChannels iu ! nat invc;
          sa = switchAllocator r; cb = crossbarSwitch r in
      r\<lparr>m_input_unit := (m_input_unit r)[nat i :=
            iu\<lparr>virtualChannels := (virtualChannels iu)[nat invc := popped now f fs (v\<lparr>m_output_vc := outvc\<rparr>)],
               creditQueue := flitBuffer_insert (Credit_new invc (is_tail f) now) (creditQueue iu)\<rparr>],
        m_output_unit := (m_output_unit r)[nat q := ou\<lparr>outVcState := (outVcState ou)[nat outvc := spent s1]\<rparr>],
        crossbarSwitch := cb\<lparr>switchBuffers := (switchBuffers cb)[nat i :=
            flitBuffer_insert (granted_flit now q outvc f) (switchBuffers cb ! nat i)]\<rparr>,
        switchAllocator := sa\<lparr>m_output_arbiter_activity := m_output_arbiter_activity sa + 1,
            m_port_requests := (m_port_requests sa)[nat i := -1],
            m_round_robin_inport := (m_round_robin_inport sa)[nat q := next_index (m_num_inports sa) i],
            m_round_robin_invc := (m_round_robin_invc sa)[nat i := next_index (sa_num_vcs sa) invc]\<rparr>\<rparr>)"

lemma grant_eq:
  assumes inv: "sa_inv now net r" and i: "0 \<le> i" "i < int (length (m_input_unit r))"
    and o: "0 \<le> q" "q < int (length (m_output_unit r))"
    and req: "req_inv now r i" "m_port_requests (switchAllocator r) ! nat i = q"
    and invc: "invc = m_vc_winners (switchAllocator r) ! nat i" and f: "VC_items (winner_vc r i) = f # fs"
  shows "\<exists>outvc s1 ws. SwitchAllocator_grant p now q i r = Inr (granted now q i invc outvc s1 f fs r, ws) \<and>
    0 \<le> outvc \<and> outvc < int (length (outVcState (m_output_unit r ! nat q))) \<and>
    OutVcState_isInState ACTIVE now s1 \<and> 0 < m_credit_count s1 \<and> OutVcState_ok s1"
proof -
  define iu ou v where "iu = m_input_unit r ! nat i" and "ou = m_output_unit r ! nat q" and "v = winner_vc r i"
  obtain outvc s1 where al: "(if m_output_vc v = -1 then SwitchAllocator_vc_allocate now q i invc r else Inr (m_output_vc v, r)) =
      Inr (outvc, r\<lparr>m_input_unit := (m_input_unit r)[nat i :=
            iu\<lparr>virtualChannels := (virtualChannels iu)[nat invc := v\<lparr>m_output_vc := outvc\<rparr>]\<rparr>],
          m_output_unit := (m_output_unit r)[nat q := ou\<lparr>outVcState := (outVcState ou)[nat outvc := s1]\<rparr>]\<rparr>)"
      and ov: "0 \<le> outvc" "outvc < int (length (outVcState ou))" "OutVcState_isInState ACTIVE now s1"
        "0 < m_credit_count s1" "OutVcState_ok s1"
    using alloc_ok [OF inv i o req invc v_def iu_def ou_def] by blast
  have vc: "0 \<le> invc" "invc < sa_num_vcs (switchAllocator r)" using req by (auto simp: req_inv_def Let_def invc)
  have v: "v = virtualChannels iu ! nat invc" by (simp add: v_def winner_vc_def iu_def invc)
  have len: "invc < int (length (virtualChannels iu))" using sa_inv_vc(1) [OF inv i vc] by (simp add: iu_def)
  have vi: "vc_inv now (m_output_unit r) v" using sa_inv_vc(2) [OF inv i vc] by (simp add: v iu_def)
  have fv: "VC_items v = f # fs" using f by (simp add: v_def)
  note tl = tail_is_last [OF vi fv]
  let ?iu1 = "iu\<lparr>virtualChannels := (virtualChannels iu)[nat invc := v\<lparr>m_output_vc := outvc\<rparr>]\<rparr>"
  have rel: "release_flit p now invc ?iu1 = Inr (f,
      ?iu1\<lparr>virtualChannels := (virtualChannels ?iu1)[nat invc := popped now f fs (v\<lparr>m_output_vc := outvc\<rparr>)],
         creditQueue := flitBuffer_insert (Credit_new invc (is_tail f) now) (creditQueue ?iu1)\<rparr>,
      [(ToLink (iu_credit_link ?iu1), At (edge_at p now 1))])"
    by (rule release_ok) (use vc len fv tl in \<open>simp_all add: nat_less_iff VC_items_def\<close>)
  have len2: "nat i < length (m_input_unit r)" "nat q < length (m_output_unit r)" "nat outvc < length (outVcState ou)"
    using i o ov by (simp_all add: nat_less_iff)
  note L = sa_inv_lengths [OF inv]
  have getvc: "InputUnit_get_outvc invc iu = Inr (m_output_vc v)" using vc len by (simp add: InputUnit_get_outvc_def vget_ok v)
  have "SwitchAllocator_grant p now q i r = Inr (granted now q i invc outvc s1 f fs r, [(ToLink (iu_credit_link iu), At (edge_at p now 1))])"
    unfolding SwitchAllocator_grant_def granted_def
    using i o L len2 ov rel getvc al
    by (simp add: getOutputUnit_eq_Inr [THEN iffD2] getInputUnit_eq_Inr [THEN iffD2] vget_ok vset_ok vmod_ok invc [symmetric]
        iu_def [symmetric] ou_def [symmetric] v [symmetric] OutputUnit_decrement_eq_Inr [THEN iffD2]
        putInputUnit_eq_Inr [THEN iffD2] putOutputUnit_eq_Inr [THEN iffD2] Router_grant_switch_def Let_def spent_def)
  then show ?thesis using ov by (auto simp: ou_def)
qed

lemma granted_simps:
  "switchAllocator (granted now q i invc outvc s1 f fs r) =
     (switchAllocator r)\<lparr>m_output_arbiter_activity := m_output_arbiter_activity (switchAllocator r) + 1,
       m_port_requests := (m_port_requests (switchAllocator r))[nat i := -1],
       m_round_robin_inport := (m_round_robin_inport (switchAllocator r))
         [nat q := next_index (m_num_inports (switchAllocator r)) i],
       m_round_robin_invc := (m_round_robin_invc (switchAllocator r))
         [nat i := next_index (sa_num_vcs (switchAllocator r)) invc]\<rparr>"
  "r_cfg (granted now q i invc outvc s1 f fs r) = r_cfg r"
  "m_output_unit (granted now q i invc outvc s1 f fs r) = (m_output_unit r)
     [nat q := (m_output_unit r ! nat q)\<lparr>outVcState := (outVcState (m_output_unit r ! nat q))[nat outvc := spent s1]\<rparr>]"
  "switchBuffers (crossbarSwitch (granted now q i invc outvc s1 f fs r)) = (switchBuffers (crossbarSwitch r))
     [nat i := flitBuffer_insert (granted_flit now q outvc f) (switchBuffers (crossbarSwitch r) ! nat i)]"
  "length (m_input_unit (granted now q i invc outvc s1 f fs r)) = length (m_input_unit r)"
  by (simp_all add: granted_def Let_def)

lemma next_index_range: "0 \<le> i \<Longrightarrow> i < n \<Longrightarrow> 0 \<le> next_index n i \<and> next_index n i < n"
  by (auto simp: next_index_def)

lemma ball_update: "\<forall>x\<in>set xs. P x \<Longrightarrow> P y \<Longrightarrow> \<forall>x\<in>set (xs[i := y]). P x"
  using set_update_subset_insert by fastforce

lemma granted_shape:
  assumes inv: "sa_shape net r" and i: "0 \<le> i" "i < int (length (m_input_unit r))"
    and vc: "0 \<le> invc" "invc < sa_num_vcs (switchAllocator r)"
  shows "sa_shape net (granted now q i invc outvc s1 f fs r)"
proof -
  let ?sa = "switchAllocator r" and ?ni = "length (m_input_unit r)"
  have "\<forall>x\<in>set ((m_round_robin_invc ?sa)[nat i := next_index (sa_num_vcs ?sa) invc]). 0 \<le> x \<and> x < sa_num_vcs ?sa"
    by (rule ball_update) (use inv next_index_range [OF vc] in \<open>auto simp: sa_shape_def Let_def\<close>)
  moreover have "\<forall>x\<in>set ((m_round_robin_inport ?sa)[nat q := next_index (m_num_inports ?sa) i]). 0 \<le> x \<and> (x < int ?ni \<or> ?ni = 0)"
    by (rule ball_update) (use inv next_index_range [OF i] in \<open>auto simp: sa_shape_def Let_def\<close>)
  ultimately show ?thesis using inv by (simp add: sa_shape_def Let_def granted_simps)
qed

lemma granted_units:
  assumes inv: "sa_inv now net r" and i: "0 \<le> i" "i < int (length (m_input_unit r))"
    and o: "0 \<le> q" "q < int (length (m_output_unit r))"
    and vc: "0 \<le> invc" "invc < sa_num_vcs (switchAllocator r)"
    and v: "v = virtualChannels (m_input_unit r ! nat i) ! nat invc" "VC_items v = f # fs" "m_output_port v = q"
    and ov: "0 \<le> outvc" "outvc < int (length (outVcState (m_output_unit r ! nat q)))"
      "OutVcState_isInState ACTIVE now s1" "0 < m_credit_count s1" "OutVcState_ok s1"
  shows "units_inv now (granted now q i invc outvc s1 f fs r)"
proof -
  let ?iu = "m_input_unit r ! nat i" and ?ou = "m_output_unit r ! nat q"
  let ?ou' = "?ou\<lparr>outVcState := (outVcState ?ou)[nat outvc := spent s1]\<rparr>"
  let ?nv = "sa_num_vcs (switchAllocator r)" and ?vn = "uint (r_virtual_networks (r_cfg r))"
  have act: "OutVcState_isInState ACTIVE now (spent s1)" using ov(3) by (simp add: spent_def OutVcState_isInState_def)
  have ou': "ou_inv ?vn ?ou'"
    by (rule ou_update_state [OF sa_inv_ou [OF inv o] ov(1,2)])
      (use ov act in \<open>auto simp: spent_def OutVcState_ok_def OutVcState_isInState_def\<close>)
  have keep: "keeps_active now ?ou ?ou'" by (rule keeps_active_state [OF ov(1)]) (use act in simp)
  have uo: "units_ok now ?nv ?vn (m_input_unit r) (m_output_unit r)" using inv by (simp add: sa_inv_def units_inv_def)
  have iu: "iu_inv now ?nv (m_output_unit r) ?iu" using uo i by (simp add: units_ok_def nat_less_iff)
  let ?ous = "(m_output_unit r)[nat q := ?ou']"
  have "vc_inv now ?ous (popped now f fs (v\<lparr>m_output_vc := outvc\<rparr>))"
    by (rule vc_inv_popped [OF vc_inv_keeps [OF _ keep o(1)]])
      (use sa_inv_vc(2) [OF inv i vc] v o ov(1,2) act in \<open>auto simp: ovc_active_def nat_less_iff\<close>)
  from iu_inv_update [OF iu keep o(1) this] have
    "iu_inv now ?nv ?ous (?iu\<lparr>virtualChannels := (virtualChannels ?iu)[nat invc := popped now f fs (v\<lparr>m_output_vc := outvc\<rparr>)],
       creditQueue := flitBuffer_insert (Credit_new invc (is_tail f) now) (creditQueue ?iu)\<rparr>)"
    by (simp add: iu_inv_def)
  from units_ok_update [OF uo this ou' keep o(1), where i = i] show ?thesis
    by (simp add: units_inv_def granted_def Let_def v(1))
qed

lemma granted_request:
  assumes j: "0 \<le> j" "j \<noteq> i" "0 \<le> i" "m_port_requests (switchAllocator r) ! nat j \<noteq> q" "0 \<le> q"
    "0 \<le> m_port_requests (switchAllocator r) ! nat j" and req: "req_inv now r j"
  shows "req_inv now (granted now q i invc outvc s1 f fs r) j"
proof -
  have ne: "nat j \<noteq> nat i" "nat (m_port_requests (switchAllocator r) ! nat j) \<noteq> nat q" using j by auto
  have "winner_vc (granted now q i invc outvc s1 f fs r) j = winner_vc r j"
    using ne by (simp add: winner_vc_def granted_def Let_def)
  moreover have "m_port_requests (switchAllocator (granted now q i invc outvc s1 f fs r)) ! nat j = m_port_requests (switchAllocator r) ! nat j"
    using ne by (simp add: granted_simps)
  ultimately show ?thesis using req ne by (simp add: req_inv_def has_room_def Let_def granted_simps)
qed

text \<open>
  The crossbar during the second stage, when the output ports below \<open>q\<close> are decided: each input
  port has at most one granted flit, ready to go in this cycle, and no two of them have the same
  output port.
\<close>

definition switched :: "Router \<Rightarrow> int \<Rightarrow> flit list" where
  "switched r j = m_buffer (switchBuffers (crossbarSwitch r) ! nat j)"

definition switch_flit_ok :: "tick \<Rightarrow> int \<Rightarrow> Router \<Rightarrow> int \<Rightarrow> bool" where
  "switch_flit_ok now q r j =
     (switched r j = [] \<or>
      (\<exists>f p. switched r j = [f] \<and> m_time f \<le> now \<and> m_stage f = (ST, now) \<and> m_outport f = Some p \<and> 0 \<le> p \<and> p < q \<and>
         m_port_requests (switchAllocator r) ! nat j = -1))"

definition switch_inv :: "tick \<Rightarrow> int \<Rightarrow> Router \<Rightarrow> bool" where
  "switch_inv now q r =
     ((\<forall>j. 0 \<le> j \<and> j < int (length (m_input_unit r)) \<longrightarrow> switch_flit_ok now q r j) \<and>
      (\<forall>j k f g. 0 \<le> j \<and> j < int (length (m_input_unit r)) \<and> 0 \<le> k \<and> k < int (length (m_input_unit r)) \<and> j \<noteq> k \<and>
         f \<in> set (switched r j) \<and> g \<in> set (switched r k) \<longrightarrow> m_outport f \<noteq> m_outport g))"

definition stage2_inv :: "tick \<Rightarrow> net_params \<Rightarrow> int \<Rightarrow> Router \<Rightarrow> bool" where
  "stage2_inv now net q r =
     (sa_inv now net r \<and> switch_inv now q r \<and>
      (\<forall>j. 0 \<le> j \<and> j < int (length (m_input_unit r)) \<and> q \<le> m_port_requests (switchAllocator r) ! nat j \<longrightarrow> req_inv now r j))"

lemma switch_flit_ok_mono: "switch_flit_ok now q r j \<Longrightarrow> q \<le> q' \<Longrightarrow> switch_flit_ok now q' r j"
  unfolding switch_flit_ok_def by (meson order_less_le_trans)

lemma stage2_next:
  assumes "stage2_inv now net q r"
  shows "stage2_inv now net (q + 1) r"
proof -
  have "switch_inv now (q + 1) r"
    using assms switch_flit_ok_mono [of now q r _ "q + 1"] unfolding stage2_inv_def switch_inv_def by simp
  then show ?thesis using assms unfolding stage2_inv_def by simp
qed

lemma granted_switched:
  assumes "0 \<le> i" "i < int (length (switchBuffers (crossbarSwitch r)))" "0 \<le> j"
  shows "switched (granted now q i invc outvc s1 f fs r) j =
    (if j = i then switched r i @ [granted_flit now q outvc f] else switched r j)"
proof (cases "j = i")
  case True
  then show ?thesis using assms by (simp add: switched_def granted_simps nat_less_iff)
next
  case False
  then have "nat j \<noteq> nat i" using assms by auto
  then show ?thesis using False by (simp add: switched_def granted_simps)
qed

lemma granted_switch_inv:
  assumes L: "length (switchBuffers (crossbarSwitch r)) = length (m_input_unit r)"
      "length (m_port_requests (switchAllocator r)) = length (m_input_unit r)"
    and i: "0 \<le> i" "i < int (length (m_input_unit r))" and q: "0 \<le> q"
    and sw: "switch_inv now q r" "m_port_requests (switchAllocator r) ! nat i = q" and f: "m_time f \<le> now"
  shows "switch_inv now (q + 1) (granted now q i invc outvc s1 f fs r)"
proof -
  let ?r = "granted now q i invc outvc s1 f fs r" and ?g = "granted_flit now q outvc f"
  have empty: "switched r i = []" using sw i q by (auto simp: switch_inv_def switch_flit_ok_def)
  have g: "m_time ?g \<le> now" "m_stage ?g = (ST, now)" "m_outport ?g = Some q"
    using f by (simp_all add: granted_flit_def advance_stage_def)
  have swd: "switched ?r j = (if j = i then [?g] else switched r j)" if "0 \<le> j" for j
    using granted_switched [of i r j] i L that empty by simp
  have req: "m_port_requests (switchAllocator ?r) ! nat j = (if j = i then -1 else m_port_requests (switchAllocator r) ! nat j)"
    if "0 \<le> j" for j
    using that i L by (auto simp: granted_simps nth_list_update nat_less_iff)
  have old: "\<exists>p. m_outport h = Some p \<and> p < q" if "h \<in> set (switched r j)" "0 \<le> j" "j < int (length (m_input_unit r))" for h j
  proof -
    have "switch_flit_ok now q r j" using sw(1) that by (simp add: switch_inv_def)
    then show ?thesis using that(1) by (auto simp: switch_flit_ok_def)
  qed
  show ?thesis
    unfolding switch_inv_def granted_simps(5)
  proof (intro conjI allI impI)
    fix j
    assume j: "0 \<le> j \<and> j < int (length (m_input_unit r))"
    show "switch_flit_ok now (q + 1) ?r j"
    proof (cases "j = i")
      case True
      then show ?thesis using g q j swd [of j] req [of j] by (simp add: switch_flit_ok_def)
    next
      case False
      have "switch_flit_ok now q r j" using sw(1) j by (simp add: switch_inv_def)
      then have "switch_flit_ok now q ?r j" using False j swd [of j] req [of j] by (simp add: switch_flit_ok_def)
      then show ?thesis by (rule switch_flit_ok_mono) simp
    qed
  next
    fix j k x y
    assume a: "0 \<le> j \<and> j < int (length (m_input_unit r)) \<and> 0 \<le> k \<and> k < int (length (m_input_unit r)) \<and> j \<noteq> k \<and>
      x \<in> set (switched ?r j) \<and> y \<in> set (switched ?r k)"
    show "m_outport x \<noteq> m_outport y"
    proof (cases "j = i \<or> k = i")
      case True
      then show ?thesis using a g(3) swd [of j] swd [of k] old [of x j] old [of y k] by (auto split: if_splits)
    next
      case False
      then show ?thesis using a swd [of j] swd [of k] sw(1) by (auto simp: switch_inv_def)
    qed
  qed
qed

lemma arbitrate_outport_ok:
  assumes inv: "stage2_inv now net q r" and o: "0 \<le> q" "q < int (length (m_output_unit r))"
  shows "\<exists>r' ws'. SwitchAllocator_arbitrate_outport p now q (r, ws) = Inr (r', ws') \<and> stage2_inv now net (q + 1) r' \<and>
    length (m_output_unit r') = length (m_output_unit r) \<and> length (m_input_unit r') = length (m_input_unit r)"
proof -
  let ?sa = "switchAllocator r" and ?ni = "int (length (m_input_unit r))"
  have sa: "sa_inv now net r" using inv by (simp add: stage2_inv_def)
  note L = sa_inv_lengths [OF sa]
  define start where "start = m_round_robin_inport ?sa ! nat q"
  have "nat q < length (m_round_robin_inport ?sa)" using L o by (simp add: nat_less_iff)
  then have get: "vget (m_round_robin_inport ?sa) q = Inr start" and "start \<in> set (m_round_robin_inport ?sa)"
    using o by (simp_all add: vget_def start_def nat_less_iff)
  then have st: "0 \<le> start" "start < ?ni \<or> ?ni = 0" using sa by (auto simp: sa_inv_def sa_shape_def Let_def)
  define probe where "probe = (\<lambda>i. rbind (vget (m_port_requests ?sa) i) (\<lambda>x. Inr (if x = q then Some i else None)))"
  have pr: "probe i = Inr (if m_port_requests ?sa ! nat i = q then Some i else None)" if "0 \<le> i" "i < ?ni" for i
    using that L by (simp add: probe_def vget_ok)
  obtain w where w: "rr_scan ?ni probe (nat ?ni) start = Inr w"
  proof (cases "?ni = 0")
    case False
    then have "returns (rr_scan ?ni probe (nat ?ni) start)" by (intro rr_scan_returns) (use pr st in auto)
    then show ?thesis using that by (auto simp: returns_iff)
  qed (use that in simp)
  show ?thesis
  proof (cases w)
    case None
    then have "SwitchAllocator_arbitrate_outport p now q (r, ws) = Inr (r, ws)"
      using get w L(6) by (simp add: SwitchAllocator_arbitrate_outport_def Let_def probe_def)
    then show ?thesis using stage2_next [OF inv] by blast
  next
    case (Some i)
    then have "?ni \<noteq> 0" using w by auto
    then obtain j where j: "0 \<le> j" "j < ?ni" "probe j = Inr (Some i)" using rr_scan_Some [of ?ni probe "nat ?ni" start i] w Some st by auto
    then have i: "0 \<le> i" "i < ?ni" "m_port_requests ?sa ! nat i = q" using pr [of j] by (auto split: if_splits)
    have req: "req_inv now r i" using inv i by (simp add: stage2_inv_def)
    then obtain f fs where f: "VC_items (winner_vc r i) = f # fs" "m_time f \<le> now" and port: "m_output_port (winner_vc r i) = q"
      and vc: "0 \<le> m_vc_winners ?sa ! nat i" "m_vc_winners ?sa ! nat i < sa_num_vcs ?sa"
      using i(3) by (auto simp: req_inv_def Let_def)
    obtain outvc s1 ws1 where g: "SwitchAllocator_grant p now q i r = Inr (granted now q i (m_vc_winners ?sa ! nat i) outvc s1 f fs r, ws1)"
      and ov: "0 \<le> outvc" "outvc < int (length (outVcState (m_output_unit r ! nat q)))" "OutVcState_isInState ACTIVE now s1"
        "0 < m_credit_count s1" "OutVcState_ok s1"
      using grant_eq [OF sa i(1,2) o req i(3) refl f(1), of p] by blast
    let ?r = "granted now q i (m_vc_winners ?sa ! nat i) outvc s1 f fs r"
    have "sa_inv now net ?r"
      using granted_shape [OF _ i(1,2) vc] granted_units [OF sa i(1,2) o vc _ f(1) port ov] sa
      by (simp add: sa_inv_def winner_vc_def)
    moreover have "switch_inv now (q + 1) ?r"
      using granted_switch_inv [OF L(5) L(1) i(1,2) o(1) _ i(3) f(2)] inv by (simp add: stage2_inv_def)
    moreover have "req_inv now ?r k" if "0 \<le> k" "k < ?ni" "q + 1 \<le> m_port_requests (switchAllocator ?r) ! nat k" for k
    proof -
      have "nat i < length (m_port_requests ?sa)" using i L by (simp add: nat_less_iff)
      then have "k \<noteq> i" using that(3) o by (auto simp: granted_simps)
      then have k: "m_port_requests (switchAllocator ?r) ! nat k = m_port_requests ?sa ! nat k" using that i by (simp add: granted_simps)
      then show ?thesis using granted_request [OF that(1) \<open>k \<noteq> i\<close> i(1) _ o(1)] that inv o by (auto simp: stage2_inv_def)
    qed
    ultimately have "stage2_inv now net (q + 1) ?r" by (simp add: stage2_inv_def granted_simps(5))
    moreover have "SwitchAllocator_arbitrate_outport p now q (r, ws) = Inr (?r, ws @ ws1)"
      using get w Some L(6) g by (simp add: SwitchAllocator_arbitrate_outport_def Let_def probe_def)
    ultimately show ?thesis by (auto simp: granted_simps)
  qed
qed

lemma arbitrate_outports_ok:
  assumes "stage2_inv now net 0 r"
  shows "\<exists>r' ws'. SwitchAllocator_arbitrate_outports p now (r, ws) = Inr (r', ws') \<and>
    stage2_inv now net (int (length (m_output_unit r'))) r'"
proof -
  let ?no = "int (length (m_output_unit r))"
  let ?I = "\<lambda>q rw. stage2_inv now net q (fst rw) \<and> length (m_output_unit (fst rw)) = length (m_output_unit r)"
  have "m_num_outports (switchAllocator r) = ?no"
    using assms sa_inv_lengths(7) [of now net r] by (simp add: stage2_inv_def)
  moreover have "\<exists>t. rfold (SwitchAllocator_arbitrate_outport p now) [0..?no - 1] (r, ws) = Inr t \<and> ?I ?no t"
  proof (rule rfold_upto)
    show "?I 0 (r, ws)" using assms by simp
    show "\<exists>s'. SwitchAllocator_arbitrate_outport p now k s = Inr s' \<and> ?I (k + 1) s'"
      if "0 \<le> k" "k < ?no" "?I k s" for k s
      using arbitrate_outport_ok [of now net k "fst s" p "snd s"] that by (cases s) auto
  qed simp
  ultimately show ?thesis by (auto simp: SwitchAllocator_arbitrate_outports_def)
qed

lemma check_for_wakeup_returns:
  assumes inv: "sa_inv now net r" and t: "now \<le> edge_at p now 1"
  shows "\<exists>ws'. SwitchAllocator_check_for_wakeup sched p now (r, ws) = Inr (r, ws')"
proof -
  let ?sa = "switchAllocator r"
  have "returns (first_res (\<lambda>(i, j). rbind (getInputUnit i r) (\<lambda>iu.
      rbind (InputUnit_need_stage j SA (edge_at p now 1) iu) (\<lambda>b. Inr (if b then Some () else None))))
      (List.product [0..m_num_inports ?sa - 1] [0..sa_num_vcs ?sa - 1]))"
    by (rule first_res_returns)
      (use sa_inv_lengths(6) [OF inv] iu_need_stage_returns [OF inv _ _ _ _ t] in
        \<open>auto simp: getInputUnit_eq_Inr [THEN iffD2]\<close>)
  then show ?thesis by (auto simp: SwitchAllocator_check_for_wakeup_def Let_def returns_iff)
qed

definition idle_switch :: "Router \<Rightarrow> bool" where
  "idle_switch r =
     ((\<forall>b\<in>set (switchBuffers (crossbarSwitch r)). m_buffer b = []) \<and>
      (\<forall>q\<in>set (m_port_requests (switchAllocator r)). q = -1))"

definition router_inv :: "tick \<Rightarrow> net_params \<Rightarrow> Router \<Rightarrow> bool" where
  "router_inv now net r = (sa_inv now net r \<and> idle_switch r)"

lemma idle_switched: "idle_switch r \<Longrightarrow> length (switchBuffers (crossbarSwitch r)) = length (m_input_unit r) \<Longrightarrow>
    0 \<le> j \<Longrightarrow> j < int (length (m_input_unit r)) \<Longrightarrow> switched r j = []"
  by (simp add: idle_switch_def switched_def nat_less_iff)

lemma idle_requests: "idle_switch r \<Longrightarrow> length (m_port_requests (switchAllocator r)) = length (m_input_unit r) \<Longrightarrow>
    0 \<le> j \<Longrightarrow> j < int (length (m_input_unit r)) \<Longrightarrow> m_port_requests (switchAllocator r) ! nat j = -1"
  by (simp add: idle_switch_def nat_less_iff)

lemma SwitchAllocator_wakeup_ok:
  assumes inv: "router_inv now net r" and t: "now \<le> edge_at p now 1"
  shows "\<exists>r' ws'. SwitchAllocator_wakeup sched p now net (r, ws) = Inr (r', ws') \<and> sa_inv now net r' \<and>
    switch_inv now (int (length (m_output_unit r'))) r' \<and> (\<forall>q\<in>set (m_port_requests (switchAllocator r')). q = -1)"
proof -
  have sa: "sa_inv now net r" and idle: "idle_switch r" using inv by (auto simp: router_inv_def)
  note L = sa_inv_lengths [OF sa]
  have "requests_inv now r" using idle_requests [OF idle L(1)] by (auto simp: requests_inv_def)
  from arbitrate_inports_ok [OF sa this] obtain r1 where r1: "SwitchAllocator_arbitrate_inports now net r = Inr r1"
      "sa_inv now net r1" "requests_inv now r1" "m_input_unit r1 = m_input_unit r" "crossbarSwitch r1 = crossbarSwitch r"
    by blast
  have "switched r1 j = []" if "0 \<le> j" "j < int (length (m_input_unit r1))" for j
    using idle_switched [OF idle L(5)] that r1(4,5) by (simp add: switched_def)
  then have "switch_inv now 0 r1" by (auto simp: switch_inv_def switch_flit_ok_def)
  then have "stage2_inv now net 0 r1" using r1(2,3) by (auto simp: stage2_inv_def requests_inv_def)
  from arbitrate_outports_ok [OF this] obtain r2 ws2 where
      r2: "SwitchAllocator_arbitrate_outports p now (r1, ws) = Inr (r2, ws2)"
        "stage2_inv now net (int (length (m_output_unit r2))) r2" by blast
  let ?r = "SwitchAllocator_clear_request_vector r2"
  have sa3: "sa_inv now net ?r"
    using r2(2) unfolding stage2_inv_def sa_inv_def sa_shape_def units_inv_def SwitchAllocator_clear_request_vector_def Let_def
    by auto
  have nth: "m_port_requests (switchAllocator ?r) ! nat j = -1" if "0 \<le> j" "j < int (length (m_input_unit r2))" for j
    using that sa_inv_lengths(1) [of now net r2] r2(2)
    by (simp add: SwitchAllocator_clear_request_vector_def nat_less_iff stage2_inv_def)
  have sw: "switched ?r j = switched r2 j" "length (m_input_unit ?r) = length (m_input_unit r2)"
      "length (m_output_unit ?r) = length (m_output_unit r2)" for j
    by (simp_all add: switched_def SwitchAllocator_clear_request_vector_def)
  have "switch_inv now (int (length (m_output_unit ?r))) ?r"
    using r2(2) nth unfolding stage2_inv_def switch_inv_def switch_flit_ok_def sw by blast
  moreover obtain ws3 where "SwitchAllocator_check_for_wakeup sched p now (?r, ws2) = Inr (?r, ws3)"
    using check_for_wakeup_returns [OF sa3 t] by blast
  ultimately show ?thesis using r1(1) r2(1) sa3
    by (auto simp: SwitchAllocator_wakeup_def SwitchAllocator_clear_request_vector_def)
qed

end
