(* ===== verification/Garnet_Router_Step.thy ===== *)
theory Garnet_Router_Step
  imports Garnet_Router_Safe
begin

text \<open>
  A whole wake-up of a router. The first part shows what a wake-up never changes: the
  configuration, the routing tables and the wiring of the ports (\<open>router_frame\<close>). The second part
  shows that it never aborts: from a router that satisfies \<open>router_inv\<close>, with links that are wired
  to it alone (\<open>wired\<close>) and carry flits and credits that follow the flow control (\<open>arrival_ok\<close>,
  \<open>credit_ok\<close>), the wake-up returns, satisfies \<open>router_inv\<close> again, and leaves the crossbar empty.
\<close>

section \<open>What a wake-up keeps\<close>

definition iu_frame :: "InputUnit \<Rightarrow> int \<times> PortDirection \<times> int \<times> int \<times> int \<times> nat \<times> nat \<times> nat" where
  "iu_frame iu = (iu_id iu, iu_direction iu, iu_vc_per_vnet iu, m_in_link iu, iu_credit_link iu,
     length (virtualChannels iu), length (m_num_buffer_writes iu), length (m_num_buffer_reads iu))"

definition ou_frame :: "OutputUnit \<Rightarrow> int \<times> PortDirection \<times> int \<times> int \<times> int \<times> nat" where
  "ou_frame ou = (ou_id ou, ou_direction ou, ou_vc_per_vnet ou, m_out_link ou, ou_credit_link ou, length (outVcState ou))"

definition router_frame where
  "router_frame r = (r_cfg r, routingUnit r, map iu_frame (m_input_unit r), map ou_frame (m_output_unit r))"

lemma map_update_same:
  "0 \<le> i \<Longrightarrow> i < int (length xs) \<Longrightarrow> g y = g (xs ! nat i) \<Longrightarrow> map g (xs[nat i := y]) = map g xs"
  by (simp add: map_update list_update_same_conv nat_less_iff)

lemma select_free_vc_frame:
  assumes "OutputUnit_select_free_vc now vnet ou = Inr (vc, ou')"
  shows "ou_frame ou' = ou_frame ou"
proof -
  obtain q where "first_idle_vc now vnet ou = Inr q"
    using assms by (auto simp: OutputUnit_select_free_vc_def rbind_eq_Inr)
  then show ?thesis using assms
    by (cases q) (auto simp: OutputUnit_select_free_vc_def rbind_eq_Inr vmod_eq_Inr ou_frame_def)
qed

lemma vc_allocate_frame:
  assumes "SwitchAllocator_vc_allocate now outport inport invc r = Inr (outvc, r')"
  shows "router_frame r' = router_frame r"
proof -
  obtain vnet ou' iu' where
    o: "0 \<le> outport" "outport < int (length (m_output_unit r))"
      "OutputUnit_select_free_vc now vnet (m_output_unit r ! nat outport) = Inr (outvc, ou')" and
    i: "0 \<le> inport" "inport < int (length (m_input_unit r))"
      "InputUnit_grant_outvc invc outvc (m_input_unit r ! nat inport) = Inr iu'" and
    r': "r' = r\<lparr>m_output_unit := (m_output_unit r)[nat outport := ou'], m_input_unit := (m_input_unit r)[nat inport := iu']\<rparr>"
    using vc_allocateD [OF assms] by blast
  have "iu_frame iu' = iu_frame (m_input_unit r ! nat inport)"
    using i(3) by (auto simp: InputUnit_grant_outvc_def iu_mod_vc_eq_Inr iu_frame_def)
  then show ?thesis using map_update_same [OF i(1,2), of iu_frame] map_update_same [OF o(1,2), of ou_frame] select_free_vc_frame [OF o(3)]
    by (simp add: r' router_frame_def)
qed

lemma release_flit_frame: "release_flit p now invc iu = Inr (f, iu', ws) \<Longrightarrow> iu_frame iu' = iu_frame iu"
  by (drule release_flitD) (auto simp: iu_frame_def)

lemma grant_frame:
  assumes "SwitchAllocator_grant p now outport inport r = Inr (r', ws)"
  shows "router_frame r' = router_frame r"
proof -
  obtain invc outvc0 outvc r1 f iu2 ou2 r4 sa where
    alloc: "(if outvc0 = -1 then SwitchAllocator_vc_allocate now outport inport invc r else Inr (outvc0, r)) = Inr (outvc, r1)" and
    i: "0 \<le> inport" "inport < int (length (m_input_unit r1))" and
    rel: "release_flit p now invc (m_input_unit r1 ! nat inport) = Inr (f, iu2, ws)" and
    o: "0 \<le> outport" "outport < int (length (m_output_unit r1))"
      "OutputUnit_decrement_credit outvc (m_output_unit r1 ! nat outport) = Inr ou2" and
    sw: "Router_grant_switch inport (granted_flit now outport outvc f)
      (r1\<lparr>m_input_unit := (m_input_unit r1)[nat inport := iu2],
          m_output_unit := (m_output_unit r1)[nat outport := ou2]\<rparr>) = Inr r4" and
    r': "r' = r4\<lparr>switchAllocator := sa\<rparr>"
    using grantD [OF assms] by blast
  have "router_frame r1 = router_frame r" using alloc vc_allocate_frame by (auto split: if_splits)
  moreover have "ou_frame ou2 = ou_frame (m_output_unit r1 ! nat outport)"
    using o(3) by (auto simp: OutputUnit_decrement_eq_Inr ou_frame_def)
  moreover have "router_frame r' = (r_cfg r1, routingUnit r1, map iu_frame ((m_input_unit r1)[nat inport := iu2]),
      map ou_frame ((m_output_unit r1)[nat outport := ou2]))"
    using sw by (auto simp: r' router_frame_def Router_grant_switch_def rbind_eq_Inr)
  ultimately show ?thesis
    using map_update_same [OF i, of iu_frame] map_update_same [OF o(1,2), of ou_frame] release_flit_frame [OF rel]
    by (simp add: router_frame_def)
qed

lemma arbitrate_outport_frame:
  "SwitchAllocator_arbitrate_outport p now outport (r, ws) = Inr (r', ws') \<Longrightarrow> router_frame r' = router_frame r"
  using arbitrate_outportD grant_frame by blast

lemma SwitchAllocator_wakeup_frame:
  assumes "SwitchAllocator_wakeup sched p now net (r, ws) = Inr (r', ws')"
  shows "router_frame r' = router_frame r"
proof -
  obtain r1 r2 ws2 where a: "SwitchAllocator_arbitrate_inports now net r = Inr r1"
    and b: "SwitchAllocator_arbitrate_outports p now (r1, ws) = Inr (r2, ws2)"
    and c: "r' = SwitchAllocator_clear_request_vector r2"
    using SwitchAllocator_wakeupD [OF assms] by blast
  have "router_frame r1 = router_frame r" using arbitrate_inports_sa [OF a] by (auto simp: router_frame_def)
  moreover have "router_frame (fst (r2, ws2)) = router_frame r1"
    by (rule rfold_inv [OF b [unfolded SwitchAllocator_arbitrate_outports_def],
          where I = "\<lambda>rw. router_frame (fst rw) = router_frame r1"])
      (simp, use arbitrate_outport_frame in fastforce)
  ultimately show ?thesis by (simp add: c SwitchAllocator_clear_request_vector_def router_frame_def)
qed

lemma crossed_frame:
  assumes "0 \<le> q" "q < int (length (m_output_unit r))"
  shows "router_frame (crossed p now i q f fs r) = router_frame r"
  using map_update_same [OF assms, of ou_frame] by (simp add: crossed_def Let_def router_frame_def ou_frame_def)

lemma traverse_frame:
  "CrossbarSwitch_traverse p now i (r, ws) = Inr (r', ws') \<Longrightarrow> router_frame r' = router_frame r"
  using traverseD crossed_frame by blast

lemma CrossbarSwitch_wakeup_frame:
  assumes "CrossbarSwitch_wakeup p now (r, ws) = Inr (r', ws')"
  shows "router_frame r' = router_frame r"
proof -
  have "router_frame (fst (r', ws')) = router_frame r"
    by (rule rfold_inv [OF assms [unfolded CrossbarSwitch_wakeup_def],
          where I = "\<lambda>rw. router_frame (fst rw) = router_frame r"])
      (simp, use traverse_frame in fastforce)
  then show ?thesis by simp
qed

section \<open>The crossbar empties\<close>

lemma units_ok_output:
  assumes "units_ok now nv vn ius ous" "ou_inv vn ou'" "0 \<le> q"
    and "\<And>iu v. iu \<in> set ius \<Longrightarrow> v \<in> set (virtualChannels iu) \<Longrightarrow> vc_inv now (ous[nat q := ou']) v"
  shows "units_ok now nv vn ius (ous[nat q := ou'])"
proof -
  have "ou_inv vn ou" if "ou \<in> set (ous[nat q := ou'])" for ou
    using that assms(1,2) set_update_subset_insert [of ous "nat q" ou'] by (auto simp: units_ok_def)
  then show ?thesis using assms(1,4) by (auto simp: units_ok_def iu_inv_def)
qed

lemma keeps_active_same: "outVcState ou' = outVcState ou \<Longrightarrow> keeps_active now ou ou'"
  by (simp add: keeps_active_def ovc_active_def)

definition crossing :: "tick \<Rightarrow> net_params \<Rightarrow> int \<Rightarrow> Router \<Rightarrow> bool" where
  "crossing now net k r =
     (sa_inv now net r \<and> (\<forall>q\<in>set (m_port_requests (switchAllocator r)). q = -1) \<and>
      (\<forall>j. 0 \<le> j \<and> j < int (length (m_input_unit r)) \<longrightarrow>
         (if j < k then switched r j = [] else switch_flit_ok now (int (length (m_output_unit r))) r j)))"

lemma crossed_simps [simp]:
  "switchAllocator (crossed p now i q f fs r) = switchAllocator r" "r_cfg (crossed p now i q f fs r) = r_cfg r"
  "m_input_unit (crossed p now i q f fs r) = m_input_unit r"
  "length (m_output_unit (crossed p now i q f fs r)) = length (m_output_unit r)"
  "length (switchBuffers (crossbarSwitch (crossed p now i q f fs r))) = length (switchBuffers (crossbarSwitch r))"
  by (simp_all add: crossed_def Let_def)

lemma crossed_switched:
  assumes "0 \<le> i" "i < int (length (switchBuffers (crossbarSwitch r)))" "0 \<le> j"
  shows "switched (crossed p now i q f fs r) j = (if j = i then fs else switched r j)"
  using assms by (auto simp: switched_def crossed_def Let_def nth_list_update)

lemma crossed_sa_inv:
  assumes inv: "sa_inv now net r" and q: "0 \<le> q" "q < int (length (m_output_unit r))"
  shows "sa_inv now net (crossed p now i q f fs r)"
proof -
  let ?ou = "m_output_unit r ! nat q"
  let ?ou' = "?ou\<lparr>outBuffer := flitBuffer_insert (departed_flit p now f) (outBuffer ?ou)\<rparr>"
  have u: "units_ok now (sa_num_vcs (switchAllocator r)) (uint (r_virtual_networks (r_cfg r))) (m_input_unit r) (m_output_unit r)"
    using inv by (simp add: sa_inv_def units_inv_def)
  have "ou_inv (uint (r_virtual_networks (r_cfg r))) ?ou'" using sa_inv_ou [OF inv q] by (simp add: ou_inv_def)
  moreover have "vc_inv now ((m_output_unit r)[nat q := ?ou']) v"
    if "iu \<in> set (m_input_unit r)" "v \<in> set (virtualChannels iu)" for iu v
    by (rule vc_inv_keeps [OF _ keeps_active_same q(1)]) (use that u in \<open>auto simp: units_ok_def iu_inv_def\<close>)
  ultimately have "units_ok now (sa_num_vcs (switchAllocator r)) (uint (r_virtual_networks (r_cfg r)))
      (m_input_unit r) ((m_output_unit r)[nat q := ?ou'])"
    using units_ok_output [OF u _ q(1)] by blast
  then have "units_inv now (crossed p now i q f fs r)" by (simp add: units_inv_def crossed_def Let_def)
  then show ?thesis using inv by (simp add: sa_inv_def sa_shape_def)
qed

lemma crossing_next:
  assumes inv: "crossing now net k r" and sa: "sa_inv now net r'" "switchAllocator r' = switchAllocator r"
    and len: "length (m_input_unit r') = length (m_input_unit r)" "length (m_output_unit r') = length (m_output_unit r)"
    and sw: "switched r' k = []" "\<And>j. 0 \<le> j \<Longrightarrow> j \<noteq> k \<Longrightarrow> switched r' j = switched r j"
  shows "crossing now net (k + 1) r'"
proof -
  have "if j < k + 1 then switched r' j = [] else switch_flit_ok now (int (length (m_output_unit r'))) r' j"
    if "0 \<le> j" "j < int (length (m_input_unit r'))" for j
  proof (cases "j = k")
    case True
    then show ?thesis using sw(1) by simp
  next
    case False
    then have "if j < k then switched r j = [] else switch_flit_ok now (int (length (m_output_unit r))) r j"
      using inv that len by (simp add: crossing_def)
    then show ?thesis using False sw(2) [OF that(1) False] sa(2) len by (auto simp: switch_flit_ok_def)
  qed
  then show ?thesis using inv sa by (auto simp: crossing_def)
qed

lemma traverse_ok:
  assumes inv: "crossing now net k r" and k: "0 \<le> k" "k < int (length (m_input_unit r))"
  shows "\<exists>r' ws'. CrossbarSwitch_traverse p now k (r, ws) = Inr (r', ws') \<and> crossing now net (k + 1) r' \<and>
    length (m_input_unit r') = length (m_input_unit r)"
proof -
  have sa: "sa_inv now net r" using inv by (simp add: crossing_def)
  note L = sa_inv_lengths [OF sa]
  have kb: "k < int (length (switchBuffers (crossbarSwitch r)))" using k L by simp
  have "switch_flit_ok now (int (length (m_output_unit r))) r k" using inv k by (simp add: crossing_def)
  then consider (none) "switched r k = []"
    | (go) f q where "switched r k = [f]" "m_time f \<le> now" "m_stage f = (ST, now)" "m_outport f = Some q" "0 \<le> q"
        "q < int (length (m_output_unit r))" by (auto simp: switch_flit_ok_def)
  then show ?thesis
  proof cases
    case none
    then have "CrossbarSwitch_traverse p now k (r, ws) = Inr (r, ws)"
      using k kb by (simp add: CrossbarSwitch_traverse_def vget_ok switched_def flitBuffer_isReady_iff)
    moreover have "crossing now net (k + 1) r"
      by (rule crossing_next [OF inv sa]) (use none in simp_all)
    ultimately show ?thesis by blast
  next
    case go
    have "\<exists>ws'. CrossbarSwitch_traverse p now k (r, ws) = Inr (crossed p now k q f [] r, ws')"
      using k kb go
      by (simp add: CrossbarSwitch_traverse_def vget_ok vset_ok switched_def flitBuffer_isReady_iff
          flitBuffer_peekTopFlit_def flitBuffer_getTopFlit_def is_stage_def get_outport_def
          getOutputUnit_eq_Inr [THEN iffD2] putOutputUnit_eq_Inr [THEN iffD2] OutputUnit_insert_flit_def crossed_def Let_def)
    moreover have "crossing now net (k + 1) (crossed p now k q f [] r)"
      by (rule crossing_next [OF inv crossed_sa_inv [OF sa go(5,6)]]) (use crossed_switched [OF k(1) kb] k in simp_all)
    ultimately show ?thesis by auto
  qed
qed

lemma CrossbarSwitch_wakeup_ok:
  assumes inv: "sa_inv now net r" "\<forall>q\<in>set (m_port_requests (switchAllocator r)). q = -1"
    and sw: "switch_inv now (int (length (m_output_unit r))) r"
  shows "\<exists>r' ws'. CrossbarSwitch_wakeup p now (r, ws) = Inr (r', ws') \<and> router_inv now net r'"
proof -
  let ?ni = "int (length (m_input_unit r))"
  let ?I = "\<lambda>k rw. crossing now net k (fst rw) \<and> length (m_input_unit (fst rw)) = length (m_input_unit r)"
  have "\<exists>t. rfold (CrossbarSwitch_traverse p now) [0..?ni - 1] (r, ws) = Inr t \<and> ?I ?ni t"
  proof (rule rfold_upto)
    show "?I 0 (r, ws)" using inv sw by (auto simp: crossing_def switch_inv_def)
    show "\<exists>s'. CrossbarSwitch_traverse p now k s = Inr s' \<and> ?I (k + 1) s'"
      if "0 \<le> k" "k < ?ni" "?I k s" for k s
      using traverse_ok [of now net k "fst s" p "snd s"] that by (cases s) auto
  qed simp
  then obtain r' ws' where t: "CrossbarSwitch_wakeup p now (r, ws) = Inr (r', ws')" "crossing now net ?ni r'"
      "length (m_input_unit r') = length (m_input_unit r)"
    using sa_inv_lengths(5) [OF inv(1)] by (auto simp: CrossbarSwitch_wakeup_def)
  have sa: "sa_inv now net r'" using t(2) by (simp add: crossing_def)
  have "m_buffer b = []" if b: "b \<in> set (switchBuffers (crossbarSwitch r'))" for b
  proof -
    obtain i where i: "i < length (switchBuffers (crossbarSwitch r'))" "b = switchBuffers (crossbarSwitch r') ! i"
      using b by (auto simp: in_set_conv_nth)
    then have "int i < ?ni" using sa_inv_lengths(5) [OF sa] t(3) by simp
    then have "switched r' (int i) = []" using t(2,3) by (simp add: crossing_def)
    then show ?thesis using i(2) by (simp add: switched_def)
  qed
  then have "idle_switch r'" using t(2) by (simp add: idle_switch_def crossing_def)
  then show ?thesis using t(1) sa by (auto simp: router_inv_def)
qed

section \<open>Arriving credits and flits\<close>

text \<open>
  What the protocol promises of the first flit of an input link that is due: it has the width of
  the router and names an existing virtual channel; a head flit comes to an idle channel and can be
  routed to a port of the router, any other flit comes to an active channel whose packet has not
  ended. And of the first credit of a credit link that is due: it is a credit for a virtual channel
  that has flits outstanding, and if it frees the channel then no packet here still holds it.
\<close>

definition arrival_ok :: "tick \<Rightarrow> net_params \<Rightarrow> (int \<Rightarrow> int) \<Rightarrow> Router \<Rightarrow> int \<Rightarrow> NetworkLink \<Rightarrow> bool" where
  "arrival_ok now net rnd r i l =
     (case link_items l of [] \<Rightarrow> True | f # _ \<Rightarrow> m_time f \<le> now \<longrightarrow>
       (let iu = m_input_unit r ! nat i; v = virtualChannels iu ! nat (m_vc f) in
        m_width f = r_bit_width (r_cfg r) \<and> 0 \<le> m_vc f \<and> m_vc f < int (length (virtualChannels iu)) \<and>
        (if is_head f
         then fst (vc_state v) = IDLE \<and>
           (case Router_route_compute net (rnd i) r (m_route (increment_hops f)) (iu_id iu) (iu_direction iu) of
              Inl _ \<Rightarrow> False | Inr q \<Rightarrow> 0 \<le> q \<and> q < int (length (m_output_unit r)))
         else fst (vc_state v) = ACTIVE \<and> (\<forall>g\<in>set (VC_items v). \<not> is_tail g))))"

definition held :: "InputUnit list \<Rightarrow> int \<Rightarrow> int \<Rightarrow> bool" where
  "held ius q vc =
     (\<exists>iu\<in>set ius. \<exists>v\<in>set (virtualChannels iu).
        fst (vc_state v) = ACTIVE \<and> m_output_port v = q \<and> m_output_vc v = vc)"

definition credit_ok :: "tick \<Rightarrow> InputUnit list \<Rightarrow> OutputUnit \<Rightarrow> int \<Rightarrow> NetworkLink \<Rightarrow> bool" where
  "credit_ok now ius ou q l =
     (case link_items l of [] \<Rightarrow> True | c # _ \<Rightarrow> m_time c \<le> now \<longrightarrow>
       (let s = outVcState ou ! nat (m_vc c) in
        m_is_free_signal c \<noteq> None \<and> 0 \<le> m_vc c \<and> m_vc c < int (length (outVcState ou)) \<and>
        m_credit_count s < m_max_credit_count s \<and> (m_is_free_signal c = Some True \<longrightarrow> \<not> held ius q (m_vc c))))"

definition stats_ok :: "InputUnit \<Rightarrow> bool" where
  "stats_ok iu =
     (0 < iu_vc_per_vnet iu \<and>
      int (length (virtualChannels iu)) \<le> iu_vc_per_vnet iu * int (length (m_num_buffer_writes iu)) \<and>
      length (m_num_buffer_reads iu) = length (m_num_buffer_writes iu))"

definition wired :: "Router \<Rightarrow> nat \<Rightarrow> bool" where
  "wired r n =
     (distinct (map m_in_link (m_input_unit r) @ map ou_credit_link (m_output_unit r)) \<and>
      (\<forall>l\<in>set (map m_in_link (m_input_unit r) @ map ou_credit_link (m_output_unit r)). 0 \<le> l \<and> l < int n) \<and>
      0 < r_latency (r_cfg r) \<and> (\<forall>iu\<in>set (m_input_unit r). stats_ok iu))"

lemma wired_frame: "router_frame r' = router_frame r \<Longrightarrow> wired r' n = wired r n"
proof -
  assume a: "router_frame r' = router_frame r"
  have i: "map m_in_link us = map (\<lambda>(_, _, _, l, _). l) (map iu_frame us)"
    "(\<forall>iu\<in>set us. stats_ok iu) = list_all (\<lambda>(_, _, n, _, _, a, b, c). 0 < n \<and> int a \<le> n * int b \<and> c = b) (map iu_frame us)" for us
    by (auto simp: iu_frame_def stats_ok_def list_all_iff)
  have o: "map ou_credit_link us = map (\<lambda>(_, _, _, _, l, _). l) (map ou_frame us)" for us
    by (simp add: ou_frame_def)
  show ?thesis using a unfolding wired_def i o router_frame_def by simp
qed

lemma vc_inv_credited:
  assumes v: "vc_inv now ous v" and q: "0 \<le> q"
    and free: "free \<Longrightarrow> \<not> (fst (vc_state v) = ACTIVE \<and> m_output_port v = q \<and> m_output_vc v = vc)" and vc: "0 \<le> vc"
  shows "vc_inv now (ous[nat q := (ous ! nat q)\<lparr>outVcState := (outVcState (ous ! nat q))
    [nat vc := credited now free (outVcState (ous ! nat q) ! nat vc)]\<rparr>]) v" (is "vc_inv now ?ous v")
proof -
  let ?ou = "ous ! nat q"
  let ?ou' = "?ou\<lparr>outVcState := (outVcState ?ou)[nat vc := credited now free (outVcState ?ou ! nat vc)]\<rparr>"
  have keep: "ovc_active now ?ou' w" if "ovc_active now ?ou w" "free \<longrightarrow> w \<noteq> vc" for w
  proof (cases "w = vc")
    case True
    then show ?thesis using that
      by (auto simp: ovc_active_def credited_def OutVcState_isInState_def nat_less_iff Let_def)
  next
    case False
    then have "nat w \<noteq> nat vc" using that(1) vc by (auto simp: ovc_active_def)
    then show ?thesis using that(1) by (simp add: ovc_active_def)
  qed
  have "ovc_active now (?ous ! nat (m_output_port v)) (m_output_vc v)"
    if a: "fst (vc_state v) = ACTIVE" "0 \<le> m_output_port v" "m_output_port v < int (length ous)"
      "ovc_active now (ous ! nat (m_output_port v)) (m_output_vc v)"
  proof (cases "m_output_port v = q")
    case True
    then show ?thesis using a keep free by (auto simp: nat_less_iff)
  next
    case False
    then have "nat (m_output_port v) \<noteq> nat q" using a(2) q by auto
    then show ?thesis using a(4) by simp
  qed
  then show ?thesis using v by (auto simp: vc_inv_def)
qed

lemma credited_sa_inv:
  assumes inv: "sa_inv now net r" and q: "0 \<le> q" "q < int (length (m_output_unit r))"
    and ou: "ou = m_output_unit r ! nat q" and vc: "0 \<le> vc" "vc < int (length (outVcState ou))"
    and room: "m_credit_count (outVcState ou ! nat vc) < m_max_credit_count (outVcState ou ! nat vc)"
    and free: "free \<Longrightarrow> \<not> held (m_input_unit r) q vc"
  shows "sa_inv now net (r\<lparr>m_output_unit := (m_output_unit r)[nat q :=
    ou\<lparr>outVcState := (outVcState ou)[nat vc := credited now free (outVcState ou ! nat vc)]\<rparr>]\<rparr>)"
proof -
  let ?s = "credited now free (outVcState ou ! nat vc)"
  have u: "units_ok now (sa_num_vcs (switchAllocator r)) (uint (r_virtual_networks (r_cfg r))) (m_input_unit r) (m_output_unit r)"
    using inv by (simp add: sa_inv_def units_inv_def)
  have oi: "ou_inv (uint (r_virtual_networks (r_cfg r))) ou" using sa_inv_ou [OF inv q] by (simp add: ou)
  then have "OutVcState_ok (outVcState ou ! nat vc)" using vc by (simp add: ou_inv_def nat_less_iff)
  then have s: "OutVcState_ok ?s" "0 < m_credit_count ?s"
    using room by (auto simp: OutVcState_ok_def credited_def OutVcState_setState_def Let_def)
  have "units_ok now (sa_num_vcs (switchAllocator r)) (uint (r_virtual_networks (r_cfg r))) (m_input_unit r)
      ((m_output_unit r)[nat q := ou\<lparr>outVcState := (outVcState ou)[nat vc := ?s]\<rparr>])"
  proof (rule units_ok_output [OF u ou_update_state [OF oi vc] q(1)])
    fix iu v
    assume m: "iu \<in> set (m_input_unit r)" "v \<in> set (virtualChannels iu)"
    then have "vc_inv now (m_output_unit r) v" using u by (auto simp: units_ok_def iu_inv_def)
    then show "vc_inv now ((m_output_unit r)[nat q := ou\<lparr>outVcState := (outVcState ou)[nat vc := ?s]\<rparr>]) v"
      using vc_inv_credited [where v = v and q = q and vc = vc and free = free] free m q vc
      unfolding ou held_def by blast
  qed (use s in auto)
  then show ?thesis using inv by (auto simp: sa_inv_def units_inv_def sa_shape_def Let_def)
qed

lemma wake_output_ok:
  assumes inv: "sa_inv now net r" and q: "0 \<le> q" "q < int (length (m_output_unit r))"
    and ou: "ou = m_output_unit r ! nat q" and l: "0 \<le> ou_credit_link ou" "ou_credit_link ou < int (length links)"
    and ok: "credit_ok now (m_input_unit r) ou q (links ! nat (ou_credit_link ou))"
  shows "\<exists>ou' l' ws'. Router_wake_output now q (r, links, ws) =
      Inr (r\<lparr>m_output_unit := (m_output_unit r)[nat q := ou']\<rparr>, links[nat (ou_credit_link ou) := l'], ws') \<and>
    ou_frame ou' = ou_frame ou \<and> sa_inv now net (r\<lparr>m_output_unit := (m_output_unit r)[nat q := ou']\<rparr>)"
proof (cases "NetworkLink_isReady now (links ! nat (ou_credit_link ou))")
  case False
  then show ?thesis using q l ou inv
    by (intro exI [of _ ou] exI [of _ "links ! nat (ou_credit_link ou)"] exI [of _ ws])
      (simp add: Router_wake_output_def OutputUnit_wakeup_def vget_ok vset_ok putOutputUnit_def)
next
  case True
  let ?l = "links ! nat (ou_credit_link ou)"
  obtain c cs where c: "link_items ?l = c # cs" "m_time c \<le> now"
    using True by (auto simp: NetworkLink_isReady_def flitBuffer_isReady_iff link_items_def)
  obtain free where free: "m_is_free_signal c = Some free" using ok c by (auto simp: credit_ok_def Let_def)
  let ?ou = "ou\<lparr>outVcState := (outVcState ou)[nat (m_vc c) := credited now free (outVcState ou ! nat (m_vc c))]\<rparr>"
  have vc: "0 \<le> m_vc c" "m_vc c < int (length (outVcState ou))"
      "m_credit_count (outVcState ou ! nat (m_vc c)) < m_max_credit_count (outVcState ou ! nat (m_vc c))"
      "free \<Longrightarrow> \<not> held (m_input_unit r) q (m_vc c)"
    using ok c free by (auto simp: credit_ok_def Let_def)
  have take: "OutputUnit_take_credit now c ou = Inr ?ou" using vc free by (simp add: OutputUnit_take_credit_eq_Inr)
  have get: "NetworkLink_consumeLink ?l = Inr (c, ?l\<lparr>linkBuffer := (linkBuffer ?l)\<lparr>m_buffer := cs\<rparr>\<rparr>)"
    using c by (simp add: NetworkLink_consumeLink_eq_Inr)
  have "\<exists>ws'. Router_wake_output now q (r, links, ws) =
      Inr (r\<lparr>m_output_unit := (m_output_unit r)[nat q := ?ou]\<rparr>,
        links[nat (ou_credit_link ou) := ?l\<lparr>linkBuffer := (linkBuffer ?l)\<lparr>m_buffer := cs\<rparr>\<rparr>], ws')"
    using True q l take get ou
    by (simp add: Router_wake_output_def OutputUnit_wakeup_def vget_ok vset_ok putOutputUnit_def)
  moreover have "ou_frame ?ou = ou_frame ou" by (simp add: ou_frame_def)
  ultimately show ?thesis using credited_sa_inv [OF inv q ou vc] by blast
qed

lemma vc_inv_admitted:
  assumes v: "vc_inv now ous v"
    and head: "is_head f \<Longrightarrow> fst (vc_state v) = IDLE \<and> 0 \<le> q \<and> q < int (length ous)"
    and body: "\<not> is_head f \<Longrightarrow> fst (vc_state v) = ACTIVE \<and> (\<forall>g\<in>set (VC_items v). \<not> is_tail g)"
  shows "vc_inv now ous (VC_insertFlit (staged t f) (admitted now (is_head f) q v))"
proof (cases "is_head f")
  case True
  then have "VC_items v = []" "m_output_vc v = -1" using v head by (auto simp: vc_inv_def)
  then show ?thesis using True head
    by (simp add: vc_inv_def admitted_def VC_insertFlit_def VC_set_active_def VC_items_def flitBuffer_insert_def)
next
  case False
  then have "fst (vc_state v) = ACTIVE" "\<forall>g\<in>set (VC_items v). \<not> is_tail g" using body by auto
  then show ?thesis using v False
    by (simp add: vc_inv_def admitted_def VC_insertFlit_def VC_items_def flitBuffer_insert_def)
qed

lemma held_update:
  assumes "held (ius[nat i := iu']) q vc" "0 \<le> i" "i < int (length ius)" "0 \<le> vc"
    and "virtualChannels iu' = (virtualChannels (ius ! nat i))[nat w := v']"
    and "fst (vc_state v') = ACTIVE \<Longrightarrow> m_output_vc v' \<noteq> -1 \<Longrightarrow>
      \<exists>v\<in>set (virtualChannels (ius ! nat i)). fst (vc_state v) = ACTIVE \<and> m_output_port v = m_output_port v' \<and> m_output_vc v = m_output_vc v'"
  shows "held ius q vc"
proof -
  have in_ius: "ius ! nat i \<in> set ius" using assms(2,3) by (simp add: nat_less_iff)
  obtain iu v where m: "iu \<in> set (ius[nat i := iu'])" "v \<in> set (virtualChannels iu)"
      "fst (vc_state v) = ACTIVE" "m_output_port v = q" "m_output_vc v = vc"
    using assms(1) by (auto simp: held_def)
  have "iu \<in> set ius \<or> iu = iu'" using m(1) set_update_subset_insert [of ius "nat i" iu'] by auto
  then show ?thesis
  proof
    assume "iu \<in> set ius"
    then show ?thesis using m by (auto simp: held_def)
  next
    assume "iu = iu'"
    then have "v = v' \<or> v \<in> set (virtualChannels (ius ! nat i))"
      using m(2) assms(5) set_update_subset_insert [of "virtualChannels (ius ! nat i)" "nat w" v'] by auto
    then show ?thesis using m assms(4,6) in_ius unfolding held_def by fastforce
  qed
qed

lemma units_ok_input:
  assumes "units_ok now nv vn ius ous" "0 \<le> i" "i < int (length ius)"
    and "virtualChannels iu' = (virtualChannels (ius ! nat i))[nat w := v']" "vc_inv now ous v'"
  shows "units_ok now nv vn (ius[nat i := iu']) ous"
proof -
  have old: "iu_inv now nv ous (ius ! nat i)" using assms(1-3) by (simp add: units_ok_def nat_less_iff)
  then have "iu_inv now nv ous iu'"
    using assms(4,5) set_update_subset_insert [of "virtualChannels (ius ! nat i)" "nat w" v'] by (auto simp: iu_inv_def)
  then show ?thesis using assms(1) set_update_subset_insert [of ius "nat i" iu'] by (auto simp: units_ok_def)
qed

lemma InputUnit_wakeup_stats:
  assumes "InputUnit_wakeup rc cfg p now l iu = Inr (iu', l', ws)"
  shows "length (m_num_buffer_writes iu') = length (m_num_buffer_writes iu) \<and>
    length (m_num_buffer_reads iu') = length (m_num_buffer_reads iu)"
  using assms by (auto simp: InputUnit_wakeup_def rbind_eq_Inr Let_def vmod_eq_Inr split: if_splits)

lemma wake_input_ok:
  assumes inv: "sa_inv now net r" and i: "0 \<le> i" "i < int (length (m_input_unit r))"
    and iu: "iu = m_input_unit r ! nat i" and l: "0 \<le> m_in_link iu" "m_in_link iu < int (length links)"
    and lat: "0 < r_latency (r_cfg r)" and st: "stats_ok iu"
    and ok: "arrival_ok now net rnd r i (links ! nat (m_in_link iu))"
  shows "\<exists>iu' l' ws'. Router_wake_input net rnd p now i (r, links, ws) =
      Inr (r\<lparr>m_input_unit := (m_input_unit r)[nat i := iu']\<rparr>, links[nat (m_in_link iu) := l'], ws') \<and>
    iu_frame iu' = iu_frame iu \<and> sa_inv now net (r\<lparr>m_input_unit := (m_input_unit r)[nat i := iu']\<rparr>) \<and>
    (\<forall>q vc. 0 \<le> vc \<longrightarrow> held ((m_input_unit r)[nat i := iu']) q vc \<longrightarrow> held (m_input_unit r) q vc)"
proof (cases "NetworkLink_isReady now (links ! nat (m_in_link iu))")
  case False
  then show ?thesis using i l iu inv
    by (intro exI [of _ iu] exI [of _ "links ! nat (m_in_link iu)"] exI [of _ ws])
      (simp add: Router_wake_input_def InputUnit_wakeup_def vget_ok vset_ok putInputUnit_def)
next
  case True
  let ?l = "links ! nat (m_in_link iu)" and ?rc = "Router_route_compute net (rnd i) r"
  obtain f fs where f: "link_items ?l = f # fs" "m_time f \<le> now"
    using True by (auto simp: NetworkLink_isReady_def flitBuffer_isReady_iff link_items_def)
  define v where "v = virtualChannels iu ! nat (m_vc f)"
  have a: "m_width f = r_bit_width (r_cfg r)" "0 \<le> m_vc f" "m_vc f < int (length (virtualChannels iu))"
      "fst (vc_state v) = (if is_head f then IDLE else ACTIVE)"
    and body: "\<not> is_head f \<Longrightarrow> \<forall>g\<in>set (VC_items v). \<not> is_tail g"
    and head: "is_head f \<Longrightarrow> \<exists>q. ?rc (m_route (increment_hops f)) (iu_id iu) (iu_direction iu) = Inr q \<and>
      0 \<le> q \<and> q < int (length (m_output_unit r))"
    using ok f by (auto simp: arrival_ok_def Let_def iu v_def split: sum.splits if_splits)
  have "m_vc f < iu_vc_per_vnet iu * int (length (m_num_buffer_writes iu))" using a st by (auto simp: stats_ok_def)
  then have dv: "m_vc f div iu_vc_per_vnet iu < int (length (m_num_buffer_writes iu))"
    using st by (simp add: int_div_less stats_ok_def)
  have "returns (InputUnit_wakeup ?rc (r_cfg r) p now ?l iu)"
    by (rule InputUnit_wakeup_returns [OF f(1) a(1) lat a(2,3)])
      (use a head st dv in \<open>auto simp: returns_iff stats_ok_def v_def\<close>)
  then obtain iu' l' ws1 where w: "InputUnit_wakeup ?rc (r_cfg r) p now ?l iu = Inr (iu', l', ws1)"
    by (auto simp: returns_iff)
  obtain q t where q: "is_head f \<longrightarrow> ?rc (m_route (increment_hops f)) (iu_id iu) (iu_direction iu) = Inr q"
    and vs: "virtualChannels iu' = (virtualChannels iu)[nat (m_vc f) := VC_insertFlit (staged t f) (admitted now (is_head f) q v)]"
    and keep: "iu_id iu' = iu_id iu" "iu_direction iu' = iu_direction iu" "iu_vc_per_vnet iu' = iu_vc_per_vnet iu"
      "m_in_link iu' = m_in_link iu" "iu_credit_link iu' = iu_credit_link iu"
    using InputUnit_wakeupD [OF w True] f(1) by (auto simp: v_def)
  have u: "units_ok now (sa_num_vcs (switchAllocator r)) (uint (r_virtual_networks (r_cfg r))) (m_input_unit r) (m_output_unit r)"
    using inv by (simp add: sa_inv_def units_inv_def)
  have "iu \<in> set (m_input_unit r)" using i by (simp add: iu nat_less_iff)
  moreover have vin: "v \<in> set (virtualChannels iu)" using a by (simp add: v_def nat_less_iff)
  ultimately have vi: "vc_inv now (m_output_unit r) v" using u by (auto simp: units_ok_def iu_inv_def)
  let ?v = "VC_insertFlit (staged t f) (admitted now (is_head f) q v)"
  have "vc_inv now (m_output_unit r) ?v"
    by (rule vc_inv_admitted [OF vi]) (use a q head body in auto)
  then have "sa_inv now net (r\<lparr>m_input_unit := (m_input_unit r)[nat i := iu']\<rparr>)"
    using units_ok_input [OF u i vs [unfolded iu]] inv by (auto simp: sa_inv_def units_inv_def sa_shape_def Let_def)
  moreover have "held (m_input_unit r) p' vc" if "held ((m_input_unit r)[nat i := iu']) p' vc" "0 \<le> vc" for p' vc
  proof (rule held_update [OF that(1) i that(2) vs [unfolded iu]])
    assume "m_output_vc ?v \<noteq> -1"
    then have "\<not> is_head f" using vi a(4) by (auto simp: admitted_def VC_insertFlit_def VC_set_active_def vc_inv_def)
    then show "\<exists>x\<in>set (virtualChannels (m_input_unit r ! nat i)). fst (vc_state x) = ACTIVE \<and>
        m_output_port x = m_output_port ?v \<and> m_output_vc x = m_output_vc ?v"
      using vin a(4) by (auto simp: iu admitted_def VC_insertFlit_def)
  qed
  moreover have "iu_frame iu' = iu_frame iu"
    using keep vs InputUnit_wakeup_stats [OF w] by (simp add: iu_frame_def)
  moreover have "\<exists>ws'. Router_wake_input net rnd p now i (r, links, ws) =
      Inr (r\<lparr>m_input_unit := (m_input_unit r)[nat i := iu']\<rparr>, links[nat (m_in_link iu) := l'], ws')"
    using i l w by (simp add: Router_wake_input_def vget_ok vset_ok putInputUnit_def iu [symmetric])
  ultimately show ?thesis by blast
qed

section \<open>The whole wake-up\<close>

definition in_link_of :: "Router \<Rightarrow> int \<Rightarrow> int" where
  "in_link_of r i = m_in_link (m_input_unit r ! nat i)"

definition credit_link_of :: "Router \<Rightarrow> int \<Rightarrow> int" where
  "credit_link_of r q = ou_credit_link (m_output_unit r ! nat q)"

definition traffic_ok :: "tick \<Rightarrow> net_params \<Rightarrow> (int \<Rightarrow> int) \<Rightarrow> Router \<Rightarrow> NetworkLink list \<Rightarrow> bool" where
  "traffic_ok now net rnd r links =
     ((\<forall>i\<in>set [0..int (length (m_input_unit r)) - 1]. arrival_ok now net rnd r i (links ! nat (in_link_of r i))) \<and>
      (\<forall>q\<in>set [0..int (length (m_output_unit r)) - 1].
         credit_ok now (m_input_unit r) (m_output_unit r ! nat q) q (links ! nat (credit_link_of r q))))"

lemma wired_in:
  assumes "wired r n" "0 \<le> i" "i < int (length (m_input_unit r))"
  shows "0 \<le> in_link_of r i" "in_link_of r i < int n" "stats_ok (m_input_unit r ! nat i)"
  using assms by (auto simp: wired_def in_link_of_def nat_less_iff)

lemma wired_out:
  assumes "wired r n" "0 \<le> q" "q < int (length (m_output_unit r))"
  shows "0 \<le> credit_link_of r q" "credit_link_of r q < int n"
  using assms by (auto simp: wired_def credit_link_of_def nat_less_iff)

lemma distinct_map_nth: "distinct (map g xs) \<Longrightarrow> 0 \<le> i \<Longrightarrow> i < int (length xs) \<Longrightarrow> 0 \<le> j \<Longrightarrow> j < int (length xs) \<Longrightarrow> i \<noteq> j \<Longrightarrow>
    g (xs ! nat i) \<noteq> g (xs ! nat j)"
  by (metis distinct_conv_nth eq_nat_nat_iff length_map nat_less_length nth_map)

lemma wired_in_in:
  assumes "wired r n" "0 \<le> i" "i < int (length (m_input_unit r))" "0 \<le> j" "j < int (length (m_input_unit r))" "i \<noteq> j"
  shows "nat (in_link_of r i) \<noteq> nat (in_link_of r j)"
  using distinct_map_nth [of m_in_link "m_input_unit r" i j] wired_in(1) [OF assms(1)] assms
  by (auto simp: wired_def in_link_of_def eq_nat_nat_iff)

lemma wired_out_out:
  assumes "wired r n" "0 \<le> i" "i < int (length (m_output_unit r))" "0 \<le> j" "j < int (length (m_output_unit r))" "i \<noteq> j"
  shows "nat (credit_link_of r i) \<noteq> nat (credit_link_of r j)"
  using distinct_map_nth [of ou_credit_link "m_output_unit r" i j] wired_out(1) [OF assms(1)] assms
  by (auto simp: wired_def credit_link_of_def eq_nat_nat_iff)

lemma wired_in_out:
  assumes "wired r n" "0 \<le> i" "i < int (length (m_input_unit r))" "0 \<le> q" "q < int (length (m_output_unit r))"
  shows "nat (in_link_of r i) \<noteq> nat (credit_link_of r q)"
proof -
  have "in_link_of r i \<in> set (map m_in_link (m_input_unit r))" "credit_link_of r q \<in> set (map ou_credit_link (m_output_unit r))"
    using assms by (simp_all add: in_link_of_def credit_link_of_def nat_less_iff)
  then have "in_link_of r i \<noteq> credit_link_of r q"
    using assms(1) by (metis IntI distinct_append empty_iff wired_def)
  then show ?thesis using wired_in(1) [OF assms(1-3)] wired_out(1) [OF assms(1,4,5)] by (simp add: eq_nat_nat_iff)
qed

lemma arrival_ok_cong:
  "m_input_unit r' ! nat i = m_input_unit r ! nat i \<Longrightarrow> r_cfg r' = r_cfg r \<Longrightarrow> routingUnit r' = routingUnit r \<Longrightarrow>
   length (m_output_unit r') = length (m_output_unit r) \<Longrightarrow> arrival_ok now net rnd r' i l = arrival_ok now net rnd r i l"
  unfolding arrival_ok_def Router_route_compute_def by (cases "link_items l") (simp_all add: Let_def cong: sum.case_cong)

definition inputs_done :: "tick \<Rightarrow> net_params \<Rightarrow> Router \<Rightarrow> NetworkLink list \<Rightarrow> int \<Rightarrow> Router \<Rightarrow> NetworkLink list \<Rightarrow> bool" where
  "inputs_done now net r links k r' links' =
     ((\<exists>ius'. r' = r\<lparr>m_input_unit := ius'\<rparr>) \<and> sa_inv now net r' \<and> router_frame r' = router_frame r \<and> length links' = length links \<and>
      (\<forall>j. k \<le> j \<and> j < int (length (m_input_unit r)) \<longrightarrow>
         m_input_unit r' ! nat j = m_input_unit r ! nat j \<and> links' ! nat (in_link_of r j) = links ! nat (in_link_of r j)) \<and>
      (\<forall>q. 0 \<le> q \<and> q < int (length (m_output_unit r)) \<longrightarrow> links' ! nat (credit_link_of r q) = links ! nat (credit_link_of r q)) \<and>
      (\<forall>q vc. 0 \<le> vc \<longrightarrow> held (m_input_unit r') q vc \<longrightarrow> held (m_input_unit r) q vc))"

lemma wake_input_step:
  assumes w: "wired r (length links)" and tr: "traffic_ok now net rnd r links"
    and k: "0 \<le> k" "k < int (length (m_input_unit r))" and dn: "inputs_done now net r links k r1 links1"
  shows "\<exists>r2 links2 ws2. Router_wake_input net rnd p now k (r1, links1, ws) = Inr (r2, links2, ws2) \<and>
    inputs_done now net r links (k + 1) r2 links2"
proof -
  obtain ius' where r1: "r1 = r\<lparr>m_input_unit := ius'\<rparr>" and d: "sa_inv now net r1" "router_frame r1 = router_frame r"
      "length links1 = length links"
      "\<And>j. k \<le> j \<Longrightarrow> j < int (length (m_input_unit r)) \<Longrightarrow> m_input_unit r1 ! nat j = m_input_unit r ! nat j \<and>
         links1 ! nat (in_link_of r j) = links ! nat (in_link_of r j)"
      "\<And>q. 0 \<le> q \<Longrightarrow> q < int (length (m_output_unit r)) \<Longrightarrow> links1 ! nat (credit_link_of r q) = links ! nat (credit_link_of r q)"
      "\<And>q vc. 0 \<le> vc \<Longrightarrow> held (m_input_unit r1) q vc \<Longrightarrow> held (m_input_unit r) q vc"
    using dn unfolding inputs_done_def by blast
  have len: "length (m_input_unit r1) = length (m_input_unit r)"
    using arg_cong [OF d(2), of "\<lambda>(_, _, is, _). length is"] by (simp add: router_frame_def)
  let ?iu = "m_input_unit r ! nat k"
  have iu: "m_input_unit r1 ! nat k = ?iu" "links1 ! nat (in_link_of r k) = links ! nat (in_link_of r k)" using d(4) k by auto
  have "arrival_ok now net rnd r k (links ! nat (in_link_of r k))" using tr k by (simp add: traffic_ok_def)
  then have ok: "arrival_ok now net rnd r1 k (links1 ! nat (m_in_link ?iu))"
    using arrival_ok_cong [of r1 k r] iu by (simp add: r1 in_link_of_def)
  note wk = wired_in [OF w k, unfolded in_link_of_def]
  obtain iu' l' ws' where st: "Router_wake_input net rnd p now k (r1, links1, ws) =
        Inr (r1\<lparr>m_input_unit := (m_input_unit r1)[nat k := iu']\<rparr>, links1[nat (m_in_link ?iu) := l'], ws')"
      "iu_frame iu' = iu_frame ?iu" "sa_inv now net (r1\<lparr>m_input_unit := (m_input_unit r1)[nat k := iu']\<rparr>)"
      "\<And>q vc. 0 \<le> vc \<Longrightarrow> held ((m_input_unit r1)[nat k := iu']) q vc \<Longrightarrow> held (m_input_unit r1) q vc"
    using wake_input_ok [OF d(1) k(1) _ iu(1) [symmetric] wk(1) _ _ wk(3) ok, of p ws] k(2) len d(3) wk(2) w
    by (auto simp: r1 wired_def)
  have fr: "router_frame (r1\<lparr>m_input_unit := (m_input_unit r1)[nat k := iu']\<rparr>) = router_frame r"
    using d(2) map_update_same [OF k(1), of "m_input_unit r1" iu_frame iu'] len k(2) iu(1) st(2)
    by (simp add: router_frame_def)
  have "inputs_done now net r links (k + 1) (r1\<lparr>m_input_unit := (m_input_unit r1)[nat k := iu']\<rparr>) (links1[nat (m_in_link ?iu) := l'])"
    unfolding inputs_done_def
  proof (intro conjI allI impI)
    fix j
    assume "k + 1 \<le> j \<and> j < int (length (m_input_unit r))"
    then show "m_input_unit (r1\<lparr>m_input_unit := (m_input_unit r1)[nat k := iu']\<rparr>) ! nat j = m_input_unit r ! nat j"
        "links1[nat (m_in_link ?iu) := l'] ! nat (in_link_of r j) = links ! nat (in_link_of r j)"
      using d(4) [of j] k wired_in_in [OF w k, of j] by (auto simp: in_link_of_def)
  next
    fix q
    assume "0 \<le> q \<and> q < int (length (m_output_unit r))"
    then show "links1[nat (m_in_link ?iu) := l'] ! nat (credit_link_of r q) = links ! nat (credit_link_of r q)"
      using d(5) [of q] wired_in_out [OF w k, of q] by (auto simp: in_link_of_def)
  next
    fix q vc
    assume "0 \<le> vc" "held (m_input_unit (r1\<lparr>m_input_unit := (m_input_unit r1)[nat k := iu']\<rparr>)) q vc"
    then show "held (m_input_unit r) q vc" using st(4) [of vc q] d(6) [of vc q] by simp
  next
    show "\<exists>ius'. r1\<lparr>m_input_unit := (m_input_unit r1)[nat k := iu']\<rparr> = r\<lparr>m_input_unit := ius'\<rparr>" by (auto simp: r1)
  qed (use st(3) fr d(3) in simp_all)
  then show ?thesis using st(1) by blast
qed

definition outputs_done :: "tick \<Rightarrow> net_params \<Rightarrow> Router \<Rightarrow> NetworkLink list \<Rightarrow> int \<Rightarrow> Router \<Rightarrow> NetworkLink list \<Rightarrow> bool" where
  "outputs_done now net r links k r' links' =
     ((\<exists>ous'. r' = r\<lparr>m_output_unit := ous'\<rparr>) \<and> sa_inv now net r' \<and> router_frame r' = router_frame r \<and> length links' = length links \<and>
      (\<forall>j. k \<le> j \<and> j < int (length (m_output_unit r)) \<longrightarrow>
         m_output_unit r' ! nat j = m_output_unit r ! nat j \<and> links' ! nat (credit_link_of r j) = links ! nat (credit_link_of r j)))"

lemma wake_output_step:
  assumes w: "wired r (length links)" and k: "0 \<le> k" "k < int (length (m_output_unit r))"
    and tr: "credit_ok now (m_input_unit r) (m_output_unit r ! nat k) k (links ! nat (credit_link_of r k))"
    and dn: "outputs_done now net r links k r1 links1"
  shows "\<exists>r2 links2 ws2. Router_wake_output now k (r1, links1, ws) = Inr (r2, links2, ws2) \<and>
    outputs_done now net r links (k + 1) r2 links2"
proof -
  obtain ous' where r1: "r1 = r\<lparr>m_output_unit := ous'\<rparr>" and d: "sa_inv now net r1" "router_frame r1 = router_frame r"
      "length links1 = length links"
      "\<And>j. k \<le> j \<Longrightarrow> j < int (length (m_output_unit r)) \<Longrightarrow> m_output_unit r1 ! nat j = m_output_unit r ! nat j \<and>
         links1 ! nat (credit_link_of r j) = links ! nat (credit_link_of r j)"
    using dn unfolding outputs_done_def by blast
  have len: "length (m_output_unit r1) = length (m_output_unit r)"
    using arg_cong [OF d(2), of "\<lambda>(_, _, _, os). length os"] by (simp add: router_frame_def)
  let ?ou = "m_output_unit r ! nat k"
  have ou: "m_output_unit r1 ! nat k = ?ou" "links1 ! nat (credit_link_of r k) = links ! nat (credit_link_of r k)" using d(4) k by auto
  have ok: "credit_ok now (m_input_unit r1) ?ou k (links1 ! nat (ou_credit_link ?ou))"
    using tr ou(2) by (simp add: r1 credit_link_of_def)
  note wk = wired_out [OF w k, unfolded credit_link_of_def]
  obtain ou' l' ws' where st: "Router_wake_output now k (r1, links1, ws) =
        Inr (r1\<lparr>m_output_unit := (m_output_unit r1)[nat k := ou']\<rparr>, links1[nat (ou_credit_link ?ou) := l'], ws')"
      "ou_frame ou' = ou_frame ?ou" "sa_inv now net (r1\<lparr>m_output_unit := (m_output_unit r1)[nat k := ou']\<rparr>)"
    using wake_output_ok [OF d(1) k(1) _ ou(1) [symmetric] wk(1) _ ok, of ws] k(2) len d(3) wk(2) by auto
  have fr: "router_frame (r1\<lparr>m_output_unit := (m_output_unit r1)[nat k := ou']\<rparr>) = router_frame r"
    using d(2) map_update_same [OF k(1), of "m_output_unit r1" ou_frame ou'] len k(2) ou(1) st(2)
    by (simp add: router_frame_def)
  have "outputs_done now net r links (k + 1) (r1\<lparr>m_output_unit := (m_output_unit r1)[nat k := ou']\<rparr>) (links1[nat (ou_credit_link ?ou) := l'])"
    unfolding outputs_done_def
  proof (intro conjI allI impI)
    fix j
    assume "k + 1 \<le> j \<and> j < int (length (m_output_unit r))"
    then show "m_output_unit (r1\<lparr>m_output_unit := (m_output_unit r1)[nat k := ou']\<rparr>) ! nat j = m_output_unit r ! nat j"
        "links1[nat (ou_credit_link ?ou) := l'] ! nat (credit_link_of r j) = links ! nat (credit_link_of r j)"
      using d(4) [of j] k wired_out_out [OF w k, of j] by (auto simp: credit_link_of_def)
  next
    show "\<exists>ous'. r1\<lparr>m_output_unit := (m_output_unit r1)[nat k := ou']\<rparr> = r\<lparr>m_output_unit := ous'\<rparr>" by (auto simp: r1)
  qed (use st(3) fr d(3) in simp_all)
  then show ?thesis using st(1) by blast
qed

lemma inputs_ok:
  assumes "sa_inv now net r" "wired r (length links)" "traffic_ok now net rnd r links"
  shows "\<exists>r1 links1 ws1. rfold (Router_wake_input net rnd p now) [0..int (length (m_input_unit r)) - 1] (r, links, ws) =
      Inr (r1, links1, ws1) \<and> inputs_done now net r links (int (length (m_input_unit r))) r1 links1"
proof -
  let ?I = "\<lambda>k (r1, links1, _). inputs_done now net r links k r1 links1"
  have "\<exists>t. rfold (Router_wake_input net rnd p now) [0..int (length (m_input_unit r)) - 1] (r, links, ws) = Inr t \<and>
      ?I (int (length (m_input_unit r))) t"
  proof (rule rfold_upto)
    show "?I 0 (r, links, ws)" using assms(1) by (auto simp: inputs_done_def intro: exI [of _ "m_input_unit r"])
    show "\<exists>s'. Router_wake_input net rnd p now k s = Inr s' \<and> ?I (k + 1) s'"
      if "0 \<le> k" "k < int (length (m_input_unit r))" "?I k s" for k s
      using wake_input_step [OF assms(2,3) that(1,2), of "fst s" "fst (snd s)" p "snd (snd s)"] that(3)
      by (cases s) auto
  qed simp
  then show ?thesis by auto
qed

lemma outputs_ok:
  assumes "sa_inv now net r" "wired r (length links)"
    and "\<And>q. 0 \<le> q \<Longrightarrow> q < int (length (m_output_unit r)) \<Longrightarrow>
      credit_ok now (m_input_unit r) (m_output_unit r ! nat q) q (links ! nat (credit_link_of r q))"
  shows "\<exists>r1 links1 ws1. rfold (Router_wake_output now) [0..int (length (m_output_unit r)) - 1] (r, links, ws) =
      Inr (r1, links1, ws1) \<and> outputs_done now net r links (int (length (m_output_unit r))) r1 links1"
proof -
  let ?I = "\<lambda>k (r1, links1, _). outputs_done now net r links k r1 links1"
  have "\<exists>t. rfold (Router_wake_output now) [0..int (length (m_output_unit r)) - 1] (r, links, ws) = Inr t \<and>
      ?I (int (length (m_output_unit r))) t"
  proof (rule rfold_upto)
    show "?I 0 (r, links, ws)" using assms(1) by (auto simp: outputs_done_def intro: exI [of _ "m_output_unit r"])
    show "\<exists>s'. Router_wake_output now k s = Inr s' \<and> ?I (k + 1) s'"
      if "0 \<le> k" "k < int (length (m_output_unit r))" "?I k s" for k s
      using wake_output_step [OF assms(2) that(1,2) assms(3) [OF that(1,2)], of net "fst s" "fst (snd s)" "snd (snd s)"] that(3)
      by (cases s) auto
  qed simp
  then show ?thesis by auto
qed

lemma credit_ok_mono:
  assumes "credit_ok now ius ou q l" "\<And>vc. 0 \<le> vc \<Longrightarrow> held ius' q vc \<Longrightarrow> held ius q vc"
  shows "credit_ok now ius' ou q l"
  using assms by (cases "link_items l") (auto simp: credit_ok_def Let_def)

lemma Router_wakeup_ok:
  assumes inv: "router_inv now net r" and w: "wired r (length links)" and tr: "traffic_ok now net rnd r links"
    and t: "edge_at p now 0 = now" "now \<le> edge_at p now 1"
  shows "\<exists>r' links' ws. Router_wakeup net sched rnd p now (r, links) = Inr (r', links', ws) \<and>
    router_inv now net r' \<and> router_frame r' = router_frame r \<and> length links' = length links"
proof -
  have sa: "sa_inv now net r" and idle: "idle_switch r" using inv by (auto simp: router_inv_def)
  obtain r1 links1 ws1 where a: "rfold (Router_wake_input net rnd p now) [0..int (length (m_input_unit r)) - 1] (r, links, []) =
      Inr (r1, links1, ws1)" "inputs_done now net r links (int (length (m_input_unit r))) r1 links1"
    using inputs_ok [OF sa w tr] by blast
  obtain ius' where r1: "r1 = r\<lparr>m_input_unit := ius'\<rparr>" using a(2) by (auto simp: inputs_done_def)
  have d1: "sa_inv now net r1" "router_frame r1 = router_frame r" "length links1 = length links"
    using a(2) by (auto simp: inputs_done_def)
  have cr: "credit_ok now (m_input_unit r1) (m_output_unit r1 ! nat q) q (links1 ! nat (credit_link_of r1 q))"
    if "0 \<le> q" "q < int (length (m_output_unit r1))" for q
    using credit_ok_mono [of now "m_input_unit r" "m_output_unit r ! nat q" q "links ! nat (credit_link_of r q)" "m_input_unit r1"]
      tr that a(2) by (auto simp: traffic_ok_def inputs_done_def r1 credit_link_of_def)
  obtain r2 links2 ws2 where b: "rfold (Router_wake_output now) [0..int (length (m_output_unit r1)) - 1] (r1, links1, ws1) =
      Inr (r2, links2, ws2)" "outputs_done now net r1 links1 (int (length (m_output_unit r1))) r2 links2"
    using outputs_ok [OF d1(1) _ cr] w wired_frame [OF d1(2)] d1(3) by (metis (no_types, lifting))
  obtain ous' where r2: "r2 = r1\<lparr>m_output_unit := ous'\<rparr>" using b(2) by (auto simp: outputs_done_def)
  have d2: "sa_inv now net r2" "router_frame r2 = router_frame r" "length links2 = length links"
    using b(2) d1 by (auto simp: outputs_done_def)
  have "router_inv now net r2" using d2(1) idle by (simp add: router_inv_def r2 r1 idle_switch_def)
  from SwitchAllocator_wakeup_ok [OF this t(2)] obtain r3 ws3 where
      c: "SwitchAllocator_wakeup sched p now net (r2, ws2) = Inr (r3, ws3)" "sa_inv now net r3"
        "switch_inv now (int (length (m_output_unit r3))) r3" "\<forall>q\<in>set (m_port_requests (switchAllocator r3)). q = -1"
    by blast
  from CrossbarSwitch_wakeup_ok [OF c(2,4,3)] obtain r4 ws4 where
      e: "CrossbarSwitch_wakeup p now (r3, ws3) = Inr (r4, ws4)" "router_inv now net r4" by blast
  have "Router_wakeup net sched rnd p now (r, links) = Inr (r4, links2, ws4)"
    using t(1) a(1) b(1) c(1) e(1) by (simp add: Router_wakeup_def)
  moreover have "router_frame r4 = router_frame r"
    using SwitchAllocator_wakeup_frame [OF c(1)] CrossbarSwitch_wakeup_frame [OF e(1)] d2(2) by simp
  ultimately show ?thesis using e(2) d2(3) by blast
qed

text \<open>The invariant does not depend on the time that passes between two wake-ups.\<close>

lemma vc_inv_later: "vc_inv now ous v \<Longrightarrow> now \<le> later \<Longrightarrow> vc_inv later ous v"
  by (auto simp: vc_inv_def ovc_active_def OutVcState_isInState_def split: if_splits)

lemma router_inv_later:
  assumes "router_inv now net r" "now \<le> later"
  shows "router_inv later net r"
proof -
  have "units_inv later r"
    using assms(1) by (auto simp: router_inv_def sa_inv_def units_inv_def units_ok_def iu_inv_def
        intro: vc_inv_later [OF _ assms(2)])
  then show ?thesis using assms(1) by (simp add: router_inv_def sa_inv_def)
qed

end
