(* ===== verification/Garnet_Router_Props.thy ===== *)
theory Garnet_Router_Props
  imports Garnet_Router_Step
begin

text \<open>
  The properties of the router: a freshly assembled router satisfies the invariant of
  \<open>Garnet_Router_Safe\<close>, a wake-up keeps it and never aborts, no flit is lost or invented, and the
  allocation is a matching of input and output ports. The witnesses use a small router assembled by
  the model's own constructors.
\<close>

section \<open>Assembling a router\<close>

text \<open>
  The calls with which the network attaches links to a router before \<open>Router::init\<close>: an input
  port with its direction, input link and credit link, or an output port with its direction,
  output link, routing entry, weight, credit link and the virtual channels of its consumer.
\<close>

datatype port_call =
    InPort PortDirection int int
  | OutPort PortDirection int "net_dest list" int int u32

fun add_port :: "net_params \<Rightarrow> port_call \<Rightarrow> Router \<times> NetworkLink list \<Rightarrow> (Router \<times> NetworkLink list) res" where
  "add_port net (InPort d l c) rl = Router_addInPort d l c rl"
| "add_port net (OutPort d l e w c n) rl = Router_addOutPort net d l e w c n rl"

definition build_router :: "net_params \<Rightarrow> port_call list \<Rightarrow> Router \<times> NetworkLink list \<Rightarrow> (Router \<times> NetworkLink list) res" where
  "build_router net calls rl = rbind (rfold (add_port net) calls rl) (\<lambda>(r, links). Inr (Router_init r, links))"

lemma uint_mult_small: "uint a * uint b < 2 ^ 31 \<Longrightarrow> uint (a * b) = uint a * uint b" for a b :: u32
  by (simp add: uint_word_arith_bintrs(3) take_bit_int_eq_self)

lemma sint_small: "uint a < 2 ^ 31 \<Longrightarrow> sint a = uint a" for a :: u32
  using order_trans [of "- 2147483648" 0 "uint a"] by (simp add: sint_uint signed_take_bit_int_eq_self_iff)

lemma uint_factor_small: "uint a * uint b < 2 ^ 31 \<Longrightarrow> 0 < b \<Longrightarrow> uint a < 2 ^ 31" for a b :: u32
proof -
  assume a: "uint a * uint b < 2 ^ 31" "0 < b"
  have "1 \<le> uint b" using a(2) by (simp add: word_less_def)
  then have "uint a * 1 \<le> uint a * uint b" by (intro mult_left_mono) auto
  then show ?thesis using a(1) by simp
qed

definition fresh_input :: "router_cfg \<Rightarrow> InputUnit \<Rightarrow> bool" where
  "fresh_input cfg iu =
     (virtualChannels iu = replicate (nat (sint (r_num_vcs cfg))) VirtualChannel_new \<and> stats_ok iu)"

lemma InputUnit_new_fresh:
  assumes "InputUnit_new cfg i d l c = Inr iu" "0 < sint (r_vc_per_vnet cfg)"
    and "sint (r_num_vcs cfg) = k * sint (r_vc_per_vnet cfg)" "0 \<le> k"
  shows "fresh_input cfg iu"
  using assms by (auto simp: InputUnit_new_def Let_def rbind_eq_Inr cdiv_nonneg fresh_input_def stats_ok_def mult.commute)

lemma OutputUnit_new_inv:
  assumes new: "OutputUnit_new net cfg i d n l c = Inr ou"
    and small: "uint n * uint (r_virtual_networks cfg) < 2 ^ 31" "0 < r_virtual_networks cfg"
  shows "ou_inv (uint (r_virtual_networks cfg)) ou"
proof -
  let ?m = "n * r_virtual_networks cfg"
  obtain states where st: "map_res (OutVcState_new net n) [0..sint ?m - 1] = Inr states"
      "outVcState ou = states" "ou_vc_per_vnet ou = sint n"
    using new by (auto simp: OutputUnit_new_def rbind_eq_Inr)
  have m: "sint ?m = uint n * uint (r_virtual_networks cfg)" "sint n = uint n"
    using uint_mult_small [OF small(1)] small sint_small [of ?m] sint_small [OF uint_factor_small [OF small]] by simp_all
  have l2: "list_all2 (\<lambda>x y. OutVcState_new net n x = Inr y) [0..sint ?m - 1] states" using st(1) by (simp add: map_res_eq_Inr)
  have "length states = nat (sint ?m)" using list_all2_lengthD [OF l2] by simp
  moreover have "OutVcState_ok s \<and> 0 < m_credit_count s" if s: "s \<in> set states" for s
  proof -
    obtain k where "k < length states" "s = states ! k" using s by (auto simp: in_set_conv_nth)
    then have "OutVcState_ok s \<and> ov_state s = IDLE \<and> m_credit_count s = m_max_credit_count s"
      using list_all2_nthD2 [OF l2] OutVcState_new_ok by blast
    then show ?thesis by (simp add: OutVcState_ok_def)
  qed
  ultimately show ?thesis using st m by (simp add: ou_inv_def mult.commute)
qed

definition assembled :: "router_cfg \<Rightarrow> Router \<Rightarrow> bool" where
  "assembled cfg r =
     (r_cfg r = cfg \<and> switchAllocator r = SwitchAllocator_new cfg \<and> crossbarSwitch r = CrossbarSwitch_new \<and>
      (\<forall>iu\<in>set (m_input_unit r). fresh_input cfg iu) \<and>
      (\<forall>ou\<in>set (m_output_unit r). ou_inv (uint (r_virtual_networks cfg)) ou))"

fun call_small :: "u32 \<Rightarrow> port_call \<Rightarrow> bool" where
  "call_small vn (InPort d l c) = True"
| "call_small vn (OutPort d l e w c n) = (uint n * uint vn < 2 ^ 31)"

lemma add_port_assembled:
  assumes "add_port net call (r, links) = Inr (r', links')" "assembled cfg r"
    and "call_small (r_virtual_networks cfg) call" "0 < r_virtual_networks cfg"
    and "0 < sint (r_vc_per_vnet cfg)" "sint (r_num_vcs cfg) = uint (r_virtual_networks cfg) * sint (r_vc_per_vnet cfg)"
  shows "assembled cfg r'"
proof (cases call)
  case (InPort d l c)
  then obtain iu ru where "InputUnit_new cfg (int (length (m_input_unit r))) d l c = Inr iu"
      "r' = r\<lparr>m_input_unit := m_input_unit r @ [iu], routingUnit := ru\<rparr>"
    using assms(1,2) by (auto simp: Router_addInPort_def rbind_eq_Inr Let_def assembled_def)
  then show ?thesis using assms(2,5,6) InputUnit_new_fresh by (auto simp: assembled_def)
next
  case (OutPort d l e w c n)
  then obtain ou ru where "OutputUnit_new net cfg (int (length (m_output_unit r))) d n l c = Inr ou"
      "r' = r\<lparr>m_output_unit := m_output_unit r @ [ou], routingUnit := ru\<rparr>"
    using assms(1,2) by (auto simp: Router_addOutPort_def rbind_eq_Inr Let_def assembled_def)
  then show ?thesis using assms(2-4) OutputUnit_new_inv OutPort by (auto simp: assembled_def)
qed

lemma assembled_inv:
  assumes a: "assembled cfg r" and vn: "0 < r_virtual_networks cfg" "uint (r_virtual_networks cfg) \<le> int (length (m_ordered net))"
    and vc: "0 < sint (r_vc_per_vnet cfg)" "sint (r_num_vcs cfg) = uint (r_virtual_networks cfg) * sint (r_vc_per_vnet cfg)"
  shows "router_inv now net (Router_init r)"
proof -
  have pos: "0 < uint (r_virtual_networks cfg)" using vn(1) by (simp add: word_less_def)
  then have nv: "0 < sint (r_num_vcs cfg)" using vc by simp
  have "units_inv now (Router_init r)"
    using a nv by (auto simp: units_inv_def units_ok_def iu_inv_def assembled_def fresh_input_def Router_init_def
        SwitchAllocator_init_def SwitchAllocator_new_def CrossbarSwitch_init_def Let_def vc_inv_def VirtualChannel_new_def VC_items_def
        flitBuffer_new_def)
  moreover have "sa_shape net (Router_init r)"
    using a pos nv vn(2) vc by (auto simp: sa_shape_def assembled_def Router_init_def SwitchAllocator_init_def SwitchAllocator_new_def
        CrossbarSwitch_init_def CrossbarSwitch_new_def Let_def)
  moreover have "idle_switch (Router_init r)"
    using a by (auto simp: idle_switch_def assembled_def Router_init_def SwitchAllocator_init_def CrossbarSwitch_init_def
        CrossbarSwitch_new_def Let_def vresize_replicate flitBuffer_new_def)
  ultimately show ?thesis by (simp add: router_inv_def sa_inv_def)
qed

lemma build_router_inv:
  assumes b: "build_router net calls (Router_new i lat vn vpv width, links) = Inr (r, links')"
    and vn: "0 < vn" "uint vn \<le> int (length (m_ordered net))" and vpv: "0 < vpv" "uint vn * uint vpv < 2 ^ 31"
    and calls: "\<forall>c\<in>set calls. call_small vn c"
  shows "router_inv now net r"
proof -
  define cfg where "cfg = r_cfg (Router_new i lat vn vpv width)"
  have cfg: "r_virtual_networks cfg = vn" "r_vc_per_vnet cfg = vpv" "r_num_vcs cfg = vn * vpv"
    by (simp_all add: cfg_def Router_new_def Let_def)
  have m: "sint (vn * vpv) = uint vn * uint vpv" "sint vpv = uint vpv"
    using uint_mult_small [OF vpv(2)] vpv(2) sint_small [of "vn * vpv"] sint_small [OF uint_factor_small [of vpv vn]] vn(1)
    by (simp_all add: mult.commute)
  have vc: "0 < sint (r_vc_per_vnet cfg)" "sint (r_num_vcs cfg) = uint (r_virtual_networks cfg) * sint (r_vc_per_vnet cfg)"
    using m vpv(1) by (simp_all add: cfg word_less_def)
  obtain r0 where r0: "rfold (add_port net) calls (Router_new i lat vn vpv width, links) = Inr (r0, links')" "r = Router_init r0"
    using b by (auto simp: build_router_def rbind_eq_Inr)
  have "assembled cfg (fst (r0, links'))"
  proof (rule rfold_inv [OF r0(1), where I = "\<lambda>rl. assembled cfg (fst rl)"])
    show "assembled cfg (fst (Router_new i lat vn vpv width, links))"
      by (simp add: assembled_def cfg_def Router_new_def Let_def)
    show "assembled cfg (fst s')" if "x \<in> set calls" "assembled cfg (fst s)" "add_port net x s = Inr s'" for x s s'
      using that calls add_port_assembled [of net x "fst s" "snd s" "fst s'" "snd s'" cfg] vn(1) vc by (simp add: cfg)
  qed
  then show ?thesis using assembled_inv [of cfg r0 net now] vn vc r0(2) by (simp add: cfg)
qed

definition demo_net :: net_params where
  "demo_net = mesh_2x3\<lparr>m_routing_algorithm := 0\<rparr>"

definition demo_flit :: "int \<Rightarrow> int \<Rightarrow> tick \<Rightarrow> flit" where
  "demo_flit pid vc t =
     flit_new pid 0 vc vc ((RouteInfo_new demo_dest)\<lparr>ri_vnet := vc, dest_router := 5\<rparr>) 1 None 128 128 t"

definition demo_link :: "int \<Rightarrow> flit list \<Rightarrow> NetworkLink" where
  "demo_link i fs = (NetworkLink_new i 1 2 [] 128)\<lparr>linkBuffer := flitBuffer_new\<lparr>m_buffer := fs\<rparr>\<rparr>"

definition demo_router :: "(Router \<times> NetworkLink list) res" where
  "demo_router = build_router demo_net
     [InPort ''Local'' 0 1, OutPort ''East'' 2 [demo_dest, demo_dest] 1 3 1, InPort ''West'' 4 5]
     (Router_new 0 1 2 1 128,
      [demo_link 0 [demo_flit 7 0 10], demo_link 1 [], demo_link 2 [], demo_link 3 [],
       demo_link 4 [demo_flit 8 0 10, demo_flit 9 1 10], demo_link 5 []])"

definition demo_busy :: Router where
  "demo_busy =
     (case rbind demo_router (\<lambda>(r, links). rfold (Router_wake_input demo_net (\<lambda>_. 0) 2 10) [0..1] (r, links, [])) of
        Inr (r, _, _) \<Rightarrow> r | Inl _ \<Rightarrow> Router_new 0 1 2 1 128)"

lemma demo_router_ok:
  "case demo_router of
     Inr (r, links) \<Rightarrow> router_inv 10 demo_net r \<and> wired r (length links) \<and> traffic_ok 10 demo_net (\<lambda>_. 0) r links
   | Inl _ \<Rightarrow> False"
  by code_simp

section \<open>Properties\<close>

text \<open>
  C3. A router never fails. From a router that satisfies its invariant, at a clock edge, with links
  of its own that carry flits and credits in accord with the flow control, \<open>Router::wakeup\<close>
  returns: no assertion, no index and no \<open>fatal\<close> of the input units, the routing, the output
  units, the two stages of the switch allocator or the crossbar is hit. The router satisfies the
  invariant again, then and at every later time, its crossbar is empty (whatever wins the allocation
  leaves in the same cycle), and its ports are wired as before.
\<close>

theorem router_wakeup_never_fails:
  assumes "router_inv now net r" "wired r (length links)" "traffic_ok now net rnd r links"
    and "edge_at p now 0 = now" "now \<le> edge_at p now 1"
  shows "\<exists>r' links' ws. Router_wakeup net sched rnd p now (r, links) = Inr (r', links', ws) \<and>
    (\<forall>later. now \<le> later \<longrightarrow> router_inv later net r') \<and> wired r' (length links') \<and>
    (\<forall>b\<in>set (switchBuffers (crossbarSwitch r')). m_buffer b = [])"
proof -
  obtain r' links' ws where w: "Router_wakeup net sched rnd p now (r, links) = Inr (r', links', ws)" "router_inv now net r'"
      "router_frame r' = router_frame r" "length links' = length links"
    using Router_wakeup_ok [OF assms] by blast
  moreover have "wired r' (length links')" using wired_frame [OF w(3)] w(4) assms(2) by simp
  moreover have "\<forall>b\<in>set (switchBuffers (crossbarSwitch r')). m_buffer b = []"
    using w(2) by (simp add: router_inv_def idle_switch_def)
  ultimately show ?thesis using router_inv_later [OF w(2)] by blast
qed

theorem router_wakeup_never_fails_witness:
  "\<exists>r links r' links' ws. demo_router = Inr (r, links) \<and>
    Router_wakeup demo_net (\<lambda>_. False) (\<lambda>_. 0) 2 10 (r, links) = Inr (r', links', ws) \<and> router_inv 12 demo_net r'"
proof -
  obtain r links where d: "demo_router = Inr (r, links)" "router_inv 10 demo_net r" "wired r (length links)"
      "traffic_ok 10 demo_net (\<lambda>_. 0) r links"
    using demo_router_ok by (auto split: sum.splits)
  have "edge_at 2 10 0 = 10" "(10::tick) \<le> edge_at 2 10 1" by (simp_all add: edge_at_def cycle_at_def)
  from router_wakeup_never_fails [OF d(2-4) this, of "\<lambda>_. False"] d(1) show ?thesis by fastforce
qed

text \<open>
  C5. A router loses no flit and invents none. Whenever \<open>Router::wakeup\<close> returns, the flits on its
  links, in its virtual channels, in its crossbar and in its output buffers are the same as before
  (as a multiset of packet and flit numbers and virtual networks), only moved.
\<close>

theorem router_conserves_flits:
  assumes "Router_wakeup net sched rnd p now (r, links) = Inr (r', links', ws)"
  shows "router_keys r' + links_keys links' = router_keys r + links_keys links"
  by (rule Router_wakeup_keys [OF assms])

theorem router_conserves_flits_witness:
  "\<exists>r links r' links' ws. demo_router = Inr (r, links) \<and>
    Router_wakeup demo_net (\<lambda>_. False) (\<lambda>_. 0) 2 10 (r, links) = Inr (r', links', ws) \<and>
    router_keys r' + links_keys links' = router_keys r + links_keys links"
proof -
  have "case rbind demo_router (Router_wakeup demo_net (\<lambda>_. False) (\<lambda>_. 0) 2 10) of Inr _ \<Rightarrow> True | Inl _ \<Rightarrow> False"
    by code_simp
  then obtain r links r' links' ws where "demo_router = Inr (r, links)"
      "Router_wakeup demo_net (\<lambda>_. False) (\<lambda>_. 0) 2 10 (r, links) = Inr (r', links', ws)"
    by (auto simp: rbind_eq_Inr split: sum.splits)
  then show ?thesis using router_conserves_flits by blast
qed

text \<open>
  C14. The invariant is established. A router constructed and attached to its links by any sequence
  of \<open>addInPort\<close> and \<open>addOutPort\<close> calls and then initialised satisfies the invariant, provided
  that the numbers of virtual channels fit an \<open>int\<close>.
\<close>

theorem assembled_router_satisfies_invariant:
  assumes "build_router net calls (Router_new i lat vn vpv width, links) = Inr (r, links')"
    and "0 < vn" "uint vn \<le> int (length (m_ordered net))" "0 < vpv" "uint vn * uint vpv < 2 ^ 31"
    and "\<forall>c\<in>set calls. call_small vn c"
  shows "router_inv now net r"
  by (rule build_router_inv [OF assms])

theorem assembled_router_satisfies_invariant_witness:
  "\<exists>r links. demo_router = Inr (r, links) \<and> router_inv 0 demo_net r"
proof -
  obtain r links where "demo_router = Inr (r, links)" using demo_router_ok by (auto split: sum.splits)
  then show ?thesis
    using assembled_router_satisfies_invariant [of demo_net _ 0 1 2 1 128 _ r links 0]
    unfolding demo_router_def by (auto simp: demo_net_def mesh_2x3_def)
qed

text \<open>
  C9. The switch allocation is a matching. After the two stages of \<open>SwitchAllocator::wakeup\<close>, which
  returns, at most one flit of each input port has been granted the switch, no two granted flits
  have the same output port, each of them names a port of the router, and no request is left over.
\<close>

theorem allocation_is_matching:
  assumes "router_inv now net r" "now \<le> edge_at p now 1"
  shows "\<exists>r' ws'. SwitchAllocator_wakeup sched p now net (r, ws) = Inr (r', ws') \<and>
    (\<forall>j. 0 \<le> j \<and> j < int (length (m_input_unit r')) \<longrightarrow> length (switched r' j) \<le> 1 \<and>
      (\<forall>f\<in>set (switched r' j). \<exists>q. m_outport f = Some q \<and> 0 \<le> q \<and> q < int (length (m_output_unit r')))) \<and>
    (\<forall>j k f g. 0 \<le> j \<and> j < int (length (m_input_unit r')) \<and> 0 \<le> k \<and> k < int (length (m_input_unit r')) \<and> j \<noteq> k \<and>
      f \<in> set (switched r' j) \<and> g \<in> set (switched r' k) \<longrightarrow> m_outport f \<noteq> m_outport g) \<and>
    (\<forall>q\<in>set (m_port_requests (switchAllocator r')). q = -1)"
proof -
  obtain r' ws' where w: "SwitchAllocator_wakeup sched p now net (r, ws) = Inr (r', ws')"
      "switch_inv now (int (length (m_output_unit r'))) r'" "\<forall>q\<in>set (m_port_requests (switchAllocator r')). q = -1"
    using SwitchAllocator_wakeup_ok [OF assms] by blast
  have "length (switched r' j) \<le> 1 \<and> (\<forall>f\<in>set (switched r' j). \<exists>q. m_outport f = Some q \<and> 0 \<le> q \<and> q < int (length (m_output_unit r')))"
    if "0 \<le> j \<and> j < int (length (m_input_unit r'))" for j
  proof -
    have "switch_flit_ok now (int (length (m_output_unit r'))) r' j" using w(2) that by (simp add: switch_inv_def)
    then show ?thesis by (auto simp: switch_flit_ok_def)
  qed
  then show ?thesis using w unfolding switch_inv_def by blast
qed

theorem allocation_is_matching_witness:
  "\<exists>r' ws'. SwitchAllocator_wakeup (\<lambda>_. False) 2 10 demo_net (demo_busy, []) = Inr (r', ws') \<and>
    length (switched r' 0) \<le> 1 \<and> length (switched r' 1) \<le> 1"
proof -
  have "router_inv 10 demo_net demo_busy" by code_simp
  moreover have "(10::tick) \<le> edge_at 2 10 1" by (simp add: edge_at_def cycle_at_def)
  ultimately obtain r' ws' where w: "SwitchAllocator_wakeup (\<lambda>_. False) 2 10 demo_net (demo_busy, []) = Inr (r', ws')"
      "\<And>j. 0 \<le> j \<and> j < int (length (m_input_unit r')) \<Longrightarrow> length (switched r' j) \<le> 1"
    using allocation_is_matching [of 10 demo_net demo_busy 2 "\<lambda>_. False" "[]"] by blast
  have "length (m_input_unit r') = length (m_input_unit demo_busy)"
    using arg_cong [OF SwitchAllocator_wakeup_frame [OF w(1)], of "\<lambda>(_, _, is, _). length is"] by (simp add: router_frame_def)
  moreover have "length (m_input_unit demo_busy) = 2" by code_simp
  ultimately show ?thesis using w(1) w(2) [of 0] w(2) [of 1] by auto
qed

end
