(* ===== verification/Garnet_Topology.thy ===== *)
theory Garnet_Topology
  imports Garnet_RoutingUnit
begin

text \<open>
  The topology of a network: Topology.hh/cc. From the external and internal links of the
  configuration it builds, per virtual network, a matrix of link weights, computes all shortest
  distances by relaxation until nothing changes, and asks the network to make each link with the
  set of destinations for which it lies on a shortest path: the routing tables.

  Switch numbers \<open>0 ..< n\<close> are the injecting ends of the \<open>n\<close> nodes, \<open>n ..< 2 * n\<close> their receiving
  ends, and from \<open>2 * n\<close> on the routers. A missing link has the weight \<open>INFINITE_LATENCY\<close>. The
  relaxation loop is a \<open>partial_function\<close>; \<open>None\<close> would mean that it runs forever, and it is proved
  to return. The calls back into the network are returned as a list of \<open>make_call\<close>. A link is its
  identity, latency, weight and supported virtual networks; the machine configuration \<open>cs\<close> and the
  number of bits \<open>nb\<close> of a set are as in \<open>Garnet_NetDest\<close>.
\<close>

section \<open>Definitions\<close>

type_synonym matrix = "int list list list"

definition INFINITE_LATENCY :: int where
  "INFINITE_LATENCY = 10000"

record basic_link =
  bl_id :: int
  bl_latency :: int
  bl_weight :: int
  bl_vnets :: "int list"

record LinkEntry =
  le_link :: basic_link
  src_outport_dirn :: PortDirection
  dst_inport_dirn :: PortDirection

type_synonym link_map = "((int \<times> int) \<times> LinkEntry list) list"

record Topology =
  m_nodes :: int
  m_number_of_switches :: int
  tp_vnets :: int
  m_link_map :: link_map

text \<open>The calls of \<open>makeExtInLink\<close>, \<open>makeExtOutLink\<close> and \<open>makeInternalLink\<close> of the network.\<close>

datatype make_call =
    MakeExtInLink int int basic_link "net_dest list"
  | MakeExtOutLink int int basic_link "net_dest list"
  | MakeInternalLink int int basic_link "net_dest list" PortDirection PortDirection

definition mget :: "matrix \<Rightarrow> int \<Rightarrow> int \<Rightarrow> int \<Rightarrow> int res" where
  "mget m a b c = rbind (vget m a) (\<lambda>x. rbind (vget x b) (\<lambda>y. vget y c))"

definition mset3 :: "matrix \<Rightarrow> int \<Rightarrow> int \<Rightarrow> int \<Rightarrow> int \<Rightarrow> matrix res" where
  "mset3 m a b c v = vmod m a (\<lambda>x. vmod x b (\<lambda>y. vset y c v))"

text \<open>An ordered \<open>std::map\<close> as a sorted association list.\<close>

fun lm_push :: "int \<times> int \<Rightarrow> LinkEntry \<Rightarrow> link_map \<Rightarrow> link_map" where
  "lm_push k e [] = [(k, [e])]"
| "lm_push k e ((k', es) # m) =
     (if k = k' then (k', es @ [e]) # m
      else if fst k < fst k' \<or> fst k = fst k' \<and> snd k < snd k' then (k, [e]) # (k', es) # m
      else (k', es) # lm_push k e m)"

definition lm_get :: "link_map \<Rightarrow> int \<times> int \<Rightarrow> LinkEntry list" where
  "lm_get m k = (case map_of m k of Some es \<Rightarrow> es | None \<Rightarrow> [])"

definition addLink ::
    "int \<Rightarrow> int \<Rightarrow> basic_link \<Rightarrow> PortDirection \<Rightarrow> PortDirection \<Rightarrow> Topology \<Rightarrow> Topology res" where
  "addLink src dest link src_dirn dst_dirn t =
     rbind (check Assertion (src \<le> m_number_of_switches t + m_nodes t + m_nodes t)) (\<lambda>_.
     rbind (check Assertion (dest \<le> m_number_of_switches t + m_nodes t + m_nodes t)) (\<lambda>_.
     Inr (t\<lparr>m_link_map := lm_push (src, dest)
              \<lparr>le_link = link, src_outport_dirn = src_dirn, dst_inport_dirn = dst_dirn\<rparr> (m_link_map t)\<rparr>)))"

text \<open>An external link connects a controller (type, version) with a router.\<close>

definition add_ext_link :: "int list \<Rightarrow> basic_link \<times> int \<times> int \<times> int \<Rightarrow> Topology \<Rightarrow> Topology res" where
  "add_ext_link cs = (\<lambda>(link, ctype, version, router_id) t.
     rbind (MachineType_base_number cs ctype) (\<lambda>base.
     let ext_idx1 = base + version; ext_idx2 = ext_idx1 + m_nodes t; int_idx = router_id + 2 * m_nodes t in
     rbind (addLink ext_idx1 int_idx link [] [] t) (\<lambda>t1.
     addLink int_idx ext_idx2 link [] [] t1)))"

definition add_int_link ::
    "basic_link \<times> int \<times> int \<times> PortDirection \<times> PortDirection \<Rightarrow> Topology \<Rightarrow> Topology res" where
  "add_int_link = (\<lambda>(link, src_router, dst_router, src_outport, dst_inport) t.
     addLink (src_router + 2 * m_nodes t) (dst_router + 2 * m_nodes t) link src_outport dst_inport t)"

definition Topology_new ::
    "int list \<Rightarrow> int \<Rightarrow> int \<Rightarrow> (basic_link \<times> int \<times> int \<times> int) list \<Rightarrow>
      (basic_link \<times> int \<times> int \<times> PortDirection \<times> PortDirection) list \<Rightarrow> Topology res" where
  "Topology_new cs num_routers num_vnets ext_links int_links =
     rbind (MachineType_base_number cs (MachineType_NUM cs)) (\<lambda>nodes.
     rbind (check Assertion (1 < nodes)) (\<lambda>_.
     rbind (rfold (add_ext_link cs) ext_links
       \<lparr>m_nodes = nodes, m_number_of_switches = num_routers, tp_vnets = num_vnets, m_link_map = []\<rparr>) (\<lambda>t.
     rfold add_int_link int_links t)))"

section \<open>Definitions: shortest paths\<close>

type_synonym sp_state = "matrix \<times> matrix \<times> matrix"

definition relax_via ::
    "matrix \<Rightarrow> int \<Rightarrow> int \<Rightarrow> int \<Rightarrow> int \<Rightarrow> int \<times> int \<times> int \<times> matrix \<Rightarrow> (int \<times> int \<times> int \<times> matrix) res" where
  "relax_via dist v i j k = (\<lambda>(minimum, previous_minimum, intermediate_switch, isws).
     rbind (mget dist v i k) (\<lambda>a.
     rbind (mget dist v k j) (\<lambda>b.
     let minimum' = min minimum (a + b) in
     if previous_minimum \<noteq> minimum' then
       rbind (mget isws i k v) (\<lambda>x.
       rbind (mget isws k j v) (\<lambda>y.
       rbind (mset3 isws i j v (x + y + 1)) (\<lambda>isws'. Inr (minimum', minimum', k, isws'))))
     else Inr (minimum', minimum', intermediate_switch, isws))))"

definition relax_pair :: "int \<Rightarrow> int \<Rightarrow> int \<times> int \<Rightarrow> sp_state \<times> bool \<Rightarrow> (sp_state \<times> bool) res" where
  "relax_pair nodes v = (\<lambda>(i, j) ((dist, lat, isws), change).
     rbind (mget dist v i j) (\<lambda>d.
     rbind (rfold (relax_via dist v i j) [0..nodes - 1] (d, d, -1, isws)) (\<lambda>(minimum, _, isw, isws').
     if d \<noteq> minimum then
       rbind (mset3 dist v i j minimum) (\<lambda>dist'.
       rbind (check Assertion (0 \<le> isw)) (\<lambda>_.
       rbind (vget lat i) (\<lambda>row.
       rbind (check Assertion (isw < int (length row))) (\<lambda>_.
       rbind (mget lat i isw v) (\<lambda>x.
       rbind (mget lat isw j v) (\<lambda>y.
       rbind (mset3 lat i j v (x + y)) (\<lambda>lat'. Inr ((dist', lat', isws'), True))))))))
     else Inr ((dist, lat, isws'), change))))"

definition sweep :: "int \<Rightarrow> int \<Rightarrow> sp_state \<Rightarrow> (sp_state \<times> bool) res" where
  "sweep nodes v s = rfold (relax_pair nodes v) (List.product [0..nodes - 1] [0..nodes - 1]) (s, False)"

partial_function (option) relax_until :: "int \<Rightarrow> int \<Rightarrow> sp_state \<Rightarrow> sp_state res option" where
  "relax_until nodes v s =
     (case sweep nodes v s of
        Inl e \<Rightarrow> Some (Inl e)
      | Inr (s', change) \<Rightarrow> if change then relax_until nodes v s' else Some (Inr s'))"

fun relax_vnets :: "int \<Rightarrow> int list \<Rightarrow> sp_state \<Rightarrow> sp_state res option" where
  "relax_vnets nodes [] s = Some (Inr s)"
| "relax_vnets nodes (v # vs) s =
     (case relax_until nodes v s of
        None \<Rightarrow> None | Some (Inl e) \<Rightarrow> Some (Inl e) | Some (Inr s') \<Rightarrow> relax_vnets nodes vs s')"

definition extend_shortest_path :: "int \<Rightarrow> sp_state \<Rightarrow> sp_state res option" where
  "extend_shortest_path vnets = (\<lambda>(dist, lat, isws).
     case vget dist 0 of
       Inl e \<Rightarrow> Some (Inl e)
     | Inr d0 \<Rightarrow> relax_vnets (int (length d0)) [0..vnets - 1] (dist, lat, isws))"

definition shortest_path :: "int \<Rightarrow> matrix \<Rightarrow> matrix \<Rightarrow> matrix \<Rightarrow> sp_state res option" where
  "shortest_path vnets weights lat isws = extend_shortest_path vnets (weights, lat, isws)"

definition link_is_shortest_path_to_node ::
    "int \<Rightarrow> int \<Rightarrow> int \<Rightarrow> matrix \<Rightarrow> matrix \<Rightarrow> int \<Rightarrow> bool res" where
  "link_is_shortest_path_to_node src nxt final weights dist vnet =
     rbind (mget weights vnet src nxt) (\<lambda>w.
     rbind (mget dist vnet nxt final) (\<lambda>a.
     rbind (mget dist vnet src final) (\<lambda>b. Inr (w + a = b))))"

definition add_if_shortest ::
    "int \<Rightarrow> int \<Rightarrow> int \<Rightarrow> matrix \<Rightarrow> matrix \<Rightarrow> int \<Rightarrow> machine_id \<Rightarrow> net_dest \<times> int \<Rightarrow> (net_dest \<times> int) res" where
  "add_if_shortest max_machines src nxt weights dist vnet mach = (\<lambda>(result, d).
     rbind (link_is_shortest_path_to_node src nxt (d + max_machines) weights dist vnet) (\<lambda>b.
     rbind (if b then NetDest_add mach result else Inr result) (\<lambda>result'. Inr (result', d + 1))))"

definition all_machines :: "int list \<Rightarrow> machine_id list res" where
  "all_machines cs =
     rbind (map_res (\<lambda>m. rbind (MachineType_base_count cs m) (\<lambda>n.
         Inr (map (\<lambda>i. \<lparr>mach_type = m, mach_num = i\<rparr>) [0..n - 1]))) [0..MachineType_NUM cs - 1]) (\<lambda>ms. Inr (concat ms))"

definition shortest_path_to_node ::
    "nat \<Rightarrow> int list \<Rightarrow> int \<Rightarrow> int \<Rightarrow> matrix \<Rightarrow> matrix \<Rightarrow> int \<Rightarrow> net_dest res" where
  "shortest_path_to_node nb cs src nxt weights dist vnet =
     rbind (NetDest_new nb cs) (\<lambda>result.
     rbind (MachineType_base_number cs (MachineType_NUM cs)) (\<lambda>max_machines.
     rbind (all_machines cs) (\<lambda>ms.
     rbind (rfold (add_if_shortest max_machines src nxt weights dist vnet) ms (result, 0)) (\<lambda>(result', _). Inr result'))))"

section \<open>Definitions: making the links\<close>

definition set_link ::
    "int \<Rightarrow> int \<Rightarrow> basic_link \<Rightarrow> int \<Rightarrow> matrix \<times> matrix \<times> bool list \<Rightarrow> (matrix \<times> matrix \<times> bool list) res" where
  "set_link src dst link vnet = (\<lambda>(weights, lat, vnet_done).
     rbind (vget vnet_done vnet) (\<lambda>b.
     rbind (check Fatal (\<not> b)) (\<lambda>_.
     rbind (mset3 lat src dst vnet (bl_latency link)) (\<lambda>lat'.
     rbind (mset3 weights vnet src dst (bl_weight link)) (\<lambda>weights'.
     rbind (vset vnet_done vnet True) (\<lambda>dn. Inr (weights', lat', dn)))))))"

definition set_link_entry ::
    "int \<Rightarrow> int \<Rightarrow> int \<Rightarrow> LinkEntry \<Rightarrow> matrix \<times> matrix \<times> bool list \<Rightarrow> (matrix \<times> matrix \<times> bool list) res" where
  "set_link_entry vnets src dst e s =
     (if bl_vnets (le_link e) = [] then rfold (set_link src dst (le_link e)) [0..vnets - 1] s
      else rfold (\<lambda>vnet s. rbind (check Fatal (vnet < vnets)) (\<lambda>_. set_link src dst (le_link e) vnet s))
             (bl_vnets (le_link e)) s)"

definition set_link_group ::
    "int \<Rightarrow> (int \<times> int) \<times> LinkEntry list \<Rightarrow> matrix \<times> matrix \<Rightarrow> (matrix \<times> matrix) res" where
  "set_link_group vnets = (\<lambda>((src, dst), es) (weights, lat).
     rbind (rfold (set_link_entry vnets src dst) es (weights, lat, replicate (nat vnets) False))
       (\<lambda>(weights', lat', _). Inr (weights', lat')))"

definition max_switch_id :: "link_map \<Rightarrow> int" where
  "max_switch_id m = foldl (\<lambda>a ((s, d), _). max (max a s) d) 0 m"

definition initial_weights :: "int \<Rightarrow> int \<Rightarrow> matrix" where
  "initial_weights vnets n =
     map (\<lambda>v. map (\<lambda>i. map (\<lambda>j. if i = j then 0 else INFINITE_LATENCY) [0..n - 1]) [0..n - 1]) [0..vnets - 1]"

definition link_route :: "nat \<Rightarrow> int list \<Rightarrow> int \<Rightarrow> basic_link \<Rightarrow> net_dest list \<Rightarrow> net_dest list res" where
  "link_route nb cs vnets link entry =
     (if bl_vnets link = [] then Inr entry
      else rbind (NetDest_new nb cs) (\<lambda>none.
        rfold (\<lambda>vnet route. rbind (vget entry vnet) (vset route vnet)) (bl_vnets link) (replicate (nat vnets) none)))"

definition makeLink ::
    "nat \<Rightarrow> int list \<Rightarrow> Topology \<Rightarrow> int \<Rightarrow> int \<Rightarrow> net_dest list \<Rightarrow> make_call list res" where
  "makeLink nb cs t src dest entry =
     (let n = m_nodes t; links = lm_get (m_link_map t) (src, dest) in
      rbind (check Assertion (2 * n \<le> src \<or> 2 * n \<le> dest)) (\<lambda>_.
      if src < n then
        map_res (\<lambda>e. rbind (link_route nb cs (tp_vnets t) (le_link e) entry) (\<lambda>route.
          Inr (MakeExtInLink src (dest - 2 * n) (le_link e) route))) links
      else if dest < 2 * n then
        rbind (check Assertion (n \<le> dest)) (\<lambda>_.
        map_res (\<lambda>e. rbind (link_route nb cs (tp_vnets t) (le_link e) entry) (\<lambda>route.
          Inr (MakeExtOutLink (src - 2 * n) (dest - n) (le_link e) route))) links)
      else
        rbind (check Assertion (2 * n \<le> src \<and> 2 * n \<le> dest)) (\<lambda>_.
        map_res (\<lambda>e. rbind (link_route nb cs (tp_vnets t) (le_link e) entry) (\<lambda>route.
          Inr (MakeInternalLink (src - 2 * n) (dest - 2 * n) (le_link e) route
            (src_outport_dirn e) (dst_inport_dirn e)))) links)))"

text \<open>The routing entry of one virtual network of the link, and whether the link is real.\<close>

definition route_vnet ::
    "nat \<Rightarrow> int list \<Rightarrow> matrix \<Rightarrow> matrix \<Rightarrow> int \<Rightarrow> int \<Rightarrow> int \<Rightarrow> net_dest list \<times> bool \<Rightarrow> (net_dest list \<times> bool) res" where
  "route_vnet nb cs weights dist i j v = (\<lambda>(routingMap, realLink).
     rbind (mget weights v i j) (\<lambda>weight.
     if 0 < weight \<and> weight \<noteq> INFINITE_LATENCY then
       rbind (shortest_path_to_node nb cs i j weights dist v) (\<lambda>d.
       rbind (vset routingMap v d) (\<lambda>rm. Inr (rm, True)))
     else Inr (routingMap, realLink)))"

definition make_pair ::
    "nat \<Rightarrow> int list \<Rightarrow> Topology \<Rightarrow> matrix \<Rightarrow> matrix \<Rightarrow> int \<times> int \<Rightarrow> make_call list \<Rightarrow> make_call list res" where
  "make_pair nb cs t weights dist = (\<lambda>(i, j) calls.
     rbind (NetDest_new nb cs) (\<lambda>none.
     rbind (rfold (route_vnet nb cs weights dist i j) [0..tp_vnets t - 1] (replicate (nat (tp_vnets t)) none, False))
       (\<lambda>(routingMap, realLink).
     if realLink then rbind (makeLink nb cs t i j routingMap) (\<lambda>cl. Inr (calls @ cl)) else Inr calls)))"

definition topology_matrices :: "Topology \<Rightarrow> (matrix \<times> matrix \<times> matrix \<times> int) res" where
  "topology_matrices t =
     (let n = max_switch_id (m_link_map t) + 1; vnets = tp_vnets t in
      rbind (rfold (set_link_group vnets) (m_link_map t)
        (initial_weights vnets n, replicate (nat n) (replicate (nat n) (replicate (nat vnets) (-1)))))
        (\<lambda>(weights, lat). Inr (weights, lat, replicate (nat n) (replicate (nat n) (replicate (nat vnets) 0)), n)))"

definition createLinks :: "nat \<Rightarrow> int list \<Rightarrow> Topology \<Rightarrow> make_call list res option" where
  "createLinks nb cs t =
     (case topology_matrices t of
        Inl e \<Rightarrow> Some (Inl e)
      | Inr (weights, lat, isws, n) \<Rightarrow>
          (case shortest_path (tp_vnets t) weights lat isws of
             None \<Rightarrow> None
           | Some (Inl e) \<Rightarrow> Some (Inl e)
           | Some (Inr (dist, _, _)) \<Rightarrow>
               Some (rfold (make_pair nb cs t weights dist) (List.product [0..n - 1] [0..n - 1]) [])))"

end
