(* ===== verification/Garnet_ShortestPath.thy ===== *)
theory Garnet_ShortestPath
  imports Garnet_Topology
begin

text \<open>
  The shortest-path computation of the topology is correct: the relaxation terminates, and the
  distances it leaves are the least weights of walks in the matrix of link weights. Each routing
  entry is the set of machines for which its link starts a shortest walk, and following such links
  leads to the destination.
\<close>

section \<open>Matrices\<close>

definition msize :: "int \<Rightarrow> int \<Rightarrow> int \<Rightarrow> matrix \<Rightarrow> bool" where
  "msize a b c m = (int (length m) = a \<and> (\<forall>x\<in>set m. int (length x) = b \<and> (\<forall>y\<in>set x. int (length y) = c)))"

definition dget :: "matrix \<Rightarrow> int \<Rightarrow> int \<Rightarrow> int \<Rightarrow> int" where
  "dget m a b c = m ! nat a ! nat b ! nat c"

definition mupd :: "matrix \<Rightarrow> int \<Rightarrow> int \<Rightarrow> int \<Rightarrow> int \<Rightarrow> matrix" where
  "mupd m a b c v = m[nat a := (m ! nat a)[nat b := (m ! nat a ! nat b)[nat c := v]]]"

definition below :: "int \<Rightarrow> int \<Rightarrow> bool" where
  "below n i = (0 \<le> i \<and> i < n)"

lemma msize_lengths:
  assumes "msize A B C m" "below A a"
  shows "a < int (length m)" "int (length (m ! nat a)) = B" "below B b \<Longrightarrow> int (length (m ! nat a ! nat b)) = C"
proof -
  show len: "a < int (length m)" using assms by (simp add: msize_def below_def)
  then have a: "m ! nat a \<in> set m" using assms(2) by (simp add: below_def nat_less_iff)
  then show b: "int (length (m ! nat a)) = B" using assms(1) by (simp add: msize_def)
  show "int (length (m ! nat a ! nat b)) = C" if "below B b"
  proof -
    have "m ! nat a ! nat b \<in> set (m ! nat a)" using that b by (simp add: below_def nat_less_iff)
    then show ?thesis using assms(1) a by (simp add: msize_def)
  qed
qed

lemma mget_ok:
  assumes "msize A B C m" "below A a" "below B b" "below C c"
  shows "mget m a b c = Inr (dget m a b c)"
  using msize_lengths [OF assms(1,2)] msize_lengths(3) [OF assms(1-3)] assms(2-4)
  by (simp add: mget_def dget_def vget_ok below_def)

lemma mset3_ok:
  assumes "msize A B C m" "below A a" "below B b" "below C c"
  shows "mset3 m a b c v = Inr (mupd m a b c v)"
  using msize_lengths [OF assms(1,2)] msize_lengths(3) [OF assms(1-3)] assms(2-4)
  by (simp add: mset3_def mupd_def vmod_ok vset_ok below_def)

lemma msize_mupd:
  assumes "msize A B C m" "below A a" "below B b"
  shows "msize A B C (mupd m a b c v)"
proof -
  let ?y = "(m ! nat a ! nat b)[nat c := v]" and ?x = "m ! nat a"
  have y: "int (length ?y) = C" using msize_lengths(3) [OF assms] by simp
  have x: "int (length (?x[nat b := ?y])) = B" using msize_lengths(2) [OF assms(1,2)] by simp
  have "?x \<in> set m" using msize_lengths(1) [OF assms(1,2)] assms(2) by (simp add: below_def nat_less_iff)
  then have "\<forall>z\<in>set (?x[nat b := ?y]). int (length z) = C"
    using assms(1) y set_update_subset_insert [of ?x "nat b" ?y] by (auto simp: msize_def)
  then have "\<forall>w\<in>set (m[nat a := ?x[nat b := ?y]]). int (length w) = B \<and> (\<forall>z\<in>set w. int (length z) = C)"
    using assms(1) x set_update_subset_insert [of m "nat a" "?x[nat b := ?y]"] by (auto simp: msize_def)
  then show ?thesis using assms(1) by (simp add: msize_def mupd_def)
qed

lemma dget_mupd:
  assumes "msize A B C m" "below A a" "below B b" "below C c" "0 \<le> a'" "0 \<le> b'" "0 \<le> c'"
  shows "dget (mupd m a b c v) a' b' c' = (if a' = a \<and> b' = b \<and> c' = c then v else dget m a' b' c')"
proof -
  have n: "nat a < length m" "nat b < length (m ! nat a)" "nat c < length (m ! nat a ! nat b)"
    using msize_lengths [OF assms(1,2)] msize_lengths(3) [OF assms(1-3)] assms(2-4)
    by (simp_all add: below_def nat_less_iff)
  have e: "nat a' = nat a \<longleftrightarrow> a' = a" "nat b' = nat b \<longleftrightarrow> b' = b" "nat c' = nat c \<longleftrightarrow> c' = c"
    using assms by (auto simp: below_def)
  show ?thesis using n e unfolding dget_def mupd_def by (cases "a' = a"; cases "b' = b"; cases "c' = c") simp_all
qed

section \<open>One relaxation\<close>

text \<open>The least weight through any intermediate switch.\<close>

definition is_least_via :: "int \<Rightarrow> (int \<Rightarrow> int \<Rightarrow> int) \<Rightarrow> int \<Rightarrow> int \<Rightarrow> int \<Rightarrow> bool" where
  "is_least_via n D i j mn =
     (mn \<le> D i j \<and> (\<forall>k. below n k \<longrightarrow> mn \<le> D i k + D k j) \<and>
      (mn = D i j \<or> (\<exists>k. below n k \<and> mn = D i k + D k j)))"

lemma relax_via_loop:
  assumes d: "msize vn n n dist" and s: "msize n n vn isws" and r: "below vn v" "below n i" "below n j"
  shows "\<exists>mn isw isws'. rfold (relax_via dist v i j) [0..n - 1] (dget dist v i j, dget dist v i j, -1, isws) =
      Inr (mn, mn, isw, isws') \<and> msize n n vn isws' \<and> is_least_via n (dget dist v) i j mn \<and>
      (mn \<noteq> dget dist v i j \<longrightarrow> below n isw)"
proof -
  let ?D = "dget dist v"
  let ?I = "\<lambda>k (mn, pm, isw, sw). pm = mn \<and> msize n n vn sw \<and> mn \<le> ?D i j \<and>
    (\<forall>k'. 0 \<le> k' \<and> k' < k \<longrightarrow> mn \<le> ?D i k' + ?D k' j) \<and>
    (mn = ?D i j \<or> below n isw \<and> (\<exists>k'. below n k' \<and> mn = ?D i k' + ?D k' j))"
  have "\<exists>t. rfold (relax_via dist v i j) [0..n - 1] (?D i j, ?D i j, -1, isws) = Inr t \<and> ?I n t"
  proof (rule rfold_upto [where I = ?I])
    show "?I 0 (?D i j, ?D i j, -1, isws)" using s by simp
    show "0 \<le> n" using r by (simp add: below_def)
    fix k st
    assume k: "0 \<le> k" "k < n" and inv: "?I k st"
    obtain mn pm isw sw where st: "st = (mn, pm, isw, sw)" by (cases st) auto
    have bk: "below n k" using k by (simp add: below_def)
    have I: "pm = mn" "msize n n vn sw" "mn \<le> ?D i j" "\<forall>k'. 0 \<le> k' \<and> k' < k \<longrightarrow> mn \<le> ?D i k' + ?D k' j"
      "mn = ?D i j \<or> below n isw \<and> (\<exists>k'. below n k' \<and> mn = ?D i k' + ?D k' j)"
      using inv unfolding st prod.case by blast+
    note g = mget_ok [OF d r(1) r(2) bk] mget_ok [OF d r(1) bk r(3)] mget_ok [OF I(2) r(2) bk r(1)]
      mget_ok [OF I(2) bk r(3) r(1)]
    have le: "\<forall>k'. 0 \<le> k' \<and> k' < k + 1 \<longrightarrow> min mn (?D i k + ?D k j) \<le> ?D i k' + ?D k' j"
    proof (intro allI impI)
      fix k'
      assume "0 \<le> k' \<and> k' < k + 1"
      then have "k' = k \<or> 0 \<le> k' \<and> k' < k" by auto
      then show "min mn (?D i k + ?D k j) \<le> ?D i k' + ?D k' j" using I(4) by (auto intro: min.coboundedI1)
    qed
    show "\<exists>s'. relax_via dist v i j k st = Inr s' \<and> ?I (k + 1) s'"
    proof (cases "mn \<le> ?D i k + ?D k j")
      case True
      then have "relax_via dist v i j k st = Inr (mn, mn, isw, sw)"
        using g by (simp add: relax_via_def st I(1) min_def)
      then show ?thesis using I le True by (intro exI [of _ "(mn, mn, isw, sw)"]) (simp add: min_def)
    next
        case False
      let ?sw = "mupd sw i j v (dget sw i k v + dget sw k j v + 1)" and ?m = "?D i k + ?D k j"
      have m: "min mn ?m = ?m" "mn \<noteq> ?m" "?m \<le> ?D i j" using False I(3) by auto
      have "relax_via dist v i j k st = Inr (?m, ?m, k, ?sw)"
        using g m mset3_ok [OF I(2) r(2,3,1)] by (simp add: relax_via_def st I(1) Let_def)
      moreover have "\<exists>k'. below n k' \<and> ?m = ?D i k' + ?D k' j" using bk by blast
      ultimately show ?thesis using le [unfolded m(1)] m(3) bk msize_mupd [OF I(2) r(2,3)]
        by (intro exI [of _ "(?m, ?m, k, ?sw)"]) simp
    qed
  qed
  then obtain t where t: "rfold (relax_via dist v i j) [0..n - 1] (?D i j, ?D i j, -1, isws) = Inr t" "?I n t" by blast
  obtain mn pm isw isws' where e: "t = (mn, pm, isw, isws')" by (cases t) auto
  have "is_least_via n ?D i j mn" using t(2) unfolding e is_least_via_def below_def by auto
  then show ?thesis using t unfolding e by (intro exI [of _ mn] exI [of _ isw] exI [of _ isws']) auto
qed

section \<open>Walks\<close>

fun walk_weight :: "(int \<Rightarrow> int \<Rightarrow> int) \<Rightarrow> int list \<Rightarrow> int" where
  "walk_weight W (x # y # p) = W x y + walk_weight W (y # p)"
| "walk_weight W p = 0"

definition is_walk :: "int \<Rightarrow> int \<Rightarrow> int \<Rightarrow> int list \<Rightarrow> bool" where
  "is_walk n i j p = (p \<noteq> [] \<and> hd p = i \<and> last p = j \<and> (\<forall>x\<in>set p. below n x))"

lemma walk_weight_join: "p \<noteq> [] \<Longrightarrow> walk_weight W (p @ q) = walk_weight W p + walk_weight W (last p # q)"
  by (induction W p rule: walk_weight.induct) auto

lemma walk_join:
  assumes "is_walk n i k p" "is_walk n k j q"
  shows "is_walk n i j (p @ tl q) \<and> walk_weight W (p @ tl q) = walk_weight W p + walk_weight W q"
proof -
  have q: "q = k # tl q" using assms(2) by (cases q) (auto simp: is_walk_def)
  then have "last (p @ tl q) = j" using assms by (cases "tl q") (auto simp: is_walk_def)
  moreover have "walk_weight W (p @ tl q) = walk_weight W p + walk_weight W q"
    using walk_weight_join [of p W "tl q"] assms(1) q by (simp add: is_walk_def)
  moreover have "\<forall>x\<in>set (p @ tl q). below n x" using assms q by (metis Un_iff is_walk_def list.set_sel(2) set_append)
  ultimately show ?thesis using assms(1) by (auto simp: is_walk_def)
qed

lemma walk_weight_nonneg:
  assumes "\<And>x y. below n x \<Longrightarrow> below n y \<Longrightarrow> 0 \<le> W x y" "\<forall>x\<in>set p. below n x"
  shows "0 \<le> walk_weight W p"
  using assms(2) by (induction p rule: induct_list012) (auto intro: add_nonneg_nonneg assms(1))

text \<open>The entries are weights of walks, and no larger than the links.\<close>

definition walks_ok :: "int \<Rightarrow> (int \<Rightarrow> int \<Rightarrow> int) \<Rightarrow> (int \<Rightarrow> int \<Rightarrow> int) \<Rightarrow> bool" where
  "walks_ok n W D =
     (\<forall>i j. below n i \<longrightarrow> below n j \<longrightarrow> D i j \<le> W i j \<and> (\<exists>p. is_walk n i j p \<and> walk_weight W p = D i j))"

definition triangle :: "int \<Rightarrow> (int \<Rightarrow> int \<Rightarrow> int) \<Rightarrow> int \<Rightarrow> int \<Rightarrow> bool" where
  "triangle n D i j = (\<forall>k. below n k \<longrightarrow> D i j \<le> D i k + D k j)"

lemma walks_ok_update:
  assumes ok: "walks_ok n W D" and k: "below n i" "below n j" "below n k"
    and D': "\<And>x y. below n x \<Longrightarrow> below n y \<Longrightarrow> D' x y = (if x = i \<and> y = j then D i k + D k j else D x y)"
    and less: "D i k + D k j \<le> D i j"
  shows "walks_ok n W D'"
  unfolding walks_ok_def
proof (intro allI impI)
  fix x y
  assume b: "below n x" "below n y"
  show "D' x y \<le> W x y \<and> (\<exists>p. is_walk n x y p \<and> walk_weight W p = D' x y)"
  proof (cases "x = i \<and> y = j")
    case True
    obtain p q where "is_walk n i k p" "walk_weight W p = D i k" "is_walk n k j q" "walk_weight W q = D k j"
      using ok k unfolding walks_ok_def by metis
    then have "\<exists>p. is_walk n i j p \<and> walk_weight W p = D i k + D k j" using walk_join [of n i k p j q W] by auto
    moreover have "D i j \<le> W i j" using ok k by (simp add: walks_ok_def)
    ultimately show ?thesis using D' [OF b] True less by simp
  next
    case False
    then have "D' x y = D x y" using D' [OF b] by auto
    then show ?thesis using ok b by (simp add: walks_ok_def)
  qed
qed

definition sp_inv :: "int \<Rightarrow> int \<Rightarrow> matrix \<Rightarrow> sp_state \<Rightarrow> bool" where
  "sp_inv vn n weights = (\<lambda>(dist, lat, isws). msize vn n n dist \<and> msize n n vn lat \<and> msize n n vn isws \<and>
     (\<forall>v. below vn v \<longrightarrow> walks_ok n (dget weights v) (dget dist v)))"

definition lowered :: "int \<Rightarrow> int \<Rightarrow> matrix \<Rightarrow> matrix \<Rightarrow> bool" where
  "lowered n v dist dist' =
     ((\<forall>v'. 0 \<le> v' \<and> v' \<noteq> v \<longrightarrow> (\<forall>x y. below n x \<longrightarrow> below n y \<longrightarrow> dget dist' v' x y = dget dist v' x y)) \<and>
      (\<forall>x y. below n x \<longrightarrow> below n y \<longrightarrow> dget dist' v x y \<le> dget dist v x y))"

lemma lowered_refl: "lowered n v dist dist"
  by (simp add: lowered_def)

lemma lowered_trans: "lowered n v d d' \<Longrightarrow> lowered n v d' d'' \<Longrightarrow> lowered n v d d''"
  unfolding lowered_def by (intro conjI allI impI) (simp, meson order_trans)

lemma relax_pair_ok:
  assumes inv: "sp_inv vn n weights (dist, lat, isws)" and r: "below vn v" "below n i" "below n j"
  shows "\<exists>dist' lat' isws' ch'. relax_pair n v (i, j) ((dist, lat, isws), ch) = Inr ((dist', lat', isws'), ch') \<and>
    sp_inv vn n weights (dist', lat', isws') \<and> lowered n v dist dist' \<and>
    (dist' = dist \<and> ch' = ch \<and> triangle n (dget dist v) i j \<or> ch' \<and> dget dist' v i j < dget dist v i j)"
proof -
  let ?D = "dget dist v"
  have sh: "msize vn n n dist" "msize n n vn lat" "msize n n vn isws"
    and w: "\<And>v. below vn v \<Longrightarrow> walks_ok n (dget weights v) (dget dist v)" using inv by (auto simp: sp_inv_def)
  obtain mn isw isws' where l: "rfold (relax_via dist v i j) [0..n - 1] (?D i j, ?D i j, -1, isws) = Inr (mn, mn, isw, isws')"
      "msize n n vn isws'" "is_least_via n ?D i j mn" "mn \<noteq> ?D i j \<longrightarrow> below n isw"
    using relax_via_loop [OF sh(1,3) r] by blast
  note g = mget_ok [OF sh(1) r]
  show ?thesis
  proof (cases "mn = ?D i j")
    case True
    have "relax_pair n v (i, j) ((dist, lat, isws), ch) = Inr ((dist, lat, isws'), ch)"
      using g l(1) True by (simp add: relax_pair_def)
    moreover have "triangle n ?D i j" using l(3) True by (simp add: is_least_via_def triangle_def)
    moreover have "sp_inv vn n weights (dist, lat, isws')" using sh l(2) w by (simp add: sp_inv_def)
    ultimately show ?thesis using lowered_refl by blast
  next
    case False
    then have isw: "below n isw" and less: "mn < ?D i j" using l(3,4) by (auto simp: is_least_via_def)
    obtain k where k: "below n k" "mn = ?D i k + ?D k j" using l(3) False by (auto simp: is_least_via_def)
    let ?dist = "mupd dist v i j mn" and ?lat = "mupd lat i j v (dget lat i isw v + dget lat isw j v)"
    have dg: "dget ?dist v' x y = (if v' = v \<and> x = i \<and> y = j then mn else dget dist v' x y)"
      if "0 \<le> v'" "below n x" "below n y" for v' x y
      using dget_mupd [OF sh(1) r] that by (simp add: below_def)
    have row: "vget lat i = Inr (lat ! nat i)" "int (length (lat ! nat i)) = n"
      using msize_lengths [OF sh(2) r(2)] r by (simp_all add: vget_ok below_def)
    have "relax_pair n v (i, j) ((dist, lat, isws), ch) = Inr ((?dist, ?lat, isws'), True)"
      using g l(1) False isw row mset3_ok [OF sh(1) r] mset3_ok [OF sh(2) r(2,3,1)]
        mget_ok [OF sh(2) r(2) isw r(1)] mget_ok [OF sh(2) isw r(3,1)]
      by (simp add: relax_pair_def below_def)
    moreover have "walks_ok n (dget weights v') (dget ?dist v')" if v': "below vn v'" for v'
    proof (cases "v' = v")
      case True
      then show ?thesis using walks_ok_update [OF w [OF r(1)] r(2,3) k(1), of "dget ?dist v"] dg [of v] k(2) less v'
        by (simp add: below_def)
    next
      case False
      then have "\<And>x y. below n x \<Longrightarrow> below n y \<Longrightarrow> dget ?dist v' x y = dget dist v' x y" using dg v' by (simp add: below_def)
      then show ?thesis using w [OF v'] by (simp add: walks_ok_def)
    qed
    then have "sp_inv vn n weights (?dist, ?lat, isws')"
      using l(2) msize_mupd [OF sh(1) r(1,2)] msize_mupd [OF sh(2) r(2,3)] by (simp add: sp_inv_def)
    moreover have "lowered n v dist ?dist" "dget ?dist v i j < ?D i j"
      using dg r less by (auto simp: lowered_def below_def)
    ultimately show ?thesis by blast
  qed
qed

section \<open>Sweeps until nothing changes\<close>

definition total :: "int \<Rightarrow> int \<Rightarrow> matrix \<Rightarrow> int" where
  "total n v dist = (\<Sum>(x, y)\<in>{0..<n} \<times> {0..<n}. dget dist v x y)"

lemma total_le: "lowered n v d d' \<Longrightarrow> total n v d' \<le> total n v d"
  unfolding total_def by (rule sum_mono) (auto simp: lowered_def below_def)

lemma total_less:
  assumes "lowered n v d d'" "below n i" "below n j" "dget d' v i j < dget d v i j"
  shows "total n v d' < total n v d"
  unfolding total_def
proof (rule sum_strict_mono_ex1)
  show "\<forall>x\<in>{0..<n} \<times> {0..<n}. (case x of (x, y) \<Rightarrow> dget d' v x y) \<le> (case x of (x, y) \<Rightarrow> dget d v x y)"
    using assms(1) by (auto simp: lowered_def below_def)
  show "\<exists>a\<in>{0..<n} \<times> {0..<n}. (case a of (x, y) \<Rightarrow> dget d' v x y) < (case a of (x, y) \<Rightarrow> dget d v x y)"
    using assms(2-4) by (intro bexI [of _ "(i, j)"]) (auto simp: below_def)
qed simp

lemma sweep_pairs:
  assumes "sp_inv vn n weights s" "below vn v" "\<forall>(i, j)\<in>set ps. below n i \<and> below n j"
  shows "\<exists>s' ch'. rfold (relax_pair n v) ps (s, ch) = Inr (s', ch') \<and> sp_inv vn n weights s' \<and>
    lowered n v (fst s) (fst s') \<and> (ch \<longrightarrow> ch') \<and>
    (\<not> ch \<and> ch' \<longrightarrow> total n v (fst s') < total n v (fst s)) \<and>
    (\<not> ch' \<longrightarrow> fst s' = fst s \<and> (\<forall>(i, j)\<in>set ps. triangle n (dget (fst s) v) i j))"
  using assms(1,3)
proof (induction ps arbitrary: s ch)
  case Nil
  then show ?case using lowered_refl by auto
next
  case (Cons q ps)
  obtain i j where q: "q = (i, j)" "below n i" "below n j" using Cons.prems by auto
  obtain dist lat isws where s: "s = (dist, lat, isws)" by (cases s) auto
  obtain dist1 lat1 isws1 ch1 where st: "relax_pair n v (i, j) ((dist, lat, isws), ch) = Inr ((dist1, lat1, isws1), ch1)"
      "sp_inv vn n weights (dist1, lat1, isws1)" "lowered n v dist dist1"
      "dist1 = dist \<and> ch1 = ch \<and> triangle n (dget dist v) i j \<or> ch1 \<and> dget dist1 v i j < dget dist v i j"
    using relax_pair_ok [OF Cons.prems(1) [unfolded s] assms(2) q(2,3)] by blast
  have rest: "\<forall>(i, j)\<in>set ps. below n i \<and> below n j" using Cons.prems(2) by simp
  obtain s' ch' where ih: "rfold (relax_pair n v) ps ((dist1, lat1, isws1), ch1) = Inr (s', ch')" "sp_inv vn n weights s'"
      "lowered n v dist1 (fst s')" "ch1 \<longrightarrow> ch'" "\<not> ch1 \<and> ch' \<longrightarrow> total n v (fst s') < total n v dist1"
      "\<not> ch' \<longrightarrow> fst s' = dist1 \<and> (\<forall>(i, j)\<in>set ps. triangle n (dget dist1 v) i j)"
    using Cons.IH [OF st(2) rest, of ch1] unfolding fst_conv by (elim exE conjE)
  have "rfold (relax_pair n v) (q # ps) (s, ch) = Inr (s', ch')" using st(1) ih(1) by (simp add: q s)
  moreover have "lowered n v (fst s) (fst s')" using lowered_trans [OF st(3) ih(3)] by (simp add: s)
  moreover have "total n v (fst s') < total n v (fst s)" if "\<not> ch" "ch'"
    using that st(4) ih(5) total_le [OF ih(3)] total_less [OF st(3) q(2,3)] by (auto simp: s)
  moreover have "fst s' = fst s \<and> (\<forall>(i, j)\<in>set (q # ps). triangle n (dget (fst s) v) i j)" if "\<not> ch'"
  proof -
    have "\<not> ch1" using that ih(4) by blast
    then have "dist1 = dist" "triangle n (dget dist v) i j" using st(4) by blast+
    then show ?thesis using ih(6) that by (simp add: s q(1))
  qed
  moreover have "ch \<longrightarrow> ch'" using st(4) ih(4) by blast
  ultimately show ?case using ih(2) by blast
qed

lemma sweep_ok:
  assumes "sp_inv vn n weights s" "below vn v"
  shows "\<exists>s' ch. sweep n v s = Inr (s', ch) \<and> sp_inv vn n weights s' \<and> lowered n v (fst s) (fst s') \<and>
    (ch \<longrightarrow> total n v (fst s') < total n v (fst s)) \<and>
    (\<not> ch \<longrightarrow> (\<forall>i j. below n i \<longrightarrow> below n j \<longrightarrow> triangle n (dget (fst s') v) i j))"
proof -
  have "\<forall>(i, j)\<in>set (List.product [0..n - 1] [0..n - 1]). below n i \<and> below n j" by (auto simp: below_def)
  from sweep_pairs [OF assms this, of False] obtain s' ch where
      sw: "sweep n v s = Inr (s', ch)" "sp_inv vn n weights s'" "lowered n v (fst s) (fst s')"
        "ch \<longrightarrow> total n v (fst s') < total n v (fst s)" "\<not> ch \<longrightarrow> fst s' = fst s \<and>
          (\<forall>(i, j)\<in>set (List.product [0..n - 1] [0..n - 1]). triangle n (dget (fst s) v) i j)"
    unfolding sweep_def by blast
  have "triangle n (dget (fst s') v) i j" if "\<not> ch" "below n i" "below n j" for i j
  proof -
    have "(i, j) \<in> set (List.product [0..n - 1] [0..n - 1])" using that(2,3) by (simp add: below_def)
    then show ?thesis using sw(5) that(1) by auto
  qed
  then show ?thesis using sw(1-4) by blast
qed

definition nonneg :: "int \<Rightarrow> int \<Rightarrow> matrix \<Rightarrow> bool" where
  "nonneg vn n weights = (\<forall>v\<in>set [0..vn - 1]. \<forall>i\<in>set [0..n - 1]. \<forall>j\<in>set [0..n - 1]. 0 \<le> dget weights v i j)"

lemma nonnegD: "nonneg vn n weights \<Longrightarrow> below vn v \<Longrightarrow> below n i \<Longrightarrow> below n j \<Longrightarrow> 0 \<le> dget weights v i j"
  by (simp add: nonneg_def below_def)

lemma dist_nonneg:
  assumes "sp_inv vn n weights s" "nonneg vn n weights" "below vn v" "below n i" "below n j"
  shows "0 \<le> dget (fst s) v i j"
proof -
  obtain dist lat isws where s: "s = (dist, lat, isws)" by (cases s) auto
  have "walks_ok n (dget weights v) (dget dist v)" using assms(1,3) by (simp add: sp_inv_def s)
  then obtain p where "is_walk n i j p" "walk_weight (dget weights v) p = dget dist v i j"
    using assms(4,5) unfolding walks_ok_def by blast
  then show ?thesis using walk_weight_nonneg [of n "dget weights v" p] nonnegD [OF assms(2,3)]
    by (simp add: s is_walk_def)
qed

lemma total_nonneg: "sp_inv vn n weights s \<Longrightarrow> nonneg vn n weights \<Longrightarrow> below vn v \<Longrightarrow> 0 \<le> total n v (fst s)"
  unfolding total_def by (rule sum_nonneg) (auto simp: below_def intro: dist_nonneg)

lemma relax_until_ok:
  assumes "nonneg vn n weights" "below vn v" "sp_inv vn n weights s"
  shows "\<exists>s'. relax_until n v s = Some (Inr s') \<and> sp_inv vn n weights s' \<and> lowered n v (fst s) (fst s') \<and>
    (\<forall>i j. below n i \<longrightarrow> below n j \<longrightarrow> triangle n (dget (fst s') v) i j)"
  using assms(3)
proof (induction "nat (total n v (fst s))" arbitrary: s rule: less_induct)
  case less
  obtain s1 ch where sw: "sweep n v s = Inr (s1, ch)" "sp_inv vn n weights s1" "lowered n v (fst s) (fst s1)"
      "ch \<longrightarrow> total n v (fst s1) < total n v (fst s)"
      "\<not> ch \<longrightarrow> (\<forall>i j. below n i \<longrightarrow> below n j \<longrightarrow> triangle n (dget (fst s1) v) i j)"
    using sweep_ok [OF less.prems assms(2)] by blast
  show ?case
  proof (cases ch)
    case True
    then have "nat (total n v (fst s1)) < nat (total n v (fst s))"
      using sw(4) total_nonneg [OF sw(2) assms(1,2)] by simp
    from less.hyps [OF this sw(2)] show ?thesis
      using sw(1) True lowered_trans [OF sw(3)] by (subst relax_until.simps) auto
  next
    case False
    then show ?thesis using sw by (subst relax_until.simps) auto
  qed
qed

lemma relax_vnets_ok:
  assumes "nonneg vn n weights" "\<forall>v\<in>set vs. below vn v" "sp_inv vn n weights s" "distinct vs"
  shows "\<exists>s'. relax_vnets n vs s = Some (Inr s') \<and> sp_inv vn n weights s' \<and>
    (\<forall>v i j. 0 \<le> v \<and> v \<notin> set vs \<longrightarrow> below n i \<longrightarrow> below n j \<longrightarrow> dget (fst s') v i j = dget (fst s) v i j) \<and>
    (\<forall>v\<in>set vs. \<forall>i j. below n i \<longrightarrow> below n j \<longrightarrow> triangle n (dget (fst s') v) i j)"
  using assms(2-4)
proof (induction vs arbitrary: s)
  case Nil
  then show ?case by simp
next
  case (Cons v vs)
  have v: "below vn v" using Cons.prems by simp
  obtain s1 where a: "relax_until n v s = Some (Inr s1)" "sp_inv vn n weights s1" "lowered n v (fst s) (fst s1)"
      "\<forall>i j. below n i \<longrightarrow> below n j \<longrightarrow> triangle n (dget (fst s1) v) i j"
    using relax_until_ok [OF assms(1) v Cons.prems(2)] by blast
  obtain s' where b: "relax_vnets n vs s1 = Some (Inr s')" "sp_inv vn n weights s'"
      "\<forall>v i j. 0 \<le> v \<and> v \<notin> set vs \<longrightarrow> below n i \<longrightarrow> below n j \<longrightarrow> dget (fst s') v i j = dget (fst s1) v i j"
      "\<forall>v\<in>set vs. \<forall>i j. below n i \<longrightarrow> below n j \<longrightarrow> triangle n (dget (fst s') v) i j"
    using Cons.IH [OF _ a(2)] Cons.prems by auto
  have "triangle n (dget (fst s') v) i j" if ij: "below n i" "below n j" for i j
  proof -
    have same: "\<And>i j. below n i \<Longrightarrow> below n j \<Longrightarrow> dget (fst s') v i j = dget (fst s1) v i j"
      using b(3) v Cons.prems(3) by (simp add: below_def)
    have "triangle n (dget (fst s1) v) i j" using a(4) ij by blast
    then show ?thesis using same ij by (simp add: triangle_def)
  qed
  moreover have "dget (fst s') w i j = dget (fst s) w i j" if "0 \<le> w" "w \<notin> set (v # vs)" "below n i" "below n j" for w i j
    using b(3) a(3) that by (simp add: lowered_def)
  ultimately show ?case using a(1) b by auto
qed

section \<open>The distances are least\<close>

definition least_walks :: "int \<Rightarrow> (int \<Rightarrow> int \<Rightarrow> int) \<Rightarrow> (int \<Rightarrow> int \<Rightarrow> int) \<Rightarrow> bool" where
  "least_walks n W D =
     (\<forall>i j. below n i \<longrightarrow> below n j \<longrightarrow>
        (\<exists>p. is_walk n i j p \<and> walk_weight W p = D i j) \<and> (\<forall>p. is_walk n i j p \<longrightarrow> D i j \<le> walk_weight W p))"

lemma triangle_walk:
  assumes tri: "\<forall>i j. below n i \<longrightarrow> below n j \<longrightarrow> triangle n D i j"
    and le: "\<forall>i j. below n i \<longrightarrow> below n j \<longrightarrow> D i j \<le> W i j" and diag: "\<forall>i. below n i \<longrightarrow> W i i = 0"
    and p: "p \<noteq> []" "\<forall>x\<in>set p. below n x"
  shows "D (hd p) (last p) \<le> walk_weight W p"
  using p
proof (induction p rule: induct_list012)
  case 1
  then show ?case by simp
next
  case (2 x)
  then have "D x x \<le> W x x" using le by simp
  then show ?case using diag 2 by simp
next
  case (3 x y p)
  let ?z = "last (y # p)"
  have "?z \<in> set (x # y # p)" using last_in_set [of "y # p"] by simp
  then have z: "below n ?z" using 3(4) by blast
  have "D x ?z \<le> D x y + D y ?z" using tri 3(4) z by (simp add: triangle_def)
  moreover have "D x y \<le> W x y" using le 3(4) by simp
  moreover have "D y ?z \<le> walk_weight W (y # p)" using 3(2) 3(4) by simp
  ultimately show ?case by simp
qed

definition zero_diag :: "int \<Rightarrow> int \<Rightarrow> matrix \<Rightarrow> bool" where
  "zero_diag vn n weights = (\<forall>v\<in>set [0..vn - 1]. \<forall>i\<in>set [0..n - 1]. dget weights v i i = 0)"

lemma shortest_path_least:
  assumes sh: "msize vn n n weights" "msize n n vn lat" "msize n n vn isws" and vn: "0 < vn"
    and w: "nonneg vn n weights" "zero_diag vn n weights"
  shows "\<exists>dist lat' isws'. shortest_path vn weights lat isws = Some (Inr (dist, lat', isws')) \<and> msize vn n n dist \<and>
    (\<forall>v. below vn v \<longrightarrow> least_walks n (dget weights v) (dget dist v))"
proof -
  have self: "walks_ok n W W" if "\<forall>i. below n i \<longrightarrow> W i i = 0" for W
    unfolding walks_ok_def
  proof (intro allI impI conjI)
    show "\<exists>p. is_walk n i j p \<and> walk_weight W p = W i j" if "below n i" "below n j" for i j
      using that by (intro exI [of _ "[i, j]"]) (simp add: is_walk_def)
  qed simp
  have inv: "sp_inv vn n weights (weights, lat, isws)"
    using sh self w(2) by (auto simp: sp_inv_def zero_diag_def below_def)
  have b0: "below vn 0" using vn by (simp add: below_def)
  have d0: "vget weights 0 = Inr (weights ! 0)" "int (length (weights ! 0)) = n"
    using msize_lengths [OF sh(1) b0] by (simp_all add: vget_ok)
  obtain s' where r: "relax_vnets n [0..vn - 1] (weights, lat, isws) = Some (Inr s')" "sp_inv vn n weights s'"
      "\<forall>v\<in>set [0..vn - 1]. \<forall>i j. below n i \<longrightarrow> below n j \<longrightarrow> triangle n (dget (fst s') v) i j"
    using relax_vnets_ok [OF w(1) _ inv, of "[0..vn - 1]"] by (auto simp: below_def)
  obtain dist lat' isws' where s': "s' = (dist, lat', isws')" by (cases s') auto
  have "least_walks n (dget weights v) (dget dist v)" if v: "below vn v" for v
  proof -
    have ok: "walks_ok n (dget weights v) (dget dist v)" using r(2) v by (simp add: sp_inv_def s')
    have "dget dist v i j \<le> walk_weight (dget weights v) p" if p: "is_walk n i j p" for i j p
      using triangle_walk [of n "dget dist v" "dget weights v" p] ok r(3) w(2) v p
      by (auto simp: s' walks_ok_def zero_diag_def is_walk_def below_def)
    then show ?thesis using ok by (auto simp: least_walks_def walks_ok_def)
  qed
  moreover have "shortest_path vn weights lat isws = Some (Inr (dist, lat', isws'))"
    using d0 r(1) by (simp add: shortest_path_def extend_shortest_path_def s')
  moreover have "msize vn n n dist" using r(2) by (simp add: sp_inv_def s')
  ultimately show ?thesis by blast
qed

section \<open>Following the links of a routing table\<close>

lemma walk_leaves:
  assumes "\<forall>i. below n i \<longrightarrow> W i i = 0" "is_walk n x z p" "x \<noteq> z"
  shows "\<exists>y q. below n y \<and> y \<noteq> x \<and> is_walk n y z q \<and> W x y + walk_weight W q = walk_weight W p"
  using assms(2)
proof (induction p rule: induct_list012)
  case 1
  then show ?case by (simp add: is_walk_def)
next
  case (2 a)
  then show ?case using assms(3) by (simp add: is_walk_def)
next
  case (3 a y p)
  then have a: "a = x" and w: "is_walk n y z (y # p)" and y: "below n x" "below n y" by (auto simp: is_walk_def)
  show ?case
  proof (cases "y = x")
    case True
    then have "\<exists>y' q. below n y' \<and> y' \<noteq> x \<and> is_walk n y' z q \<and> W x y' + walk_weight W q = walk_weight W (y # p)"
      using 3(2) w by blast
    then show ?thesis using a True assms(1) y by simp
  next
    case False
    then show ?thesis using a w y by (intro exI [of _ y] exI [of _ "y # p"]) simp
  qed
qed

lemma least_walks_nonneg:
  assumes "least_walks n W D" "\<And>x y. below n x \<Longrightarrow> below n y \<Longrightarrow> 0 \<le> W x y" "below n i" "below n j"
  shows "0 \<le> D i j"
proof -
  obtain p where "is_walk n i j p" "walk_weight W p = D i j" using assms(1,3,4) unfolding least_walks_def by blast
  then show ?thesis using walk_weight_nonneg [of n W p] assms(2) by (simp add: is_walk_def)
qed

lemma shortest_link_exists:
  assumes least: "least_walks n W D" and diag: "\<forall>i. below n i \<longrightarrow> W i i = 0" and x: "below n x" "below n z" "x \<noteq> z"
  shows "\<exists>y. below n y \<and> y \<noteq> x \<and> W x y + D y z = D x z"
proof -
  obtain p where p: "is_walk n x z p" "walk_weight W p = D x z" using least x unfolding least_walks_def by blast
  obtain y q where y: "below n y" "y \<noteq> x" "is_walk n y z q" "W x y + walk_weight W q = D x z"
    using walk_leaves [where W = W, OF diag p(1) x(3)] p(2) by metis
  have "D y z \<le> walk_weight W q" using least y(1,3) x(2) unfolding least_walks_def by blast
  moreover obtain q' where q': "is_walk n y z q'" "walk_weight W q' = D y z"
    using least y(1) x(2) unfolding least_walks_def by blast
  moreover have "D x z \<le> walk_weight W (x # q')"
  proof -
    have "is_walk n x z (x # q')" using q'(1) x(1) by (auto simp: is_walk_def)
    then show ?thesis using least x unfolding least_walks_def by blast
  qed
  moreover have "walk_weight W (x # q') = W x y + walk_weight W q'" using q'(1) by (cases q') (auto simp: is_walk_def)
  ultimately show ?thesis using y by (intro exI [of _ y]) linarith
qed

lemma follow_reaches:
  assumes least: "least_walks n W D" and pos: "\<And>x y. below n x \<Longrightarrow> below n y \<Longrightarrow> 0 \<le> W x y"
    and pick: "\<And>x. below n x \<Longrightarrow> x \<noteq> z \<Longrightarrow> D x z < lim \<Longrightarrow> below n (pick x) \<and> 0 < W x (pick x) \<and> W x (pick x) + D (pick x) z = D x z"
    and x: "below n x" "below n z" "D x z < lim"
  shows "\<exists>k\<le>nat (D x z). (pick ^^ k) x = z"
  using x(1,3)
proof (induction "nat (D x z)" arbitrary: x rule: less_induct)
  case less
  show ?case
  proof (cases "x = z")
    case True
    then show ?thesis by (intro exI [of _ 0]) simp
  next
    case False
    have p: "below n (pick x)" "0 < W x (pick x)" "W x (pick x) + D (pick x) z = D x z" using pick less.prems False by auto
    have nn: "0 \<le> D (pick x) z" using least_walks_nonneg [OF least pos p(1) x(2)] by simp
    have lt: "nat (D (pick x) z) < nat (D x z)" using p nn by linarith
    obtain k where k: "k \<le> nat (D (pick x) z)" "(pick ^^ k) (pick x) = z"
      using less.hyps [OF lt p(1)] p less.prems(2) by auto
    moreover have "Suc k \<le> nat (D x z)" using k(1) lt by linarith
    ultimately show ?thesis by (intro exI [of _ "Suc k"]) (simp add: funpow_swap1)
  qed
qed

section \<open>Routing entries\<close>

lemma Set_setSize_empty: "0 \<le> c \<Longrightarrow> c \<le> int nb \<Longrightarrow>
    \<exists>t. Set_setSize nb c s = Inr t \<and> Set_wf nb t \<and> m_nSize t = c \<and> Set_elems t = {}"
  by (auto simp: Set_setSize_def Set_wf_def Set_elems_def nat_less_iff)

lemma Sets_of_sizes_empty:
  assumes "\<forall>c\<in>set cs. 0 \<le> c \<and> c \<le> int nb"
  shows "\<exists>ss. Sets_of_sizes nb cs = Inr ss \<and> list_all2 (\<lambda>s c. Set_wf nb s \<and> m_nSize s = c \<and> Set_elems s = {}) ss cs"
  using assms
proof (induction cs)
  case Nil
  then show ?case by simp
next
  case (Cons c cs)
  then obtain s ss where "Set_setSize nb c \<lparr>m_nSize = 0, bits = replicate nb False\<rparr> = Inr s" "Set_wf nb s \<and> m_nSize s = c \<and> Set_elems s = {}" "Sets_of_sizes nb cs = Inr ss"
      "list_all2 (\<lambda>s c. Set_wf nb s \<and> m_nSize s = c \<and> Set_elems s = {}) ss cs"
    using Set_setSize_empty [of c nb "\<lparr>m_nSize = 0, bits = replicate nb False\<rparr>"] by auto
  then show ?case by simp
qed

text \<open>A new destination set is empty, over the machines of the configuration.\<close>

lemma NetDest_new_empty:
  assumes "\<forall>c\<in>set cs. 0 \<le> c \<and> c \<le> int nb"
  shows "\<exists>d. NetDest_new nb cs = Inr d \<and> NetDest_compat nb d d \<and> NetDest_elems d = {} \<and>
    NetDest_univ d = {m. 0 \<le> mach_type m \<and> mach_type m < int (length cs) \<and> 0 \<le> mach_num m \<and> mach_num m < cs ! nat (mach_type m)}"
proof -
  obtain ss where ss: "Sets_of_sizes nb cs = Inr ss" "list_all2 (\<lambda>s c. Set_wf nb s \<and> m_nSize s = c \<and> Set_elems s = {}) ss cs"
    using Sets_of_sizes_empty [OF assms] by blast
  then have len: "length ss = length cs" by (simp add: list_all2_lengthD)
  have nth: "Set_wf nb (ss ! i)" "m_nSize (ss ! i) = cs ! i" "Set_elems (ss ! i) = {}" if "i < length cs" for i
    using list_all2_nthD2 [OF ss(2) that] by simp_all
  have "NetDest_compat nb \<lparr>m_bits = ss\<rparr> \<lparr>m_bits = ss\<rparr>"
    using nth len by (simp add: NetDest_compat_def list_all2_conv_all_nth Set_compat_def)
  moreover have "NetDest_elems \<lparr>m_bits = ss\<rparr> = {}" using nth(3) len by (auto simp: NetDest_elems_def nat_less_iff)
  moreover have "NetDest_univ \<lparr>m_bits = ss\<rparr> =
      {m. 0 \<le> mach_type m \<and> mach_type m < int (length cs) \<and> 0 \<le> mach_num m \<and> mach_num m < cs ! nat (mach_type m)}"
    using nth(2) len by (auto simp: NetDest_univ_def Set_univ_def nat_less_iff)
  ultimately show ?thesis using ss(1) by (simp add: NetDest_new_def)
qed

definition machines_of :: "int list \<Rightarrow> machine_id list" where
  "machines_of cs = concat (map (\<lambda>m. map (\<lambda>i. \<lparr>mach_type = m, mach_num = i\<rparr>) [0..cs ! nat m - 1]) [0..int (length cs) - 1])"

lemma map_res_Inr: "\<forall>x\<in>set xs. f x = Inr (g x) \<Longrightarrow> map_res f xs = Inr (map g xs)"
  by (induction xs) simp_all

lemma all_machines_eq: "all_machines cs = Inr (machines_of cs)"
proof -
  have "map_res (\<lambda>m. rbind (MachineType_base_count cs m) (\<lambda>n.
      Inr (map (\<lambda>i. \<lparr>mach_type = m, mach_num = i\<rparr>) [0..n - 1]))) [0..MachineType_NUM cs - 1] =
    Inr (map (\<lambda>m. map (\<lambda>i. \<lparr>mach_type = m, mach_num = i\<rparr>) [0..cs ! nat m - 1]) [0..MachineType_NUM cs - 1])"
    by (rule map_res_Inr) (auto simp: MachineType_base_count_def MachineType_NUM_def)
  then show ?thesis by (simp add: all_machines_def machines_of_def MachineType_NUM_def)
qed

lemma machines_of_set: "set (machines_of cs) =
    {m. 0 \<le> mach_type m \<and> mach_type m < int (length cs) \<and> 0 \<le> mach_num m \<and> mach_num m < cs ! nat (mach_type m)}"
proof (rule set_eqI)
  fix m :: machine_id
  show "m \<in> set (machines_of cs) \<longleftrightarrow> m \<in> {m. 0 \<le> mach_type m \<and> mach_type m < int (length cs) \<and> 0 \<le> mach_num m \<and> mach_num m < cs ! nat (mach_type m)}"
    by (cases m) (auto simp: machines_of_def image_iff)
qed

lemma add_shortest_loop:
  assumes shape: "msize vn n n weights" "msize vn n n dist" and v: "below vn v" "below n src" "below n nxt"
    and c: "NetDest_compat nb r r" and ms: "set ms \<subseteq> NetDest_univ r" and d: "0 \<le> d + mm" "d + mm + int (length ms) \<le> n"
  shows "\<exists>r'. rfold (add_if_shortest mm src nxt weights dist v) ms (r, d) = Inr (r', d + int (length ms)) \<and>
    NetDest_compat nb r r' \<and> NetDest_elems r' = NetDest_elems r \<union>
      {ms ! k | k. k < length ms \<and> dget weights v src nxt + dget dist v nxt (d + int k + mm) = dget dist v src (d + int k + mm)}"
  using c ms d
proof (induction ms arbitrary: r d)
  case Nil
  then show ?case by auto
next
  case (Cons m ms)
  let ?P = "\<lambda>f. dget weights v src nxt + dget dist v nxt f = dget dist v src f"
  have b: "below n (d + mm)" using Cons.prems(3,4) by (simp add: below_def)
  have l: "link_is_shortest_path_to_node src nxt (d + mm) weights dist v = Inr (?P (d + mm))"
    using mget_ok [OF shape(1) v] mget_ok [OF shape(2) v(1,3) b] mget_ok [OF shape(2) v(1,2) b]
    by (simp add: link_is_shortest_path_to_node_def)
  obtain r1 where r1: "(if ?P (d + mm) then NetDest_add m r else Inr r) = Inr r1" "NetDest_compat nb r r1"
      "NetDest_elems r1 = NetDest_elems r \<union> (if ?P (d + mm) then {m} else {})"
    using nd.add_spec [OF Cons.prems(1), of m] Cons.prems(1,2) by (cases "?P (d + mm)") auto
  have c1: "NetDest_compat nb r1 r1" "set ms \<subseteq> NetDest_univ r1"
    using r1(2) Cons.prems(2) nd.compat_univ [OF r1(2)] nd.compat_refl [OF nd.compat_sym [OF r1(2)]] by auto
  obtain r' where r': "rfold (add_if_shortest mm src nxt weights dist v) ms (r1, d + 1) = Inr (r', d + 1 + int (length ms))"
      "NetDest_compat nb r1 r'" "NetDest_elems r' = NetDest_elems r1 \<union> {ms ! k | k. k < length ms \<and> ?P (d + 1 + int k + mm)}"
    using Cons.IH [OF c1, of "d + 1"] Cons.prems(3,4) by (auto simp: algebra_simps)
  have "rfold (add_if_shortest mm src nxt weights dist v) (m # ms) (r, d) = Inr (r', d + int (length (m # ms)))"
    using l r1(1) r'(1) by (simp add: add_if_shortest_def algebra_simps)
  moreover have "{(m # ms) ! k | k. k < length (m # ms) \<and> ?P (d + int k + mm)} =
      (if ?P (d + mm) then {m} else {}) \<union> {ms ! k | k. k < length ms \<and> ?P (d + 1 + int k + mm)}" (is "?A = ?B")
  proof (rule set_eqI)
    fix x
    have sh0: "d + int 0 + mm = d + mm" and shS: "d + int (Suc k) + mm = d + 1 + int k + mm" for k by simp_all
    have "x \<in> ?A \<longleftrightarrow> (\<exists>k<length (m # ms). x = (m # ms) ! k \<and> ?P (d + int k + mm))" by auto
    also have "\<dots> \<longleftrightarrow> x = m \<and> ?P (d + mm) \<or> (\<exists>k<length ms. x = ms ! k \<and> ?P (d + 1 + int k + mm))"
      by (simp only: length_Cons Ex_less_Suc2 nth_Cons_0 nth_Cons_Suc sh0 shS)
    finally show "x \<in> ?A \<longleftrightarrow> x \<in> ?B" by auto
  qed
  ultimately show ?case using r'(3) r1(2,3) nd.compat_trans [OF r1(2) r'(2)] by (intro exI [of _ r']) auto
qed

text \<open>The node number of a machine: the machines before its type, and its number.\<close>

definition node_of :: "int list \<Rightarrow> machine_id \<Rightarrow> int" where
  "node_of cs m = sum_list (take (nat (mach_type m)) cs) + mach_num m"

definition config_ok :: "nat \<Rightarrow> int list \<Rightarrow> bool" where
  "config_ok nb cs = (\<forall>c\<in>set cs. 0 \<le> c \<and> c \<le> int nb)"

definition is_machine :: "int list \<Rightarrow> machine_id \<Rightarrow> bool" where
  "is_machine cs m = (0 \<le> mach_type m \<and> mach_type m < int (length cs) \<and> 0 \<le> mach_num m \<and> mach_num m < cs ! nat (mach_type m))"

lemma machines_prefix:
  assumes "\<forall>c\<in>set cs. 0 \<le> c" "t \<le> length cs"
  shows "let ms = concat (map (\<lambda>m. map (\<lambda>i. \<lparr>mach_type = m, mach_num = i\<rparr>) [0..cs ! nat m - 1]) [0..int t - 1]) in
    int (length ms) = sum_list (take t cs) \<and> (\<forall>k<length ms. node_of cs (ms ! k) = int k)"
  using assms(2)
proof (induction t)
  case 0
  then show ?case by simp
next
  case (Suc t)
  let ?F = "\<lambda>m. map (\<lambda>i. \<lparr>mach_type = m, mach_num = i\<rparr>) [0..cs ! nat m - 1]"
  let ?ms = "concat (map ?F [0..int t - 1])"
  have ih: "int (length ?ms) = sum_list (take t cs)" "\<forall>k<length ?ms. node_of cs (?ms ! k) = int k"
    using Suc by (simp_all add: Let_def)
  have snoc: "[0..int (Suc t) - 1] = [0..int t - 1] @ [int t]" using upto_rec2 [of 0 "int t"] by simp
  have t: "t < length cs" "0 \<le> cs ! t" using Suc.prems assms(1) by simp_all
  have tk: "sum_list (take (Suc t) cs) = sum_list (take t cs) + cs ! t" using t(1) by (simp add: take_Suc_conv_app_nth)
  have "node_of cs ((?ms @ ?F (int t)) ! k) = int k" if k: "k < length (?ms @ ?F (int t))" for k
  proof (cases "k < length ?ms")
    case True
    then show ?thesis using ih(2) by (simp add: nth_append)
  next
    case False
    have "k < length ?ms + nat (cs ! t)" using k by simp
    then have "0 + int (k - length ?ms) \<le> cs ! t - 1" "k - length ?ms < nat (cs ! t)" using False t(2) by linarith+
    then have "(?ms @ ?F (int t)) ! k = \<lparr>mach_type = int t, mach_num = int (k - length ?ms)\<rparr>"
      using False nth_upto [of 0 "k - length ?ms" "cs ! t - 1"] by (simp add: nth_append)
    then show ?thesis using ih(1) False by (simp add: node_of_def)
  qed
  then show ?case using ih(1) t tk unfolding Let_def snoc by simp
qed

lemma machines_of_nth:
  assumes "config_ok nb cs"
  shows "int (length (machines_of cs)) = sum_list cs" "k < length (machines_of cs) \<Longrightarrow> node_of cs (machines_of cs ! k) = int k"
proof -
  have "int (length (machines_of cs)) = sum_list cs \<and> (\<forall>k<length (machines_of cs). node_of cs (machines_of cs ! k) = int k)"
    using machines_prefix [of cs "length cs"] assms unfolding machines_of_def config_ok_def Let_def by simp
  then show "int (length (machines_of cs)) = sum_list cs" "k < length (machines_of cs) \<Longrightarrow> node_of cs (machines_of cs ! k) = int k"
    by blast+
qed

lemma shortest_path_to_node_elems:
  assumes cfg: "config_ok nb cs" and shape: "msize vn n n weights" "msize vn n n dist"
    and v: "below vn v" "below n src" "below n nxt" and n: "2 * sum_list cs \<le> n"
  shows "\<exists>r. shortest_path_to_node nb cs src nxt weights dist v = Inr r \<and>
    (\<forall>m. m \<in> NetDest_elems r \<longleftrightarrow> is_machine cs m \<and>
      dget weights v src nxt + dget dist v nxt (node_of cs m + sum_list cs) = dget dist v src (node_of cs m + sum_list cs))"
proof -
  let ?P = "\<lambda>f. dget weights v src nxt + dget dist v nxt (f + sum_list cs) = dget dist v src (f + sum_list cs)"
  note len = machines_of_nth [OF cfg]
  obtain d where d: "NetDest_new nb cs = Inr d" "NetDest_compat nb d d" "NetDest_elems d = {}"
      "NetDest_univ d = {m. 0 \<le> mach_type m \<and> mach_type m < int (length cs) \<and> 0 \<le> mach_num m \<and> mach_num m < cs ! nat (mach_type m)}"
    using NetDest_new_empty [of cs nb] cfg by (auto simp: config_ok_def)
  have ms: "set (machines_of cs) \<subseteq> NetDest_univ d" by (simp add: machines_of_set d(4))
  have "0 \<le> sum_list cs" using cfg by (auto simp: config_ok_def intro: sum_list_nonneg)
  then have bnd: "0 \<le> 0 + sum_list cs" "0 + sum_list cs + int (length (machines_of cs)) \<le> n" using len(1) n by linarith+
  obtain r where r: "rfold (add_if_shortest (sum_list cs) src nxt weights dist v) (machines_of cs) (d, 0) =
        Inr (r, 0 + int (length (machines_of cs)))"
      "NetDest_elems r = NetDest_elems d \<union> {machines_of cs ! k | k. k < length (machines_of cs) \<and> ?P (0 + int k)}"
    using add_shortest_loop [OF shape v d(2) ms bnd] by blast
  define P where "P f = ?P f" for f
  have "m \<in> NetDest_elems r \<longleftrightarrow> is_machine cs m \<and> P (node_of cs m)" for m
  proof -
    have "m \<in> NetDest_elems r \<longleftrightarrow> (\<exists>k<length (machines_of cs). m = machines_of cs ! k \<and> P (int k))"
      unfolding r(2) d(3) P_def by auto
    also have "\<dots> \<longleftrightarrow> (\<exists>k<length (machines_of cs). m = machines_of cs ! k) \<and> P (node_of cs m)" using len(2) by auto
    also have "(\<exists>k<length (machines_of cs). m = machines_of cs ! k) \<longleftrightarrow> m \<in> set (machines_of cs)"
      by (auto simp: in_set_conv_nth)
    also have "m \<in> set (machines_of cs) \<longleftrightarrow> is_machine cs m" by (simp add: machines_of_set is_machine_def)
    finally show ?thesis .
  qed
  moreover have "shortest_path_to_node nb cs src nxt weights dist v = Inr r"
    using d(1) r(1) by (simp add: shortest_path_to_node_def all_machines_eq MachineType_base_number_def MachineType_NUM_def)
  ultimately show ?thesis unfolding P_def by blast
qed

section \<open>Properties\<close>

text \<open>
  C7. The shortest-path computation terminates and is right. For weight matrices of matching sizes
  with non-negative entries and a zero diagonal, \<open>Topology::shortest_path\<close> returns (the relaxation
  loop ends and no assertion or index fails), and for every virtual network and every pair of
  switches the computed distance is the weight of some walk between them and at most the weight of
  every walk.
\<close>

theorem shortest_path_correct:
  assumes "msize vn n n weights" "msize n n vn lat" "msize n n vn isws" "0 < vn"
    and "nonneg vn n weights" "zero_diag vn n weights"
  shows "\<exists>dist lat' isws'. shortest_path vn weights lat isws = Some (Inr (dist, lat', isws')) \<and>
    (\<forall>v i j. below vn v \<longrightarrow> below n i \<longrightarrow> below n j \<longrightarrow>
       (\<exists>p. is_walk n i j p \<and> walk_weight (dget weights v) p = dget dist v i j) \<and>
       (\<forall>p. is_walk n i j p \<longrightarrow> dget dist v i j \<le> walk_weight (dget weights v) p))"
  using shortest_path_least [OF assms] unfolding least_walks_def by blast

declare relax_until.simps [code]

definition demo_bl :: "int \<Rightarrow> basic_link" where
  "demo_bl i = \<lparr>bl_id = i, bl_latency = 1, bl_weight = 1, bl_vnets = []\<rparr>"

text \<open>Two controllers at two routers that are connected in both directions.\<close>

definition demo_matrices :: "matrix \<times> matrix \<times> matrix" where
  "demo_matrices =
     (case rbind (Topology_new [2] 2 1 [(demo_bl 0, 0, 0, 0), (demo_bl 1, 0, 1, 1)]
          [(demo_bl 2, 0, 1, ''East'', ''West''), (demo_bl 3, 1, 0, ''West'', ''East'')]) topology_matrices of
        Inr (w, l, s, _) \<Rightarrow> (w, l, s) | Inl _ \<Rightarrow> ([], [], []))"

definition demo_w :: matrix where "demo_w = fst demo_matrices"
definition demo_l :: matrix where "demo_l = fst (snd demo_matrices)"
definition demo_s :: matrix where "demo_s = snd (snd demo_matrices)"

lemma demo_matrices_ok:
  "msize 1 6 6 demo_w" "msize 6 6 1 demo_l" "msize 6 6 1 demo_s" "nonneg 1 6 demo_w" "zero_diag 1 6 demo_w"
  by code_simp+

theorem shortest_path_correct_witness:
  "\<exists>dist lat' isws'. shortest_path 1 demo_w demo_l demo_s = Some (Inr (dist, lat', isws')) \<and>
    dget dist 0 0 3 \<le> walk_weight (dget demo_w 0) [0, 4, 5, 3]"
proof -
  have "is_walk 6 0 3 [0, 4, 5, 3]" "below 1 0" "below 6 0" "below 6 3" by (simp_all add: is_walk_def below_def)
  then show ?thesis
    using shortest_path_correct [OF demo_matrices_ok(1-3) _ demo_matrices_ok(4,5)] by fastforce
qed

definition links_positive :: "int \<Rightarrow> int \<Rightarrow> matrix \<Rightarrow> bool" where
  "links_positive vn n weights =
     (\<forall>v\<in>set [0..vn - 1]. \<forall>i\<in>set [0..n - 1]. \<forall>j\<in>set [0..n - 1]. i \<noteq> j \<longrightarrow> 0 < dget weights v i j)"

text \<open>The link \<open>x \<rightarrow> y\<close> is real, and its routing entry contains the machine.\<close>

definition offers :: "nat \<Rightarrow> int list \<Rightarrow> matrix \<Rightarrow> matrix \<Rightarrow> int \<Rightarrow> machine_id \<Rightarrow> int \<Rightarrow> int \<Rightarrow> bool" where
  "offers nb cs weights dist v m x y =
     (0 < dget weights v x y \<and> dget weights v x y \<noteq> INFINITE_LATENCY \<and>
      (case shortest_path_to_node nb cs x y weights dist v of Inl _ \<Rightarrow> False | Inr r \<Rightarrow> m \<in> NetDest_elems r))"

lemma offers_iff:
  assumes "config_ok nb cs" "msize vn n n weights" "msize vn n n dist" "below vn v" "below n x" "below n y"
    and "2 * sum_list cs \<le> n" "is_machine cs m"
  shows "offers nb cs weights dist v m x y \<longleftrightarrow> 0 < dget weights v x y \<and> dget weights v x y \<noteq> INFINITE_LATENCY \<and>
    dget weights v x y + dget dist v y (node_of cs m + sum_list cs) = dget dist v x (node_of cs m + sum_list cs)"
proof -
  obtain r where r: "shortest_path_to_node nb cs x y weights dist v = Inr r"
      "m \<in> NetDest_elems r \<longleftrightarrow> is_machine cs m \<and>
        dget weights v x y + dget dist v y (node_of cs m + sum_list cs) = dget dist v x (node_of cs m + sum_list cs)"
    using shortest_path_to_node_elems [OF assms(1-7)] by blast
  show ?thesis unfolding offers_def r(1) sum.case r(2) using assms(8) by blast
qed

lemma node_of_below:
  assumes "config_ok nb cs" "is_machine cs m" "2 * sum_list cs \<le> n"
  shows "below n (node_of cs m + sum_list cs)"
proof -
  have "m \<in> set (machines_of cs)" using assms(2) by (simp add: machines_of_set is_machine_def)
  then obtain k where "k < length (machines_of cs)" "m = machines_of cs ! k" by (auto simp: in_set_conv_nth)
  then have "node_of cs m = int k" "int k < sum_list cs" using machines_of_nth [OF assms(1)] by auto
  then show ?thesis using assms(3) by (simp add: below_def)
qed

text \<open>
  C6. Table routing delivers. With positive link weights, at every switch that is connected to a
  machine (at a distance below \<open>INFINITE_LATENCY\<close>) some real link has the machine in the routing
  entry that \<open>shortest_path_to_node\<close> computes for it; and whoever follows such links, choosing among
  them in any way, reaches the machine after at most as many hops as the distance says. In
  particular the routing tables contain no cycles.
\<close>

theorem table_routing_delivers:
  assumes sh: "msize vn n n weights" "msize n n vn lat" "msize n n vn isws" "0 < vn"
    and w: "nonneg vn n weights" "zero_diag vn n weights" "links_positive vn n weights"
    and cfg: "config_ok nb cs" "2 * sum_list cs \<le> n" and v: "below vn v" and m: "is_machine cs m" and x: "below n x"
  shows "\<exists>dist lat' isws'. shortest_path vn weights lat isws = Some (Inr (dist, lat', isws')) \<and>
    (let z = node_of cs m + sum_list cs in dget dist v x z < INFINITE_LATENCY \<longrightarrow>
      (x \<noteq> z \<longrightarrow> (\<exists>y. below n y \<and> offers nb cs weights dist v m x y)) \<and>
      (\<forall>pick. (\<forall>u. below n u \<and> u \<noteq> z \<and> dget dist v u z < INFINITE_LATENCY \<longrightarrow>
          below n (pick u) \<and> offers nb cs weights dist v m u (pick u)) \<longrightarrow>
        (\<exists>k\<le>nat (dget dist v x z). (pick ^^ k) x = z)))"
proof -
  obtain dist lat' isws' where d: "shortest_path vn weights lat isws = Some (Inr (dist, lat', isws'))" "msize vn n n dist"
      "least_walks n (dget weights v) (dget dist v)"
    using shortest_path_least [OF sh w(1,2)] v by blast
  let ?W = "dget weights v" and ?D = "dget dist v"
  define z where "z = node_of cs m + sum_list cs"
  have z: "below n z" unfolding z_def by (rule node_of_below [OF cfg(1) m cfg(2)])
  have nn: "0 \<le> ?W a b" if "below n a" "below n b" for a b using nonnegD [OF w(1) v that] .
  have diag: "\<forall>i. below n i \<longrightarrow> ?W i i = 0" using w(2) v by (simp add: zero_diag_def below_def)
  note off = offers_iff [OF cfg(1) sh(1) d(2) v _ _ cfg(2) m, folded z_def]
  have some: "\<exists>y. below n y \<and> offers nb cs weights dist v m x y" if xz: "x \<noteq> z" "?D x z < INFINITE_LATENCY"
  proof -
    obtain y where y: "below n y" "y \<noteq> x" "?W x y + ?D y z = ?D x z"
      using shortest_link_exists [where W = ?W, OF d(3) diag x z xz(1)] by blast
    have "0 < ?W x y" using w(3) v x y(1,2) by (simp add: links_positive_def below_def)
    moreover have "0 \<le> ?D y z" using least_walks_nonneg [OF d(3) nn y(1) z] .
    ultimately show ?thesis using off [OF x y(1)] y xz(2) by auto
  qed
  have reach: "\<exists>k\<le>nat (?D x z). (pick ^^ k) x = z" if near: "?D x z < INFINITE_LATENCY"
    and p: "\<forall>u. below n u \<and> u \<noteq> z \<and> ?D u z < INFINITE_LATENCY \<longrightarrow> below n (pick u) \<and> offers nb cs weights dist v m u (pick u)" for pick
  proof (rule follow_reaches [where W = ?W and D = ?D, OF d(3) nn _ x z near])
    show "below n (pick u) \<and> 0 < ?W u (pick u) \<and> ?W u (pick u) + ?D (pick u) z = ?D u z"
      if "below n u" "u \<noteq> z" "?D u z < INFINITE_LATENCY" for u
      using p that off [OF that(1), of "pick u"] by blast
  qed
  show ?thesis
    unfolding Let_def z_def [symmetric] using d(1) some reach
    by (intro exI [of _ dist] exI [of _ lat'] exI [of _ isws']) simp
qed

theorem table_routing_delivers_witness:
  "\<exists>dist lat' isws'. shortest_path 1 demo_w demo_l demo_s = Some (Inr (dist, lat', isws')) \<and>
    (\<exists>y. below 6 y \<and> offers 2 [2] demo_w dist 0 \<lparr>mach_type = 0, mach_num = 1\<rparr> 0 y)"
proof -
  let ?m = "\<lparr>mach_type = 0, mach_num = 1\<rparr>"
  have "links_positive 1 6 demo_w" by code_simp
  moreover have "config_ok 2 [2]" "is_machine [2] ?m" "below 1 0" "below 6 0" "node_of [2] ?m + sum_list [2] = 3"
    by (simp_all add: config_ok_def is_machine_def below_def node_of_def)
  ultimately obtain dist lat' isws' where r: "shortest_path 1 demo_w demo_l demo_s = Some (Inr (dist, lat', isws'))"
      "dget dist 0 0 3 < INFINITE_LATENCY \<longrightarrow> (\<exists>y. below 6 y \<and> offers 2 [2] demo_w dist 0 ?m 0 y)"
    using table_routing_delivers [OF demo_matrices_ok(1-3) _ demo_matrices_ok(4,5), of 2 "[2]" 0 ?m 0] by (auto simp: Let_def)
  have "case shortest_path 1 demo_w demo_l demo_s of Some (Inr (dist, _, _)) \<Rightarrow> dget dist 0 0 3 = 3 | _ \<Rightarrow> False"
    by code_simp
  then show ?thesis using r by (simp add: INFINITE_LATENCY_def)
qed

end
