(* ===== verification/Garnet_Counters.thy ===== *)
theory Garnet_Counters
  imports Garnet_Flit
begin

text \<open>
  The part of \<open>GarnetNetwork\<close> (GarnetNetwork.hh/cc) that the network interfaces change through
  their pointer to the network: packet numbers, counters, latencies per phase of a workload, the
  traffic distribution and the state of a trace replay. The parameters of the network are
  \<open>net_params\<close>. The statistics, which the code keeps in \<open>double\<close>s, are integers, a vector of them a
  list with an entry per virtual network. \<open>end_simulation\<close>, which no constructor initialises, is
  optional; a call of \<open>exitSimLoop\<close> is recorded in \<open>exit_requested\<close>. The stream from which the
  trace is read is the text that is still to come; \<open>trace_broken\<close> says that reading ends with an error
  and not at the end of the file.
\<close>

section \<open>Definitions\<close>

record NetworkTraceRecord =
  tr_valid :: bool
  tr_time :: cycles
  tr_src_id :: int
  tr_src_router_id :: int
  tr_dest_id :: int
  tr_dest_router_id :: int
  tr_vnet :: int
  tr_num_flits :: int
  tr_network_idx :: int
  tr_input_idx :: int
  tr_phase_id :: int

type_synonym phase_key = "int \<times> int \<times> int"

record garnet =
  m_trace_enable :: bool
  m_trace_max_packets :: int
  m_packets_received :: "int list"
  m_packets_injected :: "int list"
  m_packet_network_latency :: "int list"
  m_packet_queueing_latency :: "int list"
  m_packet_main_layer_latency :: "tick list"
  m_packet_max_latency :: tick
  m_total_main_layer_pkts :: int
  m_packet_phase_latencies :: "(phase_key \<times> tick list) list"
  m_phase_latency_stats :: "(phase_key \<times> tick) list"
  m_flits_received :: "int list"
  m_flits_injected :: "int list"
  m_flit_network_latency :: "int list"
  m_flit_queueing_latency :: "int list"
  m_total_hops :: int
  m_data_traffic_distribution :: "int list list"
  m_ctrl_traffic_distribution :: "int list list"
  tracefile :: string
  trace_broken :: bool
  trace_next_packet :: NetworkTraceRecord
  trace_num_packets_injected :: int
  trace_num_flits_injected :: int
  trace_num_flits_received :: int
  trace_start_time :: int
  end_simulation :: "bool option"
  exit_requested :: bool
  m_next_packet_id :: int

definition add_at :: "int \<Rightarrow> int \<Rightarrow> int list \<Rightarrow> int list res" where
  "add_at i d xs = vmod xs i (\<lambda>n. Inr (n + d))"

definition increment_injected_packets :: "int \<Rightarrow> garnet \<Rightarrow> garnet res" where
  "increment_injected_packets vnet g =
     rbind (add_at vnet 1 (m_packets_injected g)) (\<lambda>v. Inr (g\<lparr>m_packets_injected := v\<rparr>))"

definition increment_received_packets :: "int \<Rightarrow> garnet \<Rightarrow> garnet res" where
  "increment_received_packets vnet g =
     rbind (add_at vnet 1 (m_packets_received g)) (\<lambda>v. Inr (g\<lparr>m_packets_received := v\<rparr>))"

definition increment_packet_network_latency :: "tick \<Rightarrow> int \<Rightarrow> garnet \<Rightarrow> garnet res" where
  "increment_packet_network_latency latency vnet g =
     rbind (add_at vnet (uint latency) (m_packet_network_latency g)) (\<lambda>v. Inr (g\<lparr>m_packet_network_latency := v\<rparr>))"

definition increment_packet_queueing_latency :: "tick \<Rightarrow> int \<Rightarrow> garnet \<Rightarrow> garnet res" where
  "increment_packet_queueing_latency latency vnet g =
     rbind (add_at vnet (uint latency) (m_packet_queueing_latency g)) (\<lambda>v. Inr (g\<lparr>m_packet_queueing_latency := v\<rparr>))"

definition increment_injected_flits :: "int \<Rightarrow> garnet \<Rightarrow> garnet res" where
  "increment_injected_flits vnet g =
     rbind (add_at vnet 1 (m_flits_injected g)) (\<lambda>v. Inr (g\<lparr>m_flits_injected := v\<rparr>))"

definition increment_received_flits :: "int \<Rightarrow> garnet \<Rightarrow> garnet res" where
  "increment_received_flits vnet g =
     rbind (add_at vnet 1 (m_flits_received g)) (\<lambda>v. Inr (g\<lparr>m_flits_received := v\<rparr>))"

definition increment_flit_network_latency :: "tick \<Rightarrow> int \<Rightarrow> garnet \<Rightarrow> garnet res" where
  "increment_flit_network_latency latency vnet g =
     rbind (add_at vnet (uint latency) (m_flit_network_latency g)) (\<lambda>v. Inr (g\<lparr>m_flit_network_latency := v\<rparr>))"

definition increment_flit_queueing_latency :: "tick \<Rightarrow> int \<Rightarrow> garnet \<Rightarrow> garnet res" where
  "increment_flit_queueing_latency latency vnet g =
     rbind (add_at vnet (uint latency) (m_flit_queueing_latency g)) (\<lambda>v. Inr (g\<lparr>m_flit_queueing_latency := v\<rparr>))"

definition increment_total_hops :: "int \<Rightarrow> garnet \<Rightarrow> garnet" where
  "increment_total_hops hops g = g\<lparr>m_total_hops := m_total_hops g + hops\<rparr>"

definition increment_main_layer_pkts :: "garnet \<Rightarrow> garnet" where
  "increment_main_layer_pkts g = g\<lparr>m_total_main_layer_pkts := m_total_main_layer_pkts g + 1\<rparr>"

definition getNextPacketID :: "garnet \<Rightarrow> int \<times> garnet" where
  "getNextPacketID g = (m_next_packet_id g, g\<lparr>m_next_packet_id := m_next_packet_id g + 1\<rparr>)"

text \<open>\<open>*std::max_element\<close> of a range that is not empty.\<close>

fun max_element :: "tick list \<Rightarrow> tick res" where
  "max_element [] = Inl Undefined"
| "max_element (x # xs) = Inr (foldl max x xs)"

definition add_main_layer_latency :: "tick \<Rightarrow> garnet \<Rightarrow> garnet res" where
  "add_main_layer_latency latency g =
     (let ls = m_packet_main_layer_latency g @ [latency] in
      rbind (max_element ls) (\<lambda>m.
      Inr (g\<lparr>m_packet_main_layer_latency := ls, m_packet_max_latency := m\<rparr>)))"

text \<open>
  \<open>map[key].push_back(latency)\<close> on the ordered map of latencies per phase; the warning that the
  code prints for large keys changes nothing.
\<close>

definition phase_less :: "phase_key \<Rightarrow> phase_key \<Rightarrow> bool" where
  "phase_less = (\<lambda>(a, b, c) (a', b', c'). a < a' \<or> a = a' \<and> (b < b' \<or> b = b' \<and> c < c'))"

fun phase_push :: "phase_key \<Rightarrow> tick \<Rightarrow> (phase_key \<times> tick list) list \<Rightarrow> (phase_key \<times> tick list) list" where
  "phase_push k v [] = [(k, [v])]"
| "phase_push k v ((k', vs) # m) =
     (if k = k' then (k', vs @ [v]) # m else if phase_less k k' then (k, [v]) # (k', vs) # m
      else (k', vs) # phase_push k v m)"

definition add_phase_latency :: "int \<Rightarrow> int \<Rightarrow> int \<Rightarrow> tick \<Rightarrow> garnet \<Rightarrow> garnet" where
  "add_phase_latency network input phase latency g =
     g\<lparr>m_packet_phase_latencies := phase_push (network, input, phase) latency (m_packet_phase_latencies g)\<rparr>"

definition update_traffic_distribution :: "net_params \<Rightarrow> RouteInfo \<Rightarrow> garnet \<Rightarrow> garnet res" where
  "update_traffic_distribution net route g =
     rbind (get_vnet_type net (ri_vnet route)) (\<lambda>ty.
     if ty = DATA_VNET then
       rbind (vmod (m_data_traffic_distribution g) (src_router route) (add_at (dest_router route) 1)) (\<lambda>d.
       Inr (g\<lparr>m_data_traffic_distribution := d\<rparr>))
     else
       rbind (vmod (m_ctrl_traffic_distribution g) (src_router route) (add_at (dest_router route) 1)) (\<lambda>d.
       Inr (g\<lparr>m_ctrl_traffic_distribution := d\<rparr>)))"

definition increment_trace_flits_received :: "garnet \<Rightarrow> garnet res" where
  "increment_trace_flits_received g0 =
     (let g = g0\<lparr>trace_num_flits_received := trace_num_flits_received g0 + 1\<rparr>;
          all_received = (trace_num_flits_received g = trace_num_flits_injected g) in
      rbind (case end_simulation g of None \<Rightarrow> Inl Undefined | Some e \<Rightarrow> Inr e) (\<lambda>ending.
      if (ending \<and> all_received) \<or>
         (0 \<le> m_trace_max_packets g \<and> m_trace_max_packets g < trace_num_packets_injected g \<and> all_received)
      then Inr (g\<lparr>exit_requested := True\<rparr>) else Inr g))"

text \<open>
  The phase latencies in \<open>collateStats\<close>: the greatest latency of a phase is stored in the
  phase's statistic, if there is one.
\<close>

fun set_stat :: "phase_key \<Rightarrow> tick \<Rightarrow> (phase_key \<times> tick) list \<Rightarrow> (phase_key \<times> tick) list" where
  "set_stat k v [] = []"
| "set_stat k v ((k', x) # m) = (if k = k' then (k', v) # m else (k', x) # set_stat k v m)"

definition collate_phase :: "phase_key \<times> tick list \<Rightarrow> garnet \<Rightarrow> garnet res" where
  "collate_phase = (\<lambda>(key, latencies) g.
     if latencies = [] then Inr g
     else rbind (max_element latencies) (\<lambda>max_latency.
       Inr (g\<lparr>m_phase_latency_stats := set_stat key max_latency (m_phase_latency_stats g)\<rparr>)))"

definition collate_phases :: "garnet \<Rightarrow> garnet res" where
  "collate_phases g = rfold collate_phase (m_packet_phase_latencies g) g"

section \<open>Phase latencies\<close>

lemma foldl_max_ge: "x \<le> foldl max x xs \<and> (\<forall>y\<in>set xs. y \<le> foldl max x xs)" for x :: tick
proof (induction xs arbitrary: x)
  case (Cons a xs)
  have "max x a \<le> foldl max (max x a) xs" "\<forall>y\<in>set xs. y \<le> foldl max (max x a) xs" using Cons.IH by blast+
  then show ?case by (simp add: max.bounded_iff)
qed simp

lemma foldl_max_mem: "foldl max x xs \<in> insert x (set xs)" for x :: tick
  by (induction xs arbitrary: x) (auto simp: max_def)

lemma max_element_eq_Inr [res_iff]: "max_element xs = Inr m \<longleftrightarrow> xs \<noteq> [] \<and> m = Max (set xs)"
proof (cases xs)
  case (Cons x ys)
  have "foldl max x ys = Max (set (x # ys))"
    using foldl_max_ge [of x ys] foldl_max_mem [of x ys] by (intro Max_eqI [symmetric]) auto
  then show ?thesis using Cons by auto
qed simp

text \<open>All latencies recorded for a phase, in the order of their arrival.\<close>

definition phase_latencies :: "phase_key \<Rightarrow> garnet \<Rightarrow> tick list" where
  "phase_latencies k g = (case map_of (m_packet_phase_latencies g) k of None \<Rightarrow> [] | Some ls \<Rightarrow> ls)"

lemma phase_less_irrefl: "\<not> phase_less k k"
  by (auto simp: phase_less_def split: prod.splits)

lemma phase_less_trans: "phase_less a b \<Longrightarrow> phase_less b c \<Longrightarrow> phase_less a c"
  by (auto simp: phase_less_def split: prod.splits)

lemma phase_less_total: "k \<noteq> k' \<Longrightarrow> \<not> phase_less k k' \<Longrightarrow> phase_less k' k"
  by (auto simp: phase_less_def split: prod.splits)

definition phases_ok :: "garnet \<Rightarrow> bool" where
  "phases_ok g = (sorted_wrt phase_less (map fst (m_packet_phase_latencies g)) \<and>
     (\<forall>e\<in>set (m_packet_phase_latencies g). snd e \<noteq> []))"

lemma phase_push_keys: "fst ` set (phase_push k v m) = insert k (fst ` set m)"
  by (induction m rule: phase_push.induct) auto

lemma phase_push_sorted:
  "sorted_wrt phase_less (map fst m) \<Longrightarrow> sorted_wrt phase_less (map fst (phase_push k v m))"
proof (induction k v m rule: phase_push.induct)
  case (2 k v k' vs m)
  show ?case
  proof (cases "k = k' \<or> phase_less k k'")
    case True
    then show ?thesis using 2 phase_less_trans by auto
  next
    case False
    then have "phase_less k' k" using phase_less_total by blast
    moreover have "set (map fst (phase_push k v m)) = insert k (set (map fst m))" using phase_push_keys by simp
    ultimately show ?thesis using 2 False by auto
  qed
qed simp

lemma map_of_phase_push:
  "sorted_wrt phase_less (map fst m) \<Longrightarrow>
   map_of (phase_push k v m) = (map_of m)(k \<mapsto> (case map_of m k of None \<Rightarrow> [] | Some vs \<Rightarrow> vs) @ [v])"
proof (induction k v m rule: phase_push.induct)
  case (2 k v k' vs m)
  have "map_of m k = None" if "phase_less k k'"
  proof -
    have "\<forall>y\<in>set (map fst m). phase_less k' y" using "2.prems" by simp
    then have "k \<notin> set (map fst m)" using that phase_less_trans [of k k' k] phase_less_irrefl [of k] by blast
    then show ?thesis by (simp add: map_of_eq_None_iff)
  qed
  moreover have "map_of (phase_push k v m) = (map_of m)(k \<mapsto> (case map_of m k of None \<Rightarrow> [] | Some vs \<Rightarrow> vs) @ [v])"
    if "k \<noteq> k'" "\<not> phase_less k k'" by (rule "2.IH" [OF that]) (use "2.prems" in simp)
  ultimately show ?case by (cases "k = k'") (auto simp: fun_upd_twist)
qed (simp add: fun_eq_iff)

lemma phase_push_nonempty: "\<forall>e\<in>set m. snd e \<noteq> [] \<Longrightarrow> \<forall>e\<in>set (phase_push k v m). snd e \<noteq> []"
  by (induction k v m rule: phase_push.induct) auto

lemma add_phase_latency_ok: "phases_ok g \<Longrightarrow> phases_ok (add_phase_latency a b c l g)"
  using phase_push_nonempty [of "m_packet_phase_latencies g"] phase_push_sorted [of "m_packet_phase_latencies g"]
  unfolding phases_ok_def add_phase_latency_def by simp

lemma phase_latencies_add:
  "phases_ok g \<Longrightarrow> phase_latencies k (add_phase_latency a b c l g) =
     phase_latencies k g @ (if k = (a, b, c) then [l] else [])"
  by (auto simp: phase_latencies_def add_phase_latency_def phases_ok_def map_of_phase_push split: option.splits)

lemma map_of_set_stat: "map_of (set_stat k v m) k' = (if k' = k \<and> map_of m k \<noteq> None then Some v else map_of m k')"
  by (induction m) auto

lemma collate_phase_eq:
  "ls \<noteq> [] \<Longrightarrow> collate_phase (k, ls) g = Inr (g\<lparr>m_phase_latency_stats := set_stat k (Max (set ls)) (m_phase_latency_stats g)\<rparr>)"
  using max_element_eq_Inr [of ls "Max (set ls)"] by (simp add: collate_phase_def)

lemma collate_phases_loop:
  assumes "\<forall>e\<in>set m. snd e \<noteq> []" "distinct (map fst m)"
  shows "\<exists>g'. rfold collate_phase m g = Inr g' \<and>
    (\<forall>k. map_of (m_phase_latency_stats g') k =
      (case map_of m k of
         Some ls \<Rightarrow> if map_of (m_phase_latency_stats g) k = None then None else Some (Max (set ls))
       | None \<Rightarrow> map_of (m_phase_latency_stats g) k))"
  using assms
proof (induction m arbitrary: g)
  case Nil
  then show ?case by simp
next
  case (Cons e m)
  obtain k ls where e: "e = (k, ls)" by fastforce
  let ?g = "g\<lparr>m_phase_latency_stats := set_stat k (Max (set ls)) (m_phase_latency_stats g)\<rparr>"
  have c: "collate_phase e g = Inr ?g" using collate_phase_eq Cons.prems e by simp
  from Cons.IH [of ?g] Cons.prems obtain g' where g': "rfold collate_phase m ?g = Inr g'"
    "\<forall>k. map_of (m_phase_latency_stats g') k =
      (case map_of m k of
         Some ls \<Rightarrow> if map_of (m_phase_latency_stats ?g) k = None then None else Some (Max (set ls))
       | None \<Rightarrow> map_of (m_phase_latency_stats ?g) k)" by auto
  have n: "map_of m k = None" using Cons.prems(2) e by (simp add: map_of_eq_None_iff)
  show ?case using c g' n by (intro exI [of _ g']) (auto simp: e map_of_set_stat split: option.splits)
qed

lemma sorted_phases_distinct: "sorted_wrt phase_less ks \<Longrightarrow> distinct ks"
proof (induction ks)
  case (Cons a ks)
  have "\<forall>y\<in>set ks. phase_less a y" "sorted_wrt phase_less ks" using Cons.prems by simp_all
  moreover have "a \<notin> set ks" using \<open>\<forall>y\<in>set ks. phase_less a y\<close> phase_less_irrefl [of a] by blast
  ultimately show ?case using Cons.IH by simp
qed simp

lemma collate_phases_max:
  assumes "phases_ok g"
  shows "\<exists>g'. collate_phases g = Inr g' \<and>
    (\<forall>k. map_of (m_phase_latency_stats g) k \<noteq> None \<longrightarrow> phase_latencies k g \<noteq> [] \<longrightarrow>
       map_of (m_phase_latency_stats g') k = Some (Max (set (phase_latencies k g))))"
proof -
  have "distinct (map fst (m_packet_phase_latencies g))"
    using assms sorted_phases_distinct by (simp add: phases_ok_def)
  then obtain g' where "rfold collate_phase (m_packet_phase_latencies g) g = Inr g'"
    "\<forall>k. map_of (m_phase_latency_stats g') k =
      (case map_of (m_packet_phase_latencies g) k of
         Some ls \<Rightarrow> if map_of (m_phase_latency_stats g) k = None then None else Some (Max (set ls))
       | None \<Rightarrow> map_of (m_phase_latency_stats g) k)"
    using collate_phases_loop [of "m_packet_phase_latencies g" g] assms unfolding phases_ok_def by blast
  then show ?thesis unfolding collate_phases_def phase_latencies_def
    by (intro exI [of _ g']) (simp split: option.splits)
qed

text \<open>A run of reports, each with its phase and latency.\<close>

definition report_all :: "(phase_key \<times> tick) list \<Rightarrow> garnet \<Rightarrow> garnet" where
  "report_all rs g = foldl (\<lambda>g ((a, b, c), l). add_phase_latency a b c l g) g rs"

lemma report_all_latencies:
  "phases_ok g \<Longrightarrow> phases_ok (report_all rs g) \<and>
     phase_latencies k (report_all rs g) = phase_latencies k g @ map snd (filter (\<lambda>r. fst r = k) rs) \<and>
     m_phase_latency_stats (report_all rs g) = m_phase_latency_stats g"
proof (induction rs arbitrary: g)
  case (Cons r rs)
  obtain a b c l where r: "r = ((a, b, c), l)" by (metis prod.exhaust)
  have "report_all (r # rs) g = report_all rs (add_phase_latency a b c l g)" by (simp add: report_all_def r)
  then show ?case using Cons.IH [of "add_phase_latency a b c l g"] Cons.prems
    by (auto simp: add_phase_latency_ok phase_latencies_add r) (simp add: add_phase_latency_def)
qed (simp add: report_all_def)

text \<open>
  C25. The latency reported for a phase is the greatest one. However the latencies of packets of
  different networks, inputs and phases arrive, after \<open>collateStats\<close> the statistic of every
  registered phase that a packet was reported for is the maximum of the latencies reported for
  that phase, and of no other.
\<close>

theorem phase_latency_is_maximum:
  assumes "m_packet_phase_latencies g = []"
    and "map_of (m_phase_latency_stats g) k \<noteq> None" and "filter (\<lambda>r. fst r = k) rs \<noteq> []"
  shows "\<exists>g'. collate_phases (report_all rs g) = Inr g' \<and>
    map_of (m_phase_latency_stats g') k = Some (Max (snd ` {r \<in> set rs. fst r = k}))"
proof -
  have ok: "phases_ok g" "phase_latencies k g = []" using assms(1) by (simp_all add: phases_ok_def phase_latencies_def)
  note r = report_all_latencies [OF ok(1), of rs k]
  have "set (phase_latencies k (report_all rs g)) = snd ` {r \<in> set rs. fst r = k}" using r ok(2) by auto
  moreover have "phase_latencies k (report_all rs g) \<noteq> []" using r ok(2) assms(3) by simp
  moreover obtain g' where "collate_phases (report_all rs g) = Inr g'"
      "\<forall>k. map_of (m_phase_latency_stats (report_all rs g)) k \<noteq> None \<longrightarrow> phase_latencies k (report_all rs g) \<noteq> [] \<longrightarrow>
       map_of (m_phase_latency_stats g') k = Some (Max (set (phase_latencies k (report_all rs g))))"
    using collate_phases_max r by blast
  moreover have "m_phase_latency_stats (report_all rs g) = m_phase_latency_stats g" using r by blast
  ultimately show ?thesis using assms(2) by metis
qed

definition demo_record :: NetworkTraceRecord where
  "demo_record = \<lparr>tr_valid = False, tr_time = 0, tr_src_id = -1, tr_src_router_id = 0, tr_dest_id = -1,
     tr_dest_router_id = 0, tr_vnet = 0, tr_num_flits = 0, tr_network_idx = 0, tr_input_idx = 0, tr_phase_id = 0\<rparr>"

definition demo_garnet :: garnet where
  "demo_garnet = \<lparr>m_trace_enable = True, m_trace_max_packets = -1, m_packets_received = [0, 0],
     m_packets_injected = [0, 0], m_packet_network_latency = [0, 0], m_packet_queueing_latency = [0, 0],
     m_packet_main_layer_latency = [], m_packet_max_latency = 0, m_total_main_layer_pkts = 0,
     m_packet_phase_latencies = [], m_phase_latency_stats = [((0, 0, 0), 0), ((0, 0, 1), 0)],
     m_flits_received = [0, 0], m_flits_injected = [0, 0], m_flit_network_latency = [0, 0],
     m_flit_queueing_latency = [0, 0], m_total_hops = 0, m_data_traffic_distribution = [[0, 0], [0, 0]],
     m_ctrl_traffic_distribution = [[0, 0], [0, 0]], tracefile = [], trace_broken = False,
     trace_next_packet = demo_record, trace_num_packets_injected = 0, trace_num_flits_injected = 0,
     trace_num_flits_received = 0, trace_start_time = 0, end_simulation = Some False,
     exit_requested = False, m_next_packet_id = 0\<rparr>"

theorem phase_latency_is_maximum_witness:
  "\<exists>g'. collate_phases (report_all [((0, 0, 1), 5), ((0, 0, 0), 9), ((0, 0, 1), 7)] demo_garnet) = Inr g' \<and>
    map_of (m_phase_latency_stats g') (0, 0, 1) = Some 7"
proof -
  have "snd ` {r \<in> set [((0, 0, 1), 5), ((0, 0, 0), 9), ((0, 0, 1), 7)]. fst r = (0::int, 0::int, 1::int)} = {5, 7 :: tick}"
    unfolding set_filter [symmetric] by simp
  moreover have "Max {5, 7 :: tick} = 7" by (simp add: max_def)
  ultimately show ?thesis
    using phase_latency_is_maximum [of demo_garnet "(0, 0, 1)" "[((0, 0, 1), 5), ((0, 0, 0), 9), ((0, 0, 1), 7)]"]
    by (auto simp: demo_garnet_def)
qed

section \<open>The end of a trace replay\<close>

text \<open>What a run of received flits does once the end of the trace has been seen.\<close>

lemma received_flits:
  assumes "end_simulation g = Some True"
  shows "\<exists>g'. rfold (\<lambda>_. increment_trace_flits_received) (replicate n ()) g = Inr g' \<and>
    end_simulation g' = Some True \<and> trace_num_flits_received g' = trace_num_flits_received g + int n \<and>
    trace_num_flits_injected g' = trace_num_flits_injected g \<and>
    (exit_requested g' \<longleftrightarrow> exit_requested g \<or>
       trace_num_flits_received g < trace_num_flits_injected g \<and>
       trace_num_flits_injected g \<le> trace_num_flits_received g + int n)"
  using assms
proof (induction n arbitrary: g)
  case (Suc n)
  obtain g1 where g1: "increment_trace_flits_received g = Inr g1" "end_simulation g1 = Some True"
    "trace_num_flits_received g1 = trace_num_flits_received g + 1" "trace_num_flits_injected g1 = trace_num_flits_injected g"
    "exit_requested g1 \<longleftrightarrow> exit_requested g \<or> trace_num_flits_received g + 1 = trace_num_flits_injected g"
    using Suc.prems by (cases "trace_num_flits_received g + 1 = trace_num_flits_injected g")
      (auto simp: increment_trace_flits_received_def Let_def)
  from Suc.IH [OF g1(2)] show ?case using g1 by auto
qed auto

text \<open>
  C26. A replay that has read its whole trace ends with the last flit and not before. If the end of
  the trace has been seen while flits are still under way, then after any number of further
  receptions the end of the simulation has been requested exactly if as many flits have been
  received as were injected.
\<close>

theorem replay_ends_with_last_flit:
  assumes "end_simulation g = Some True" "\<not> exit_requested g"
    and "trace_num_flits_received g < trace_num_flits_injected g"
  shows "\<exists>g'. rfold (\<lambda>_. increment_trace_flits_received) (replicate n ()) g = Inr g' \<and>
    (exit_requested g' \<longleftrightarrow> trace_num_flits_injected g' \<le> trace_num_flits_received g')"
  using received_flits [OF assms(1), of n] assms(2,3) by auto

theorem replay_ends_with_last_flit_witness:
  "\<exists>g'. rfold (\<lambda>_. increment_trace_flits_received) (replicate 2 ())
      (demo_garnet\<lparr>end_simulation := Some True, trace_num_flits_injected := 2\<rparr>) = Inr g' \<and>
    (exit_requested g' \<longleftrightarrow> trace_num_flits_injected g' \<le> trace_num_flits_received g')"
  by (rule replay_ends_with_last_flit) (simp_all add: demo_garnet_def)

end
