(* ===== verification/Garnet_Heap.thy ===== *)
theory Garnet_Heap
  imports Garnet_Prelude
begin

text \<open>
  The heap functions of the C++ standard library that \<open>MessageBuffer\<close> calls on its vector of
  messages, \<open>std::push_heap\<close> and \<open>std::pop_heap\<close> with a comparison \<open>gt\<close> (here
  \<open>std::greater\<close>, so that the least element is at the front). The standard fixes what they
  guarantee and not which heap they build: the executable definitions below are one
  implementation, on a vector in which the children of index \<open>i\<close> are at \<open>2 * i + 1\<close> and
  \<open>2 * i + 2\<close>. The locale \<open>heap_ops\<close> is the guarantee; clients rely on nothing else.
\<close>

section \<open>Definitions\<close>

definition parent :: "nat \<Rightarrow> nat" where
  "parent i = (i - 1) div 2"

definition swap_at :: "nat \<Rightarrow> nat \<Rightarrow> 'a list \<Rightarrow> 'a list" where
  "swap_at i j xs = xs[i := xs ! j, j := xs ! i]"

function sift_up :: "('a \<Rightarrow> 'a \<Rightarrow> bool) \<Rightarrow> nat \<Rightarrow> 'a list \<Rightarrow> 'a list" where
  "sift_up gt i xs =
     (if 0 < i \<and> gt (xs ! parent i) (xs ! i) then sift_up gt (parent i) (swap_at i (parent i) xs) else xs)"
  by pat_completeness auto
termination by (relation "measure (\<lambda>(_, i, _). i)") (auto simp: parent_def)

definition push_heap :: "('a \<Rightarrow> 'a \<Rightarrow> bool) \<Rightarrow> 'a list \<Rightarrow> 'a list" where
  "push_heap gt xs = sift_up gt (length xs - 1) xs"

text \<open>The child of \<open>i\<close> below \<open>n\<close> that is not the greater one.\<close>

definition least_child :: "('a \<Rightarrow> 'a \<Rightarrow> bool) \<Rightarrow> nat \<Rightarrow> 'a list \<Rightarrow> nat \<Rightarrow> nat" where
  "least_child gt n xs i =
     (if 2 * i + 2 < n \<and> gt (xs ! (2 * i + 1)) (xs ! (2 * i + 2)) then 2 * i + 2 else 2 * i + 1)"

function sift_down :: "('a \<Rightarrow> 'a \<Rightarrow> bool) \<Rightarrow> nat \<Rightarrow> nat \<Rightarrow> 'a list \<Rightarrow> 'a list" where
  "sift_down gt n i xs =
     (let c = least_child gt n xs i in
      if c < n \<and> gt (xs ! i) (xs ! c) then sift_down gt n c (swap_at i c xs) else xs)"
  by pat_completeness auto
termination by (relation "measure (\<lambda>(_, n, i, _). n - i)") (auto simp: least_child_def)

declare sift_up.simps [simp del] sift_down.simps [simp del]

definition pop_heap :: "('a \<Rightarrow> 'a \<Rightarrow> bool) \<Rightarrow> 'a list \<Rightarrow> 'a list" where
  "pop_heap gt xs = (if xs = [] then [] else
     sift_down gt (length xs - 1) 0 (swap_at 0 (length xs - 1) xs))"

text \<open>The heap property of the first \<open>n\<close> elements.\<close>

definition heap_below :: "('a \<Rightarrow> 'k::linorder) \<Rightarrow> nat \<Rightarrow> 'a list \<Rightarrow> bool" where
  "heap_below k n xs = (\<forall>j. 0 < j \<and> j < n \<longrightarrow> k (xs ! parent j) \<le> k (xs ! j))"

definition is_heap :: "('a \<Rightarrow> 'k::linorder) \<Rightarrow> 'a list \<Rightarrow> bool" where
  "is_heap k xs = heap_below k (length xs) xs"

lemma heap_below_code [code]: "heap_below k n xs = (\<forall>j\<in>set [1..<n]. k (xs ! parent j) \<le> k (xs ! j))"
  by (auto simp: heap_below_def)

section \<open>Swapping\<close>

lemma length_swap_at [simp]: "length (swap_at i j xs) = length xs"
  by (simp add: swap_at_def)

lemma nth_swap_at:
  "i < length xs \<Longrightarrow> j < length xs \<Longrightarrow>
   swap_at i j xs ! k = (if k = i then xs ! j else if k = j then xs ! i else xs ! k)"
  by (auto simp: swap_at_def nth_list_update)

lemma mset_swap_at [simp]: "i < length xs \<Longrightarrow> j < length xs \<Longrightarrow> mset (swap_at i j xs) = mset xs"
  by (simp add: swap_at_def mset_swap)

lemma parent_less: "0 < i \<Longrightarrow> parent i < i"
  by (simp add: parent_def)

lemma parent_child [simp]: "parent (2 * i + 1) = i" "parent (2 * i + 2) = i" "parent (Suc (2 * i)) = i"
  "parent (Suc (Suc (2 * i))) = i"
  by (simp_all add: parent_def)

lemma parent_eq_iff: "0 < j \<Longrightarrow> parent j = i \<longleftrightarrow> j = 2 * i + 1 \<or> j = 2 * i + 2"
  by (auto simp: parent_def)

lemma heap_below_root:
  assumes "heap_below k n xs" "j < n"
  shows "k (xs ! 0) \<le> k (xs ! j)"
  using assms(2)
proof (induction j rule: less_induct)
  case (less j)
  show ?case
  proof (cases "j = 0")
    case False
    then have "k (xs ! 0) \<le> k (xs ! parent j)" using less parent_less [of j] by auto
    also have "\<dots> \<le> k (xs ! j)" using assms(1) less.prems False by (simp add: heap_below_def)
    finally show ?thesis .
  qed simp
qed

section \<open>Sifting up\<close>

lemma sift_up_shape:
  "i < length xs \<Longrightarrow> length (sift_up gt i xs) = length xs \<and> mset (sift_up gt i xs) = mset xs"
proof (induction gt i xs rule: sift_up.induct)
  case (1 gt i xs)
  have "parent i < length xs" if "0 < i" using "1.prems" parent_less [OF that] by simp
  then show ?case using 1 by (subst (1 2) sift_up.simps) auto
qed

text \<open>Only the element at \<open>i\<close> may be less than its parent, and its children are not less than that.\<close>

definition heap_but_up :: "('a \<Rightarrow> 'k::linorder) \<Rightarrow> nat \<Rightarrow> 'a list \<Rightarrow> bool" where
  "heap_but_up k i xs =
     (\<forall>j. 0 < j \<and> j < length xs \<longrightarrow>
        (j \<noteq> i \<longrightarrow> k (xs ! parent j) \<le> k (xs ! j)) \<and>
        (0 < i \<and> parent j = i \<longrightarrow> k (xs ! parent i) \<le> k (xs ! j)))"

lemma heap_but_up_swap:
  assumes h: "heap_but_up k i xs" and i: "0 < i" "i < length xs" and lt: "k (xs ! i) < k (xs ! parent i)"
  shows "heap_but_up k (parent i) (swap_at i (parent i) xs)"
proof -
  let ?p = "parent i" and ?ys = "swap_at i (parent i) xs"
  have p: "?p < i" "?p < length xs" using parent_less [OF i(1)] i(2) by auto
  have ys: "?ys ! j = (if j = i then xs ! ?p else if j = ?p then xs ! i else xs ! j)" for j
    using nth_swap_at [OF i(2) p(2)] .
  have ok: "k (xs ! parent j) \<le> k (xs ! j)" if "0 < j" "j < length xs" "j \<noteq> i" for j
    using h that by (auto simp: heap_but_up_def)
  have ch: "k (xs ! ?p) \<le> k (xs ! j)" if "0 < j" "j < length xs" "parent j = i" for j
    using h that i by (auto simp: heap_but_up_def)
  have "k (?ys ! parent j) \<le> k (?ys ! j)" if j: "0 < j" "j < length xs" "j \<noteq> ?p" for j
  proof (cases "j = i")
    case True
    then show ?thesis using ys p lt by auto
  next
    case False
    then show ?thesis using ok [OF j(1,2)] ch [OF j(1,2)] lt j ys by fastforce
  qed
  moreover have "k (?ys ! parent ?p) \<le> k (?ys ! j)" if j: "0 < j" "j < length xs" "0 < ?p" "parent j = ?p" for j
  proof -
    have "parent ?p \<noteq> i" "parent ?p \<noteq> ?p" using parent_less [OF j(3)] p by auto
    then have "?ys ! parent ?p = xs ! parent ?p" using ys by simp
    moreover have a: "k (xs ! parent ?p) \<le> k (xs ! ?p)" using ok [of ?p] j(3) p by auto
    moreover have "k (xs ! ?p) \<le> k (xs ! j)" if "j \<noteq> i" using ok [OF j(1,2) that] j(4) by simp
    moreover have "j \<noteq> ?p" using parent_less [OF j(1)] j(4) by auto
    ultimately show ?thesis using ys by (cases "j = i") auto
  qed
  ultimately show ?thesis by (simp add: heap_but_up_def)
qed

lemma sift_up_heap:
  assumes gt: "\<And>a b. gt a b \<longleftrightarrow> k b < k a"
  shows "i < length xs \<Longrightarrow> heap_but_up k i xs \<Longrightarrow> is_heap k (sift_up gt i xs)"
proof (induction i arbitrary: xs rule: less_induct)
  case (less i)
  show ?case
  proof (cases "0 < i \<and> gt (xs ! parent i) (xs ! i)")
    case True
    then have "is_heap k (sift_up gt (parent i) (swap_at i (parent i) xs))"
      using less.prems parent_less [of i] heap_but_up_swap [OF less.prems(2) _ less.prems(1)]
      by (intro less.IH) (auto simp: gt)
    then show ?thesis using True by (subst sift_up.simps) simp
  next
    case False
    then have "is_heap k xs" using less.prems(2) by (force simp: is_heap_def heap_below_def heap_but_up_def gt)
    then show ?thesis using False by (subst sift_up.simps) auto
  qed
qed

section \<open>Sifting down\<close>

lemma least_child_cases: "least_child gt n xs i = 2 * i + 1 \<or> least_child gt n xs i = 2 * i + 2"
  by (simp add: least_child_def)

lemma sift_down_shape:
  "i < length xs \<Longrightarrow> n \<le> length xs \<Longrightarrow>
   length (sift_down gt n i xs) = length xs \<and> mset (sift_down gt n i xs) = mset xs"
proof (induction gt n i xs rule: sift_down.induct)
  case (1 gt n i xs)
  show ?case
  proof (cases "least_child gt n xs i < n \<and> gt (xs ! i) (xs ! least_child gt n xs i)")
    case True
    then show ?thesis using 1 by (subst (1 2) sift_down.simps) (auto simp: Let_def)
  next
    case False
    then show ?thesis by (subst (1 2) sift_down.simps) (auto simp: Let_def)
  qed
qed

text \<open>What lies beyond the first \<open>n\<close> elements is untouched.\<close>

lemma sift_down_beyond:
  "i < n \<Longrightarrow> n \<le> length xs \<Longrightarrow> n \<le> m \<Longrightarrow> sift_down gt n i xs ! m = xs ! m"
proof (induction gt n i xs rule: sift_down.induct)
  case (1 gt n i xs)
  show ?case
  proof (cases "least_child gt n xs i < n \<and> gt (xs ! i) (xs ! least_child gt n xs i)")
    case True
    then have "sift_down gt n (least_child gt n xs i) (swap_at i (least_child gt n xs i) xs) ! m =
        swap_at i (least_child gt n xs i) xs ! m" using 1 by auto
    also have "\<dots> = xs ! m" using True "1.prems" by (subst nth_swap_at) auto
    finally show ?thesis using True by (subst sift_down.simps) (simp add: Let_def)
  next
    case False
    then show ?thesis by (subst sift_down.simps) (auto simp: Let_def)
  qed
qed

text \<open>Only the element at \<open>i\<close> may exceed its children, and its parent does not exceed these.\<close>

definition heap_but_down :: "('a \<Rightarrow> 'k::linorder) \<Rightarrow> nat \<Rightarrow> nat \<Rightarrow> 'a list \<Rightarrow> bool" where
  "heap_but_down k n i xs =
     (\<forall>j. 0 < j \<and> j < n \<longrightarrow>
        (parent j \<noteq> i \<longrightarrow> k (xs ! parent j) \<le> k (xs ! j)) \<and>
        (0 < i \<and> parent j = i \<longrightarrow> k (xs ! parent i) \<le> k (xs ! j)))"

lemma least_child_le:
  fixes k :: "'a \<Rightarrow> 'k::linorder"
  assumes "\<And>a b. gt a b \<longleftrightarrow> k b < k a" "0 < j" "j < n" "parent j = i"
  shows "k (xs ! least_child gt n xs i) \<le> k (xs ! j)"
  using assms by (auto simp: least_child_def parent_eq_iff)

lemma heap_but_down_swap:
  assumes gt: "\<And>a b. gt a b \<longleftrightarrow> k b < k a" and h: "heap_but_down k n i xs" and n: "n \<le> length xs"
    and c: "c = least_child gt n xs i" "c < n" and lt: "k (xs ! c) < k (xs ! i)"
  shows "heap_but_down k n c (swap_at i c xs)"
proof -
  let ?ys = "swap_at i c xs"
  have i: "i < c" "parent c = i" using least_child_cases [of gt n xs i] c by auto
  have ys: "?ys ! j = (if j = i then xs ! c else if j = c then xs ! i else xs ! j)" for j
    using nth_swap_at [of i xs c] i c n by simp
  have ok: "k (xs ! parent j) \<le> k (xs ! j)" if "0 < j" "j < n" "parent j \<noteq> i" for j
    using h that by (auto simp: heap_but_down_def)
  have up: "k (xs ! parent i) \<le> k (xs ! j)" if "0 < j" "j < n" "0 < i" "parent j = i" for j
    using h that by (auto simp: heap_but_down_def)
  have lc: "k (xs ! c) \<le> k (xs ! j)" if "0 < j" "j < n" "parent j = i" for j
    using least_child_le [OF gt that] c(1) by simp
  have "k (?ys ! parent j) \<le> k (?ys ! j)" if j: "0 < j" "j < n" "parent j \<noteq> c" for j
  proof (cases "parent j = i")
    case True
    then show ?thesis using lc [OF j(1,2)] lt ys parent_less [OF j(1)] by auto
  next
    case False
    then have "j \<noteq> c" using i by auto
    then show ?thesis using ok [OF j(1,2) False] up [of c] i c j ys False by (cases "j = i") auto
  qed
  moreover have "k (?ys ! parent c) \<le> k (?ys ! j)" if j: "0 < j" "j < n" "parent j = c" for j
    using ok [OF j(1,2)] i j ys parent_less [OF j(1)] by auto
  ultimately show ?thesis by (simp add: heap_but_down_def)
qed

lemma sift_down_heap:
  assumes gt: "\<And>a b. gt a b \<longleftrightarrow> k b < k a"
  shows "n \<le> length xs \<Longrightarrow> heap_but_down k n i xs \<Longrightarrow> heap_below k n (sift_down gt n i xs)"
proof (induction "n - i" arbitrary: i xs rule: less_induct)
  case less
  let ?c = "least_child gt n xs i"
  show ?case
  proof (cases "?c < n \<and> gt (xs ! i) (xs ! ?c)")
    case True
    have "i < ?c" using least_child_cases [of gt n xs i] by auto
    then have "heap_below k n (sift_down gt n ?c (swap_at i ?c xs))"
      using True less.prems heap_but_down_swap [where gt = gt, OF gt less.prems(2,1) refl]
      by (intro less.hyps) (auto simp: gt)
    then show ?thesis using True by (subst sift_down.simps) (simp add: Let_def)
  next
    case False
    have "k (xs ! parent j) \<le> k (xs ! j)" if j: "0 < j" "j < n" for j
    proof (cases "parent j = i")
      case True
      then have "?c < n" using j by (auto simp: least_child_def parent_eq_iff)
      then have "k (xs ! i) \<le> k (xs ! ?c)" using False by (simp add: gt)
      also have "\<dots> \<le> k (xs ! j)" by (rule least_child_le [OF gt j True])
      finally show ?thesis using True by simp
    qed (use less.prems(2) j in \<open>auto simp: heap_but_down_def\<close>)
    then have "heap_below k n xs" by (simp add: heap_below_def)
    then show ?thesis using False by (subst sift_down.simps) (auto simp: Let_def)
  qed
qed

section \<open>The guarantee of the standard\<close>

locale heap_ops =
  fixes key :: "'a \<Rightarrow> 'k::linorder" and heap :: "'a list \<Rightarrow> bool"
    and push :: "'a list \<Rightarrow> 'a list" and pop :: "'a list \<Rightarrow> 'a list"
  assumes heap_Nil: "heap []"
    and heap_front: "heap (x # xs) \<Longrightarrow> y \<in> set xs \<Longrightarrow> key x \<le> key y"
    and heap_push: "heap xs \<Longrightarrow> heap (push (xs @ [x]))"
    and mset_push: "mset (push (xs @ [x])) = add_mset x (mset xs)"
    and pop_last: "heap (x # xs) \<Longrightarrow> pop (x # xs) = butlast (pop (x # xs)) @ [x]"
    and heap_pop: "heap (x # xs) \<Longrightarrow> heap (butlast (pop (x # xs)))"
    and mset_pop: "heap (x # xs) \<Longrightarrow> mset (butlast (pop (x # xs))) = mset xs"
    and heap_cong: "heap (x # xs) \<Longrightarrow> key x = key y \<Longrightarrow> heap (y # xs)"
begin

text \<open>
  The sequence in which the elements come out. With pairwise different keys it is determined by
  the elements: inserting and removing refine insertion into and removal from a sorted list.
\<close>

lemma length_push: "length (push (xs @ [x])) = Suc (length xs)"
  using mset_push [of xs x] by (metis mset.simps(2) size_mset length_Cons)

lemma length_pop: "heap (x # xs) \<Longrightarrow> length (butlast (pop (x # xs))) = length xs"
  using mset_pop [of x xs] by (metis size_mset)

lemma set_push: "set (push (xs @ [x])) = insert x (set xs)"
  using mset_push [of xs x] by (metis set_mset_add_mset_insert set_mset_mset)

lemma set_pop: "heap (x # xs) \<Longrightarrow> set (butlast (pop (x # xs))) = set xs"
  using mset_pop [of x xs] by (metis set_mset_mset)

lemma sequence_unique:
  assumes "mset h = mset g" "inj_on key (set g)"
  shows "sort_key key h = sort_key key g"
proof -
  have m: "map key (sort_key key l) = sort (map key l)" for l
    by (rule properties_for_sort [symmetric]) auto
  have "sort (map key h) = sort (map key g)" using assms(1) by (intro properties_for_sort) auto
  then have "map key (sort_key key h) = map key (sort_key key g)" by (simp add: m)
  moreover have "set h = set g" using assms(1) by (metis set_mset_mset)
  ultimately show ?thesis using assms(2) by (auto dest!: map_inj_on)
qed

lemma sequence_Cons:
  assumes "heap (x # xs)" "inj_on key (set (x # xs))"
  shows "sort_key key (x # xs) = x # sort_key key xs"
proof -
  have "\<forall>y\<in>set (sort_key key xs). key x \<le> key y" using heap_front [OF assms(1)] by simp
  then show ?thesis by (cases "sort_key key xs") simp_all
qed

text \<open>Removing takes the first element of the sequence.\<close>

lemma sequence_pop:
  assumes "heap (x # xs)" "inj_on key (set (x # xs))"
  shows "sort_key key (x # xs) = x # sort_key key (butlast (pop (x # xs)))"
  using sequence_Cons [OF assms] sequence_unique [OF mset_pop [OF assms(1)]] assms(2) by simp

text \<open>Inserting puts an element at its place, at the end if its key is the greatest.\<close>

lemma sequence_push:
  assumes "inj_on key (insert x (set xs))"
  shows "sort_key key (push (xs @ [x])) = insort_key key x (sort_key key xs)"
  using sequence_unique [of "push (xs @ [x])" "x # xs"] mset_push assms by simp

lemma insort_last: "\<forall>y\<in>set ys. key y < key x \<Longrightarrow> insort_key key x ys = ys @ [x]"
  by (induction ys) auto

lemma sequence_push_last:
  assumes "inj_on key (insert x (set xs))" "\<forall>y\<in>set xs. key y < key x"
  shows "sort_key key (push (xs @ [x])) = sort_key key xs @ [x]"
  using sequence_push [OF assms(1)] insort_last assms(2) by simp

end

section \<open>The implementation meets the guarantee\<close>

lemma is_heap_front:
  assumes "is_heap k (x # xs)" "y \<in> set xs"
  shows "k x \<le> k y"
proof -
  obtain i where "i < length xs" "y = xs ! i" using assms(2) by (auto simp: in_set_conv_nth)
  then show ?thesis using heap_below_root [of k _ "x # xs" "Suc i"] assms(1) by (simp add: is_heap_def)
qed

lemma push_heap_shape: "mset (push_heap gt (xs @ [x])) = add_mset x (mset xs)"
  using sift_up_shape [of "length xs" "xs @ [x]" gt] by (simp add: push_heap_def)

lemma push_heap_heap:
  assumes gt: "\<And>a b. gt a b \<longleftrightarrow> k b < k a" and "is_heap k xs"
  shows "is_heap k (push_heap gt (xs @ [x]))"
proof -
  have "k ((xs @ [x]) ! parent j) \<le> k ((xs @ [x]) ! j)" if "0 < j" "j < length xs" for j
    using assms(2) that parent_less [OF that(1)] by (auto simp: is_heap_def heap_below_def nth_append)
  moreover have "parent j \<noteq> length xs" if "0 < j" "j < Suc (length xs)" for j
    using parent_less [OF that(1)] that(2) by simp
  ultimately have "heap_but_up k (length xs) (xs @ [x])" by (auto simp: heap_but_up_def)
  then show ?thesis using sift_up_heap [where gt = gt, OF gt] by (simp add: push_heap_def)
qed

lemma butlast_snoc_nth: "ys \<noteq> [] \<Longrightarrow> ys = butlast ys @ [ys ! (length ys - 1)]"
  using append_butlast_last_id [of ys] last_conv_nth [of ys] by simp

lemma pop_heap_last:
  assumes "xs \<noteq> []"
  shows "pop_heap gt xs = butlast (pop_heap gt xs) @ [hd xs]"
    and "length (pop_heap gt xs) = length xs" "mset (pop_heap gt xs) = mset xs"
proof -
  let ?n = "length xs - 1" and ?ys = "swap_at 0 (length xs - 1) xs"
  have n: "?n < length xs" "0 < length xs" using assms by auto
  show l: "length (pop_heap gt xs) = length xs" "mset (pop_heap gt xs) = mset xs"
    using sift_down_shape [of 0 ?ys ?n gt] n assms by (auto simp: pop_heap_def)
  have "pop_heap gt xs ! ?n = hd xs"
  proof (cases "?n = 0")
    case True
    have "sift_down gt 0 0 ?ys = ?ys" by (subst sift_down.simps) (simp add: Let_def)
    then show ?thesis using True n assms by (simp add: pop_heap_def nth_swap_at hd_conv_nth)
  next
    case False
    then show ?thesis using sift_down_beyond [of 0 ?n ?ys ?n gt] n assms
      by (simp add: pop_heap_def nth_swap_at hd_conv_nth)
  qed
  moreover have "pop_heap gt xs \<noteq> []" using l(1) n by auto
  ultimately show "pop_heap gt xs = butlast (pop_heap gt xs) @ [hd xs]"
    using butlast_snoc_nth [of "pop_heap gt xs"] l(1) by simp
qed

lemma pop_heap_heap:
  assumes gt: "\<And>a b. gt a b \<longleftrightarrow> k b < k a" and "is_heap k xs" "xs \<noteq> []"
  shows "is_heap k (butlast (pop_heap gt xs))"
proof -
  let ?n = "length xs - 1" and ?ys = "swap_at 0 (length xs - 1) xs"
  have n: "?n < length xs" "0 < length xs" using assms(3) by auto
  have "?ys ! j = xs ! j" if "0 < j" "j < ?n" for j using that n nth_swap_at [of 0 xs ?n j] by simp
  moreover have "parent j < ?n" if "0 < j" "j < ?n" for j using parent_less [OF that(1)] that by simp
  ultimately have "heap_but_down k ?n 0 ?ys"
    using assms(2) n by (auto simp: heap_but_down_def is_heap_def heap_below_def)
  then have "heap_below k ?n (pop_heap gt xs)"
    using sift_down_heap [where gt = gt, OF gt, of ?n ?ys 0] assms(3) by (simp add: pop_heap_def)
  moreover have "length (butlast (pop_heap gt xs)) = ?n" using pop_heap_last(2) [OF assms(3), of gt] by simp
  moreover have "butlast (pop_heap gt xs) ! j = pop_heap gt xs ! j" if "j < ?n" for j
    using that pop_heap_last(2) [OF assms(3), of gt] by (simp add: nth_butlast)
  moreover have "parent j < ?n" if "0 < j" "j < ?n" for j using parent_less [OF that(1)] that by simp
  ultimately show ?thesis by (simp add: is_heap_def heap_below_def)
qed

lemma heap_ops_of_comparison:
  assumes gt: "\<And>a b. gt a b \<longleftrightarrow> k b < k a"
  shows "heap_ops k (is_heap k) (push_heap gt) (pop_heap gt)"
proof
  show "is_heap k []" by (simp add: is_heap_def heap_below_def)
  show "is_heap k (x # xs) \<Longrightarrow> y \<in> set xs \<Longrightarrow> k x \<le> k y" for x xs y by (rule is_heap_front)
  show "is_heap k xs \<Longrightarrow> is_heap k (push_heap gt (xs @ [x]))" for xs x by (rule push_heap_heap [OF gt])
  show "mset (push_heap gt (xs @ [x])) = add_mset x (mset xs)" for xs x by (rule push_heap_shape)
  show pl: "pop_heap gt (x # xs) = butlast (pop_heap gt (x # xs)) @ [x]" for x xs
    using pop_heap_last(1) [of "x # xs" gt] by simp
  show "is_heap k (butlast (pop_heap gt (x # xs)))" if "is_heap k (x # xs)" for x xs
    using pop_heap_heap [where gt = gt, OF gt that] by simp
  show "mset (butlast (pop_heap gt (x # xs))) = mset xs" for x xs
  proof -
    have "mset (butlast (pop_heap gt (x # xs)) @ [x]) = add_mset x (mset xs)"
      using pop_heap_last(3) [of "x # xs" gt] pl [of x xs] by simp
    then show ?thesis by simp
  qed
  show "is_heap k (y # xs)" if "is_heap k (x # xs)" "k x = k y" for x y xs
  proof -
    have "k ((y # xs) ! i) = k ((x # xs) ! i)" for i using that(2) by (cases i) auto
    then show ?thesis using that(1) by (simp add: is_heap_def heap_below_def)
  qed
qed

end
