(* ===== verification/Garnet_MessageBuffer.thy ===== *)
theory Garnet_MessageBuffer
  imports Garnet_Flit Garnet_Heap "HOL-Library.Product_Lexorder"
begin

text \<open>
  Message buffers: MessageBuffer.hh/cc, the queues between the protocol's controllers and the
  network interfaces. Messages wait in a heap ordered by their arrival time and, for equal times,
  by the number the buffer gave them; a receiver may set messages aside per address (the stall
  map) and take them back. A finite buffer hides removals of the current cycle from the sender:
  \<open>areNSlotsAvailable\<close> counts with the size at the start of the cycle.

  A message is a value; what the code does through a shared pointer to a message in the buffer is
  written out as an update of the buffer. The consumer's wake-ups are returned as \<open>wakes\<close>. The
  dequeue callback, a closure, is a function from the time of the call to the wake-ups it asks
  for. The flags of the Ruby system and the random numbers drawn are arguments.
\<close>

section \<open>Definitions: state\<close>

datatype MessageRandomization = MR_disabled | MR_enabled | MR_ruby_system

type_synonym addr = "64 word"

record ruby_system =
  rs_randomization :: bool
  rs_warmup_enabled :: bool
  rs_block_size_bits :: nat

record MessageBuffer =
  m_consumer :: "cref option"
  m_prio_heap :: "message list"
  m_dequeue_callback :: "(tick \<Rightarrow> wakes) option"
  m_stall_msg_map :: "(addr \<times> message list) list"
  m_deferred_msg_map :: "(addr \<times> message list) list"
  m_stall_map_size :: int
  m_max_size :: u32
  m_max_dequeue_rate :: u32
  m_dequeues_this_cy :: u32
  m_time_last_time_size_checked :: tick
  m_size_last_time_size_checked :: u32
  m_time_last_time_enqueue :: tick
  m_time_last_time_pop :: tick
  m_last_arrival_time :: tick
  m_size_at_cycle_start :: u32
  m_stalled_at_cycle_start :: u32
  m_msgs_this_cycle :: u32
  mb_msg_counter :: "64 word"
  m_priority_rank :: int
  m_last_message_strict_fifo_bypassed :: bool
  m_strict_fifo :: bool
  m_randomization :: MessageRandomization
  m_allow_zero_latency :: bool
  m_routing_priority :: int
  m_input_link_id :: int
  m_vnet_id :: int
  m_not_avail_count :: int
  m_msg_count :: int
  m_buf_msgs :: int
  m_stall_time :: int
  mb_stall_count :: int

definition MessageBuffer_new :: "u32 \<Rightarrow> u32 \<Rightarrow> bool \<Rightarrow> MessageRandomization \<Rightarrow> bool \<Rightarrow> int \<Rightarrow> MessageBuffer" where
  "MessageBuffer_new buffer_size max_dequeue_rate ordered randomization allow_zero_latency routing_priority =
     \<lparr>m_consumer = None, m_prio_heap = [], m_dequeue_callback = None, m_stall_msg_map = [],
      m_deferred_msg_map = [], m_stall_map_size = 0, m_max_size = buffer_size,
      m_max_dequeue_rate = max_dequeue_rate, m_dequeues_this_cy = 0,
      m_time_last_time_size_checked = 0, m_size_last_time_size_checked = 0,
      m_time_last_time_enqueue = 0, m_time_last_time_pop = 0, m_last_arrival_time = 0,
      m_size_at_cycle_start = 0, m_stalled_at_cycle_start = 0, m_msgs_this_cycle = 0,
      mb_msg_counter = 0, m_priority_rank = 0, m_last_message_strict_fifo_bypassed = False,
      m_strict_fifo = ordered, m_randomization = randomization,
      m_allow_zero_latency = allow_zero_latency, m_routing_priority = routing_priority,
      m_input_link_id = 0, m_vnet_id = 0, m_not_avail_count = 0, m_msg_count = 0, m_buf_msgs = 0,
      m_stall_time = 0, mb_stall_count = 0\<rparr>"

definition MessageBuffer_setConsumer :: "cref \<Rightarrow> MessageBuffer \<Rightarrow> MessageBuffer res" where
  "MessageBuffer_setConsumer c b =
     rbind (check Fatal (m_consumer b = None)) (\<lambda>_. Inr (b\<lparr>m_consumer := Some c\<rparr>))"

text \<open>A wake-up of the consumer, through a pointer that may be null.\<close>

definition wake_consumer :: "wake_req \<Rightarrow> MessageBuffer \<Rightarrow> wakes res" where
  "wake_consumer q b = (case m_consumer b of None \<Rightarrow> Inl Undefined | Some c \<Rightarrow> Inr [(c, q)])"

text \<open>The number of elements of a container as an \<open>unsigned int\<close>.\<close>

definition u32_size :: "'a list \<Rightarrow> u32" where
  "u32_size xs = of_nat (length xs)"

section \<open>Definitions: sizes and readiness\<close>

definition MessageBuffer_getSize :: "tick \<Rightarrow> MessageBuffer \<Rightarrow> u32 \<times> MessageBuffer" where
  "MessageBuffer_getSize curTime b =
     (let b' = (if m_time_last_time_size_checked b \<noteq> curTime
                then b\<lparr>m_time_last_time_size_checked := curTime,
                       m_size_last_time_size_checked := u32_size (m_prio_heap b)\<rparr>
                else b)
      in (m_size_last_time_size_checked b', b'))"

definition current_sizes :: "tick \<Rightarrow> MessageBuffer \<Rightarrow> u32 \<times> u32" where
  "current_sizes current_time b =
     (if m_time_last_time_pop b < current_time then (u32_size (m_prio_heap b), word_of_int (m_stall_map_size b))
      else (if m_time_last_time_enqueue b < current_time then m_size_at_cycle_start b
            else m_size_at_cycle_start b + m_msgs_this_cycle b, m_stalled_at_cycle_start b))"

definition MessageBuffer_areNSlotsAvailable :: "u32 \<Rightarrow> tick \<Rightarrow> MessageBuffer \<Rightarrow> bool \<times> MessageBuffer" where
  "MessageBuffer_areNSlotsAvailable n current_time b =
     (if m_max_size b = 0 then (True, b)
      else let (current_size, current_stall_size) = current_sizes current_time b in
        if current_size + current_stall_size + n \<le> m_max_size b then (True, b)
        else (False, b\<lparr>m_not_avail_count := m_not_avail_count b + 1\<rparr>))"

definition MessageBuffer_peekMsgPtr :: "MessageBuffer \<Rightarrow> message res" where
  "MessageBuffer_peekMsgPtr b = (case m_prio_heap b of [] \<Rightarrow> Inl Undefined | m # _ \<Rightarrow> Inr m)"

definition MessageBuffer_isEmpty :: "MessageBuffer \<Rightarrow> bool" where
  "MessageBuffer_isEmpty b = (m_prio_heap b = [])"

definition MessageBuffer_isReady :: "tick \<Rightarrow> MessageBuffer \<Rightarrow> (bool \<times> wakes) res" where
  "MessageBuffer_isReady current_time b =
     rbind (check Assertion (m_time_last_time_pop b \<le> current_time)) (\<lambda>_.
     let can_dequeue = (m_max_dequeue_rate b = 0 \<or> m_time_last_time_pop b < current_time \<or>
                        m_dequeues_this_cy b < m_max_dequeue_rate b);
         ready = (case m_prio_heap b of [] \<Rightarrow> False | m # _ \<Rightarrow> m_LastEnqueueTime m \<le> current_time) in
     rbind (if \<not> can_dequeue \<and> ready then wake_consumer (After 1) b else Inr []) (\<lambda>ws.
     Inr (can_dequeue \<and> ready, ws)))"

definition MessageBuffer_readyTime :: "MessageBuffer \<Rightarrow> tick" where
  "MessageBuffer_readyTime b = (case m_prio_heap b of [] \<Rightarrow> -1 | m # _ \<Rightarrow> m_LastEnqueueTime m)"

section \<open>Definitions: insertion and removal\<close>

text \<open>
  \<open>random_time\<close>, with the three numbers it may draw: in 0..3, in 0..7 and in 1..15.
\<close>

definition random_time :: "tick \<times> tick \<times> tick \<Rightarrow> tick" where
  "random_time = (\<lambda>(r1, r2, r3). 1 + r1 + (if r2 = 0 then 100 + r3 else 0))"

definition randomized :: "ruby_system \<Rightarrow> MessageBuffer \<Rightarrow> bool" where
  "randomized rs b =
     (\<not> (m_randomization b = MR_disabled \<or> m_randomization b = MR_ruby_system \<and> \<not> rs_randomization rs))"

definition arrival_time ::
    "ruby_system \<Rightarrow> tick \<times> tick \<times> tick \<Rightarrow> tick \<Rightarrow> tick \<Rightarrow> MessageBuffer \<Rightarrow> tick \<times> MessageBuffer" where
  "arrival_time rs rnd current_time delta b =
     (if \<not> randomized rs b then (current_time + delta, b)
      else if m_strict_fifo b then
        let b' = (if m_last_arrival_time b < current_time then b\<lparr>m_last_arrival_time := current_time\<rparr> else b)
        in (m_last_arrival_time b' + random_time rnd, b')
      else (current_time + random_time rnd, b))"

text \<open>The start of \<open>enqueue\<close>: the counters of this cycle.\<close>

definition count_enqueue :: "tick \<Rightarrow> MessageBuffer \<Rightarrow> MessageBuffer" where
  "count_enqueue current_time b =
     (let b1 = (if m_time_last_time_enqueue b < current_time
                then b\<lparr>m_msgs_this_cycle := 0, m_time_last_time_enqueue := current_time\<rparr> else b)
      in b1\<lparr>mb_msg_counter := mb_msg_counter b1 + 1, m_msgs_this_cycle := m_msgs_this_cycle b1 + 1\<rparr>)"

definition heap_insert :: "message \<Rightarrow> MessageBuffer \<Rightarrow> MessageBuffer" where
  "heap_insert m b = b\<lparr>m_prio_heap := push_heap Message_greater (m_prio_heap b @ [m])\<rparr>"

definition stamp_message :: "tick \<Rightarrow> tick \<Rightarrow> 64 word \<Rightarrow> message \<Rightarrow> message res" where
  "stamp_message current_time arrival counter m =
     rbind (check Assertion (m_LastEnqueueTime m \<le> current_time)) (\<lambda>_.
     rbind (Message_updateDelayedTicks current_time m) (\<lambda>m1.
     Inr (m1\<lparr>m_LastEnqueueTime := arrival, m_msg_counter := counter\<rparr>)))"

definition MessageBuffer_enqueue ::
    "ruby_system \<Rightarrow> tick \<times> tick \<times> tick \<Rightarrow> message option \<Rightarrow> tick \<Rightarrow> tick \<Rightarrow> bool \<Rightarrow> MessageBuffer \<Rightarrow>
      (MessageBuffer \<times> wakes) res" where
  "MessageBuffer_enqueue rs rnd message current_time delta bypassStrictFIFO b0 =
     (let b = count_enqueue current_time b0 in
      rbind (check Panic (\<not> (delta = 0 \<and> \<not> m_allow_zero_latency b))) (\<lambda>_.
      let (arrival, b1) = arrival_time rs rnd current_time delta b in
      rbind (check Assertion (current_time \<le> arrival)) (\<lambda>_.
      rbind (check Panic (\<not> (m_strict_fifo b1 \<and> \<not> (bypassStrictFIFO \<or> m_last_message_strict_fifo_bypassed b1) \<and>
               arrival < m_last_arrival_time b1))) (\<lambda>_.
      let b2 = (if rs_warmup_enabled rs then b1 else b1\<lparr>m_last_arrival_time := arrival\<rparr>);
          b3 = b2\<lparr>m_last_message_strict_fifo_bypassed := bypassStrictFIFO\<rparr> in
      case message of
        None \<Rightarrow> Inl Assertion
      | Some m \<Rightarrow>
          rbind (stamp_message current_time arrival (mb_msg_counter b3) m) (\<lambda>m'.
          let b4 = (heap_insert m' b3)\<lparr>m_buf_msgs := m_buf_msgs b3 + 1\<rparr> in
          rbind (check Assertion (m_max_size b4 = 0 \<or>
                   int (length (m_prio_heap b4)) + m_stall_map_size b4 \<le> uint (m_max_size b4))) (\<lambda>_.
          rbind (check Assertion (m_consumer b4 \<noteq> None)) (\<lambda>_.
          rbind (wake_consumer (At arrival) b4) (\<lambda>ws. Inr (b4, ws)))))))))"

text \<open>\<open>pop_heap\<close> followed by \<open>pop_back\<close>.\<close>

definition heap_remove :: "MessageBuffer \<Rightarrow> MessageBuffer" where
  "heap_remove b = b\<lparr>m_prio_heap := butlast (pop_heap Message_greater (m_prio_heap b))\<rparr>"

definition count_pop :: "tick \<Rightarrow> MessageBuffer \<Rightarrow> MessageBuffer" where
  "count_pop current_time b =
     (let b1 = (if m_time_last_time_pop b < current_time
                then b\<lparr>m_size_at_cycle_start := u32_size (m_prio_heap b),
                       m_stalled_at_cycle_start := word_of_int (m_stall_map_size b),
                       m_time_last_time_pop := current_time, m_dequeues_this_cy := 0\<rparr> else b)
      in b1\<lparr>m_dequeues_this_cy := m_dequeues_this_cy b1 + 1\<rparr>)"

text \<open>
  \<open>dequeue\<close> returns the delay and, here, also the removed message, which the code has peeked at.
  \<open>now\<close> is the current tick, from which the statistics are computed.
\<close>

definition MessageBuffer_dequeue ::
    "tick \<Rightarrow> tick \<Rightarrow> bool \<Rightarrow> MessageBuffer \<Rightarrow> (tick \<times> message \<times> MessageBuffer \<times> wakes) res" where
  "MessageBuffer_dequeue now current_time decrement_messages b =
     rbind (MessageBuffer_isReady current_time b) (\<lambda>(ready, _).
     rbind (check Assertion ready) (\<lambda>_.
     rbind (MessageBuffer_peekMsgPtr b) (\<lambda>m.
     rbind (Message_updateDelayedTicks current_time m) (\<lambda>m'.
     let b1 = heap_remove (count_pop current_time b);
         b2 = (if decrement_messages
               then b1\<lparr>m_stall_time := m_stall_time b1 + uint (now - m_LastEnqueueTime m'),
                       m_msg_count := m_msg_count b1 + 1, m_buf_msgs := m_buf_msgs b1 - 1\<rparr>
               else b1);
         ws = (case m_dequeue_callback b2 of None \<Rightarrow> [] | Some call \<Rightarrow> call now) in
     Inr (m_DelayedTicks m', m', b2, ws)))))"

definition MessageBuffer_registerDequeueCallback :: "(tick \<Rightarrow> wakes) \<Rightarrow> MessageBuffer \<Rightarrow> MessageBuffer" where
  "MessageBuffer_registerDequeueCallback callback b = b\<lparr>m_dequeue_callback := Some callback\<rparr>"

definition MessageBuffer_unregisterDequeueCallback :: "MessageBuffer \<Rightarrow> MessageBuffer" where
  "MessageBuffer_unregisterDequeueCallback b = b\<lparr>m_dequeue_callback := None\<rparr>"

definition MessageBuffer_clear :: "MessageBuffer \<Rightarrow> MessageBuffer" where
  "MessageBuffer_clear b =
     b\<lparr>m_prio_heap := [], mb_msg_counter := 0, m_time_last_time_enqueue := 0, m_time_last_time_pop := 0,
       m_size_at_cycle_start := 0, m_stalled_at_cycle_start := 0, m_msgs_this_cycle := 0\<rparr>"

definition MessageBuffer_clearStats :: "MessageBuffer \<Rightarrow> MessageBuffer" where
  "MessageBuffer_clearStats b = b\<lparr>m_not_avail_count := 0, mb_msg_counter := 0\<rparr>"

definition MessageBuffer_delayHead ::
    "ruby_system \<Rightarrow> tick \<times> tick \<times> tick \<Rightarrow> tick \<Rightarrow> tick \<Rightarrow> MessageBuffer \<Rightarrow> (MessageBuffer \<times> wakes) res" where
  "MessageBuffer_delayHead rs rnd current_time delta b =
     rbind (MessageBuffer_peekMsgPtr b) (\<lambda>m.
     MessageBuffer_enqueue rs rnd (Some m) current_time delta False (heap_remove b))"

definition MessageBuffer_recycle :: "tick \<Rightarrow> tick \<Rightarrow> MessageBuffer \<Rightarrow> (MessageBuffer \<times> wakes) res" where
  "MessageBuffer_recycle current_time recycle_latency b =
     rbind (MessageBuffer_isReady current_time b) (\<lambda>(ready, _).
     rbind (check Assertion ready) (\<lambda>_.
     rbind (MessageBuffer_peekMsgPtr b) (\<lambda>node.
     let future_time = current_time + recycle_latency;
         b' = heap_insert (node\<lparr>m_LastEnqueueTime := future_time\<rparr>) (heap_remove b) in
     rbind (wake_consumer (At future_time) b') (\<lambda>ws. Inr (b', ws)))))"

section \<open>Definitions: stalled and deferred messages\<close>

definition getOffset :: "ruby_system \<Rightarrow> addr \<Rightarrow> addr" where
  "getOffset rs addr = take_bit (rs_block_size_bits rs) addr"

text \<open>\<open>map[addr].push_back(m)\<close> on an ordered map from addresses to lists.\<close>

fun amap_push :: "addr \<Rightarrow> 'v \<Rightarrow> (addr \<times> 'v list) list \<Rightarrow> (addr \<times> 'v list) list" where
  "amap_push a v [] = [(a, [v])]"
| "amap_push a v ((a', vs) # g) =
     (if a = a' then (a', vs @ [v]) # g else if a < a' then (a, [v]) # (a', vs) # g else (a', vs) # amap_push a v g)"

definition amap_get :: "addr \<Rightarrow> (addr \<times> 'v list) list \<Rightarrow> 'v list" where
  "amap_get a g = (case map_of g a of None \<Rightarrow> [] | Some vs \<Rightarrow> vs)"

definition amap_erase :: "addr \<Rightarrow> (addr \<times> 'v list) list \<Rightarrow> (addr \<times> 'v list) list" where
  "amap_erase a g = filter (\<lambda>e. fst e \<noteq> a) g"

definition reanalyze_one :: "tick \<Rightarrow> message \<Rightarrow> MessageBuffer \<times> wakes \<Rightarrow> (MessageBuffer \<times> wakes) res" where
  "reanalyze_one schdTick m = (\<lambda>(b, ws).
     rbind (check Assertion (m_LastEnqueueTime m \<le> schdTick)) (\<lambda>_.
     rbind (wake_consumer (At schdTick) b) (\<lambda>w. Inr (heap_insert m b, ws @ w))))"

definition MessageBuffer_reanalyzeList ::
    "message list \<Rightarrow> tick \<Rightarrow> MessageBuffer \<times> wakes \<Rightarrow> (MessageBuffer \<times> wakes) res" where
  "MessageBuffer_reanalyzeList lt schdTick s = rfold (reanalyze_one schdTick) lt s"

definition MessageBuffer_reanalyzeMessages :: "addr \<Rightarrow> tick \<Rightarrow> MessageBuffer \<Rightarrow> (MessageBuffer \<times> wakes) res" where
  "MessageBuffer_reanalyzeMessages addr current_time b =
     rbind (check Assertion (addr \<in> fst ` set (m_stall_msg_map b))) (\<lambda>_.
     let lt = amap_get addr (m_stall_msg_map b);
         b1 = b\<lparr>m_stall_map_size := m_stall_map_size b - int (length lt)\<rparr> in
     rbind (check Assertion (0 \<le> m_stall_map_size b1)) (\<lambda>_.
     rbind (MessageBuffer_reanalyzeList lt current_time (b1, [])) (\<lambda>(b2, ws).
     Inr (b2\<lparr>m_stall_msg_map := amap_erase addr (m_stall_msg_map b2)\<rparr>, ws))))"

definition reanalyze_group ::
    "tick \<Rightarrow> addr \<times> message list \<Rightarrow> MessageBuffer \<times> wakes \<Rightarrow> (MessageBuffer \<times> wakes) res" where
  "reanalyze_group current_time = (\<lambda>(_, lt) (b, ws).
     let b1 = b\<lparr>m_stall_map_size := m_stall_map_size b - int (length lt)\<rparr> in
     rbind (check Assertion (0 \<le> m_stall_map_size b1)) (\<lambda>_.
     MessageBuffer_reanalyzeList lt current_time (b1, ws)))"

definition MessageBuffer_reanalyzeAllMessages :: "tick \<Rightarrow> MessageBuffer \<Rightarrow> (MessageBuffer \<times> wakes) res" where
  "MessageBuffer_reanalyzeAllMessages current_time b =
     rbind (rfold (reanalyze_group current_time) (m_stall_msg_map b) (b, [])) (\<lambda>(b', ws).
     Inr (b'\<lparr>m_stall_msg_map := []\<rparr>, ws))"

definition MessageBuffer_stallMessage ::
    "ruby_system \<Rightarrow> tick \<Rightarrow> addr \<Rightarrow> tick \<Rightarrow> MessageBuffer \<Rightarrow> (MessageBuffer \<times> wakes) res" where
  "MessageBuffer_stallMessage rs now addr current_time b =
     rbind (MessageBuffer_isReady current_time b) (\<lambda>(ready, _).
     rbind (check Assertion ready) (\<lambda>_.
     rbind (check Assertion (getOffset rs addr = 0)) (\<lambda>_.
     rbind (MessageBuffer_dequeue now current_time False b) (\<lambda>(_, message, b1, ws).
     Inr (b1\<lparr>m_stall_msg_map := amap_push addr message (m_stall_msg_map b1),
             m_stall_map_size := m_stall_map_size b1 + 1, mb_stall_count := mb_stall_count b1 + 1\<rparr>, ws)))))"

definition MessageBuffer_hasStalledMsg :: "addr \<Rightarrow> MessageBuffer \<Rightarrow> bool" where
  "MessageBuffer_hasStalledMsg addr b = (addr \<in> fst ` set (m_stall_msg_map b))"

definition MessageBuffer_deferEnqueueingMessage :: "addr \<Rightarrow> message \<Rightarrow> MessageBuffer \<Rightarrow> MessageBuffer" where
  "MessageBuffer_deferEnqueueingMessage addr m b =
     b\<lparr>m_deferred_msg_map := amap_push addr m (m_deferred_msg_map b)\<rparr>"

definition MessageBuffer_isDeferredMsgMapEmpty :: "addr \<Rightarrow> MessageBuffer \<Rightarrow> bool" where
  "MessageBuffer_isDeferredMsgMapEmpty addr b = (addr \<notin> fst ` set (m_deferred_msg_map b))"

text \<open>Each message of the list takes its own random numbers.\<close>

definition MessageBuffer_enqueueDeferredMessages ::
    "ruby_system \<Rightarrow> (nat \<Rightarrow> tick \<times> tick \<times> tick) \<Rightarrow> addr \<Rightarrow> tick \<Rightarrow> tick \<Rightarrow> MessageBuffer \<Rightarrow> (MessageBuffer \<times> wakes) res" where
  "MessageBuffer_enqueueDeferredMessages rs rnd addr curTime delay b =
     rbind (check Assertion (\<not> MessageBuffer_isDeferredMsgMapEmpty addr b)) (\<lambda>_.
     let msg_vec = amap_get addr (m_deferred_msg_map b) in
     rbind (check Assertion (msg_vec \<noteq> [])) (\<lambda>_.
     rbind (rfold (\<lambda>(i, m) (b, ws).
              rbind (MessageBuffer_enqueue rs (rnd i) (Some m) curTime delay False b) (\<lambda>(b', w). Inr (b', ws @ w)))
            (List.enumerate 0 msg_vec) (b, [])) (\<lambda>(b', ws).
     Inr (b'\<lparr>m_deferred_msg_map := amap_erase addr (m_deferred_msg_map b')\<rparr>, ws))))"

section \<open>Definitions: functional accesses\<close>

text \<open>
  What a message does with a packet is the argument \<open>acc\<close>: whether it matches, and the packet
  (with its mask) and the message afterwards. A read without a mask stops at the first match.
\<close>

fun access_msgs ::
    "('pk \<Rightarrow> message \<Rightarrow> bool \<times> 'pk \<times> message) \<Rightarrow> bool \<Rightarrow> message list \<Rightarrow> 'pk \<Rightarrow>
      u32 \<times> bool \<times> 'pk \<times> message list" where
  "access_msgs acc stop [] pk = (0, False, pk, [])"
| "access_msgs acc stop (m # ms) pk =
     (let (hit, pk1, m') = acc pk m in
      if hit \<and> stop then (1, True, pk1, m' # ms)
      else let (n, st, pk2, ms') = access_msgs acc stop ms pk1 in (if hit then n + 1 else n, st, pk2, m' # ms'))"

fun access_groups ::
    "('pk \<Rightarrow> message \<Rightarrow> bool \<times> 'pk \<times> message) \<Rightarrow> bool \<Rightarrow> (addr \<times> message list) list \<Rightarrow> 'pk \<Rightarrow>
      u32 \<times> 'pk \<times> (addr \<times> message list) list" where
  "access_groups acc stop [] pk = (0, pk, [])"
| "access_groups acc stop ((a, ms) # g) pk =
     (let (n, st, pk1, ms') = access_msgs acc stop ms pk in
      if st then (1, pk1, (a, ms') # g)
      else let (k, pk2, g') = access_groups acc stop g pk1 in (n + k, pk2, (a, ms') # g'))"

definition MessageBuffer_functionalAccess ::
    "('pk \<Rightarrow> message \<Rightarrow> bool \<times> 'pk \<times> message) \<Rightarrow> bool \<Rightarrow> 'pk \<Rightarrow> MessageBuffer \<Rightarrow> u32 \<times> 'pk \<times> MessageBuffer" where
  "MessageBuffer_functionalAccess acc stop pk b =
     (let (n, st, pk1, h) = access_msgs acc stop (m_prio_heap b) pk; b1 = b\<lparr>m_prio_heap := h\<rparr> in
      if st then (1, pk1, b1)
      else let (k, pk2, g) = access_groups acc stop (m_stall_msg_map b) pk1 in
        (n + k, pk2, b1\<lparr>m_stall_msg_map := g\<rparr>))"

definition MessageBuffer_functionalRead ::
    "(message \<Rightarrow> 'pk \<Rightarrow> bool \<times> 'pk) \<Rightarrow> bool \<Rightarrow> 'pk \<Rightarrow> MessageBuffer \<Rightarrow> bool \<times> 'pk" where
  "MessageBuffer_functionalRead fr with_mask pk b =
     (let (n, pk', _) = MessageBuffer_functionalAccess (\<lambda>pk m. (fst (fr m pk), snd (fr m pk), m)) (\<not> with_mask) pk b
      in (n = 1, pk'))"

definition MessageBuffer_functionalWrite ::
    "('pk \<Rightarrow> message \<Rightarrow> bool \<times> message) \<Rightarrow> 'pk \<Rightarrow> MessageBuffer \<Rightarrow> u32 \<times> MessageBuffer" where
  "MessageBuffer_functionalWrite fw pk b =
     (let (n, _, b') = MessageBuffer_functionalAccess (\<lambda>pk m. (fst (fw pk m), pk, snd (fw pk m))) False pk b in (n, b'))"

section \<open>The heap of messages\<close>

text \<open>Messages are ordered by arrival time, then by number.\<close>

definition mkey :: "message \<Rightarrow> tick \<times> 64 word" where
  "mkey m = (m_LastEnqueueTime m, m_msg_counter m)"

lemma Message_greater_iff: "Message_greater l r \<longleftrightarrow> mkey r < mkey l"
  by (auto simp: Message_greater_def mkey_def less_prod_def)

interpretation mh: heap_ops mkey "is_heap mkey" "push_heap Message_greater" "pop_heap Message_greater"
  by (rule heap_ops_of_comparison) (rule Message_greater_iff)

text \<open>The messages in the order in which they leave the buffer.\<close>

definition MessageBuffer_queue :: "MessageBuffer \<Rightarrow> message list" where
  "MessageBuffer_queue b = sort_key mkey (m_prio_heap b)"

definition stalled_msgs :: "MessageBuffer \<Rightarrow> message list" where
  "stalled_msgs b = concat (map snd (m_stall_msg_map b))"

definition mb_msgs :: "MessageBuffer \<Rightarrow> message list" where
  "mb_msgs b = m_prio_heap b @ stalled_msgs b"

text \<open>
  The invariant: a heap, messages numbered apart by the counter, and a stall map with one list per
  address whose total size is tracked.
\<close>

definition mb_ok :: "MessageBuffer \<Rightarrow> bool" where
  "mb_ok b =
     (is_heap mkey (m_prio_heap b) \<and> distinct (map m_msg_counter (mb_msgs b)) \<and>
      (\<forall>m\<in>set (mb_msgs b). m_msg_counter m \<le> mb_msg_counter b) \<and>
      distinct (map fst (m_stall_msg_map b)) \<and> m_stall_map_size b = int (length (stalled_msgs b)))"

lemma mb_ok_new: "mb_ok (MessageBuffer_new sz rate ord rand zl pr)"
  by (simp add: mb_ok_def MessageBuffer_new_def mb_msgs_def stalled_msgs_def mh.heap_Nil)

lemma inj_mkey: "distinct (map m_msg_counter ms) \<Longrightarrow> inj_on mkey (set ms)"
  by (rule inj_onI) (auto simp: mkey_def distinct_map dest: inj_onD)

section \<open>What the operations do\<close>

lemma arrival_time_keeps:
  assumes "arrival_time rs rnd t d b = (a, b')"
  shows "\<exists>l. m_last_arrival_time b \<le> l \<and> b' = b\<lparr>m_last_arrival_time := l\<rparr>"
  using assms by (intro exI [of _ "m_last_arrival_time b'"]) (auto simp: arrival_time_def Let_def split: if_splits)

lemma stamp_message_eq_Inr [res_iff]:
  "stamp_message t a c m = Inr m' \<longleftrightarrow> m_LastEnqueueTime m \<le> t \<and>
     m' = m\<lparr>m_DelayedTicks := m_DelayedTicks m + (t - m_LastEnqueueTime m), m_LastEnqueueTime := a, m_msg_counter := c\<rparr>"
  by (auto simp: stamp_message_def Message_updateDelayedTicks_def res_iff)

text \<open>The message that an insertion at time \<open>t\<close>, arriving at \<open>a\<close>, leaves in the buffer.\<close>

definition stamped :: "tick \<Rightarrow> tick \<Rightarrow> MessageBuffer \<Rightarrow> message \<Rightarrow> message" where
  "stamped t a b m =
     m\<lparr>m_DelayedTicks := m_DelayedTicks m + (t - m_LastEnqueueTime m), m_LastEnqueueTime := a,
       m_msg_counter := mb_msg_counter b + 1\<rparr>"

lemma count_enqueue_fields [simp]:
  "m_prio_heap (count_enqueue t b) = m_prio_heap b" "m_stall_msg_map (count_enqueue t b) = m_stall_msg_map b"
  "m_stall_map_size (count_enqueue t b) = m_stall_map_size b" "m_max_size (count_enqueue t b) = m_max_size b"
  "mb_msg_counter (count_enqueue t b) = mb_msg_counter b + 1" "m_strict_fifo (count_enqueue t b) = m_strict_fifo b"
  "m_time_last_time_pop (count_enqueue t b) = m_time_last_time_pop b" "m_consumer (count_enqueue t b) = m_consumer b"
  "m_size_at_cycle_start (count_enqueue t b) = m_size_at_cycle_start b"
  "m_stalled_at_cycle_start (count_enqueue t b) = m_stalled_at_cycle_start b"
  "m_allow_zero_latency (count_enqueue t b) = m_allow_zero_latency b"
  "m_last_arrival_time (count_enqueue t b) = m_last_arrival_time b"
  "m_randomization (count_enqueue t b) = m_randomization b"
  "m_last_message_strict_fifo_bypassed (count_enqueue t b) = m_last_message_strict_fifo_bypassed b"
  "m_buf_msgs (count_enqueue t b) = m_buf_msgs b" "m_dequeue_callback (count_enqueue t b) = m_dequeue_callback b"
  by (simp_all add: count_enqueue_def Let_def)

lemma count_pop_fields [simp]:
  "m_prio_heap (count_pop t b) = m_prio_heap b" "m_stall_msg_map (count_pop t b) = m_stall_msg_map b"
  "m_stall_map_size (count_pop t b) = m_stall_map_size b" "m_max_size (count_pop t b) = m_max_size b"
  "mb_msg_counter (count_pop t b) = mb_msg_counter b" "m_strict_fifo (count_pop t b) = m_strict_fifo b"
  "m_time_last_time_enqueue (count_pop t b) = m_time_last_time_enqueue b"
  "m_msgs_this_cycle (count_pop t b) = m_msgs_this_cycle b"
  "m_last_arrival_time (count_pop t b) = m_last_arrival_time b"
  "m_last_message_strict_fifo_bypassed (count_pop t b) = m_last_message_strict_fifo_bypassed b"
  by (simp_all add: count_pop_def Let_def)

lemma enqueueD:
  assumes "MessageBuffer_enqueue rs rnd msg t d byp b = Inr (b', ws)"
  obtains m c a l where "msg = Some m" "m_consumer b = Some c" "ws = [(c, At a)]" "t \<le> a"
    "b' = (count_enqueue t b)\<lparr>m_prio_heap := push_heap Message_greater (m_prio_heap b @ [stamped t a b m]),
      m_last_arrival_time := l, m_last_message_strict_fifo_bypassed := byp, m_buf_msgs := m_buf_msgs b + 1\<rparr>"
    "\<not> rs_warmup_enabled rs \<Longrightarrow> l = a"
    "m_strict_fifo b \<Longrightarrow> \<not> byp \<Longrightarrow> \<not> m_last_message_strict_fifo_bypassed b \<Longrightarrow> m_last_arrival_time b \<le> a"
    "m_max_size b = 0 \<or> int (length (m_prio_heap b)) + 1 + m_stall_map_size b \<le> uint (m_max_size b)"
proof -
  let ?b = "count_enqueue t b"
  obtain a b1 where ab: "arrival_time rs rnd t d ?b = (a, b1)" by fastforce
  from arrival_time_keeps [OF ab] obtain l where l: "m_last_arrival_time ?b \<le> l" "b1 = ?b\<lparr>m_last_arrival_time := l\<rparr>"
    by blast
  obtain m where m: "msg = Some m" using assms ab
    by (cases msg) (simp_all add: MessageBuffer_enqueue_def Let_def rbind_eq_Inr)
  let ?l = "if rs_warmup_enabled rs then l else a"
  let ?b3 = "?b\<lparr>m_last_arrival_time := ?l, m_last_message_strict_fifo_bypassed := byp\<rparr>"
  let ?b4 = "?b3\<lparr>m_prio_heap := push_heap Message_greater (m_prio_heap b @ [stamped t a b m]), m_buf_msgs := m_buf_msgs b + 1\<rparr>"
  have b3: "(if rs_warmup_enabled rs then b1 else b1\<lparr>m_last_arrival_time := a\<rparr>)\<lparr>m_last_message_strict_fifo_bypassed := byp\<rparr> = ?b3"
    by (simp add: l(2))
  note e = assms [unfolded MessageBuffer_enqueue_def Let_def ab prod.case b3 m option.case rbind_eq_Inr check_eq_Inr stamp_message_eq_Inr]
  have e': "t \<le> a" "\<not> (m_strict_fifo b1 \<and> \<not> (byp \<or> m_last_message_strict_fifo_bypassed b1) \<and> a < m_last_arrival_time b1)"
      "m_max_size b = 0 \<or> int (length (m_prio_heap ?b4)) + m_stall_map_size b \<le> uint (m_max_size b)"
      "wake_consumer (At a) ?b4 = Inr ws" "b' = ?b4"
    using e by (auto simp: heap_insert_def stamped_def)
  obtain c where "m_consumer b = Some c" "ws = [(c, At a)]"
    using e'(4) by (cases "m_consumer b") (simp_all add: wake_consumer_def)
  then show thesis using m e' l mh.length_push by (intro that [of m c a ?l]) auto
qed

lemma dequeueD:
  assumes "MessageBuffer_dequeue now t dec b = Inr (delay, m', b', ws)"
  obtains m ms where "m_prio_heap b = m # ms" "m_LastEnqueueTime m \<le> t" "m_time_last_time_pop b \<le> t"
    "m' = m\<lparr>m_DelayedTicks := m_DelayedTicks m + (t - m_LastEnqueueTime m)\<rparr>" "delay = m_DelayedTicks m'"
    "\<exists>st mc bm. b' = (heap_remove (count_pop t b))\<lparr>m_stall_time := st, m_msg_count := mc, m_buf_msgs := bm\<rparr>"
    "ws = (case m_dequeue_callback b of None \<Rightarrow> [] | Some call \<Rightarrow> call now)"
proof (cases "m_prio_heap b")
  case Nil
  then show thesis using assms by (auto simp: MessageBuffer_dequeue_def MessageBuffer_isReady_def Let_def res_iff)
next
  case (Cons m ms)
  have k: "x = x\<lparr>m_stall_time := m_stall_time x, m_msg_count := m_msg_count x, m_buf_msgs := m_buf_msgs x\<rparr>"
    for x :: MessageBuffer by simp
  have "m_dequeue_callback (heap_remove (count_pop t b)) = m_dequeue_callback b"
    by (simp add: heap_remove_def count_pop_def Let_def)
  then show thesis using assms Cons
    by (intro that [of m ms])
      (auto simp: MessageBuffer_dequeue_def MessageBuffer_isReady_def MessageBuffer_peekMsgPtr_def
        Message_updateDelayedTicks_def Let_def res_iff split: if_splits intro: k)
qed

section \<open>The invariant is kept\<close>

lemma stamped_fields [simp]:
  "m_msg_counter (stamped t a b m) = mb_msg_counter b + 1" "m_LastEnqueueTime (stamped t a b m) = a"
  "msg_payload (stamped t a b m) = msg_payload m"
  by (simp_all add: stamped_def)

lemma distinct_map_mset: "mset xs = mset ys \<Longrightarrow> distinct (map f xs) = distinct (map f ys)"
  by (metis mset_eq_imp_distinct_iff mset_map)

lemma distinct_subset_mset:
  assumes "mset xs \<subseteq># mset ys" "distinct ys"
  shows "distinct xs"
proof -
  obtain M where "mset ys = mset xs + M" using assms(1) by (auto simp: mset_subset_eq_exists_conv)
  moreover obtain zs where "mset zs = M" using ex_mset [of M] by blast
  ultimately have "mset ys = mset (xs @ zs)" by simp
  then show ?thesis using assms(2) mset_eq_imp_distinct_iff [of ys "xs @ zs"] by simp
qed

text \<open>Moving messages between the parts of the buffer keeps the numbering.\<close>

lemma mb_ok_rearrange:
  assumes "mb_ok b" "mset (mb_msgs b') \<subseteq># mset (map f (mb_msgs b))" "\<And>m. m_msg_counter (f m) = m_msg_counter m"
    and "is_heap mkey (m_prio_heap b')" "distinct (map fst (m_stall_msg_map b'))"
    and "m_stall_map_size b' = int (length (stalled_msgs b'))" "mb_msg_counter b' = mb_msg_counter b"
  shows "mb_ok b'"
proof -
  have c: "map m_msg_counter (map f ms) = map m_msg_counter ms" for ms using assms(3) by simp
  have "mset (map m_msg_counter (mb_msgs b')) \<subseteq># mset (map m_msg_counter (mb_msgs b))"
    using image_mset_subseteq_mono [OF assms(2), of m_msg_counter] c by (metis mset_map)
  then have "distinct (map m_msg_counter (mb_msgs b'))"
    using assms(1) distinct_subset_mset unfolding mb_ok_def by blast
  moreover have "\<forall>m\<in>set (mb_msgs b'). m_msg_counter m \<le> mb_msg_counter b"
    using assms(1) set_mset_mono [OF assms(2)] assms(3) by (fastforce simp: mb_ok_def)
  ultimately show ?thesis using assms by (simp add: mb_ok_def)
qed

lemma heap_remove_msgs:
  assumes "mb_ok b" "m_prio_heap b = m # ms"
  shows "mset (m_prio_heap (heap_remove b)) = mset ms" "is_heap mkey (m_prio_heap (heap_remove b))"
  using assms mh.mset_pop [of m ms] mh.heap_pop [of m ms] by (simp_all add: heap_remove_def mb_ok_def)

lemma enqueue_mb_ok:
  assumes ok: "mb_ok b" and e: "MessageBuffer_enqueue rs rnd msg t d byp b = Inr (b', ws)"
    and c: "unat (mb_msg_counter b) + 1 < 2 ^ 64"
  shows "mb_ok b'"
proof -
  obtain m cn a l where e': "b' = (count_enqueue t b)\<lparr>m_prio_heap := push_heap Message_greater (m_prio_heap b @ [stamped t a b m]),
      m_last_arrival_time := l, m_last_message_strict_fifo_bypassed := byp, m_buf_msgs := m_buf_msgs b + 1\<rparr>"
    using enqueueD [OF e] by metis
  have n: "mb_msg_counter b < mb_msg_counter b + 1"
    using c unat_plus [of "mb_msg_counter b" 1] by (simp add: word_less_nat_alt)
  have le: "\<forall>x\<in>set (mb_msgs b). m_msg_counter x < mb_msg_counter b + 1"
    using ok n by (auto simp: mb_ok_def intro: le_less_trans)
  have ms: "mset (mb_msgs b') = mset (stamped t a b m # mb_msgs b)"
    using mh.mset_push by (simp add: e' mb_msgs_def stalled_msgs_def)
  have "distinct (map m_msg_counter (stamped t a b m # mb_msgs b))" using ok le by (auto simp: mb_ok_def)
  then have "distinct (map m_msg_counter (mb_msgs b'))" using distinct_map_mset [OF ms] by blast
  moreover have "set (mb_msgs b') = set (stamped t a b m # mb_msgs b)" using ms by (metis set_mset_mset)
  moreover have "is_heap mkey (m_prio_heap b')" using ok mh.heap_push by (simp add: e' mb_ok_def)
  ultimately show ?thesis using ok le by (auto simp: mb_ok_def e' stalled_msgs_def less_imp_le)
qed

lemma dequeue_mb_ok:
  assumes ok: "mb_ok b" and d: "MessageBuffer_dequeue now t dec b = Inr (delay, m', b', ws)"
  shows "mb_ok b'"
proof -
  obtain m ms st mc bm where h: "m_prio_heap b = m # ms"
      and b': "b' = (heap_remove (count_pop t b))\<lparr>m_stall_time := st, m_msg_count := mc, m_buf_msgs := bm\<rparr>"
    using dequeueD [OF d] by metis
  have ok': "mb_ok (count_pop t b)" using ok by (simp add: mb_ok_def mb_msgs_def stalled_msgs_def)
  note r = heap_remove_msgs [OF ok', of m ms]
  have "mset (mb_msgs b') \<subseteq># mset (map (\<lambda>x. x) (mb_msgs b))"
    using r(1) h by (simp add: b' mb_msgs_def stalled_msgs_def heap_remove_def)
  then show ?thesis using ok r(2) h
    by (intro mb_ok_rearrange [of b b' "\<lambda>x. x"]) (auto simp: b' mb_ok_def stalled_msgs_def heap_remove_def)
qed

section \<open>The buffer refines a queue\<close>

text \<open>An insertion puts the stamped message at its place; a removal takes the first message.\<close>

lemma enqueue_queue:
  assumes ok: "mb_ok b" and e: "MessageBuffer_enqueue rs rnd msg t d byp b = Inr (b', ws)"
    and c: "unat (mb_msg_counter b) + 1 < 2 ^ 64"
  obtains m a where "msg = Some m" "t \<le> a"
    "MessageBuffer_queue b' = insort_key mkey (stamped t a b m) (MessageBuffer_queue b)"
proof -
  obtain m cn a l where m: "msg = Some m" "t \<le> a"
    and e': "b' = (count_enqueue t b)\<lparr>m_prio_heap := push_heap Message_greater (m_prio_heap b @ [stamped t a b m]),
      m_last_arrival_time := l, m_last_message_strict_fifo_bypassed := byp, m_buf_msgs := m_buf_msgs b + 1\<rparr>"
    using enqueueD [OF e] by metis
  have "inj_on mkey (set (m_prio_heap b'))"
    using enqueue_mb_ok [OF assms] by (intro inj_mkey) (simp add: mb_ok_def mb_msgs_def)
  then have "inj_on mkey (insert (stamped t a b m) (set (m_prio_heap b)))" by (simp add: e' mh.set_push)
  from mh.sequence_push [OF this] m show thesis by (intro that) (simp_all add: MessageBuffer_queue_def e')
qed

lemma dequeue_queue:
  assumes ok: "mb_ok b" and d: "MessageBuffer_dequeue now t dec b = Inr (delay, m', b', ws)"
  shows "\<exists>m. MessageBuffer_queue b = m # MessageBuffer_queue b' \<and>
    m' = m\<lparr>m_DelayedTicks := m_DelayedTicks m + (t - m_LastEnqueueTime m)\<rparr>"
proof -
  obtain m ms st mc bm where h: "m_prio_heap b = m # ms"
      and m': "m' = m\<lparr>m_DelayedTicks := m_DelayedTicks m + (t - m_LastEnqueueTime m)\<rparr>"
      and b': "b' = (heap_remove (count_pop t b))\<lparr>m_stall_time := st, m_msg_count := mc, m_buf_msgs := bm\<rparr>"
    using dequeueD [OF d] by metis
  have "is_heap mkey (m # ms)" "distinct (map m_msg_counter (m # ms))"
    using ok h by (auto simp: mb_ok_def mb_msgs_def)
  from mh.sequence_pop [OF this(1) inj_mkey [OF this(2)]] m' show ?thesis
    by (intro exI [of _ m]) (simp add: MessageBuffer_queue_def h b' heap_remove_def)
qed

section \<open>An ordered buffer\<close>

text \<open>Insertions and removals in any order, with the messages removed so far.\<close>

datatype mb_op = Enq message tick tick "tick \<times> tick \<times> tick" | Deq tick

fun mb_exec :: "ruby_system \<Rightarrow> mb_op \<Rightarrow> MessageBuffer \<times> message list \<Rightarrow> (MessageBuffer \<times> message list) res" where
  "mb_exec rs (Enq m t d rnd) (b, out) =
     rbind (MessageBuffer_enqueue rs rnd (Some m) t d False b) (\<lambda>(b', _). Inr (b', out))"
| "mb_exec rs (Deq t) (b, out) =
     rbind (MessageBuffer_dequeue t t True b) (\<lambda>(_, m, b', _). Inr (b', out @ [m]))"

fun mb_inputs :: "mb_op list \<Rightarrow> int list" where
  "mb_inputs [] = []"
| "mb_inputs (Enq m t d rnd # ops) = msg_payload m # mb_inputs ops"
| "mb_inputs (Deq t # ops) = mb_inputs ops"

definition fifo_ok :: "MessageBuffer \<Rightarrow> bool" where
  "fifo_ok b =
     (mb_ok b \<and> m_strict_fifo b \<and> \<not> m_last_message_strict_fifo_bypassed b \<and>
      (\<forall>m\<in>set (m_prio_heap b). m_LastEnqueueTime m \<le> m_last_arrival_time b))"

lemma fifo_ok_enqueue:
  assumes ok: "fifo_ok b" and e: "MessageBuffer_enqueue rs rnd (Some m) t d False b = Inr (b', ws)"
    and c: "unat (mb_msg_counter b) + 1 < 2 ^ 64" and w: "\<not> rs_warmup_enabled rs"
  shows "fifo_ok b' \<and> mb_msg_counter b' = mb_msg_counter b + 1 \<and>
    map msg_payload (MessageBuffer_queue b') = map msg_payload (MessageBuffer_queue b) @ [msg_payload m]"
proof -
  have mb: "mb_ok b" using ok by (simp add: fifo_ok_def)
  obtain a l where
      e': "b' = (count_enqueue t b)\<lparr>m_prio_heap := push_heap Message_greater (m_prio_heap b @ [stamped t a b m]),
        m_last_arrival_time := a, m_last_message_strict_fifo_bypassed := False, m_buf_msgs := m_buf_msgs b + 1\<rparr>"
      and la: "m_last_arrival_time b \<le> a"
    using enqueueD [OF e] ok w unfolding fifo_ok_def by (metis option.inject)
  have ok': "mb_ok b'" by (rule enqueue_mb_ok [OF mb e c])
  have n: "mb_msg_counter b < mb_msg_counter b + 1"
    using c unat_plus [of "mb_msg_counter b" 1] by (simp add: word_less_nat_alt)
  have le: "m_LastEnqueueTime x \<le> a" "m_msg_counter x < mb_msg_counter b + 1" if "x \<in> set (m_prio_heap b)" for x
    using ok la n that by (auto simp: fifo_ok_def mb_ok_def mb_msgs_def intro: order_trans le_less_trans)
  then have "\<forall>x\<in>set (m_prio_heap b). mkey x < mkey (stamped t a b m)" by (auto simp: mkey_def less_prod_def)
  moreover have "inj_on mkey (insert (stamped t a b m) (set (m_prio_heap b)))"
    using ok' inj_mkey [of "m_prio_heap b'"] by (simp add: mb_ok_def mb_msgs_def e' mh.set_push)
  ultimately have "MessageBuffer_queue b' = MessageBuffer_queue b @ [stamped t a b m]"
    using mh.sequence_push_last by (simp add: MessageBuffer_queue_def e')
  moreover have "fifo_ok b'" using ok ok' le by (auto simp: fifo_ok_def e' mh.set_push)
  ultimately show ?thesis by (simp add: e')
qed

lemma fifo_ok_dequeue:
  assumes ok: "fifo_ok b" and d: "MessageBuffer_dequeue now t dec b = Inr (delay, m', b', ws)"
  shows "fifo_ok b' \<and> mb_msg_counter b' = mb_msg_counter b \<and>
    map msg_payload (MessageBuffer_queue b) = msg_payload m' # map msg_payload (MessageBuffer_queue b')"
proof -
  have mb: "mb_ok b" using ok by (simp add: fifo_ok_def)
  obtain m ms st mc bm where h: "m_prio_heap b = m # ms"
      and b': "b' = (heap_remove (count_pop t b))\<lparr>m_stall_time := st, m_msg_count := mc, m_buf_msgs := bm\<rparr>"
    using dequeueD [OF d] by metis
  have "is_heap mkey (m # ms)" using mb h by (simp add: mb_ok_def)
  then have "set (m_prio_heap b') \<subseteq> set (m_prio_heap b)"
    using mh.set_pop [of m ms] h by (auto simp: b' heap_remove_def)
  then have "fifo_ok b'" using ok dequeue_mb_ok [OF mb d] by (auto simp: fifo_ok_def b' heap_remove_def)
  then show ?thesis using dequeue_queue [OF mb d] by (auto simp: b' heap_remove_def)
qed

lemma mb_run_fifo:
  assumes "rfold (mb_exec rs) ops (b, out) = Inr (b', out')" "fifo_ok b" "\<not> rs_warmup_enabled rs"
    and "unat (mb_msg_counter b) + length ops < 2 ^ 64"
  shows "map msg_payload (out' @ MessageBuffer_queue b') =
    map msg_payload (out @ MessageBuffer_queue b) @ mb_inputs ops"
  using assms(1,2,4)
proof (induction ops arbitrary: b out)
  case Nil
  then show ?case by simp
next
  case (Cons op ops)
  show ?case
  proof (cases op)
    case (Enq m t d rnd)
    with Cons.prems(1) obtain b1 ws where e: "MessageBuffer_enqueue rs rnd (Some m) t d False b = Inr (b1, ws)"
      and r: "rfold (mb_exec rs) ops (b1, out) = Inr (b', out')" by (auto simp: rbind_eq_Inr)
    have c: "unat (mb_msg_counter b) + 1 < 2 ^ 64" using Cons.prems(3) by simp
    note f = fifo_ok_enqueue [OF Cons.prems(2) e c assms(3)]
    have "unat (mb_msg_counter b1) + length ops < 2 ^ 64"
      using f unat_plus [of "mb_msg_counter b" 1] Cons.prems(3) by simp
    from Cons.IH [OF r _ this] f show ?thesis by (simp add: Enq)
  next
    case (Deq t)
    with Cons.prems(1) obtain delay m b1 ws where d: "MessageBuffer_dequeue t t True b = Inr (delay, m, b1, ws)"
      and r: "rfold (mb_exec rs) ops (b1, out @ [m]) = Inr (b', out')" by (auto simp: rbind_eq_Inr)
    note f = fifo_ok_dequeue [OF Cons.prems(2) d]
    have "unat (mb_msg_counter b1) + length ops < 2 ^ 64" using f Cons.prems(3) by simp
    from Cons.IH [OF r _ this] f show ?thesis by (simp add: Deq)
  qed
qed

text \<open>
  C20. An ordered message buffer is a queue. From a new buffer, whatever insertions (with any
  delays, randomised or not) and removals are performed in whatever order, as long as none of them
  aborts: the messages removed so far followed by those still waiting are exactly the messages
  inserted, in the order of insertion.
\<close>

theorem ordered_buffer_is_fifo:
  assumes "MessageBuffer_setConsumer c (MessageBuffer_new sz rate True rand zl pr) = Inr b"
    and "rfold (mb_exec rs) ops (b, []) = Inr (b', out)"
    and "\<not> rs_warmup_enabled rs" "length ops < 2 ^ 64"
  shows "map msg_payload out @ map msg_payload (MessageBuffer_queue b') = mb_inputs ops"
proof -
  have b: "b = (MessageBuffer_new sz rate True rand zl pr)\<lparr>m_consumer := Some c\<rparr>"
    using assms(1) by (auto simp: MessageBuffer_setConsumer_def res_iff)
  have "fifo_ok b" "mb_msg_counter b = 0" "MessageBuffer_queue b = []"
    using mb_ok_new [of sz rate True rand zl pr]
    by (auto simp: b fifo_ok_def MessageBuffer_new_def mb_ok_def mb_msgs_def stalled_msgs_def MessageBuffer_queue_def)
  then show ?thesis using mb_run_fifo [OF assms(2) _ assms(3)] assms(4) by simp
qed

definition demo_msg :: "int \<Rightarrow> message" where
  "demo_msg i = \<lparr>msg_time = 0, m_LastEnqueueTime = 0, m_DelayedTicks = 0, m_msg_counter = 0, incoming_link = 0,
     msg_vnet = 0, msg_dest = no_dest, msg_bytes = 8, msg_payload = i\<rparr>"

definition demo_rs :: ruby_system where
  "demo_rs = \<lparr>rs_randomization = False, rs_warmup_enabled = False, rs_block_size_bits = 6\<rparr>"

definition demo_ops :: "mb_op list" where
  "demo_ops = [Enq (demo_msg 7) 10 5 (0, 0, 0), Enq (demo_msg 8) 12 3 (0, 0, 0), Deq 15, Enq (demo_msg 9) 16 1 (0, 0, 0), Deq 20]"

theorem ordered_buffer_is_fifo_witness:
  "\<exists>b b' out. MessageBuffer_setConsumer (ToNI 0) (MessageBuffer_new 4 0 True MR_disabled False 0) = Inr b \<and>
    rfold (mb_exec demo_rs) demo_ops (b, []) = Inr (b', out) \<and>
    map msg_payload out @ map msg_payload (MessageBuffer_queue b') = [7, 8, 9]"
proof -
  have "case rbind (MessageBuffer_setConsumer (ToNI 0) (MessageBuffer_new 4 0 True MR_disabled False 0))
      (\<lambda>b. rfold (mb_exec demo_rs) demo_ops (b, [])) of Inr _ \<Rightarrow> True | Inl _ \<Rightarrow> False" by code_simp
  then obtain b b' out where r: "MessageBuffer_setConsumer (ToNI 0) (MessageBuffer_new 4 0 True MR_disabled False 0) = Inr b"
      "rfold (mb_exec demo_rs) demo_ops (b, []) = Inr (b', out)"
    by (auto simp: rbind_eq_Inr split: sum.splits)
  have "mb_inputs demo_ops = [7, 8, 9]" "length demo_ops < 2 ^ 64" by (simp_all add: demo_ops_def demo_msg_def)
  then show ?thesis using ordered_buffer_is_fifo [OF r] r by (simp add: demo_rs_def)
qed

end
