(* ===== verification/Garnet_NetworkInterface.thy ===== *)
theory Garnet_NetworkInterface
  imports Garnet_Counters Garnet_MessageBuffer Garnet_OutputUnit
begin

text \<open>
  The network interface: NetworkInterface.hh/cc. It takes messages from the protocol's buffers or
  records from a trace, turns them into flits, sends them under credit-based flow control, receives
  flits, hands their messages to the protocol's buffers and sends credits back.

  Links and message buffers are shared objects: the \<open>world\<close> holds them in lists, and ports and
  nodes refer to them by index. The world also holds the network's counters, the number of random
  draws so far and the wake-ups asked for, in order. The arguments of an operation that do not
  change (the clock, the parameters of the network, the machine configuration, the directory of
  the other interfaces that \<open>magicSend\<close> and \<open>get_router_id\<close> reach through the network) form the
  record \<open>ni_env\<close>.

  The code of this repository delivers a protocol message ``magically'' (\<open>flitisizeMessage\<close> with
  \<open>network_trace\<close> set) and sends flits only for the records of a trace; the branch that would send
  them for a message is dead code. A message that \<open>flitisizeMessage\<close> changes through its pointer is
  returned changed.
\<close>

section \<open>Definitions: state\<close>

record OutputPort =
  op_vnets :: "int list"
  outFlitQueue :: flitBuffer
  outNetLink :: int
  inCreditLink :: int
  vcRoundRobin :: int
  routerID :: int
  op_bitWidth :: u32

record InputPort =
  ip_vnets :: "int list"
  outCreditQueue :: flitBuffer
  inNetLink :: int
  outCreditLink :: int
  ip_bitWidth :: u32
  m_stall_queue :: "flit list"
  messageEnqueuedThisCycle :: "bool option"

record NetworkInterface =
  ni_id :: int
  ni_virtual_networks :: int
  ni_vc_per_vnet :: int
  m_vc_allocator :: "int list"
  outPorts :: "OutputPort list"
  inPorts :: "InputPort list"
  m_deadlock_threshold :: int
  ni_outVcState :: "OutVcState list"
  m_stall_count :: "int list"
  niOutVcs :: "flitBuffer list"
  m_ni_out_vcs_enqueue_time :: "tick list"
  m_trace_injection_queue :: "flit list"
  m_trace_record_queue :: "NetworkTraceRecord list"
  inNode_ptr :: "int option list"
  outNode_ptr :: "int option list"
  vc_busy_counter :: "int list"

record world =
  w_links :: "NetworkLink list"
  w_bufs :: "MessageBuffer list"
  w_gn :: garnet
  w_draws :: nat
  w_wakes :: wakes

record ni_dir =
  nd_period :: tick
  nd_outNode :: "int option list"
  nd_outPorts :: "OutputPort list"

record ni_env =
  e_period :: tick
  e_now :: tick
  e_net :: net_params
  e_rs :: ruby_system
  e_rnd :: "nat \<Rightarrow> tick \<times> tick \<times> tick"
  e_nb :: nat
  e_cs :: "int list"
  e_local :: "int \<Rightarrow> int res"
  e_dir :: "ni_dir list"

section \<open>Definitions: the world\<close>

definition w_wake :: "wakes \<Rightarrow> world \<Rightarrow> world" where
  "w_wake ws w = w\<lparr>w_wakes := w_wakes w @ ws\<rparr>"

definition w_count :: "(garnet \<Rightarrow> garnet res) \<Rightarrow> world \<Rightarrow> world res" where
  "w_count f w = rbind (f (w_gn w)) (\<lambda>g. Inr (w\<lparr>w_gn := g\<rparr>))"

definition w_enqueue :: "ni_env \<Rightarrow> int \<Rightarrow> message option \<Rightarrow> tick \<Rightarrow> tick \<Rightarrow> world \<Rightarrow> world res" where
  "w_enqueue env i m t delta w =
     rbind (vget (w_bufs w) i) (\<lambda>b.
     rbind (MessageBuffer_enqueue (e_rs env) (e_rnd env (w_draws w)) m t delta False b) (\<lambda>(b', ws).
     rbind (vset (w_bufs w) i b') (\<lambda>bs.
     Inr (w\<lparr>w_bufs := bs, w_draws := w_draws w + 1, w_wakes := w_wakes w @ ws\<rparr>))))"

definition w_slots :: "u32 \<Rightarrow> tick \<Rightarrow> int \<Rightarrow> world \<Rightarrow> (bool \<times> world) res" where
  "w_slots n t i w =
     rbind (vget (w_bufs w) i) (\<lambda>b.
     let (ok, b') = MessageBuffer_areNSlotsAvailable n t b in
     rbind (vset (w_bufs w) i b') (\<lambda>bs. Inr (ok, w\<lparr>w_bufs := bs\<rparr>)))"

text \<open>Dereferencing a pointer to a message buffer.\<close>

definition node :: "int option list \<Rightarrow> int \<Rightarrow> int res" where
  "node ps vnet = rbind (vget ps vnet) (\<lambda>p. case p of None \<Rightarrow> Inl Undefined | Some i \<Rightarrow> Inr i)"

section \<open>Definitions: construction\<close>

definition NI_new :: "int \<Rightarrow> int \<Rightarrow> int \<Rightarrow> NetworkInterface" where
  "NI_new i virt_nets deadlock_threshold =
     \<lparr>ni_id = i, ni_virtual_networks = virt_nets, ni_vc_per_vnet = 0,
      m_vc_allocator = replicate (nat virt_nets) 0, outPorts = [], inPorts = [],
      m_deadlock_threshold = deadlock_threshold, ni_outVcState = [],
      m_stall_count = replicate (nat virt_nets) 0, niOutVcs = [], m_ni_out_vcs_enqueue_time = [],
      m_trace_injection_queue = [], m_trace_record_queue = [], inNode_ptr = [], outNode_ptr = [],
      vc_busy_counter = replicate (nat virt_nets) 0\<rparr>"

definition InputPort_new :: "int \<Rightarrow> NetworkLink \<Rightarrow> int \<Rightarrow> InputPort" where
  "InputPort_new in_link l credit_link =
     \<lparr>ip_vnets = mVnets l, outCreditQueue = flitBuffer_new, inNetLink = in_link, outCreditLink = credit_link,
      ip_bitWidth = bitWidth l, m_stall_queue = [], messageEnqueuedThisCycle = None\<rparr>"

definition OutputPort_new :: "int \<Rightarrow> NetworkLink \<Rightarrow> int \<Rightarrow> int \<Rightarrow> OutputPort" where
  "OutputPort_new out_link l credit_link router_id =
     \<lparr>op_vnets = mVnets l, outFlitQueue = flitBuffer_new, outNetLink = out_link, inCreditLink = credit_link,
      vcRoundRobin = 0, routerID = router_id, op_bitWidth = bitWidth l\<rparr>"

definition NI_addInPort :: "int \<Rightarrow> int \<Rightarrow> NetworkInterface \<times> NetworkLink list \<Rightarrow> (NetworkInterface \<times> NetworkLink list) res" where
  "NI_addInPort in_link credit_link = (\<lambda>(ni, links).
     rbind (vget links in_link) (\<lambda>l.
     let port = int (length (inPorts ni)); vcs = word_of_int (ni_vc_per_vnet ni);
         ni' = ni\<lparr>inPorts := inPorts ni @ [InputPort_new in_link l credit_link]\<rparr> in
     rbind (mod_link in_link (NetworkLink_setLinkConsumer (ToNI (ni_id ni))) links) (\<lambda>links1.
     rbind (mod_link credit_link (NetworkLink_setSourceQueue (NICredit (ni_id ni) port)) links1) (\<lambda>links2.
     if ni_vc_per_vnet ni \<noteq> 0 then
       rbind (links_setVcsPerVnet in_link vcs links2) (\<lambda>links3.
       rbind (links_setVcsPerVnet credit_link vcs links3) (\<lambda>links4. Inr (ni', links4)))
     else Inr (ni', links2)))))"

text \<open>The buffers of the output virtual channels, made for the first output port.\<close>

definition NI_make_vcs :: "net_params \<Rightarrow> u32 \<Rightarrow> NetworkInterface \<Rightarrow> NetworkInterface res" where
  "NI_make_vcs net consumerVcs ni =
     (let n = sint (consumerVcs * word_of_int (ni_virtual_networks ni)) in
      rbind (check Exception (0 \<le> n)) (\<lambda>_.
      rbind (map_res (OutVcState_new net consumerVcs) [0..n - 1]) (\<lambda>states.
      Inr (ni\<lparr>ni_vc_per_vnet := sint consumerVcs, niOutVcs := replicate (nat n) flitBuffer_new,
             ni_outVcState := ni_outVcState ni @ states,
             m_ni_out_vcs_enqueue_time := replicate (nat n) (of_int INFINITE)\<rparr>))))"

definition NI_addOutPort ::
    "net_params \<Rightarrow> int \<Rightarrow> int \<Rightarrow> int \<Rightarrow> u32 \<Rightarrow> NetworkInterface \<times> NetworkLink list \<Rightarrow>
      (NetworkInterface \<times> NetworkLink list) res" where
  "NI_addOutPort net out_link credit_link router_id consumerVcs = (\<lambda>(ni0, links).
     rbind (vget links out_link) (\<lambda>l.
     let port = int (length (outPorts ni0));
         ni = ni0\<lparr>outPorts := outPorts ni0 @ [OutputPort_new out_link l credit_link router_id]\<rparr> in
     rbind (check Assertion (0 < consumerVcs)) (\<lambda>_.
     rbind (if niOutVcs ni = [] then
              rbind (NI_make_vcs net consumerVcs ni) (\<lambda>ni1.
              rbind (rfold (\<lambda>ip ls.
                       rbind (links_setVcsPerVnet (inNetLink ip) consumerVcs ls) (\<lambda>ls1.
                       links_setVcsPerVnet credit_link consumerVcs ls1)) (inPorts ni1) links) (\<lambda>links1.
              Inr (ni1, links1)))
            else
              rbind (check Fatal (consumerVcs = word_of_int (ni_vc_per_vnet ni))) (\<lambda>_. Inr (ni, links))) (\<lambda>(ni1, links1).
     let vcs = word_of_int (ni_vc_per_vnet ni1) in
     rbind (mod_link out_link (NetworkLink_setSourceQueue (NIOut (ni_id ni1) port)) links1) (\<lambda>links2.
     rbind (links_setVcsPerVnet out_link vcs links2) (\<lambda>links3.
     rbind (mod_link credit_link (NetworkLink_setLinkConsumer (ToNI (ni_id ni1))) links3) (\<lambda>links4.
     rbind (links_setVcsPerVnet credit_link vcs links4) (\<lambda>links5.
     Inr (ni1, links5)))))))))"

definition NI_addNode ::
    "int option list \<Rightarrow> int option list \<Rightarrow> NetworkInterface \<times> MessageBuffer list \<Rightarrow>
      (NetworkInterface \<times> MessageBuffer list) res" where
  "NI_addNode ins outs = (\<lambda>(ni, bufs).
     rbind (rfold (\<lambda>p bs. case p of None \<Rightarrow> Inr bs
                        | Some i \<Rightarrow> vmod bs i (MessageBuffer_setConsumer (ToNI (ni_id ni)))) ins bufs) (\<lambda>bufs'.
     Inr (ni\<lparr>inNode_ptr := ins, outNode_ptr := outs\<rparr>, bufs')))"

definition NI_dequeueCallback :: "tick \<Rightarrow> int \<Rightarrow> tick \<Rightarrow> wakes" where
  "NI_dequeueCallback p i now = [(ToNI i, At (edge_at p now 1))]"

definition NI_schedule_wakeup :: "NetworkInterface \<Rightarrow> wakes" where
  "NI_schedule_wakeup ni = [(ToNI (ni_id ni), After 1)]"

section \<open>Definitions: ports and virtual channels\<close>

definition isVnetSupported :: "int list \<Rightarrow> int \<Rightarrow> bool" where
  "isVnetSupported vnets v = (vnets = [] \<or> v \<in> set vnets)"

text \<open>The index of the first port that supports the virtual network, or none (a null pointer).\<close>

definition port_for :: "('p \<Rightarrow> int list) \<Rightarrow> 'p list \<Rightarrow> int \<Rightarrow> int option" where
  "port_for vnets ports vnet = find (\<lambda>i. isVnetSupported (vnets (ports ! nat i)) vnet) [0..int (length ports) - 1]"

definition NI_getInportForVnet :: "int \<Rightarrow> NetworkInterface \<Rightarrow> int option" where
  "NI_getInportForVnet vnet ni = port_for ip_vnets (inPorts ni) vnet"

definition NI_getOutportForVnet :: "int \<Rightarrow> NetworkInterface \<Rightarrow> int option" where
  "NI_getOutportForVnet vnet ni = port_for op_vnets (outPorts ni) vnet"

definition NI_get_router_id :: "OutputPort list \<Rightarrow> int \<Rightarrow> int res" where
  "NI_get_router_id ports vnet =
     (case port_for op_vnets ports vnet of None \<Rightarrow> Inl Assertion | Some i \<Rightarrow> rbind (vget ports i) (\<lambda>po. Inr (routerID po)))"

definition NI_get_vnet :: "int \<Rightarrow> NetworkInterface \<Rightarrow> int res" where
  "NI_get_vnet vc ni =
     (case find (\<lambda>i. i * ni_vc_per_vnet ni \<le> vc \<and> vc < (i + 1) * ni_vc_per_vnet ni) [0..ni_virtual_networks ni - 1] of
        Some i \<Rightarrow> Inr i | None \<Rightarrow> Inl Fatal)"

text \<open>The loop of \<open>calculateVC\<close>: at most \<open>k\<close> probes from offset \<open>delta\<close> on; the offset to go on with.\<close>

fun scan_vcs :: "tick \<Rightarrow> OutVcState list \<Rightarrow> int \<Rightarrow> int \<Rightarrow> nat \<Rightarrow> int \<Rightarrow> (int option \<times> int) res" where
  "scan_vcs now states base n 0 delta = Inr (None, delta)"
| "scan_vcs now states base n (Suc k) delta =
     (let delta' = (if delta + 1 = n then 0 else delta + 1) in
      rbind (vget states (base + delta)) (\<lambda>s.
      if OutVcState_isInState IDLE now s then Inr (Some (base + delta), delta')
      else scan_vcs now states base n k delta'))"

definition NI_calculateVC :: "tick \<Rightarrow> int \<Rightarrow> NetworkInterface \<Rightarrow> (int \<times> NetworkInterface) res" where
  "NI_calculateVC now vnet ni =
     (let n = ni_vc_per_vnet ni in
      rbind (vget (m_vc_allocator ni) vnet) (\<lambda>delta.
      rbind (scan_vcs now (ni_outVcState ni) (vnet * n) n (nat n) delta) (\<lambda>(found, delta').
      rbind (vset (m_vc_allocator ni) vnet delta') (\<lambda>alloc.
      rbind (vget (vc_busy_counter ni) vnet) (\<lambda>busy.
      case found of
        Some vc \<Rightarrow>
          rbind (vset (vc_busy_counter ni) vnet 0) (\<lambda>bc.
          Inr (vc, ni\<lparr>m_vc_allocator := alloc, vc_busy_counter := bc\<rparr>))
      | None \<Rightarrow>
          rbind (vset (vc_busy_counter ni) vnet (busy + 1)) (\<lambda>bc.
          rbind (check Panic (\<not> m_deadlock_threshold ni < busy + 1)) (\<lambda>_.
          Inr (-1, ni\<lparr>m_vc_allocator := alloc, vc_busy_counter := bc\<rparr>))))))))"

section \<open>Definitions: statistics of a received flit\<close>

definition NI_incrementStats :: "ni_env \<Rightarrow> flit \<Rightarrow> world \<Rightarrow> world res" where
  "NI_incrementStats env f w =
     (let vnet = m_vnet f; route = m_route f; p = e_period env; now = e_now env;
          network_delay = m_dequeue_time f - m_enqueue_time f - cyclesToTicks p 1 in
      rbind (get_src_delay f) (\<lambda>src_queueing_delay.
      let queueing_delay = src_queueing_delay + (now - m_dequeue_time f) in
      w_count (\<lambda>g0.
        rbind (increment_received_flits vnet g0) (\<lambda>g1.
        rbind (increment_flit_network_latency network_delay vnet g1) (\<lambda>g2.
        rbind (increment_flit_queueing_latency queueing_delay vnet g2) (\<lambda>g3.
        rbind (if m_type f = TAIL \<or> m_type f = HEAD_TAIL then
                 let g4 = (if m_type f = HEAD_TAIL \<or> last_flit route
                           then add_phase_latency (network_idx route) (input_idx route) (phase_id route)
                                  (network_delay + queueing_delay) g3
                           else g3) in
                 rbind (increment_received_packets vnet g4) (\<lambda>g5.
                 rbind (increment_packet_network_latency network_delay vnet g5) (\<lambda>g6.
                 increment_packet_queueing_latency queueing_delay vnet g6))
               else Inr g3) (\<lambda>g7.
        Inr (increment_total_hops (hops_traversed route) g7)))))) w))"

section \<open>Definitions: destinations and routes\<close>

text \<open>
  The destination set of one node: the machine type whose range of numbers holds it, searched
  from the first type on; the empty set, and false, if there is none.
\<close>

fun node_machine :: "int list \<Rightarrow> int \<Rightarrow> int list \<Rightarrow> machine_id option res" where
  "node_machine cs destID [] = Inr None"
| "node_machine cs destID (m # ms) =
     rbind (MachineType_base_number cs m) (\<lambda>lo.
     rbind (MachineType_base_number cs (m + 1)) (\<lambda>hi.
     if lo \<le> destID \<and> destID < hi then Inr (Some \<lparr>mach_type = m, mach_num = destID - lo\<rparr>)
     else node_machine cs destID ms))"

definition node_dest :: "nat \<Rightarrow> int list \<Rightarrow> int \<Rightarrow> (bool \<times> net_dest) res" where
  "node_dest nb cs destID =
     rbind (NetDest_new nb cs) (\<lambda>d.
     rbind (node_machine cs destID [0..MachineType_NUM cs - 1]) (\<lambda>mach.
     case mach of
       None \<Rightarrow> Inr (False, d)
     | Some mid \<Rightarrow> rbind (NetDest_add mid (NetDest_clear d)) (\<lambda>d'. Inr (True, d'))))"

definition env_router_id :: "ni_env \<Rightarrow> int \<Rightarrow> int \<Rightarrow> int res" where
  "env_router_id env global_ni vnet =
     rbind (e_local env global_ni) (\<lambda>local_ni.
     rbind (vget (e_dir env) local_ni) (\<lambda>nd. NI_get_router_id (nd_outPorts nd) vnet))"

definition make_route :: "ni_env \<Rightarrow> NetworkInterface \<Rightarrow> int \<Rightarrow> int \<Rightarrow> int \<Rightarrow> net_dest \<Rightarrow> RouteInfo res" where
  "make_route env ni router vnet destID dest =
     rbind (env_router_id env destID vnet) (\<lambda>dr.
     Inr ((RouteInfo_new dest)\<lparr>ri_vnet := vnet, src_ni := ni_id ni, src_router := router, dest_ni := destID,
            dest_router := dr, hops_traversed := -1\<rparr>))"

section \<open>Definitions: messages of the protocol\<close>

definition NI_magicReceive :: "ni_env \<Rightarrow> ni_dir \<Rightarrow> int \<Rightarrow> message \<Rightarrow> world \<Rightarrow> world res" where
  "NI_magicReceive env nd vnet m w =
     rbind (node (nd_outNode nd) vnet) (\<lambda>i.
     w_enqueue env i (Some m) (edge_at (nd_period nd) (e_now env) 0) (cyclesToTicks (nd_period nd) 1) w)"

definition magicSend :: "ni_env \<Rightarrow> int \<Rightarrow> int \<Rightarrow> message \<Rightarrow> world \<Rightarrow> world res" where
  "magicSend env i vnet m w = rbind (vget (e_dir env) i) (\<lambda>nd. NI_magicReceive env nd vnet m w)"

fun repeat_count :: "nat \<Rightarrow> (garnet \<Rightarrow> garnet res) \<Rightarrow> world \<Rightarrow> world res" where
  "repeat_count 0 f w = Inr w"
| "repeat_count (Suc n) f w = rbind (w_count f w) (repeat_count n f)"

text \<open>One destination of a message: \<open>None\<close> if there was no free virtual channel.\<close>

definition flitisize_dest ::
    "ni_env \<Rightarrow> int \<Rightarrow> OutputPort \<Rightarrow> int \<Rightarrow> bool \<Rightarrow> int \<Rightarrow> message \<times> NetworkInterface \<times> world \<Rightarrow>
      (bool \<times> message \<times> NetworkInterface \<times> world) res" where
  "flitisize_dest env vnet oPort num_flits multi destID = (\<lambda>(m, ni, w).
     rbind (NI_calculateVC (e_now env) vnet ni) (\<lambda>(vc, ni1).
     if vc = -1 then Inr (False, m, ni1, w)
     else
       rbind (if multi then
                rbind (node_dest (e_nb env) (e_cs env) destID) (\<lambda>(found, personal_dest).
                rbind (NetDest_removeNetDest personal_dest (msg_dest m)) (\<lambda>rest.
                Inr (if found then m\<lparr>msg_dest := personal_dest\<rparr> else m, m\<lparr>msg_dest := rest\<rparr>)))
              else Inr (m, m)) (\<lambda>(new_m, m').
       rbind (make_route env ni1 (routerID oPort) vnet destID (msg_dest new_m)) (\<lambda>route.
       rbind (w_count (increment_injected_packets vnet) w) (\<lambda>w1.
       rbind (w_count (update_traffic_distribution (e_net env) route) w1) (\<lambda>w2.
       let (_, g) = getNextPacketID (w_gn w2); w3 = w2\<lparr>w_gn := g\<rparr> in
       rbind (repeat_count (nat num_flits) (increment_injected_flits vnet) w3) (\<lambda>w4.
       rbind (magicSend env destID vnet new_m w4) (\<lambda>w5. Inr (True, m', ni1, w5)))))))))"

fun flitisize_dests ::
    "ni_env \<Rightarrow> int \<Rightarrow> OutputPort \<Rightarrow> int \<Rightarrow> bool \<Rightarrow> int list \<Rightarrow> message \<times> NetworkInterface \<times> world \<Rightarrow>
      (bool \<times> message \<times> NetworkInterface \<times> world) res" where
  "flitisize_dests env vnet oPort num_flits multi [] = (\<lambda>(m, ni, w). Inr (True, m, ni, w))"
| "flitisize_dests env vnet oPort num_flits multi (d # ds) = (\<lambda>s.
     rbind (flitisize_dest env vnet oPort num_flits multi d s) (\<lambda>(ok, s').
     if ok then flitisize_dests env vnet oPort num_flits multi ds s' else Inr (False, s')))"

definition NI_flitisizeMessage ::
    "ni_env \<Rightarrow> message \<Rightarrow> int \<Rightarrow> NetworkInterface \<times> world \<Rightarrow> (bool \<times> message \<times> NetworkInterface \<times> world) res" where
  "NI_flitisizeMessage env m vnet = (\<lambda>(ni, w).
     rbind (NetDest_getAllDest (e_cs env) (msg_dest m)) (\<lambda>dest_nodes.
     case NI_getOutportForVnet vnet ni of
       None \<Rightarrow> Inl Assertion
     | Some i \<Rightarrow>
         rbind (vget (outPorts ni) i) (\<lambda>oPort.
         rbind (divCeilF (msg_bytes m) (uint (op_bitWidth oPort))) (\<lambda>num_flits.
         flitisize_dests env vnet oPort num_flits (1 < length dest_nodes) dest_nodes (m, ni, w)))))"

text \<open>
  The message at the head of a buffer is changed in place by \<open>flitisizeMessage\<close>; its key is not.
  The buffers messages are delivered to are not the ones they are taken from (\<open>toNetQueue\<close> and
  \<open>fromNetQueue\<close> of a node are different objects), so it is still at the head afterwards.
\<close>

definition set_head :: "message \<Rightarrow> MessageBuffer \<Rightarrow> MessageBuffer" where
  "set_head m b = b\<lparr>m_prio_heap := m # tl (m_prio_heap b)\<rparr>"

definition take_message :: "ni_env \<Rightarrow> int \<Rightarrow> int \<Rightarrow> NetworkInterface \<times> world \<Rightarrow> (bool \<times> NetworkInterface \<times> world) res" where
  "take_message env vnet i = (\<lambda>(ni, w).
     rbind (vget (w_bufs w) i) (\<lambda>b.
     rbind (MessageBuffer_isReady (edge_at (e_period env) (e_now env) 0) b) (\<lambda>(ready, ws).
     let w0 = w_wake ws w in
     if \<not> ready then Inr (True, ni, w0)
     else
       rbind (MessageBuffer_peekMsgPtr b) (\<lambda>m.
       rbind (NI_flitisizeMessage env m vnet (ni, w0)) (\<lambda>(sent, m', ni1, w1).
       rbind (vmod (w_bufs w1) i (\<lambda>b. Inr (set_head m' b))) (\<lambda>bufs.
       let w2 = w1\<lparr>w_bufs := bufs\<rparr> in
       if \<not> sent then Inr (False, ni1, w2)
       else
         rbind (vget (w_bufs w2) i) (\<lambda>b1.
         rbind (MessageBuffer_dequeue (e_now env) (edge_at (e_period env) (e_now env) 0) True b1) (\<lambda>(_, _, b2, ws').
         rbind (vset (w_bufs w2) i b2) (\<lambda>bufs'.
         Inr (True, ni1, w_wake ws' (w2\<lparr>w_bufs := bufs'\<rparr>)))))))))))"

fun take_messages :: "ni_env \<Rightarrow> (int \<times> int option) list \<Rightarrow> NetworkInterface \<times> world \<Rightarrow> (NetworkInterface \<times> world) res" where
  "take_messages env [] s = Inr s"
| "take_messages env ((vnet, p) # ps) s =
     (case p of
        None \<Rightarrow> take_messages env ps s
      | Some i \<Rightarrow>
          rbind (take_message env vnet i s) (\<lambda>(go_on, s'). if go_on then take_messages env ps s' else Inr s'))"

section \<open>Definitions: replay of a trace\<close>

definition NI_enqueueTracePacket :: "NetworkTraceRecord \<Rightarrow> NetworkInterface \<Rightarrow> NetworkInterface \<times> wakes" where
  "NI_enqueueTracePacket rec ni =
     (ni\<lparr>m_trace_record_queue := m_trace_record_queue ni @ [rec]\<rparr>, NI_schedule_wakeup ni)"

definition record_route :: "ni_env \<Rightarrow> NetworkInterface \<Rightarrow> OutputPort \<Rightarrow> NetworkTraceRecord \<Rightarrow> RouteInfo res" where
  "record_route env ni oPort rec =
     (let destID = tr_dest_id rec mod 2 ^ 32 in
      rbind (node_dest (e_nb env) (e_cs env) destID) (\<lambda>(_, d).
      rbind (make_route env ni (routerID oPort) (tr_vnet rec) destID d) (\<lambda>route.
      Inr (route\<lparr>network_idx := tr_network_idx rec, input_idx := tr_input_idx rec, phase_id := tr_phase_id rec\<rparr>))))"

text \<open>The flit number \<open>i\<close> of a record, if it has that many, with the next packet number.\<close>

definition record_flit ::
    "ni_env \<Rightarrow> OutputPort \<Rightarrow> int \<Rightarrow> NetworkTraceRecord \<times> RouteInfo \<Rightarrow> flit list \<times> garnet \<Rightarrow> flit list \<times> garnet" where
  "record_flit env oPort i = (\<lambda>(rec, route) (fs, g).
     if i < tr_num_flits rec then
       let (packet_id, g') = getNextPacketID g;
           fl = flit_new packet_id 0 (-1) (tr_vnet rec) (route\<lparr>last_flit := (i = tr_num_flits rec - 1)\<rparr>) 1 None
                  (uint (op_bitWidth oPort)) (op_bitWidth oPort) (e_now env) in
       (fs @ [fl\<lparr>m_enqueue_time := e_now env\<rparr>], g')
     else (fs, g))"

definition record_flits ::
    "ni_env \<Rightarrow> OutputPort \<Rightarrow> (NetworkTraceRecord \<times> RouteInfo) list \<Rightarrow> flit list \<times> garnet \<Rightarrow> flit list \<times> garnet" where
  "record_flits env oPort rs s =
     (let max_num_flits = foldl (\<lambda>m (rec, _). if m < tr_num_flits rec then tr_num_flits rec else m) 0 rs in
      foldl (\<lambda>s i. foldl (\<lambda>s r. record_flit env oPort i r s) s rs) s [0..max_num_flits - 1])"

definition NI_transferTraceRecordsToInjectionQueue :: "ni_env \<Rightarrow> NetworkInterface \<times> world \<Rightarrow> (NetworkInterface \<times> world) res" where
  "NI_transferTraceRecordsToInjectionQueue env = (\<lambda>(ni, w).
     case m_trace_record_queue ni of
       [] \<Rightarrow> Inr (ni, w)
     | first # _ \<Rightarrow>
         let same_time = takeWhile (\<lambda>r. tr_time r = tr_time first) (m_trace_record_queue ni);
             rest = dropWhile (\<lambda>r. tr_time r = tr_time first) (m_trace_record_queue ni) in
         rbind (case rest of [] \<Rightarrow> Inl Undefined | r # _ \<Rightarrow> Inr (tr_vnet r)) (\<lambda>vnet.
         case NI_getOutportForVnet vnet ni of
           None \<Rightarrow> Inl Assertion
         | Some i \<Rightarrow>
             rbind (vget (outPorts ni) i) (\<lambda>oPort.
             rbind (map_res (record_route env ni oPort) same_time) (\<lambda>routes.
             let (fs, g) = record_flits env oPort (zip same_time routes) ([], w_gn w) in
             Inr (ni\<lparr>m_trace_record_queue := rest, m_trace_injection_queue := m_trace_injection_queue ni @ fs\<rparr>,
                  w\<lparr>w_gn := g\<rparr>)))))"

definition NI_injectTraceFlit :: "ni_env \<Rightarrow> int \<Rightarrow> int \<Rightarrow> NetworkInterface \<times> world \<Rightarrow> (NetworkInterface \<times> world) res" where
  "NI_injectTraceFlit env vnet vc = (\<lambda>(ni, w).
     case m_trace_injection_queue ni of
       [] \<Rightarrow> Inl Undefined
     | f # fs \<Rightarrow>
         let now = e_now env;
             f' = f\<lparr>m_vc := vc, m_time := now, src_delay := Some (now - m_enqueue_time f), m_enqueue_time := now\<rparr> in
         rbind (vmod (niOutVcs ni) vc (\<lambda>b. Inr (flitBuffer_insert f' b))) (\<lambda>vcs.
         rbind (vset (m_ni_out_vcs_enqueue_time ni) vc now) (\<lambda>times.
         rbind (vmod (ni_outVcState ni) vc (\<lambda>s. Inr (OutVcState_setState ACTIVE now s))) (\<lambda>states.
         rbind (if m_type f' = TAIL \<or> m_type f' = HEAD_TAIL then w_count (increment_injected_packets vnet) w else Inr w) (\<lambda>w1.
         rbind (w_count (increment_injected_flits vnet) w1) (\<lambda>w2.
         Inr (ni\<lparr>m_trace_injection_queue := fs, niOutVcs := vcs, m_ni_out_vcs_enqueue_time := times,
                ni_outVcState := states\<rparr>, w2)))))))"

definition replay_trace :: "ni_env \<Rightarrow> NetworkInterface \<times> world \<Rightarrow> (NetworkInterface \<times> world) res" where
  "replay_trace env = (\<lambda>(ni, w).
     rbind (if m_trace_injection_queue ni = [] \<and> m_trace_record_queue ni \<noteq> []
            then NI_transferTraceRecordsToInjectionQueue env (ni, w) else Inr (ni, w)) (\<lambda>(ni1, w1).
     case m_trace_injection_queue ni1 of
       [] \<Rightarrow> Inr (ni1, w1)
     | f # _ \<Rightarrow>
         rbind (NI_calculateVC (e_now env) (m_vnet f) ni1) (\<lambda>(vc, ni2).
         if vc \<noteq> -1 then NI_injectTraceFlit env (m_vnet f) vc (ni2, w1) else Inr (ni2, w1))))"

section \<open>Definitions: sending\<close>

definition NI_scheduleFlit :: "ni_env \<Rightarrow> flit \<Rightarrow> NetworkInterface \<times> world \<Rightarrow> (NetworkInterface \<times> world) res" where
  "NI_scheduleFlit env f = (\<lambda>(ni, w).
     case NI_getOutportForVnet (m_vnet f) ni of
       None \<Rightarrow> Inl Panic
     | Some i \<Rightarrow>
         rbind (vget (outPorts ni) i) (\<lambda>oPort.
         rbind (vset (outPorts ni) i (oPort\<lparr>outFlitQueue := flitBuffer_insert f (outFlitQueue oPort)\<rparr>)) (\<lambda>ports.
         Inr (ni\<lparr>outPorts := ports\<rparr>,
              w_wake [(ToLink (outNetLink oPort), At (edge_at (e_period env) (e_now env) 1))] w))))"

text \<open>Whether an ordered virtual network has a flit ready that became ready earlier.\<close>

definition older_ready :: "tick \<Rightarrow> NetworkInterface \<Rightarrow> int \<Rightarrow> int \<Rightarrow> unit option res" where
  "older_ready now ni vc t_vc =
     rbind (vget (niOutVcs ni) t_vc) (\<lambda>b.
     if \<not> flitBuffer_isReady now b then Inr None
     else rbind (vget (m_ni_out_vcs_enqueue_time ni) t_vc) (\<lambda>t.
       rbind (vget (m_ni_out_vcs_enqueue_time ni) vc) (\<lambda>t0. Inr (if t < t0 then Some () else None))))"

definition candidate_vc :: "ni_env \<Rightarrow> NetworkInterface \<Rightarrow> OutputPort \<Rightarrow> int \<Rightarrow> int option res" where
  "candidate_vc env ni oPort vc =
     rbind (NI_get_vnet vc ni) (\<lambda>t_vnet.
     if \<not> isVnetSupported (op_vnets oPort) t_vnet then Inr None
     else rbind (vget (niOutVcs ni) vc) (\<lambda>b.
       if \<not> flitBuffer_isReady (e_now env) b then Inr None
       else rbind (vget (ni_outVcState ni) vc) (\<lambda>s.
         if \<not> OutVcState_has_credit s then Inr None
         else rbind (isVNetOrdered (e_net env) t_vnet) (\<lambda>ordered.
           let n = ni_vc_per_vnet ni; vc_base = t_vnet * n in
           rbind (if ordered then first_res (\<lambda>k. older_ready (e_now env) ni vc (vc_base + k)) [0..n - 1] else Inr None)
             (\<lambda>older. Inr (if older = None then Some vc else None))))))"

definition send_from :: "ni_env \<Rightarrow> int \<Rightarrow> int \<Rightarrow> NetworkInterface \<times> world \<Rightarrow> (NetworkInterface \<times> world) res" where
  "send_from env i vc = (\<lambda>(ni, w).
     rbind (vmod (outPorts ni) i (\<lambda>po. Inr (po\<lparr>vcRoundRobin := vc\<rparr>))) (\<lambda>ports.
     rbind (vmod (ni_outVcState ni) vc OutVcState_decrement_credit) (\<lambda>states.
     rbind (vget (niOutVcs ni) vc) (\<lambda>b.
     rbind (flitBuffer_getTopFlit b) (\<lambda>(f, b').
     rbind (vset (niOutVcs ni) vc b') (\<lambda>vcs.
     rbind (NI_scheduleFlit env (f\<lparr>m_time := edge_at (e_period env) (e_now env) 1\<rparr>)
              (ni\<lparr>outPorts := ports, ni_outVcState := states, niOutVcs := vcs\<rparr>, w)) (\<lambda>(ni1, w1).
     rbind (if m_type f = TAIL \<or> m_type f = HEAD_TAIL
            then vset (m_ni_out_vcs_enqueue_time ni1) vc (of_int INFINITE)
            else Inr (m_ni_out_vcs_enqueue_time ni1)) (\<lambda>times.
     Inr (ni1\<lparr>m_ni_out_vcs_enqueue_time := times\<rparr>, w1)))))))))"

definition NI_scheduleOutputPort :: "ni_env \<Rightarrow> int \<Rightarrow> NetworkInterface \<times> world \<Rightarrow> (NetworkInterface \<times> world) res" where
  "NI_scheduleOutputPort env i = (\<lambda>(ni, w).
     rbind (vget (outPorts ni) i) (\<lambda>oPort.
     let n = int (length (niOutVcs ni)); vc = vcRoundRobin oPort + 1 in
     rbind (rr_scan n (candidate_vc env ni oPort) (nat n) (if vc = n then 0 else vc)) (\<lambda>found.
     case found of None \<Rightarrow> Inr (ni, w) | Some vc \<Rightarrow> send_from env i vc (ni, w))))"

definition NI_scheduleOutputLink :: "ni_env \<Rightarrow> NetworkInterface \<times> world \<Rightarrow> (NetworkInterface \<times> world) res" where
  "NI_scheduleOutputLink env = (\<lambda>(ni, w).
     rfold (NI_scheduleOutputPort env) [0..int (length (outPorts ni)) - 1] (ni, w))"

section \<open>Definitions: receiving\<close>

definition mod_inport :: "int \<Rightarrow> (InputPort \<Rightarrow> InputPort) \<Rightarrow> NetworkInterface \<Rightarrow> NetworkInterface res" where
  "mod_inport i f ni = rbind (vmod (inPorts ni) i (\<lambda>ip. Inr (f ip))) (\<lambda>ps. Inr (ni\<lparr>inPorts := ps\<rparr>))"

definition sendCredit :: "flit \<Rightarrow> InputPort \<Rightarrow> InputPort" where
  "sendCredit c ip = ip\<lparr>outCreditQueue := flitBuffer_insert c (outCreditQueue ip)\<rparr>"

text \<open>
  The first stalled flit of a port whose protocol buffer has a free slot; the flits before it stay.
\<close>

fun first_unstalled :: "ni_env \<Rightarrow> NetworkInterface \<Rightarrow> flit list \<Rightarrow> flit list \<Rightarrow> world \<Rightarrow> ((flit \<times> int \<times> flit list) option \<times> world) res" where
  "first_unstalled env ni skipped [] w = Inr (None, w)"
| "first_unstalled env ni skipped (f # fs) w =
     rbind (node (outNode_ptr ni) (m_vnet f)) (\<lambda>i.
     rbind (w_slots 1 (edge_at (e_period env) (e_now env) 0) i w) (\<lambda>(ok, w').
     if ok then Inr (Some (f, i, skipped @ fs), w') else first_unstalled env ni (skipped @ [f]) fs w'))"

definition unstall :: "ni_env \<Rightarrow> int \<Rightarrow> flit \<Rightarrow> int \<Rightarrow> flit list \<Rightarrow> NetworkInterface \<times> world \<Rightarrow> (NetworkInterface \<times> world) res" where
  "unstall env port f i rest = (\<lambda>(ni, w).
     rbind (w_enqueue env i (m_msg_ptr f) (edge_at (e_period env) (e_now env) 0) (cyclesToTicks (e_period env) 1) w) (\<lambda>w1.
     rbind (NI_incrementStats env f w1) (\<lambda>w2.
     rbind (vmod (m_stall_count ni) (m_vnet f) (\<lambda>n. Inr (n - 1))) (\<lambda>counts.
     rbind (vget counts (m_vnet f)) (\<lambda>n.
     rbind (if n = 0 then vmod (w_bufs w2) i (\<lambda>b. Inr (MessageBuffer_unregisterDequeueCallback b)) else Inr (w_bufs w2)) (\<lambda>bufs.
     rbind (mod_inport port (\<lambda>ip. (sendCredit (Credit_new (m_vc f) True (e_now env)) ip)
              \<lparr>m_stall_queue := rest, messageEnqueuedThisCycle := Some True\<rparr>) ni) (\<lambda>ni1.
     Inr (ni1\<lparr>m_stall_count := counts\<rparr>, w2\<lparr>w_bufs := bufs\<rparr>))))))))"

definition check_stall_port :: "ni_env \<Rightarrow> int \<Rightarrow> NetworkInterface \<times> world \<Rightarrow> (NetworkInterface \<times> world) res" where
  "check_stall_port env port = (\<lambda>(ni, w).
     rbind (mod_inport port (\<lambda>ip. ip\<lparr>messageEnqueuedThisCycle := Some False\<rparr>) ni) (\<lambda>ni1.
     rbind (vget (inPorts ni1) port) (\<lambda>ip.
     rbind (first_unstalled env ni1 [] (m_stall_queue ip) w) (\<lambda>(found, w1).
     case found of None \<Rightarrow> Inr (ni1, w1) | Some (f, i, rest) \<Rightarrow> unstall env port f i rest (ni1, w1)))))"

definition NI_checkStallQueue :: "ni_env \<Rightarrow> NetworkInterface \<times> world \<Rightarrow> (NetworkInterface \<times> world) res" where
  "NI_checkStallQueue env = (\<lambda>(ni, w). rfold (check_stall_port env) [0..int (length (inPorts ni)) - 1] (ni, w))"

text \<open>A flit that ends a packet: hand its message over, or stall it.\<close>

definition eject_tail :: "ni_env \<Rightarrow> int \<Rightarrow> flit \<Rightarrow> NetworkInterface \<times> world \<Rightarrow> (NetworkInterface \<times> world) res" where
  "eject_tail env port f = (\<lambda>(ni, w).
     rbind (vget (inPorts ni) port) (\<lambda>ip.
     rbind (case messageEnqueuedThisCycle ip of None \<Rightarrow> Inl Undefined | Some b \<Rightarrow> Inr b) (\<lambda>enqueued.
     let curTime = edge_at (e_period env) (e_now env) 0 in
     rbind (if enqueued then Inr (False, w)
            else rbind (node (outNode_ptr ni) (m_vnet f)) (\<lambda>i. w_slots 1 curTime i w)) (\<lambda>(ok, w1).
     if ok then
       rbind (if \<not> m_trace_enable (w_gn w1) then
                rbind (node (outNode_ptr ni) (m_vnet f)) (\<lambda>i.
                w_enqueue env i (m_msg_ptr f) curTime (cyclesToTicks (e_period env) 1) w1)
              else w_count increment_trace_flits_received w1) (\<lambda>w2.
       rbind (mod_inport port (sendCredit (Credit_new (m_vc f) True (e_now env))) ni) (\<lambda>ni1.
       rbind (NI_incrementStats env f w2) (\<lambda>w3. Inr (ni1, w3))))
     else
       rbind (mod_inport port (\<lambda>ip. ip\<lparr>m_stall_queue := m_stall_queue ip @ [f]\<rparr>) ni) (\<lambda>ni1.
       rbind (vmod (m_stall_count ni1) (m_vnet f) (\<lambda>n. Inr (n + 1))) (\<lambda>counts.
       rbind (node (outNode_ptr ni) (m_vnet f)) (\<lambda>i.
       rbind (vmod (w_bufs w1) i (\<lambda>b.
                Inr (MessageBuffer_registerDequeueCallback (NI_dequeueCallback (e_period env) (ni_id ni)) b))) (\<lambda>bufs.
       Inr (ni1\<lparr>m_stall_count := counts\<rparr>, w1\<lparr>w_bufs := bufs\<rparr>)))))))))"

definition receive_flit :: "ni_env \<Rightarrow> int \<Rightarrow> NetworkInterface \<times> world \<Rightarrow> (NetworkInterface \<times> world) res" where
  "receive_flit env port = (\<lambda>(ni, w).
     rbind (vget (inPorts ni) port) (\<lambda>ip.
     rbind (vget (w_links w) (inNetLink ip)) (\<lambda>l.
     if \<not> NetworkLink_isReady (e_now env) l then Inr (ni, w)
     else
       rbind (NetworkLink_consumeLink l) (\<lambda>(f0, l').
       rbind (vset (w_links w) (inNetLink ip) l') (\<lambda>links.
       rbind (check Assertion (m_width f0 = ip_bitWidth ip)) (\<lambda>_.
       let w1 = w\<lparr>w_links := links\<rparr>; f = f0\<lparr>m_dequeue_time := e_now env\<rparr> in
       if m_type f = TAIL \<or> m_type f = HEAD_TAIL then eject_tail env port f (ni, w1)
       else
         rbind (mod_inport port (sendCredit (Credit_new (m_vc f) False (e_now env))) ni) (\<lambda>ni1.
         rbind (NI_incrementStats env f w1) (\<lambda>w2. Inr (ni1, w2)))))))))"

definition receive_credit :: "ni_env \<Rightarrow> int \<Rightarrow> NetworkInterface \<times> world \<Rightarrow> (NetworkInterface \<times> world) res" where
  "receive_credit env port = (\<lambda>(ni, w).
     rbind (vget (outPorts ni) port) (\<lambda>po.
     rbind (vget (w_links w) (inCreditLink po)) (\<lambda>l.
     if \<not> NetworkLink_isReady (e_now env) l then Inr (ni, w)
     else
       rbind (NetworkLink_consumeLink l) (\<lambda>(c, l').
       rbind (vset (w_links w) (inCreditLink po) l') (\<lambda>links.
       rbind (vmod (ni_outVcState ni) (m_vc c) OutVcState_increment_credit) (\<lambda>states.
       rbind (is_free_signal c) (\<lambda>free.
       rbind (if free then vmod states (m_vc c) (\<lambda>s. Inr (OutVcState_setState IDLE (e_now env) s)) else Inr states) (\<lambda>states'.
       Inr (ni\<lparr>ni_outVcState := states'\<rparr>, w\<lparr>w_links := links\<rparr>))))))))) "

definition credit_wakes :: "ni_env \<Rightarrow> NetworkInterface \<Rightarrow> wakes" where
  "credit_wakes env ni =
     concat (map (\<lambda>ip. if 0 < flitBuffer_getSize (outCreditQueue ip)
                       then [(ToLink (outCreditLink ip), At (edge_at (e_period env) (e_now env) 1))] else []) (inPorts ni))"

text \<open>
  The conditions of \<open>checkReschedule\<close>, in the order of the code; the readiness test of a message
  buffer may itself ask for a wake-up.
\<close>

fun any_ready :: "tick \<Rightarrow> MessageBuffer list \<Rightarrow> int option list \<Rightarrow> (bool \<times> wakes) res" where
  "any_ready t bufs [] = Inr (False, [])"
| "any_ready t bufs (p # ps) =
     (case p of
        None \<Rightarrow> any_ready t bufs ps
      | Some i \<Rightarrow>
          rbind (vget bufs i) (\<lambda>b.
          rbind (MessageBuffer_isReady t b) (\<lambda>(ready, ws).
          if ready then Inr (True, ws) else rbind (any_ready t bufs ps) (\<lambda>(r, ws'). Inr (r, ws @ ws')))))"

definition link_ready :: "tick \<Rightarrow> world \<Rightarrow> int \<Rightarrow> unit option res" where
  "link_ready now w i = rbind (vget (w_links w) i) (\<lambda>l. Inr (if NetworkLink_isReady now l then Some () else None))"

definition NI_checkReschedule :: "ni_env \<Rightarrow> NetworkInterface \<times> world \<Rightarrow> (NetworkInterface \<times> world) res" where
  "NI_checkReschedule env = (\<lambda>(ni, w).
     let p = e_period env; now = e_now env; again = NI_schedule_wakeup ni in
     rbind (any_ready (edge_at p now 0) (w_bufs w) (inNode_ptr ni)) (\<lambda>(ready, ws).
     let w1 = w_wake ws w in
     if ready \<or> m_trace_injection_queue ni \<noteq> [] \<or> (\<exists>b\<in>set (niOutVcs ni). flitBuffer_isReady (edge_at p now 1) b)
     then Inr (ni, w_wake again w1)
     else
       rbind (first_res (link_ready now w1) (map inNetLink (inPorts ni))) (\<lambda>a.
       if a \<noteq> None then Inr (ni, w_wake again w1)
       else
         rbind (first_res (link_ready now w1) (map inCreditLink (outPorts ni))) (\<lambda>b.
         Inr (ni, if b \<noteq> None then w_wake again w1 else w1)))))"

section \<open>Definitions: the wake-up\<close>

definition NI_wakeup :: "ni_env \<Rightarrow> NetworkInterface \<times> world \<Rightarrow> (NetworkInterface \<times> world) res" where
  "NI_wakeup env = (\<lambda>(ni, w).
     rbind (check Assertion (e_now env = edge_at (e_period env) (e_now env) 0)) (\<lambda>_.
     rbind (if \<not> m_trace_enable (w_gn w)
            then take_messages env (zip [0..int (length (inNode_ptr ni)) - 1] (inNode_ptr ni)) (ni, w)
            else replay_trace env (ni, w)) (\<lambda>s1.
     rbind (NI_scheduleOutputLink env s1) (\<lambda>s2.
     rbind (NI_checkStallQueue env s2) (\<lambda>s3.
     rbind (rfold (receive_flit env) [0..int (length (inPorts (fst s3))) - 1] s3) (\<lambda>s4.
     rbind (rfold (receive_credit env) [0..int (length (outPorts (fst s4))) - 1] s4) (\<lambda>(ni5, w5).
     NI_checkReschedule env (ni5, w_wake (credit_wakes env ni5) w5))))))))"

section \<open>Definitions: functional accesses\<close>

fun read_flit_buffers :: "(message \<Rightarrow> 'pk \<Rightarrow> bool \<times> 'pk) \<Rightarrow> flitBuffer list \<Rightarrow> 'pk \<Rightarrow> (bool \<times> 'pk) res" where
  "read_flit_buffers fr [] pk = Inr (False, pk)"
| "read_flit_buffers fr (b # bs) pk =
     rbind (flitBuffer_functionalRead fr pk b) (\<lambda>(x, pk1).
     rbind (read_flit_buffers fr bs pk1) (\<lambda>(y, pk2). Inr (x \<or> y, pk2)))"

definition NI_functionalRead ::
    "(message \<Rightarrow> 'pk \<Rightarrow> bool \<times> 'pk) \<Rightarrow> 'pk \<Rightarrow> NetworkInterface \<Rightarrow> (bool \<times> 'pk) res" where
  "NI_functionalRead fr pk ni = read_flit_buffers fr (niOutVcs ni @ map outFlitQueue (outPorts ni)) pk"

fun write_flit_buffers ::
    "('pk \<Rightarrow> message \<Rightarrow> bool \<times> message) \<Rightarrow> 'pk \<Rightarrow> flitBuffer list \<Rightarrow> (u32 \<times> flitBuffer list) res" where
  "write_flit_buffers fw pk [] = Inr (0, [])"
| "write_flit_buffers fw pk (b # bs) =
     rbind (flitBuffer_functionalWrite fw pk b) (\<lambda>(n, b').
     rbind (write_flit_buffers fw pk bs) (\<lambda>(m, bs'). Inr (n + m, b' # bs')))"

definition NI_functionalWrite ::
    "('pk \<Rightarrow> message \<Rightarrow> bool \<times> message) \<Rightarrow> 'pk \<Rightarrow> NetworkInterface \<Rightarrow> (u32 \<times> NetworkInterface) res" where
  "NI_functionalWrite fw pk ni =
     rbind (write_flit_buffers fw pk (niOutVcs ni)) (\<lambda>(n, vcs).
     rbind (write_flit_buffers fw pk (map outFlitQueue (outPorts ni))) (\<lambda>(m, qs).
     Inr (n + m, ni\<lparr>niOutVcs := vcs, outPorts := map2 (\<lambda>po q. po\<lparr>outFlitQueue := q\<rparr>) (outPorts ni) qs\<rparr>)))"

end
