(* ===== verification/Garnet_Trace.thy ===== *)
theory Garnet_Trace
  imports Garnet_NetworkInterface
begin

text \<open>
  Reading a trace: \<open>GarnetNetwork::wakeup\<close> of GarnetNetwork.cc and the C library functions it uses
  (\<open>fgets\<close>, \<open>strtok\<close>, \<open>atoi\<close>). A wake-up hands the record read before to the interface of its
  source and reads the next one. If that record is for the same cycle the function calls itself,
  otherwise it asks to be woken up at the record's time. The recursion ends because every call
  but the last takes text from the file. A value that \<open>atoi\<close> cannot represent, and a missing token
  (\<open>atoi\<close> of a null pointer), are undefined.
\<close>

section \<open>Definitions: the C library\<close>

definition newline :: char where
  "newline = char_of (10 :: nat)"

fun fgets_line :: "nat \<Rightarrow> string \<Rightarrow> string \<times> string" where
  "fgets_line 0 s = ([], s)"
| "fgets_line (Suc n) [] = ([], [])"
| "fgets_line (Suc n) (c # s) =
     (if c = newline then ([c], s) else let (line, rest) = fgets_line n s in (c # line, rest))"

definition fgets :: "nat \<Rightarrow> string \<Rightarrow> (string \<times> string) option" where
  "fgets n s = (if s = [] then None else Some (fgets_line (n - 1) s))"

definition is_delimiter :: "char \<Rightarrow> bool" where
  "is_delimiter c = (c = CHR '' '' \<or> c = CHR '':'')"

text \<open>
  All tokens of a line, the results of the successive calls of \<open>strtok\<close>. The first argument is the
  token being read, backwards. A zero byte ends the line.
\<close>

fun strtok_all :: "string \<Rightarrow> string \<Rightarrow> string list" where
  "strtok_all cur [] = (if cur = [] then [] else [rev cur])"
| "strtok_all cur (c # s) =
     (if c = char_of (0 :: nat) then (if cur = [] then [] else [rev cur])
      else if is_delimiter c then (if cur = [] then strtok_all [] s else rev cur # strtok_all [] s)
      else strtok_all (c # cur) s)"

definition is_space :: "char \<Rightarrow> bool" where
  "is_space c = (let n = of_char c :: nat in n = 32 \<or> 9 \<le> n \<and> n \<le> 13)"

definition is_digit :: "char \<Rightarrow> bool" where
  "is_digit c = (let n = of_char c :: nat in 48 \<le> n \<and> n \<le> 57)"

definition digits_value :: "string \<Rightarrow> int" where
  "digits_value s = foldl (\<lambda>n c. n * 10 + (int (of_char c) - 48)) 0 (takeWhile is_digit s)"

definition atoi :: "string \<Rightarrow> int res" where
  "atoi s0 =
     (let s = dropWhile is_space s0;
          n = (case s of
                 [] \<Rightarrow> 0
               | c # cs \<Rightarrow> if c = CHR ''-'' then - digits_value cs
                          else if c = CHR ''+'' then digits_value cs else digits_value s) in
      rbind (check Undefined (- (2 ^ 31) \<le> n \<and> n < 2 ^ 31)) (\<lambda>_. Inr n))"

definition token_int :: "string list \<Rightarrow> int \<Rightarrow> int res" where
  "token_int tokens i = rbind (vget tokens i) atoi"

section \<open>Definitions: the wake-up of the network\<close>

definition inject_next ::
    "tick \<Rightarrow> tick \<Rightarrow> garnet \<times> NetworkInterface list \<Rightarrow> (garnet \<times> NetworkInterface list \<times> wakes) res" where
  "inject_next p now = (\<lambda>(g, nis).
     let rec = trace_next_packet g in
     if \<not> tr_valid rec then Inr (g, nis, [])
     else
       rbind (check Assertion (tr_time rec = cycle_at p now)) (\<lambda>_.
       rbind (vget nis (tr_src_id rec)) (\<lambda>ni.
       let (ni', ws) = NI_enqueueTracePacket rec ni in
       rbind (vset nis (tr_src_id rec) ni') (\<lambda>nis'.
       Inr (g\<lparr>trace_num_packets_injected := trace_num_packets_injected g + 1,
              trace_num_flits_injected := trace_num_flits_injected g + tr_num_flits rec\<rparr>, nis', ws)))))"

text \<open>\<open>id >= m_nis.size()\<close> compares an \<open>int\<close> with an unsigned number.\<close>

definition out_of_range :: "int \<Rightarrow> nat \<Rightarrow> bool" where
  "out_of_range i n = (int n \<le> i mod 2 ^ 64)"

definition optional_token :: "string list \<Rightarrow> int \<Rightarrow> int res" where
  "optional_token tokens i = (if i < int (length tokens) then token_int tokens i else Inr 0)"

definition clamp_nodes :: "nat \<Rightarrow> NetworkTraceRecord \<Rightarrow> NetworkTraceRecord" where
  "clamp_nodes n rec =
     (if out_of_range (tr_src_id rec) n then rec\<lparr>tr_src_id := 0, tr_src_router_id := 0, tr_valid := True\<rparr>
      else if out_of_range (tr_dest_id rec) n then rec\<lparr>tr_dest_id := 0, tr_dest_router_id := 0, tr_valid := True\<rparr>
      else rec\<lparr>tr_valid := True\<rparr>)"

definition parse_record :: "string list \<Rightarrow> NetworkTraceRecord \<Rightarrow> (int \<times> NetworkTraceRecord) res" where
  "parse_record tokens rec =
     rbind (token_int tokens 0) (\<lambda>t.
     rbind (token_int tokens 1) (\<lambda>src.
     rbind (token_int tokens 2) (\<lambda>src_router.
     rbind (token_int tokens 3) (\<lambda>dest.
     rbind (token_int tokens 4) (\<lambda>dest_router.
     rbind (token_int tokens 5) (\<lambda>vnet.
     rbind (token_int tokens 6) (\<lambda>flits.
     rbind (optional_token tokens 7) (\<lambda>network.
     rbind (optional_token tokens 8) (\<lambda>input.
     rbind (optional_token tokens 9) (\<lambda>phase.
     Inr (t, rec\<lparr>tr_time := word_of_int t, tr_src_id := src, tr_src_router_id := src_router, tr_dest_id := dest,
                 tr_dest_router_id := dest_router, tr_vnet := vnet, tr_num_flits := flits,
                 tr_network_idx := network, tr_input_idx := input, tr_phase_id := phase\<rparr>)))))))))))"

text \<open>One line: nothing if it has no token.\<close>

definition parse_line :: "nat \<Rightarrow> string \<Rightarrow> garnet \<Rightarrow> garnet option res" where
  "parse_line n line g =
     (let tokens = strtok_all [] line in
      if tokens = [] then Inr None
      else
        rbind (parse_record tokens (trace_next_packet g)) (\<lambda>(t, rec).
        Inr (Some (g\<lparr>trace_start_time := (if trace_num_packets_injected g = 0 then t else trace_start_time g),
                    trace_next_packet := clamp_nodes n rec\<rparr>))))"

definition within_limit :: "garnet \<Rightarrow> bool" where
  "within_limit g = (m_trace_max_packets g < 0 \<or> trace_num_packets_injected g \<le> m_trace_max_packets g)"

text \<open>The rest of the wake-up after the injection, up to the decision whether to go on at once.\<close>

datatype read_outcome = Again garnet | Stop garnet wakes

definition read_next :: "tick \<Rightarrow> tick \<Rightarrow> nat \<Rightarrow> garnet \<Rightarrow> read_outcome res" where
  "read_next p now n g =
     (case fgets 100 (tracefile g) of
        None \<Rightarrow> Inr (Stop (if trace_broken g then g else g\<lparr>end_simulation := Some True\<rparr>) [])
      | Some (line, rest) \<Rightarrow>
          rbind (parse_line n line (g\<lparr>tracefile := rest\<rparr>)) (\<lambda>parsed.
          case parsed of
            None \<Rightarrow> Inr (Stop (g\<lparr>tracefile := rest\<rparr>) [])
          | Some g' \<Rightarrow>
              if within_limit g' then
                if tr_time (trace_next_packet g') = cycle_at p now then Inr (Again g')
                else Inr (Stop g' [(ToNetwork, At (cyclesToTicks p (tr_time (trace_next_packet g'))))])
              else Inr (Stop g' [])))"

lemma fgets_line_shorter: "s \<noteq> [] \<Longrightarrow> 0 < n \<Longrightarrow> length (snd (fgets_line n s)) < length s"
proof (induction n s rule: fgets_line.induct)
  case (3 n c s)
  show ?case
  proof (cases "c = newline \<or> s = [] \<or> n = 0")
    case True
    then show ?thesis by (cases n) auto
  next
    case False
    then have "length (snd (fgets_line n s)) < length s" using 3 by simp
    then show ?thesis by (simp add: case_prod_unfold Let_def)
  qed
qed simp_all

lemma fgets_shorter: "fgets 100 s = Some (line, rest) \<Longrightarrow> length rest < length s"
  using fgets_line_shorter [of s 99] by (auto simp: fgets_def split: if_splits)

lemma parse_line_keeps: "parse_line n line g = Inr (Some g') \<Longrightarrow> tracefile g' = tracefile g"
  by (auto simp: parse_line_def Let_def rbind_eq_Inr split: if_splits)

lemma read_next_again: "read_next p now n g = Inr (Again g') \<Longrightarrow> length (tracefile g') < length (tracefile g)"
proof (cases "fgets 100 (tracefile g)")
  case (Some q)
  moreover obtain line rest where q: "q = (line, rest)" by fastforce
  moreover assume r: "read_next p now n g = Inr (Again g')"
  ultimately obtain parsed where p: "parse_line n line (g\<lparr>tracefile := rest\<rparr>) = Inr parsed"
    by (auto simp: read_next_def rbind_eq_Inr)
  then have "parsed = Some g'" using r Some q by (cases parsed) (auto simp: read_next_def split: if_splits)
  then show ?thesis using parse_line_keeps [of n line "g\<lparr>tracefile := rest\<rparr>" g'] p fgets_shorter [of "tracefile g" line rest] Some q by simp
qed (simp add: read_next_def)

lemma inject_next_keeps:
  "inject_next p now gn = Inr (g', nis', ws) \<Longrightarrow> tracefile g' = tracefile (fst gn) \<and> length nis' = length (snd gn)"
  by (cases gn) (auto simp: inject_next_def Let_def rbind_eq_Inr vset_eq_Inr NI_enqueueTracePacket_def split: if_splits)

function GarnetNetwork_wakeup ::
    "tick \<Rightarrow> tick \<Rightarrow> garnet \<times> NetworkInterface list \<Rightarrow> (garnet \<times> NetworkInterface list \<times> wakes) res" where
  "GarnetNetwork_wakeup p now gn =
     rbind (inject_next p now gn) (\<lambda>(g1, nis1, ws1).
     rbind (read_next p now (length nis1) g1) (\<lambda>out.
     case out of
       Stop g2 ws2 \<Rightarrow> Inr (g2, nis1, ws1 @ ws2)
     | Again g2 \<Rightarrow> rbind (GarnetNetwork_wakeup p now (g2, nis1)) (\<lambda>(g3, nis3, ws3). Inr (g3, nis3, ws1 @ ws3))))"
  by pat_completeness auto

termination GarnetNetwork_wakeup
  by (relation "measure (\<lambda>(p, now, gn). length (tracefile (fst gn)))") (auto dest!: read_next_again inject_next_keeps)

declare GarnetNetwork_wakeup.simps [simp del]

definition endsWith :: "string \<Rightarrow> string \<Rightarrow> bool" where
  "endsWith str suffix = (length suffix \<le> length str \<and> drop (length str - length suffix) str = suffix)"

end
