(* ===== verification/Garnet_Bridge.thy ===== *)
theory Garnet_Bridge
  imports Garnet_NetworkLink
begin

text \<open>
  Bridges between clock domains and link widths: NetworkBridge.hh/cc. A bridge is a link with the
  fields of the record \<open>bridge\<close>. It takes flits from its source, cuts them into narrower ones
  or joins them to wider ones, and puts them into its own buffer. The bridge that carries the credits
  of the opposite direction (\<open>coBridge\<close>) learns how many flits one flit became, so that it can
  split or join the credits the same way. Operations work on the list of all links; \<open>self\<close> is
  the index of the bridge. The clock period of the consumer is the argument \<open>per\<close>. The divisions in
  \<open>float\<close> are exact, as everywhere in the model of serialisation.
\<close>

section \<open>Definitions\<close>

definition get_bridge :: "int \<Rightarrow> NetworkLink list \<Rightarrow> bridge res" where
  "get_bridge i links =
     rbind (vget links i) (\<lambda>l. case nl_bridge l of None \<Rightarrow> Inl Undefined | Some b \<Rightarrow> Inr b)"

definition put_bridge :: "int \<Rightarrow> bridge \<Rightarrow> NetworkLink list \<Rightarrow> NetworkLink list res" where
  "put_bridge i b = mod_link i (\<lambda>l. l\<lparr>nl_bridge := Some b\<rparr>)"

definition NetworkBridge_new ::
    "bridge_type \<Rightarrow> int \<Rightarrow> cycles \<Rightarrow> cycles \<Rightarrow> int \<Rightarrow> NetworkLink list \<Rightarrow> NetworkLink list res" where
  "NetworkBridge_new vtype link cdc_latency serdes_latency self links =
     (let b = \<lparr>coBridge = None, nLink = link, enCdc = True, enSerDes = True, mType = vtype,
               cdcLatency = cdc_latency, serDesLatency = serdes_latency, lastScheduledAt = 0,
               lenBuffer = [], sizeSent = [], flitsSent = [], extraCredit = []\<rparr> in
      rbind (put_bridge self b links) (\<lambda>links1.
      case vtype of
        LINK_OBJECT \<Rightarrow>
          rbind (mod_link link (NetworkLink_setLinkConsumer (ToLink self)) links1) (\<lambda>links2.
          mod_link self (NetworkLink_setSourceQueue (LinkBuf link)) links2)
      | OBJECT_LINK \<Rightarrow>
          rbind (mod_link link (NetworkLink_setSourceQueue (LinkBuf self)) links1) (\<lambda>links2.
          mod_link self (NetworkLink_setLinkConsumer (ToLink link)) links2)))"

definition NetworkBridge_initBridge :: "int \<Rightarrow> bool \<Rightarrow> bool \<Rightarrow> int \<Rightarrow> NetworkLink list \<Rightarrow> NetworkLink list res" where
  "NetworkBridge_initBridge coBrid cdc_en serdes_en self links =
     rbind (get_bridge self links) (\<lambda>b.
     put_bridge self (b\<lparr>coBridge := Some coBrid, enCdc := cdc_en, enSerDes := serdes_en\<rparr>) links)"

definition NetworkBridge_neutralize :: "int \<Rightarrow> int \<Rightarrow> int \<Rightarrow> NetworkLink list \<Rightarrow> NetworkLink list res" where
  "NetworkBridge_neutralize vc eCredit self links =
     rbind (get_bridge self links) (\<lambda>b.
     rbind (vmod (extraCredit b) vc (\<lambda>q. Inr (q @ [eCredit]))) (\<lambda>ec.
     put_bridge self (b\<lparr>extraCredit := ec\<rparr>) links))"

definition co_neutralize :: "int \<Rightarrow> int \<Rightarrow> bridge \<Rightarrow> NetworkLink list \<Rightarrow> NetworkLink list res" where
  "co_neutralize vc eCredit b links =
     (case coBridge b of None \<Rightarrow> Inl Undefined | Some co \<Rightarrow> NetworkBridge_neutralize vc eCredit co links)"

definition NetworkBridge_scheduleFlit ::
    "(cref \<Rightarrow> tick) \<Rightarrow> tick \<Rightarrow> flit \<Rightarrow> cycles \<Rightarrow> int \<Rightarrow> NetworkLink list \<Rightarrow> (NetworkLink list \<times> wakes) res" where
  "NetworkBridge_scheduleFlit per now f latency self links =
     rbind (vget links self) (\<lambda>l.
     rbind (get_bridge self links) (\<lambda>b.
     case link_consumer l of
       None \<Rightarrow> Inl Undefined
     | Some c \<Rightarrow>
         let totLatency = (if enCdc b then latency + cdcLatency b else latency);
             nextAvailTick = lastScheduledAt b + cyclesToTicks (per c) 1;
             sendTime = max nextAvailTick (edge_at (per c) now totLatency) in
         rbind (vset links self (l\<lparr>linkBuffer := flitBuffer_insert (f\<lparr>m_time := sendTime\<rparr>) (linkBuffer l),
                  nl_bridge := Some (b\<lparr>lastScheduledAt := sendTime\<rparr>)\<rparr>)) (\<lambda>links'.
         Inr (links', [(c, At sendTime)]))))"

text \<open>The target width and the current width, which must differ.\<close>

definition bridge_widths :: "int \<Rightarrow> NetworkLink list \<Rightarrow> (int \<times> int) res" where
  "bridge_widths self links =
     rbind (vget links self) (\<lambda>l.
     rbind (get_bridge self links) (\<lambda>b.
     rbind (vget links (nLink b)) (\<lambda>n.
     let (target, cur) = (if mType b = OBJECT_LINK then (sint (bitWidth n), sint (bitWidth l))
                          else (sint (bitWidth l), sint (bitWidth n))) in
     rbind (check Assertion (target \<noteq> cur)) (\<lambda>_. Inr (target, cur)))))"

text \<open>\<open>ceil\<close> and \<open>floor\<close> of the quotient of two integers.\<close>

definition ceil_div_int :: "int \<Rightarrow> int \<Rightarrow> int res" where
  "ceil_div_int a b = (if b = 0 then Inl Undefined else Inr (- ((- a) div b)))"

definition floor_div_int :: "int \<Rightarrow> int \<Rightarrow> int res" where
  "floor_div_int a b = (if b = 0 then Inl Undefined else Inr (a div b))"

text \<open>The front of the queue of expected credits, which must not be 0, and the rest of it.\<close>

definition front_credit :: "int list \<Rightarrow> (int \<times> int list) res" where
  "front_credit q = (case q of [] \<Rightarrow> Inl Undefined | c # cs \<Rightarrow> rbind (check Assertion (c \<noteq> 0)) (\<lambda>_. Inr (c, cs)))"

text \<open>
  The accounting of the deserialiser: whether a wide flit is complete (the number of
  possible flits), how many narrow ones it was made of, and the new state of the bridge.
\<close>

definition deserialize_count :: "int \<Rightarrow> int \<Rightarrow> flit \<Rightarrow> bridge \<Rightarrow> (int \<times> int \<times> bridge) res" where
  "deserialize_count target cur f b =
     (let vc = m_vc f in
      if m_type f = CREDIT then
        rbind (vget (lenBuffer b) vc) (\<lambda>len.
        rbind (vget (extraCredit b) vc) (\<lambda>q.
        rbind (front_credit q) (\<lambda>(c, cs).
        if len + 1 = c then
          rbind (vset (lenBuffer b) vc 0) (\<lambda>lens.
          rbind (vset (extraCredit b) vc cs) (\<lambda>ec. Inr (1, 0, b\<lparr>lenBuffer := lens, extraCredit := ec\<rparr>)))
        else
          rbind (vset (lenBuffer b) vc (len + 1)) (\<lambda>lens. Inr (0, 0, b\<lparr>lenBuffer := lens\<rparr>)))))
      else
        rbind (vget (sizeSent b) vc) (\<lambda>sent.
        rbind (vget (flitsSent b) vc) (\<lambda>flits.
        if m_type f = TAIL \<or> m_type f = HEAD_TAIL then
          rbind (ceil_div_int (msgSize f - sent) target) (\<lambda>flitPossible.
          rbind (check Assertion (flitPossible < 2)) (\<lambda>_.
          rbind (vset (flitsSent b) vc 0) (\<lambda>fs.
          rbind (vset (sizeSent b) vc 0) (\<lambda>ss.
          Inr (flitPossible, m_id f + 1 - flits, b\<lparr>flitsSent := fs, sizeSent := ss\<rparr>)))))
        else
          rbind (floor_div_int ((m_id f + 1) * cur - sent) target) (\<lambda>flitPossible.
          rbind (check Assertion (flitPossible < 2)) (\<lambda>_.
          if flitPossible \<noteq> 0 then
            rbind (vset (sizeSent b) vc (sent + target)) (\<lambda>ss.
            rbind (vset (flitsSent b) vc (m_id f + 1)) (\<lambda>fs.
            Inr (flitPossible, m_id f + 1 - flits, b\<lparr>flitsSent := fs, sizeSent := ss\<rparr>)))
          else Inr (0, m_id f + 1 - flits, b))))))"

definition bridge_deserialize ::
    "(cref \<Rightarrow> tick) \<Rightarrow> tick \<Rightarrow> int \<Rightarrow> int \<Rightarrow> flit \<Rightarrow> int \<Rightarrow> NetworkLink list \<Rightarrow> (NetworkLink list \<times> wakes) res" where
  "bridge_deserialize per now target cur f self links =
     rbind (get_bridge self links) (\<lambda>b.
     rbind (deserialize_count target cur f b) (\<lambda>(flitPossible, num_flits, b1).
     rbind (put_bridge self b1 links) (\<lambda>links1.
     if flitPossible = 0 then Inr (links1, [])
     else
       rbind (vget (lenBuffer b1) (m_vc f)) (\<lambda>len.
       rbind (deserialize len num_flits (word_of_int target) f) (\<lambda>fl.
       rbind (if m_type f \<noteq> CREDIT then co_neutralize (m_vc f) num_flits b1 links1 else Inr links1) (\<lambda>links2.
       rbind (get_bridge self links2) (\<lambda>b2.
       rbind (vset (lenBuffer b2) (m_vc f) 0) (\<lambda>lens.
       rbind (put_bridge self (b2\<lparr>lenBuffer := lens\<rparr>) links2) (\<lambda>links3.
       NetworkBridge_scheduleFlit per now fl (serDesLatency b2) self links3)))))))))"

text \<open>The accounting of the serialiser: the number of narrow flits, and the new state of the bridge.\<close>

definition serialize_count :: "int \<Rightarrow> int \<Rightarrow> flit \<Rightarrow> bridge \<Rightarrow> (int \<times> bridge) res" where
  "serialize_count target cur f b =
     (let vc = m_vc f in
      if m_type f = CREDIT then
        rbind (vget (extraCredit b) vc) (\<lambda>q.
        rbind (front_credit q) (\<lambda>(c, cs).
        rbind (vset (extraCredit b) vc cs) (\<lambda>ec. Inr (c, b\<lparr>extraCredit := ec\<rparr>))))
      else
        rbind (vget (sizeSent b) vc) (\<lambda>sent.
        if m_type f = HEAD \<or> m_type f = BODY then
          rbind (floor_div_int ((m_id f + 1) * cur - sent) target) (\<lambda>flitPossible.
          if flitPossible \<noteq> 0 then
            rbind (vset (sizeSent b) vc (sent + flitPossible * target)) (\<lambda>ss.
            rbind (vmod (flitsSent b) vc (\<lambda>n. Inr (n + flitPossible))) (\<lambda>fs.
            Inr (flitPossible, b\<lparr>sizeSent := ss, flitsSent := fs\<rparr>)))
          else Inr (flitPossible, b))
        else
          rbind (ceil_div_int (msgSize f - sent) target) (\<lambda>flitPossible.
          rbind (vset (sizeSent b) vc 0) (\<lambda>ss.
          rbind (vset (flitsSent b) vc 0) (\<lambda>fs.
          Inr (flitPossible, b\<lparr>sizeSent := ss, flitsSent := fs\<rparr>))))))"

definition serialize_part ::
    "(cref \<Rightarrow> tick) \<Rightarrow> tick \<Rightarrow> int \<Rightarrow> int \<Rightarrow> flit \<Rightarrow> cycles \<Rightarrow> int \<Rightarrow> int \<Rightarrow> NetworkLink list \<times> wakes \<Rightarrow> (NetworkLink list \<times> wakes) res" where
  "serialize_part per now target flitPossible f latency self i = (\<lambda>(links, ws).
     rbind (serialize i flitPossible (word_of_int target) f) (\<lambda>fl.
     rbind (NetworkBridge_scheduleFlit per now fl latency self links) (\<lambda>(links', ws'). Inr (links', ws @ ws'))))"

definition bridge_serialize ::
    "(cref \<Rightarrow> tick) \<Rightarrow> tick \<Rightarrow> int \<Rightarrow> int \<Rightarrow> flit \<Rightarrow> int \<Rightarrow> NetworkLink list \<Rightarrow> (NetworkLink list \<times> wakes) res" where
  "bridge_serialize per now target cur f self links =
     rbind (get_bridge self links) (\<lambda>b.
     rbind (serialize_count target cur f b) (\<lambda>(flitPossible, b1).
     rbind (put_bridge self b1 links) (\<lambda>links1.
     rbind (check Assertion (0 < flitPossible)) (\<lambda>_.
     rbind (rfold (serialize_part per now target flitPossible f (serDesLatency b1) self) [0..flitPossible - 1] (links1, []))
       (\<lambda>(links2, ws).
     rbind (if m_type f \<noteq> CREDIT then co_neutralize (m_vc f) flitPossible b1 links2 else Inr links2) (\<lambda>links3.
     Inr (links3, ws)))))))"

definition NetworkBridge_flitisizeAndSend ::
    "(cref \<Rightarrow> tick) \<Rightarrow> tick \<Rightarrow> flit \<Rightarrow> int \<Rightarrow> NetworkLink list \<Rightarrow> (NetworkLink list \<times> wakes) res" where
  "NetworkBridge_flitisizeAndSend per now f self links =
     rbind (get_bridge self links) (\<lambda>b.
     if enSerDes b then
       rbind (bridge_widths self links) (\<lambda>(target, cur).
       if cur < target then bridge_deserialize per now target cur f self links
       else bridge_serialize per now target cur f self links)
     else NetworkBridge_scheduleFlit per now f 0 self links)"

text \<open>
  The wake-up. The source buffer is an argument and part of the result; when it is the buffer of the
  link next to the bridge, the caller puts it back.
\<close>

definition NetworkBridge_wakeup ::
    "(cref \<Rightarrow> tick) \<Rightarrow> tick \<Rightarrow> int \<Rightarrow> flitBuffer \<Rightarrow> NetworkLink list \<Rightarrow> (flitBuffer \<times> NetworkLink list \<times> wakes) res" where
  "NetworkBridge_wakeup per now self src links =
     rbind (if flitBuffer_isReady now src then
              rbind (flitBuffer_getTopFlit src) (\<lambda>(f, src').
              rbind (NetworkBridge_flitisizeAndSend per now f self links) (\<lambda>(links', ws). Inr (src', links', ws)))
            else Inr (src, links, [])) (\<lambda>(src', links', ws).
     Inr (src', links', ws @ (if flitBuffer_isEmpty src' then [] else [(ToLink self, After 1)])))"

end
