(* ===== verification/Garnet_Network.thy ===== *)
theory Garnet_Network
  imports Garnet_Trace Garnet_Bridge Garnet_Router Garnet_Topology
begin

text \<open>
  The network as a whole: Network.hh/cc, GarnetLink.hh/cc and GarnetNetwork.hh/cc. The first part is
  the base class \<open>Network\<close> (numbering of the nodes, queues to and from the protocol, message
  sizes). The second part builds the network: the topology's calls for links create the ports of
  routers and interfaces. The third part runs it: an event of the simulator wakes up one object
  (a router, an output unit, an interface, a link or bridge, or the network itself, which reads the
  trace), and the object's wake-up reads and changes the objects it holds pointers to.

  All links and bridges are in one list, all message buffers in another; both are in the \<open>world\<close>.
  The objects that links read their flits from are found through the references of \<open>qref\<close>. What the
  network takes from its surroundings (clock periods, random numbers, the machine configuration)
  is in the record \<open>net_env\<close>.
\<close>

section \<open>Definitions: the base class\<close>

datatype MessageSizeType =
    Control | Data | Request_Control | Reissue_Control | Response_Data | ResponseL2hit_Data
  | ResponseLocal_Data | Response_Control | Writeback_Data | Writeback_Control | Broadcast_Control
  | Multicast_Control | Forwarded_Control | Invalidate_Control | Unblock_Control | Persistent_Control
  | Completion_Control | MessageSizeType_NUM

record network_base =
  nb_nodes :: u32
  nb_virtual_networks :: u32
  m_vnet_type_names :: "string list"
  nb_ordered :: "bool list"
  m_control_msg_size :: u32
  m_data_msg_size :: u32
  m_toNetQueues :: "int option list list"
  m_fromNetQueues :: "int option list list"
  globalToLocalMap :: "(int \<times> int) list"

definition MessageSizeType_to_int :: "network_base \<Rightarrow> MessageSizeType \<Rightarrow> u32 res" where
  "MessageSizeType_to_int nb size_type =
     (if size_type \<in> {Control, Request_Control, Reissue_Control, Response_Control, Writeback_Control,
         Broadcast_Control, Multicast_Control, Forwarded_Control, Invalidate_Control, Unblock_Control,
         Persistent_Control, Completion_Control} then Inr (m_control_msg_size nb)
      else if size_type \<in> {Data, Response_Data, ResponseLocal_Data, ResponseL2hit_Data, Writeback_Data}
      then Inr (m_data_msg_size nb)
      else Inl Panic)"

text \<open>
  The local numbers: the controllers of the external links, given as pairs of machine type and
  version, are numbered by machine type, and within a type in the order of the links. \<open>emplace\<close>
  keeps an entry that is already there.
\<close>

definition emplace :: "int \<Rightarrow> int \<Rightarrow> (int \<times> int) list \<Rightarrow> (int \<times> int) list" where
  "emplace k v m = (if map_of m k = None then m @ [(k, v)] else m)"

definition number_node :: "int \<Rightarrow> int \<Rightarrow> (int \<times> int) list \<times> int \<Rightarrow> (int \<times> int) list \<times> int" where
  "number_node base ver = (\<lambda>(m, local_node_id). (emplace (base + ver) local_node_id m, local_node_id + 1))"

definition number_type :: "int list \<Rightarrow> (int \<times> int) list \<Rightarrow> int \<Rightarrow> (int \<times> int) list \<times> int \<Rightarrow> ((int \<times> int) list \<times> int) res" where
  "number_type cs ctrls mach s =
     (let versions = map snd (filter (\<lambda>c. fst c = mach) ctrls) in
      if versions = [] then Inr s
      else rbind (MachineType_base_number cs mach) (\<lambda>base. Inr (foldl (\<lambda>s ver. number_node base ver s) s versions)))"

definition number_nodes :: "int list \<Rightarrow> (int \<times> int) list \<Rightarrow> ((int \<times> int) list \<times> int) res" where
  "number_nodes cs ctrls = rfold (number_type cs ctrls) [0..MachineType_NUM cs - 1] ([], 0)"

definition Network_new ::
    "u32 \<Rightarrow> u32 \<Rightarrow> u32 \<Rightarrow> u32 \<Rightarrow> int list \<Rightarrow> (int \<times> int) list \<Rightarrow> network_base res" where
  "Network_new vnets control_msg_size data_msg_size block_size cs ctrls =
     rbind (check Fatal (data_msg_size \<le> block_size)) (\<lambda>_.
     rbind (number_nodes cs ctrls) (\<lambda>(m, n).
     rbind (check Assertion (word_of_int n \<noteq> (0 :: u32))) (\<lambda>_.
     rbind (check Assertion (vnets \<noteq> 0)) (\<lambda>_.
     Inr \<lparr>nb_nodes = word_of_int n, nb_virtual_networks = vnets,
          m_vnet_type_names = replicate (unat vnets) [], nb_ordered = replicate (unat vnets) False,
          m_control_msg_size = control_msg_size, m_data_msg_size = data_msg_size + control_msg_size,
          m_toNetQueues = replicate (nat n) [], m_fromNetQueues = replicate (nat n) [], globalToLocalMap = m\<rparr>))))"

definition getLocalNodeID :: "network_base \<Rightarrow> int \<Rightarrow> int res" where
  "getLocalNodeID nb global_id =
     (case map_of (globalToLocalMap nb) global_id of None \<Rightarrow> Inl Assertion | Some l \<Rightarrow> Inr l)"

text \<open>The comparisons are of unsigned numbers: a negative network number is out of range.\<close>

definition checkNetworkAllocation :: "int \<Rightarrow> bool \<Rightarrow> int \<Rightarrow> string \<Rightarrow> network_base \<Rightarrow> network_base res" where
  "checkNetworkAllocation local_id ordered network_num vnet_type nb =
     rbind (check Fatal (local_id < uint (nb_nodes nb))) (\<lambda>_.
     rbind (check Fatal (network_num mod 2 ^ 32 < uint (nb_virtual_networks nb))) (\<lambda>_.
     rbind (if ordered then vset (nb_ordered nb) network_num True else Inr (nb_ordered nb)) (\<lambda>os.
     rbind (vset (m_vnet_type_names nb) network_num vnet_type) (\<lambda>ns.
     Inr (nb\<lparr>nb_ordered := os, m_vnet_type_names := ns\<rparr>)))))"

definition set_queue :: "int \<Rightarrow> int \<Rightarrow> int option list \<Rightarrow> int option list res" where
  "set_queue network_num b qs =
     vset (qs @ replicate (nat (network_num + 1) - length qs) None) network_num (Some b)"

definition setToNetQueue :: "int \<Rightarrow> bool \<Rightarrow> int \<Rightarrow> string \<Rightarrow> int \<Rightarrow> network_base \<Rightarrow> network_base res" where
  "setToNetQueue global_id ordered network_num vnet_type b nb =
     rbind (getLocalNodeID nb global_id) (\<lambda>local_id.
     rbind (checkNetworkAllocation local_id ordered network_num vnet_type nb) (\<lambda>nb1.
     rbind (vmod (m_toNetQueues nb1) local_id (set_queue network_num b)) (\<lambda>qs.
     Inr (nb1\<lparr>m_toNetQueues := qs\<rparr>))))"

definition setFromNetQueue :: "int \<Rightarrow> bool \<Rightarrow> int \<Rightarrow> string \<Rightarrow> int \<Rightarrow> network_base \<Rightarrow> network_base res" where
  "setFromNetQueue global_id ordered network_num vnet_type b nb =
     rbind (getLocalNodeID nb global_id) (\<lambda>local_id.
     rbind (checkNetworkAllocation local_id ordered network_num vnet_type nb) (\<lambda>nb1.
     rbind (vmod (m_fromNetQueues nb1) local_id (set_queue network_num b)) (\<lambda>qs.
     Inr (nb1\<lparr>m_fromNetQueues := qs\<rparr>))))"

section \<open>Definitions: links of the topology\<close>

text \<open>
  A link of the topology with the network link, the credit link and the bridges it is made of, all by
  their indices. The two directions of an external link are pairs (into the network, out of it).
\<close>

record GarnetIntLink =
  m_network_link :: int
  m_credit_link :: int
  srcBridgeEn :: bool
  dstBridgeEn :: bool
  srcSerdesEn :: bool
  dstSerdesEn :: bool
  srcCdcEn :: bool
  dstCdcEn :: bool
  srcNetBridge :: int
  dstNetBridge :: int
  srcCredBridge :: int
  dstCredBridge :: int

record GarnetExtLink =
  extBridgeEn :: bool
  intBridgeEn :: bool
  extSerdesEn :: bool
  intSerdesEn :: bool
  extCdcEn :: bool
  intCdcEn :: bool
  m_network_links :: "int \<times> int"
  m_credit_links :: "int \<times> int"
  extNetBridge :: "int \<times> int"
  intNetBridge :: "int \<times> int"
  extCredBridge :: "int \<times> int"
  intCredBridge :: "int \<times> int"

definition GarnetIntLink_new ::
    "int \<Rightarrow> int \<Rightarrow> bool \<times> bool \<Rightarrow> bool \<times> bool \<Rightarrow> int \<times> int \<Rightarrow> int \<times> int \<Rightarrow> GarnetIntLink" where
  "GarnetIntLink_new network_link credit_link cdc serdes net_bridges cred_bridges =
     \<lparr>m_network_link = network_link, m_credit_link = credit_link,
      srcBridgeEn = (fst cdc \<or> fst serdes), dstBridgeEn = (snd cdc \<or> snd serdes),
      srcSerdesEn = fst serdes, dstSerdesEn = snd serdes, srcCdcEn = fst cdc, dstCdcEn = snd cdc,
      srcNetBridge = fst net_bridges, dstNetBridge = snd net_bridges,
      srcCredBridge = fst cred_bridges, dstCredBridge = snd cred_bridges\<rparr>"

text \<open>A null pointer to a bridge is an index at which there is none.\<close>

definition has_bridges :: "int list \<Rightarrow> NetworkLink list \<Rightarrow> bool" where
  "has_bridges bs links = list_all (\<lambda>i. returns (get_bridge i links)) bs"

definition init_pair :: "bool \<Rightarrow> bool \<Rightarrow> int \<Rightarrow> int \<Rightarrow> NetworkLink list \<Rightarrow> NetworkLink list res" where
  "init_pair cdc serdes net_bridge cred_bridge links =
     rbind (NetworkBridge_initBridge cred_bridge cdc serdes net_bridge links) (\<lambda>links1.
     NetworkBridge_initBridge net_bridge cdc serdes cred_bridge links1)"

definition GarnetIntLink_init :: "GarnetIntLink \<Rightarrow> NetworkLink list \<Rightarrow> NetworkLink list res" where
  "GarnetIntLink_init gl links =
     rbind (if srcBridgeEn gl then
              rbind (check Assertion (has_bridges [srcNetBridge gl, srcCredBridge gl] links)) (\<lambda>_.
              init_pair (srcCdcEn gl) (srcSerdesEn gl) (srcNetBridge gl) (srcCredBridge gl) links)
            else Inr links) (\<lambda>links1.
     if dstBridgeEn gl then
       rbind (check Assertion (has_bridges [dstNetBridge gl, dstCredBridge gl] links1)) (\<lambda>_.
       init_pair (dstCdcEn gl) (dstSerdesEn gl) (dstNetBridge gl) (dstCredBridge gl) links1)
     else Inr links1)"

definition GarnetExtLink_new ::
    "int \<times> int \<Rightarrow> int \<times> int \<Rightarrow> bool \<times> bool \<Rightarrow> bool \<times> bool \<Rightarrow> int \<times> int \<Rightarrow> int \<times> int \<Rightarrow> int \<times> int \<Rightarrow> int \<times> int \<Rightarrow> GarnetExtLink" where
  "GarnetExtLink_new network_links credit_links cdc serdes ext_net ext_cred int_net int_cred =
     \<lparr>extBridgeEn = (fst cdc \<or> fst serdes), intBridgeEn = (snd cdc \<or> snd serdes),
      extSerdesEn = fst serdes, intSerdesEn = snd serdes, extCdcEn = fst cdc, intCdcEn = snd cdc,
      m_network_links = network_links, m_credit_links = credit_links, extNetBridge = ext_net,
      intNetBridge = int_net, extCredBridge = ext_cred, intCredBridge = int_cred\<rparr>"

definition init_both :: "bool \<Rightarrow> bool \<Rightarrow> int \<times> int \<Rightarrow> int \<times> int \<Rightarrow> NetworkLink list \<Rightarrow> NetworkLink list res" where
  "init_both cdc serdes nets creds links =
     rbind (check Assertion (has_bridges [fst nets, fst creds, snd nets, snd creds] links)) (\<lambda>_.
     rbind (init_pair cdc serdes (fst nets) (fst creds) links) (\<lambda>links1.
     init_pair cdc serdes (snd nets) (snd creds) links1))"

definition GarnetExtLink_init :: "GarnetExtLink \<Rightarrow> NetworkLink list \<Rightarrow> NetworkLink list res" where
  "GarnetExtLink_init gl links =
     rbind (if extBridgeEn gl then init_both (extCdcEn gl) (extSerdesEn gl) (extNetBridge gl) (extCredBridge gl) links
            else Inr links) (\<lambda>links1.
     if intBridgeEn gl then init_both (intCdcEn gl) (intSerdesEn gl) (intNetBridge gl) (intCredBridge gl) links1
     else Inr links1)"

section \<open>Definitions: building the network\<close>

record network =
  nw_base :: network_base
  nw_params :: net_params
  m_routers :: "Router list"
  m_nis :: "NetworkInterface list"
  nw_world :: world
  ext_link_table :: "(int \<times> GarnetExtLink) list"
  int_link_table :: "(int \<times> GarnetIntLink) list"
  m_networklinks :: "int list"
  m_creditlinks :: "int list"
  m_networkbridges :: "int list"

definition nw_links :: "network \<Rightarrow> NetworkLink list" where
  "nw_links nw = w_links (nw_world nw)"

definition set_links :: "NetworkLink list \<Rightarrow> network \<Rightarrow> network" where
  "set_links ls nw = nw\<lparr>nw_world := (nw_world nw)\<lparr>w_links := ls\<rparr>\<rparr>"

definition link_of :: "(int \<times> 'l) list \<Rightarrow> basic_link \<Rightarrow> 'l res" where
  "link_of table link = (case map_of table (bl_id link) of None \<Rightarrow> Inl Assertion | Some gl \<Rightarrow> Inr gl)"

definition getNumRouters :: "network \<Rightarrow> int" where
  "getNumRouters nw = int (length (m_routers nw))"

text \<open>
  What the constructor does with the names of the virtual networks and with the trace: the command
  whose output is read, and the header line that is dropped.
\<close>

definition vnet_types :: "network_base \<Rightarrow> VNET_type list" where
  "vnet_types nb = map (\<lambda>name. if name = ''response'' then DATA_VNET else CTRL_VNET) (m_vnet_type_names nb)"

definition trace_command :: "string \<Rightarrow> string" where
  "trace_command trace_filename =
     (if endsWith trace_filename ''.gz'' then ''gunzip -c '' else ''tail -f '') @ trace_filename"

definition skip_header :: "string \<Rightarrow> string" where
  "skip_header trace = (case fgets 1000 trace of None \<Rightarrow> trace | Some (line, rest) \<Rightarrow> rest)"

text \<open>A network link and its credit link enter the lists, and the number of virtual channels grows.\<close>

definition record_links :: "link_type \<Rightarrow> int \<Rightarrow> int \<Rightarrow> u32 \<Rightarrow> network \<Rightarrow> network res" where
  "record_links ty net_link credit_link vcs nw =
     rbind (mod_link net_link (\<lambda>l. l\<lparr>nl_type := ty\<rparr>) (nw_links nw)) (\<lambda>links.
     Inr (set_links links (nw\<lparr>m_networklinks := m_networklinks nw @ [net_link],
          m_creditlinks := m_creditlinks nw @ [credit_link],
          nw_params := (nw_params nw)\<lparr>m_max_vcs_per_vnet := max (m_max_vcs_per_vnet (nw_params nw)) vcs\<rparr>\<rparr>)))"

definition record_bridge :: "int \<Rightarrow> network \<Rightarrow> network" where
  "record_bridge b nw = nw\<lparr>m_networkbridges := m_networkbridges nw @ [b]\<rparr>"

definition ni_port ::
    "int \<Rightarrow> (NetworkInterface \<times> NetworkLink list \<Rightarrow> (NetworkInterface \<times> NetworkLink list) res) \<Rightarrow> network \<Rightarrow> network res" where
  "ni_port i f nw =
     rbind (vget (m_nis nw) i) (\<lambda>ni.
     rbind (f (ni, nw_links nw)) (\<lambda>(ni', links).
     rbind (vset (m_nis nw) i ni') (\<lambda>nis. Inr (set_links links (nw\<lparr>m_nis := nis\<rparr>)))))"

definition router_port ::
    "int \<Rightarrow> (Router \<times> NetworkLink list \<Rightarrow> (Router \<times> NetworkLink list) res) \<Rightarrow> network \<Rightarrow> network res" where
  "router_port i f nw =
     rbind (vget (m_routers nw) i) (\<lambda>r.
     rbind (f (r, nw_links nw)) (\<lambda>(r', links).
     rbind (vset (m_routers nw) i r') (\<lambda>rs. Inr (set_links links (nw\<lparr>m_routers := rs\<rparr>)))))"

text \<open>The link and the credit link a port is connected to: the bridges, if there are bridges.\<close>

definition with_bridge :: "bool \<Rightarrow> int \<times> int \<Rightarrow> int \<times> int \<Rightarrow> (int \<Rightarrow> int \<Rightarrow> network \<Rightarrow> network res) \<Rightarrow> network \<Rightarrow> network res" where
  "with_bridge en bridges plain add nw =
     (if en then rbind (add (fst bridges) (snd bridges) nw) (\<lambda>nw'. Inr (record_bridge (fst bridges) nw'))
      else add (fst plain) (snd plain) nw)"

definition vcs_of :: "int \<Rightarrow> network \<Rightarrow> u32 res" where
  "vcs_of i nw = rbind (vget (m_routers nw) i) (\<lambda>r. Inr (r_vc_per_vnet (r_cfg r)))"

definition makeExtInLink :: "int \<Rightarrow> int \<Rightarrow> basic_link \<Rightarrow> net_dest list \<Rightarrow> network \<Rightarrow> network res" where
  "makeExtInLink global_src dest link entry nw =
     rbind (getLocalNodeID (nw_base nw) global_src) (\<lambda>local_src.
     rbind (check Assertion (local_src < uint (nb_nodes (nw_base nw)))) (\<lambda>_.
     rbind (link_of (ext_link_table nw) link) (\<lambda>gl.
     let plain = (fst (m_network_links gl), fst (m_credit_links gl)) in
     rbind (vcs_of dest nw) (\<lambda>vcs.
     rbind (record_links EXT_IN (fst plain) (snd plain) vcs nw) (\<lambda>nw1.
     rbind (with_bridge (extBridgeEn gl) (fst (extNetBridge gl), fst (extCredBridge gl)) plain
              (\<lambda>l c. ni_port local_src (NI_addOutPort (nw_params nw1) l c dest vcs)) nw1) (\<lambda>nw2.
     with_bridge (intBridgeEn gl) (fst (intNetBridge gl), fst (intCredBridge gl)) plain
       (\<lambda>l c. router_port dest (Router_addInPort ''Local'' l c)) nw2))))))"

definition makeExtOutLink :: "int \<Rightarrow> int \<Rightarrow> basic_link \<Rightarrow> net_dest list \<Rightarrow> network \<Rightarrow> network res" where
  "makeExtOutLink src global_dest link entry nw =
     rbind (getLocalNodeID (nw_base nw) global_dest) (\<lambda>local_dest.
     rbind (check Assertion (local_dest < uint (nb_nodes (nw_base nw)))) (\<lambda>_.
     rbind (check Assertion (src < int (length (m_routers nw)))) (\<lambda>_.
     rbind (link_of (ext_link_table nw) link) (\<lambda>gl.
     let plain = (snd (m_network_links gl), snd (m_credit_links gl)) in
     rbind (vcs_of src nw) (\<lambda>vcs.
     rbind (record_links EXT_OUT (fst plain) (snd plain) vcs nw) (\<lambda>nw1.
     rbind (with_bridge (extBridgeEn gl) (snd (extNetBridge gl), snd (extCredBridge gl)) plain
              (\<lambda>l c. ni_port local_dest (NI_addInPort l c)) nw1) (\<lambda>nw2.
     with_bridge (intBridgeEn gl) (snd (intNetBridge gl), snd (intCredBridge gl)) plain
       (\<lambda>l c. router_port src (Router_addOutPort (nw_params nw2) ''Local'' l entry (bl_weight link) c vcs)) nw2)))))))"

definition makeInternalLink ::
    "int \<Rightarrow> int \<Rightarrow> basic_link \<Rightarrow> net_dest list \<Rightarrow> PortDirection \<Rightarrow> PortDirection \<Rightarrow> network \<Rightarrow> network res" where
  "makeInternalLink src dest link entry src_outport dst_inport nw =
     rbind (link_of (int_link_table nw) link) (\<lambda>gl.
     let plain = (m_network_link gl, m_credit_link gl) in
     rbind (vcs_of dest nw) (\<lambda>vcs.
     rbind (vcs_of src nw) (\<lambda>src_vcs.
     rbind (record_links INT_LINK (fst plain) (snd plain) (max vcs src_vcs) nw) (\<lambda>nw1.
     rbind (with_bridge (dstBridgeEn gl) (dstNetBridge gl, dstCredBridge gl) plain
              (\<lambda>l c. router_port dest (Router_addInPort dst_inport l c)) nw1) (\<lambda>nw2.
     with_bridge (srcBridgeEn gl) (srcNetBridge gl, srcCredBridge gl) plain
       (\<lambda>l c. router_port src (Router_addOutPort (nw_params nw2) src_outport l entry (bl_weight link) c vcs)) nw2)))))"

fun make_link_call :: "make_call \<Rightarrow> network \<Rightarrow> network res" where
  "make_link_call (MakeExtInLink src dest link entry) nw = makeExtInLink src dest link entry nw"
| "make_link_call (MakeExtOutLink src dest link entry) nw = makeExtOutLink src dest link entry nw"
| "make_link_call (MakeInternalLink src dest link entry so di) nw = makeInternalLink src dest link entry so di nw"

definition add_nodes :: "network \<Rightarrow> network res" where
  "add_nodes nw =
     rfold (\<lambda>i nw.
       rbind (vget (m_nis nw) i) (\<lambda>ni.
       rbind (vget (m_toNetQueues (nw_base nw)) i) (\<lambda>ins.
       rbind (vget (m_fromNetQueues (nw_base nw)) i) (\<lambda>outs.
       rbind (NI_addNode ins outs (ni, w_bufs (nw_world nw))) (\<lambda>(ni', bufs).
       rbind (vset (m_nis nw) i ni') (\<lambda>nis.
       Inr (nw\<lparr>m_nis := nis, nw_world := (nw_world nw)\<lparr>w_bufs := bufs\<rparr>\<rparr>)))))))
       [0..uint (nb_nodes (nw_base nw)) - 1] nw"

definition set_rows :: "network \<Rightarrow> network res" where
  "set_rows nw =
     (let net = nw_params nw; n = int (length (m_routers nw)) in
      if 0 < m_num_rows net then
        rbind (cdiv n (m_num_rows net)) (\<lambda>cols.
        rbind (check Assertion (m_num_rows net * cols = n)) (\<lambda>_.
        Inr (nw\<lparr>nw_params := net\<lparr>m_num_cols := cols\<rparr>\<rparr>)))
      else Inr (nw\<lparr>nw_params := net\<lparr>m_num_rows := -1, m_num_cols := -1\<rparr>\<rparr>))"

text \<open>\<open>init\<close>: \<open>None\<close> only if the computation of the shortest paths does not end.\<close>

definition GarnetNetwork_init :: "nat \<Rightarrow> int list \<Rightarrow> Topology \<Rightarrow> network \<Rightarrow> network res option" where
  "GarnetNetwork_init nb cs topo nw =
     (case add_nodes nw of
        Inl e \<Rightarrow> Some (Inl e)
      | Inr nw1 \<Rightarrow>
          (case createLinks nb cs topo of
             None \<Rightarrow> None
           | Some (Inl e) \<Rightarrow> Some (Inl e)
           | Some (Inr calls) \<Rightarrow> Some (rbind (rfold make_link_call calls nw1) set_rows)))"

section \<open>Definitions: running the network\<close>

record net_env =
  ne_period :: "cref \<Rightarrow> tick"
  ne_rs :: ruby_system
  ne_rnd :: "nat \<Rightarrow> tick \<times> tick \<times> tick"
  ne_route_rnd :: "int \<Rightarrow> int \<Rightarrow> int"
  ne_nb :: nat
  ne_cs :: "int list"
  ne_scheduled :: "cref \<Rightarrow> tick \<Rightarrow> bool"

definition ni_env_of :: "net_env \<Rightarrow> tick \<Rightarrow> int \<Rightarrow> network \<Rightarrow> ni_env" where
  "ni_env_of env now i nw =
     \<lparr>e_period = ne_period env (ToNI i), e_now = now, e_net = nw_params nw, e_rs = ne_rs env, e_rnd = ne_rnd env,
      e_nb = ne_nb env, e_cs = ne_cs env, e_local = getLocalNodeID (nw_base nw),
      e_dir = map (\<lambda>ni. \<lparr>nd_period = ne_period env (ToNI (ni_id ni)), nd_outNode = outNode_ptr ni, nd_outPorts = outPorts ni\<rparr>)
        (m_nis nw)\<rparr>"

definition get_queue :: "qref \<Rightarrow> network \<Rightarrow> flitBuffer res" where
  "get_queue q nw = (case q of
     RouterOut r o' \<Rightarrow> rbind (vget (m_routers nw) r) (\<lambda>r. rbind (vget (m_output_unit r) o') (\<lambda>ou. Inr (outBuffer ou)))
   | RouterCredit r i \<Rightarrow> rbind (vget (m_routers nw) r) (\<lambda>r. rbind (vget (m_input_unit r) i) (\<lambda>iu. Inr (creditQueue iu)))
   | NIOut n o' \<Rightarrow> rbind (vget (m_nis nw) n) (\<lambda>ni. rbind (vget (outPorts ni) o') (\<lambda>po. Inr (outFlitQueue po)))
   | NICredit n i \<Rightarrow> rbind (vget (m_nis nw) n) (\<lambda>ni. rbind (vget (inPorts ni) i) (\<lambda>ip. Inr (outCreditQueue ip)))
   | LinkBuf l \<Rightarrow> rbind (vget (nw_links nw) l) (\<lambda>l. Inr (linkBuffer l)))"

definition put_queue :: "qref \<Rightarrow> flitBuffer \<Rightarrow> network \<Rightarrow> network res" where
  "put_queue q b nw = (case q of
     RouterOut r o' \<Rightarrow> rbind (vmod (m_routers nw) r (\<lambda>r.
         rbind (vmod (m_output_unit r) o' (\<lambda>ou. Inr (ou\<lparr>outBuffer := b\<rparr>))) (\<lambda>us. Inr (r\<lparr>m_output_unit := us\<rparr>)))) (\<lambda>rs.
       Inr (nw\<lparr>m_routers := rs\<rparr>))
   | RouterCredit r i \<Rightarrow> rbind (vmod (m_routers nw) r (\<lambda>r.
         rbind (vmod (m_input_unit r) i (\<lambda>iu. Inr (iu\<lparr>creditQueue := b\<rparr>))) (\<lambda>us. Inr (r\<lparr>m_input_unit := us\<rparr>)))) (\<lambda>rs.
       Inr (nw\<lparr>m_routers := rs\<rparr>))
   | NIOut n o' \<Rightarrow> rbind (vmod (m_nis nw) n (\<lambda>ni.
         rbind (vmod (outPorts ni) o' (\<lambda>po. Inr (po\<lparr>outFlitQueue := b\<rparr>))) (\<lambda>ps. Inr (ni\<lparr>outPorts := ps\<rparr>)))) (\<lambda>nis.
       Inr (nw\<lparr>m_nis := nis\<rparr>))
   | NICredit n i \<Rightarrow> rbind (vmod (m_nis nw) n (\<lambda>ni.
         rbind (vmod (inPorts ni) i (\<lambda>ip. Inr (ip\<lparr>outCreditQueue := b\<rparr>))) (\<lambda>ps. Inr (ni\<lparr>inPorts := ps\<rparr>)))) (\<lambda>nis.
       Inr (nw\<lparr>m_nis := nis\<rparr>))
   | LinkBuf l \<Rightarrow> rbind (mod_link l (\<lambda>l. l\<lparr>linkBuffer := b\<rparr>) (nw_links nw)) (\<lambda>links. Inr (set_links links nw)))"

definition nw_wake :: "wakes \<Rightarrow> network \<Rightarrow> network" where
  "nw_wake ws nw = nw\<lparr>nw_world := w_wake ws (nw_world nw)\<rparr>"

definition router_event :: "net_env \<Rightarrow> tick \<Rightarrow> int \<Rightarrow> network \<Rightarrow> network res" where
  "router_event env now i nw =
     rbind (vget (m_routers nw) i) (\<lambda>r.
     rbind (Router_wakeup (nw_params nw) (ne_scheduled env (ToRouter i)) (ne_route_rnd env i) (ne_period env (ToRouter i)) now
              (r, nw_links nw)) (\<lambda>(r', links, ws).
     rbind (vset (m_routers nw) i r') (\<lambda>rs.
     Inr (nw_wake ws (set_links links (nw\<lparr>m_routers := rs\<rparr>))))))"

definition output_unit_event :: "tick \<Rightarrow> int \<Rightarrow> int \<Rightarrow> network \<Rightarrow> network res" where
  "output_unit_event now i q nw =
     rbind (vget (m_routers nw) i) (\<lambda>r.
     rbind (Router_wake_output now q (r, nw_links nw, [])) (\<lambda>(r', links, ws).
     rbind (vset (m_routers nw) i r') (\<lambda>rs.
     Inr (nw_wake ws (set_links links (nw\<lparr>m_routers := rs\<rparr>))))))"

definition ni_event :: "net_env \<Rightarrow> tick \<Rightarrow> int \<Rightarrow> network \<Rightarrow> network res" where
  "ni_event env now i nw =
     rbind (vget (m_nis nw) i) (\<lambda>ni.
     rbind (NI_wakeup (ni_env_of env now i nw) (ni, nw_world nw)) (\<lambda>(ni', w).
     rbind (vset (m_nis nw) i ni') (\<lambda>nis.
     Inr (nw\<lparr>m_nis := nis, nw_world := w\<rparr>))))"

text \<open>A link asserts that it has a source; a bridge reads through the null pointer.\<close>

definition link_event :: "net_env \<Rightarrow> tick \<Rightarrow> int \<Rightarrow> network \<Rightarrow> network res" where
  "link_event env now i nw =
     rbind (vget (nw_links nw) i) (\<lambda>l.
     case link_srcQueue l of
       None \<Rightarrow> Inl (if nl_bridge l = None then Assertion else Undefined)
     | Some q \<Rightarrow>
         rbind (get_queue q nw) (\<lambda>src.
         if nl_bridge l = None then
           rbind (NetworkLink_wakeup i (ne_period env (ToLink i)) now src l) (\<lambda>(src', l', ws).
           rbind (put_queue q src' nw) (\<lambda>nw1.
           rbind (vset (nw_links nw1) i l') (\<lambda>links. Inr (nw_wake ws (set_links links nw1)))))
         else
           rbind (NetworkBridge_wakeup (ne_period env) now i src (nw_links nw)) (\<lambda>(src', links, ws).
           rbind (put_queue q src' (set_links links nw)) (\<lambda>nw1. Inr (nw_wake ws nw1)))))"

definition trace_event :: "net_env \<Rightarrow> tick \<Rightarrow> network \<Rightarrow> network res" where
  "trace_event env now nw =
     rbind (GarnetNetwork_wakeup (ne_period env ToNetwork) now (w_gn (nw_world nw), m_nis nw)) (\<lambda>(g, nis, ws).
     Inr (nw_wake ws (nw\<lparr>m_nis := nis, nw_world := (nw_world nw)\<lparr>w_gn := g\<rparr>\<rparr>)))"

text \<open>The wake-up of one object.\<close>

fun network_event :: "net_env \<Rightarrow> tick \<Rightarrow> cref \<Rightarrow> network \<Rightarrow> network res" where
  "network_event env now (ToRouter i) nw = router_event env now i nw"
| "network_event env now (ToOutputUnit i q) nw = output_unit_event now i q nw"
| "network_event env now (ToNI i) nw = ni_event env now i nw"
| "network_event env now (ToLink i) nw = link_event env now i nw"
| "network_event env now ToNetwork nw = trace_event env now nw"

section \<open>Definitions: statistics and functional accesses\<close>

definition GarnetNetwork_resetStats :: "network \<Rightarrow> network res" where
  "GarnetNetwork_resetStats nw =
     rbind (rfold (\<lambda>i. mod_link i NetworkLink_resetStats) (m_networklinks nw @ m_creditlinks nw) (nw_links nw)) (\<lambda>links.
     Inr (set_links links (nw\<lparr>m_routers := map Router_resetStats (m_routers nw)\<rparr>)))"

definition read_links ::
    "(message \<Rightarrow> 'pk \<Rightarrow> bool \<times> 'pk) \<Rightarrow> NetworkLink list \<Rightarrow> int list \<Rightarrow> 'pk \<Rightarrow> (bool \<times> 'pk) res" where
  "read_links fr links is pk =
     read_units (\<lambda>i pk. rbind (vget links i) (NetworkLink_functionalRead fr pk)) is pk"

definition GarnetNetwork_functionalRead ::
    "(message \<Rightarrow> 'pk \<Rightarrow> bool \<times> 'pk) \<Rightarrow> 'pk \<Rightarrow> network \<Rightarrow> (bool \<times> 'pk) res" where
  "GarnetNetwork_functionalRead fr pk nw =
     rbind (read_units (\<lambda>r pk. Router_functionalRead fr pk r) (m_routers nw) pk) (\<lambda>(a, pk1).
     rbind (read_units (\<lambda>ni pk. NI_functionalRead fr pk ni) (m_nis nw) pk1) (\<lambda>(b, pk2).
     rbind (read_links fr (nw_links nw) (m_networklinks nw) pk2) (\<lambda>(c, pk3).
     rbind (read_links fr (nw_links nw) (m_networkbridges nw) pk3) (\<lambda>(d, pk4).
     Inr (a \<or> b \<or> c \<or> d, pk4)))))"

definition write_link ::
    "('pk \<Rightarrow> message \<Rightarrow> bool \<times> message) \<Rightarrow> 'pk \<Rightarrow> int \<Rightarrow> u32 \<times> NetworkLink list \<Rightarrow> (u32 \<times> NetworkLink list) res" where
  "write_link fw pk i = (\<lambda>(n, links).
     rbind (vget links i) (\<lambda>l.
     rbind (NetworkLink_functionalWrite fw pk l) (\<lambda>(m, l').
     rbind (vset links i l') (\<lambda>links'. Inr (n + m, links')))))"

definition GarnetNetwork_functionalWrite ::
    "('pk \<Rightarrow> message \<Rightarrow> bool \<times> message) \<Rightarrow> 'pk \<Rightarrow> network \<Rightarrow> (u32 \<times> network) res" where
  "GarnetNetwork_functionalWrite fw pk nw =
     rbind (write_units (Router_functionalWrite fw pk) (m_routers nw)) (\<lambda>(a, rs).
     rbind (write_units (NI_functionalWrite fw pk) (m_nis nw)) (\<lambda>(b, nis).
     rbind (rfold (write_link fw pk) (m_networklinks nw) (0, nw_links nw)) (\<lambda>(c, links).
     Inr (a + b + c, set_links links (nw\<lparr>m_routers := rs, m_nis := nis\<rparr>)))))"

end
