(* ===== verification/Garnet_Flow.thy ===== *)
theory Garnet_Flow
  imports Garnet_NetworkLink
begin

text \<open>
  Credit-based flow control, as a contract between the components of a network and the links
  between them. A component has output ports, which send flits and take credits back, and input
  ports, which receive flits and give credits back. It acts in two ways: it wakes up and reads
  its links (\<open>step\<close>), or a link takes a flit or a credit from one of its queues (\<open>pull\<close>).

  For every virtual channel of an output port the component keeps a load: its credits and the flits
  it has yet to send. For every virtual channel of an input port: the flits it holds and the credits
  it has yet to send. A wake-up exchanges loads with the links the component reads, a pull with the
  links it feeds, one for one. The locale \<open>flow_component\<close> states this contract; the theorem of
  the locale is that in a network wired port to port, whatever order the components and links act
  in, the credits of a sender, the flits under way, the flits held by the receiver and the credits
  under way add up to the same number for ever.
\<close>

section \<open>Definitions\<close>

text \<open>The flits (or credits) of a virtual channel in a queue.\<close>

definition vc_count :: "int \<Rightarrow> flit list \<Rightarrow> int" where
  "vc_count v fs = int (length (filter (\<lambda>f. m_vc f = v) fs))"

definition on_link :: "NetworkLink list \<Rightarrow> int \<Rightarrow> int \<Rightarrow> int" where
  "on_link links l v = vc_count v (link_items (links ! nat l))"

text \<open>What a wake-up never changes of a link: the queue it reads from and its bridge.\<close>

definition link_wiring :: "NetworkLink \<Rightarrow> qref option \<times> bool" where
  "link_wiring l = (link_srcQueue l, nl_bridge l = None)"

lemma link_wiring_buffer [simp]: "link_wiring (l\<lparr>linkBuffer := b\<rparr>) = link_wiring l"
  by (simp add: link_wiring_def)

lemma map_wiring_update: "link_wiring l' = link_wiring (links ! i) \<Longrightarrow> map link_wiring (links[i := l']) = map link_wiring links"
  by (metis list_update_id map_update)

lemma vc_count_simps [simp]:
  "vc_count v [] = 0" "vc_count v (fs @ gs) = vc_count v fs + vc_count v gs"
  "vc_count v (f # fs) = (if m_vc f = v then 1 else 0) + vc_count v fs"
  by (simp_all add: vc_count_def)

lemma vc_count_nonneg [simp]: "0 \<le> vc_count v fs"
  by (simp add: vc_count_def)

lemma on_link_nonneg [simp]: "0 \<le> on_link links l v"
  by (simp add: on_link_def)

text \<open>
  A step of a network of components over shared links: one component acts.
\<close>

inductive flow_run ::
    "('s \<times> NetworkLink list \<Rightarrow> 's \<times> NetworkLink list \<Rightarrow> bool) \<Rightarrow>
      's list \<times> NetworkLink list \<Rightarrow> 's list \<times> NetworkLink list \<Rightarrow> bool" for act where
  flow_refl: "flow_run act s s"
| flow_act: "flow_run act s (ss, links) \<Longrightarrow> k < length ss \<Longrightarrow> act (ss ! k, links) (t, links') \<Longrightarrow>
    flow_run act s (ss[k := t], links')"

section \<open>The contract\<close>

locale flow_component =
  fixes inv :: "nat \<Rightarrow> 's \<Rightarrow> bool"
    and step pull :: "'s \<times> NetworkLink list \<Rightarrow> 's \<times> NetworkLink list \<Rightarrow> bool"
    and outs ins :: "'s \<Rightarrow> int \<Rightarrow> int \<Rightarrow> bool"
    and out_load in_load credits held :: "'s \<Rightarrow> int \<Rightarrow> int \<Rightarrow> int"
    and flit_out credit_in flit_in credit_out :: "'s \<Rightarrow> int \<Rightarrow> int"
    and reads feeds :: "'s \<Rightarrow> int set"
  assumes keeps: "inv (length links) s \<Longrightarrow> step (s, links) (t, links') \<or> pull (s, links) (t, links') \<Longrightarrow>
      inv (length links') t \<and> length links' = length links \<and> outs t = outs s \<and> ins t = ins s \<and>
      reads t = reads s \<and> feeds t = feeds s \<and>
      (\<forall>o' v. outs s o' v \<longrightarrow> flit_out t o' = flit_out s o' \<and> credit_in t o' = credit_in s o') \<and>
      (\<forall>i v. ins s i v \<longrightarrow> flit_in t i = flit_in s i \<and> credit_out t i = credit_out s i)"
    and step_loads: "inv (length links) s \<Longrightarrow> step (s, links) (t, links') \<Longrightarrow>
      (\<forall>o' v. outs s o' v \<longrightarrow> out_load t o' v + on_link links' (credit_in s o') v = out_load s o' v + on_link links (credit_in s o') v) \<and>
      (\<forall>i v. ins s i v \<longrightarrow> in_load t i v + on_link links' (flit_in s i) v = in_load s i v + on_link links (flit_in s i) v) \<and>
      (\<forall>l. 0 \<le> l \<longrightarrow> l \<notin> reads s \<longrightarrow> links' ! nat l = links ! nat l)"
    and pull_loads: "inv (length links) s \<Longrightarrow> pull (s, links) (t, links') \<Longrightarrow>
      (\<forall>o' v. outs s o' v \<longrightarrow> out_load t o' v + on_link links' (flit_out s o') v = out_load s o' v + on_link links (flit_out s o') v) \<and>
      (\<forall>i v. ins s i v \<longrightarrow> in_load t i v + on_link links' (credit_out s i) v = in_load s i v + on_link links (credit_out s i) v) \<and>
      (\<forall>l. 0 \<le> l \<longrightarrow> l \<notin> feeds s \<longrightarrow> links' ! nat l = links ! nat l)"
    and bounds: "inv n s \<Longrightarrow> outs s o' v \<Longrightarrow> 0 \<le> credits s o' v \<and> credits s o' v \<le> out_load s o' v"
      "inv n s \<Longrightarrow> ins s i v \<Longrightarrow> 0 \<le> held s i v \<and> held s i v \<le> in_load s i v"
begin

definition act :: "'s \<times> NetworkLink list \<Rightarrow> 's \<times> NetworkLink list \<Rightarrow> bool" where
  "act a b = (step a b \<or> pull a b)"

text \<open>Every component satisfies its invariant, and no two read or feed the same link.\<close>

definition flow_inv :: "'s list \<times> NetworkLink list \<Rightarrow> bool" where
  "flow_inv = (\<lambda>(ss, links).
     (\<forall>s\<in>set ss. inv (length links) s) \<and>
     (\<forall>j<length ss. \<forall>k<length ss. j \<noteq> k \<longrightarrow> reads (ss ! j) \<inter> reads (ss ! k) = {} \<and> feeds (ss ! j) \<inter> feeds (ss ! k) = {}))"

text \<open>
  A channel: output port \<open>q\<close> of component \<open>a\<close> sends over link \<open>l\<close> to input port \<open>i\<close> of component
  \<open>b\<close>, and the credits come back over link \<open>c\<close>.
\<close>

definition channel :: "nat \<Rightarrow> int \<Rightarrow> nat \<Rightarrow> int \<Rightarrow> int \<Rightarrow> int \<Rightarrow> int \<Rightarrow> 's list \<Rightarrow> bool" where
  "channel a q b i l c v ss =
     (a < length ss \<and> b < length ss \<and> outs (ss ! a) q v \<and> ins (ss ! b) i v \<and> 0 \<le> l \<and> 0 \<le> c \<and>
      flit_out (ss ! a) q = l \<and> flit_in (ss ! b) i = l \<and> credit_out (ss ! b) i = c \<and> credit_in (ss ! a) q = c \<and>
      l \<in> reads (ss ! b) \<and> c \<in> reads (ss ! a) \<and> l \<in> feeds (ss ! a) \<and> c \<in> feeds (ss ! b))"

definition channel_load :: "nat \<Rightarrow> int \<Rightarrow> nat \<Rightarrow> int \<Rightarrow> int \<Rightarrow> int \<Rightarrow> int \<Rightarrow> 's list \<times> NetworkLink list \<Rightarrow> int" where
  "channel_load a q b i l c v = (\<lambda>(ss, links).
     out_load (ss ! a) q v + on_link links l v + in_load (ss ! b) i v + on_link links c v)"

lemma act_channel:
  assumes f: "flow_inv (ss, links)" and ch: "channel a q b i l c v ss"
    and k: "k < length ss" and ac: "act (ss ! k, links) (t, links')"
  shows "flow_inv (ss[k := t], links')" "channel a q b i l c v (ss[k := t])"
    "channel_load a q b i l c v (ss[k := t], links') = channel_load a q b i l c v (ss, links)"
proof -
  have iv: "inv (length links) (ss ! k)" using f k by (simp add: flow_inv_def)
  have kp: "inv (length links') t" "length links' = length links" "outs t = outs (ss ! k)" "ins t = ins (ss ! k)"
      "reads t = reads (ss ! k)" "feeds t = feeds (ss ! k)"
      "outs (ss ! k) q v \<Longrightarrow> flit_out t q = flit_out (ss ! k) q \<and> credit_in t q = credit_in (ss ! k) q"
      "ins (ss ! k) i v \<Longrightarrow> flit_in t i = flit_in (ss ! k) i \<and> credit_out t i = credit_out (ss ! k) i"
    using keeps [OF iv] ac unfolding act_def by blast+
  show "flow_inv (ss[k := t], links')"
    using f kp(1,2,5,6) k set_update_subset_insert [of ss k t] unfolding flow_inv_def by (auto simp: nth_list_update)
  show "channel a q b i l c v (ss[k := t])" using ch kp k unfolding channel_def by (auto simp: nth_list_update)
  have dj: "k \<noteq> a \<Longrightarrow> c \<notin> reads (ss ! k) \<and> l \<notin> feeds (ss ! k)" "k \<noteq> b \<Longrightarrow> l \<notin> reads (ss ! k) \<and> c \<notin> feeds (ss ! k)"
    using f ch k unfolding flow_inv_def channel_def by blast+
  have lk: "links' ! nat m = links ! nat m" if "step (ss ! k, links) (t, links')" "0 \<le> m" "m \<notin> reads (ss ! k)" for m
    using step_loads [OF iv that(1)] that(2,3) by blast
  have lp: "links' ! nat m = links ! nat m" if "pull (ss ! k, links) (t, links')" "0 \<le> m" "m \<notin> feeds (ss ! k)" for m
    using pull_loads [OF iv that(1)] that(2,3) by blast
  have p: "0 \<le> l" "0 \<le> c" using ch by (simp_all add: channel_def)
  have w: "outs (ss ! a) q v" "ins (ss ! b) i v" "flit_out (ss ! a) q = l" "credit_in (ss ! a) q = c"
      "flit_in (ss ! b) i = l" "credit_out (ss ! b) i = c" using ch by (simp_all add: channel_def)
  from ac consider (step) "step (ss ! k, links) (t, links')" | (pull) "pull (ss ! k, links) (t, links')" by (auto simp: act_def)
  then show "channel_load a q b i l c v (ss[k := t], links') = channel_load a q b i l c v (ss, links)"
  proof cases
    case step
    have "out_load (ss[k := t] ! a) q v + on_link links' c v = out_load (ss ! a) q v + on_link links c v"
      using step_loads [OF iv step] w(1,4) dj(1) lk [OF step p(2)] k by (cases "k = a") (auto simp: on_link_def)
    moreover have "in_load (ss[k := t] ! b) i v + on_link links' l v = in_load (ss ! b) i v + on_link links l v"
      using step_loads [OF iv step] w(2,5) dj(2) lk [OF step p(1)] k by (cases "k = b") (auto simp: on_link_def)
    ultimately show ?thesis by (simp add: channel_load_def)
  next
    case pull
    have "out_load (ss[k := t] ! a) q v + on_link links' l v = out_load (ss ! a) q v + on_link links l v"
      using pull_loads [OF iv pull] w(1,3) dj(1) lp [OF pull p(1)] k by (cases "k = a") (auto simp: on_link_def)
    moreover have "in_load (ss[k := t] ! b) i v + on_link links' c v = in_load (ss ! b) i v + on_link links c v"
      using pull_loads [OF iv pull] w(2,6) dj(2) lp [OF pull p(2)] k by (cases "k = b") (auto simp: on_link_def)
    ultimately show ?thesis by (simp add: channel_load_def)
  qed
qed

text \<open>Whatever happens, the load of a channel stays the same.\<close>

lemma run_channel:
  assumes "flow_run act s t" "flow_inv s" "channel a q b i l c v (fst s)"
  shows "flow_inv t \<and> channel a q b i l c v (fst t) \<and> channel_load a q b i l c v t = channel_load a q b i l c v s"
  using assms
proof (induction rule: flow_run.induct)
  case (flow_act s ss links k t links')
  then show ?case using act_channel [of ss links a q b i l c v k t links'] by simp
qed simp

text \<open>So the receiver never holds more than the sender was given credit for.\<close>

lemma run_bounds:
  assumes "flow_run act s (ss, links)" "flow_inv s" "channel a q b i l c v (fst s)"
  shows "held (ss ! b) i v \<le> channel_load a q b i l c v s - credits (ss ! a) q v"
    and "credits (ss ! a) q v \<le> channel_load a q b i l c v s"
proof -
  note r = run_channel [OF assms]
  have "inv (length links) (ss ! a)" "inv (length links) (ss ! b)" "outs (ss ! a) q v" "ins (ss ! b) i v"
    using r by (auto simp: flow_inv_def channel_def)
  note bd = bounds(1) [OF this(1,3)] bounds(2) [OF this(2,4)]
  have "channel_load a q b i l c v s = out_load (ss ! a) q v + on_link links l v + in_load (ss ! b) i v + on_link links c v"
    using r by (simp add: channel_load_def)
  then show "held (ss ! b) i v \<le> channel_load a q b i l c v s - credits (ss ! a) q v"
      "credits (ss ! a) q v \<le> channel_load a q b i l c v s"
    using bd on_link_nonneg [of links l v] on_link_nonneg [of links c v] by linarith+
qed

end

end
