(* ===== verification/Garnet_Router_Credit.thy ===== *)
theory Garnet_Router_Credit
  imports Garnet_Router_Step Garnet_Flow
begin

text \<open>
  The router's side of the flow control. For a virtual channel of an output port the router keeps
  credits, flits in the crossbar that go out of the port, and flits in the port's buffer; for a
  virtual channel of an input port it keeps the flits of the channel and the credits that wait
  for the credit link. Every part of a wake-up keeps both sums, except for the flits and credits it
  takes from links, which add to them one by one.
\<close>

section \<open>Loads\<close>

definition out_valid :: "Router \<Rightarrow> int \<Rightarrow> int \<Rightarrow> bool" where
  "out_valid r q v = (0 \<le> q \<and> q < int (length (m_output_unit r)) \<and> 0 \<le> v \<and> v < int (length (outVcState (m_output_unit r ! nat q))))"

definition in_valid :: "Router \<Rightarrow> int \<Rightarrow> int \<Rightarrow> bool" where
  "in_valid r i v = (0 \<le> i \<and> i < int (length (m_input_unit r)) \<and> 0 \<le> v \<and> v < int (length (virtualChannels (m_input_unit r ! nat i))))"

definition ou_load :: "int \<Rightarrow> OutputUnit \<Rightarrow> int" where
  "ou_load v ou = m_credit_count (outVcState ou ! nat v) + vc_count v (m_buffer (outBuffer ou))"

definition switch_load :: "int \<Rightarrow> int \<Rightarrow> flitBuffer list \<Rightarrow> int" where
  "switch_load q v bs = (\<Sum>b\<leftarrow>bs. vc_count v (filter (\<lambda>f. m_outport f = Some q) (m_buffer b)))"

definition router_out_load :: "Router \<Rightarrow> int \<Rightarrow> int \<Rightarrow> int" where
  "router_out_load r q v = ou_load v (m_output_unit r ! nat q) + switch_load q v (switchBuffers (crossbarSwitch r))"

definition iu_load :: "int \<Rightarrow> InputUnit \<Rightarrow> int" where
  "iu_load v iu = int (length (VC_items (virtualChannels iu ! nat v))) + vc_count v (m_buffer (creditQueue iu))"

definition router_in_load :: "Router \<Rightarrow> int \<Rightarrow> int \<Rightarrow> int" where
  "router_in_load r i v = iu_load v (m_input_unit r ! nat i)"

definition ou_credits_ok :: "OutputUnit \<Rightarrow> bool" where
  "ou_credits_ok ou = (\<forall>s\<in>set (outVcState ou). 0 \<le> m_credit_count s)"

definition credits_ok :: "Router \<Rightarrow> bool" where
  "credits_ok r = (\<forall>ou\<in>set (m_output_unit r). ou_credits_ok ou)"

text \<open>The parts of the router that change no load.\<close>

definition loads_kept :: "Router \<Rightarrow> Router \<Rightarrow> bool" where
  "loads_kept r r' =
     (router_frame r' = router_frame r \<and> (credits_ok r \<longrightarrow> credits_ok r') \<and>
      (\<forall>q v. out_valid r q v \<longrightarrow> router_out_load r' q v = router_out_load r q v) \<and>
      (\<forall>i v. in_valid r i v \<longrightarrow> router_in_load r' i v = router_in_load r i v))"

lemma frame_lengths:
  assumes "router_frame r' = router_frame r"
  shows "length (m_input_unit r') = length (m_input_unit r)" "length (m_output_unit r') = length (m_output_unit r)"
    "map (length \<circ> virtualChannels) (m_input_unit r') = map (length \<circ> virtualChannels) (m_input_unit r)"
    "map (length \<circ> outVcState) (m_output_unit r') = map (length \<circ> outVcState) (m_output_unit r)"
    "map m_in_link (m_input_unit r') = map m_in_link (m_input_unit r)"
    "map iu_credit_link (m_input_unit r') = map iu_credit_link (m_input_unit r)"
    "map m_out_link (m_output_unit r') = map m_out_link (m_output_unit r)"
    "map ou_credit_link (m_output_unit r') = map ou_credit_link (m_output_unit r)"
proof -
  have i: "map iu_frame (m_input_unit r') = map iu_frame (m_input_unit r)"
    and o: "map ou_frame (m_output_unit r') = map ou_frame (m_output_unit r)"
    using assms by (simp_all add: router_frame_def)
  show "length (m_input_unit r') = length (m_input_unit r)" "length (m_output_unit r') = length (m_output_unit r)"
    using arg_cong [OF i, of length] arg_cong [OF o, of length] by simp_all
  show "map (length \<circ> virtualChannels) (m_input_unit r') = map (length \<circ> virtualChannels) (m_input_unit r)"
    using arg_cong [OF i, of "map (\<lambda>(_, _, _, _, _, n, _). n)"] by (simp add: iu_frame_def comp_def)
  show "map (length \<circ> outVcState) (m_output_unit r') = map (length \<circ> outVcState) (m_output_unit r)"
    using arg_cong [OF o, of "map (\<lambda>(_, _, _, _, _, n). n)"] by (simp add: ou_frame_def comp_def)
  show "map m_in_link (m_input_unit r') = map m_in_link (m_input_unit r)"
    using arg_cong [OF i, of "map (\<lambda>(_, _, _, l, _). l)"] by (simp add: iu_frame_def comp_def)
  show "map iu_credit_link (m_input_unit r') = map iu_credit_link (m_input_unit r)"
    using arg_cong [OF i, of "map (\<lambda>(_, _, _, _, l, _). l)"] by (simp add: iu_frame_def comp_def)
  show "map m_out_link (m_output_unit r') = map m_out_link (m_output_unit r)"
    using arg_cong [OF o, of "map (\<lambda>(_, _, _, l, _, _). l)"] by (simp add: ou_frame_def comp_def)
  show "map ou_credit_link (m_output_unit r') = map ou_credit_link (m_output_unit r)"
    using arg_cong [OF o, of "map (\<lambda>(_, _, _, _, l, _). l)"] by (simp add: ou_frame_def comp_def)
qed

lemma map_eq_nth: "map g xs = map g ys \<Longrightarrow> 0 \<le> i \<Longrightarrow> i < int (length xs) \<Longrightarrow> g (xs ! nat i) = g (ys ! nat i)"
  by (metis length_map nat_less_length nth_map)

lemma valid_frame:
  assumes "router_frame r' = router_frame r"
  shows "out_valid r' q v = out_valid r q v" "in_valid r' i v = in_valid r i v"
proof -
  note fl = frame_lengths [OF assms]
  have "length (outVcState (m_output_unit r' ! nat q)) = length (outVcState (m_output_unit r ! nat q))"
    if "0 \<le> q" "q < int (length (m_output_unit r))"
    using map_eq_nth [OF fl(4), of q] that fl(2) by simp
  then show "out_valid r' q v = out_valid r q v" using fl(2) by (auto simp: out_valid_def)
  have "length (virtualChannels (m_input_unit r' ! nat i)) = length (virtualChannels (m_input_unit r ! nat i))"
    if "0 \<le> i" "i < int (length (m_input_unit r))"
    using map_eq_nth [OF fl(3), of i] that fl(1) by simp
  then show "in_valid r' i v = in_valid r i v" using fl(1) by (auto simp: in_valid_def)
qed

lemma loads_kept_refl [simp]: "loads_kept r r"
  by (simp add: loads_kept_def)

lemma loads_kept_trans: "loads_kept r r' \<Longrightarrow> loads_kept r' r'' \<Longrightarrow> loads_kept r r''"
  using valid_frame [of r' r] by (simp add: loads_kept_def)

lemma loads_kept_sa [simp]: "loads_kept r (r\<lparr>switchAllocator := sa\<rparr>)"
  by (simp add: loads_kept_def router_frame_def router_out_load_def router_in_load_def credits_ok_def)

lemma credits_ok_update:
  assumes "credits_ok r" "m_output_unit r' = (m_output_unit r)[nat q := ou']" "0 \<le> q" "q < int (length (m_output_unit r))"
    and "ou_credits_ok (m_output_unit r ! nat q) \<Longrightarrow> ou_credits_ok ou'"
  shows "credits_ok r'"
proof -
  have "ou_credits_ok (m_output_unit r ! nat q)" using assms(1,3,4) by (simp add: credits_ok_def nat_less_iff)
  then show ?thesis using assms(1,2,5) set_update_subset_insert [of "m_output_unit r" "nat q" ou'] by (auto simp: credits_ok_def)
qed

lemma ou_credits_update:
  assumes "ou_credits_ok ou" "0 \<le> m_credit_count s" "outVcState ou' = (outVcState ou)[k := s]"
  shows "ou_credits_ok ou'"
  using assms set_update_subset_insert [of "outVcState ou" k s] by (auto simp: ou_credits_ok_def)

section \<open>Allocation and crossbar\<close>

lemma select_free_vc_load:
  assumes "OutputUnit_select_free_vc now vnet ou = Inr (vc, ou')" "0 \<le> v" "v < int (length (outVcState ou))"
  shows "ou_load v ou' = ou_load v ou"
proof -
  obtain q where "first_idle_vc now vnet ou = Inr q"
    using assms(1) by (auto simp: OutputUnit_select_free_vc_def rbind_eq_Inr)
  then show ?thesis using assms
    by (cases q) (auto simp: OutputUnit_select_free_vc_def rbind_eq_Inr vmod_eq_Inr ou_load_def OutVcState_setState_def
        nth_list_update)
qed

lemma select_free_vc_credits:
  assumes "OutputUnit_select_free_vc now vnet ou = Inr (vc, ou')" "ou_credits_ok ou"
  shows "ou_credits_ok ou'"
proof -
  obtain q where q: "first_idle_vc now vnet ou = Inr q"
    using assms(1) by (auto simp: OutputUnit_select_free_vc_def rbind_eq_Inr)
  show ?thesis
  proof (cases q)
    case None
    then show ?thesis using assms q by (simp add: OutputUnit_select_free_vc_def)
  next
    case (Some w)
    then have w: "0 \<le> w" "w < int (length (outVcState ou))"
        "outVcState ou' = (outVcState ou)[nat w := OutVcState_setState ACTIVE now (outVcState ou ! nat w)]"
      using assms(1) q by (auto simp: OutputUnit_select_free_vc_def rbind_eq_Inr vmod_eq_Inr)
    show ?thesis by (rule ou_credits_update [OF assms(2) _ w(3)])
      (use assms(2) w(1,2) in \<open>simp add: OutVcState_setState_def ou_credits_ok_def nat_less_iff\<close>)
  qed
qed

lemma decrement_credits: "OutputUnit_decrement_credit vc ou = Inr ou' \<Longrightarrow> ou_credits_ok ou \<Longrightarrow> ou_credits_ok ou'"
  by (rule ou_credits_update [where ou = ou and k = "nat vc"]) (auto simp: OutputUnit_decrement_eq_Inr)

lemma take_credit_credits: "OutputUnit_take_credit now c ou = Inr ou' \<Longrightarrow> ou_credits_ok ou \<Longrightarrow> ou_credits_ok ou'"
proof -
  assume a: "OutputUnit_take_credit now c ou = Inr ou'" and o: "ou_credits_ok ou"
  then obtain free where "0 \<le> m_vc c" "m_vc c < int (length (outVcState ou))"
      "outVcState ou' = (outVcState ou)[nat (m_vc c) := credited now free (outVcState ou ! nat (m_vc c))]"
    by (auto simp: OutputUnit_take_credit_eq_Inr)
  then show ?thesis using o
    by (intro ou_credits_update [OF o]) (auto simp: credited_def Let_def OutVcState_setState_def ou_credits_ok_def nat_less_iff)
qed

lemma grant_outvc_load:
  "InputUnit_grant_outvc invc outvc iu = Inr iu' \<Longrightarrow> 0 \<le> v \<Longrightarrow> v < int (length (virtualChannels iu)) \<Longrightarrow> iu_load v iu' = iu_load v iu"
  by (auto simp: InputUnit_grant_outvc_def iu_mod_vc_eq_Inr iu_load_def VC_items_def nth_list_update)

lemma vc_allocate_loads:
  assumes "SwitchAllocator_vc_allocate now outport inport invc r = Inr (outvc, r')"
  shows "loads_kept r r'"
proof -
  obtain vnet ou' iu' where
    o: "0 \<le> outport" "outport < int (length (m_output_unit r))"
      "OutputUnit_select_free_vc now vnet (m_output_unit r ! nat outport) = Inr (outvc, ou')" and
    i: "0 \<le> inport" "inport < int (length (m_input_unit r))"
      "InputUnit_grant_outvc invc outvc (m_input_unit r ! nat inport) = Inr iu'" and
    r': "r' = r\<lparr>m_output_unit := (m_output_unit r)[nat outport := ou'], m_input_unit := (m_input_unit r)[nat inport := iu']\<rparr>"
    using vc_allocateD [OF assms] by blast
  have "router_out_load r' q v = router_out_load r q v" if "out_valid r q v" for q v
    using that o select_free_vc_load [OF o(3), of v] by (auto simp: r' router_out_load_def out_valid_def nth_update_int)
  moreover have "router_in_load r' j v = router_in_load r j v" if "in_valid r j v" for j v
    using that i grant_outvc_load [OF i(3), of v] by (auto simp: r' router_in_load_def in_valid_def nth_update_int)
  moreover have "credits_ok r \<Longrightarrow> credits_ok r'"
    by (rule credits_ok_update [OF _ _ o(1,2), where ou' = ou']) (use select_free_vc_credits [OF o(3)] in \<open>simp_all add: r'\<close>)
  ultimately show ?thesis using vc_allocate_frame [OF assms] by (simp add: loads_kept_def)
qed

lemma switch_load_update:
  assumes "0 \<le> i" "i < int (length bs)"
  shows "switch_load q v (bs[nat i := b]) + vc_count v (filter (\<lambda>f. m_outport f = Some q) (m_buffer (bs ! nat i))) =
    switch_load q v bs + vc_count v (filter (\<lambda>f. m_outport f = Some q) (m_buffer b))"
  unfolding switch_load_def by (rule sum_list_map_update) (use assms in \<open>simp add: nat_less_iff\<close>)

lemma granted_flit_simps [simp]:
  "m_vc (granted_flit now q vc f) = vc" "m_outport (granted_flit now q vc f) = Some q"
  by (simp_all add: granted_flit_def advance_stage_def)

lemma departed_flit_simps [simp]:
  "m_vc (departed_flit p now f) = m_vc f" "m_outport (departed_flit p now f) = m_outport f"
  by (simp_all add: departed_flit_def advance_stage_def)

lemma Credit_new_simps [simp]: "m_vc (Credit_new vc b t) = vc" "m_is_free_signal (Credit_new vc b t) = Some b"
    "m_time (Credit_new vc b t) = t"
  by (simp_all add: Credit_new_def flit_new_def)

lemma release_flit_load:
  assumes "release_flit p now invc iu = Inr (f, iu', ws)" "0 \<le> v" "v < int (length (virtualChannels iu))"
  shows "iu_load v iu' = iu_load v iu"
proof -
  obtain fs v' where "0 \<le> invc" "invc < int (length (virtualChannels iu))"
    "VC_items (virtualChannels iu ! nat invc) = f # fs" "VC_items v' = fs"
    "iu' = iu\<lparr>virtualChannels := (virtualChannels iu)[nat invc := v'],
             creditQueue := flitBuffer_insert (Credit_new invc (is_tail f) now) (creditQueue iu)\<rparr>"
    using release_flitD [OF assms(1)] by auto
  then show ?thesis using assms(2,3) by (auto simp: iu_load_def nth_update_int)
qed

lemma grant_loads:
  assumes "SwitchAllocator_grant p now outport inport r = Inr (r', ws)"
  shows "loads_kept r r'"
proof -
  obtain invc outvc0 outvc r1 f iu2 ou2 r4 sa where
    alloc: "(if outvc0 = -1 then SwitchAllocator_vc_allocate now outport inport invc r else Inr (outvc0, r)) = Inr (outvc, r1)" and
    i: "0 \<le> inport" "inport < int (length (m_input_unit r1))" and
    rel: "release_flit p now invc (m_input_unit r1 ! nat inport) = Inr (f, iu2, ws)" and
    o: "0 \<le> outport" "outport < int (length (m_output_unit r1))"
      "OutputUnit_decrement_credit outvc (m_output_unit r1 ! nat outport) = Inr ou2" and
    sw: "Router_grant_switch inport (granted_flit now outport outvc f)
      (r1\<lparr>m_input_unit := (m_input_unit r1)[nat inport := iu2],
          m_output_unit := (m_output_unit r1)[nat outport := ou2]\<rparr>) = Inr r4" and
    r': "r' = r4\<lparr>switchAllocator := sa\<rparr>"
    using grantD [OF assms] by blast
  let ?bs = "switchBuffers (crossbarSwitch r1)"
  have k1: "loads_kept r r1" using alloc vc_allocate_loads by (auto split: if_splits)
  have s: "0 \<le> inport" "inport < int (length ?bs)" and
    r4: "m_input_unit r4 = (m_input_unit r1)[nat inport := iu2]" "m_output_unit r4 = (m_output_unit r1)[nat outport := ou2]"
      "switchBuffers (crossbarSwitch r4) = ?bs[nat inport := flitBuffer_insert (granted_flit now outport outvc f) (?bs ! nat inport)]"
    using sw by (auto simp: Router_grant_switch_def rbind_eq_Inr vmod_eq_Inr)
  have sl: "switch_load q v (switchBuffers (crossbarSwitch r4)) = switch_load q v ?bs + (if q = outport \<and> v = outvc then 1 else 0)" for q v
    using switch_load_update [OF s, of q v "flitBuffer_insert (granted_flit now outport outvc f) (?bs ! nat inport)"]
    by (simp add: r4(3) split: if_splits)
  have ol: "ou_load v (m_output_unit r4 ! nat q) = ou_load v (m_output_unit r1 ! nat q) - (if q = outport \<and> v = outvc then 1 else 0)"
    if "out_valid r1 q v" for q v
    using that o unfolding OutputUnit_decrement_eq_Inr by (auto simp: r4(2) nth_update_int ou_load_def out_valid_def)
  have "router_out_load r4 q v = router_out_load r1 q v" if "out_valid r1 q v" for q v
    using sl [of q v] ol [OF that] by (simp add: router_out_load_def)
  moreover have "router_in_load r4 j v = router_in_load r1 j v" if "in_valid r1 j v" for j v
    using that i release_flit_load [OF rel, of v] by (auto simp: r4(1) nth_update_int router_in_load_def in_valid_def)
  moreover have "credits_ok r1 \<Longrightarrow> credits_ok r4"
    by (rule credits_ok_update [OF _ r4(2) o(1,2)]) (use decrement_credits [OF o(3)] in simp_all)
  ultimately show ?thesis using k1 valid_frame [of r1 r] grant_frame [OF assms]
    by (simp add: loads_kept_def r' router_out_load_def router_in_load_def credits_ok_def)
qed

lemma SwitchAllocator_wakeup_loads:
  assumes "SwitchAllocator_wakeup sched p now net (r, ws) = Inr (r', ws')"
  shows "loads_kept r r'"
proof -
  obtain r1 r2 ws2 where a: "SwitchAllocator_arbitrate_inports now net r = Inr r1"
    and b: "SwitchAllocator_arbitrate_outports p now (r1, ws) = Inr (r2, ws2)"
    and c: "r' = SwitchAllocator_clear_request_vector r2"
    using SwitchAllocator_wakeupD [OF assms] by blast
  have "loads_kept r r1" using arbitrate_inports_sa [OF a] by auto
  moreover have "loads_kept r1 (fst (r2, ws2))"
  proof (rule rfold_inv [OF b [unfolded SwitchAllocator_arbitrate_outports_def], where I = "\<lambda>rw. loads_kept r1 (fst rw)"])
    fix x s s'
    assume "loads_kept r1 (fst s)" "SwitchAllocator_arbitrate_outport p now x s = Inr s'"
    moreover have "loads_kept (fst s) (fst s')"
      using arbitrate_outportD [of p now x "fst s" "snd s" "fst s'" "snd s'"] grant_loads calculation(2) by fastforce
    ultimately show "loads_kept r1 (fst s')" using loads_kept_trans by blast
  qed simp
  ultimately show ?thesis using loads_kept_trans [of r r1 r2] loads_kept_trans [of r r2 r']
    by (simp add: c SwitchAllocator_clear_request_vector_def)
qed

lemma traverse_loads:
  assumes "CrossbarSwitch_traverse p now i (r, ws) = Inr (r', ws')"
  shows "loads_kept r r'"
proof (cases "r' = r")
  case False
  let ?bs = "switchBuffers (crossbarSwitch r)"
  obtain f fs outport where i: "0 \<le> i" "i < int (length ?bs)" and f: "m_buffer (?bs ! nat i) = f # fs" "m_outport f = Some outport"
    and o: "0 \<le> outport" "outport < int (length (m_output_unit r))" and r': "r' = crossed p now i outport f fs r"
    using traverseD [OF assms] False by blast
  have sl: "switch_load q v (switchBuffers (crossbarSwitch r')) + (if q = outport \<and> v = m_vc f then 1 else 0) = switch_load q v ?bs" for q v
    using switch_load_update [OF i, of q v "(?bs ! nat i)\<lparr>m_buffer := fs\<rparr>"] f
    by (simp add: r' crossed_def Let_def split: if_splits)
  have ol: "ou_load v (m_output_unit r' ! nat q) = ou_load v (m_output_unit r ! nat q) + (if q = outport \<and> v = m_vc f then 1 else 0)"
    if "out_valid r q v" for q v
    using that o by (auto simp: r' crossed_def Let_def nth_update_int ou_load_def out_valid_def)
  have "router_out_load r' q v = router_out_load r q v" if "out_valid r q v" for q v
    using sl [of q v] ol [OF that] by (simp add: router_out_load_def)
  moreover have "router_in_load r' j v = router_in_load r j v" for j v
    by (simp add: r' crossed_def Let_def router_in_load_def)
  moreover have "credits_ok r \<Longrightarrow> credits_ok r'"
    by (rule credits_ok_update [OF _ _ o, where ou' = "(m_output_unit r ! nat outport)\<lparr>outBuffer :=
          flitBuffer_insert (departed_flit p now f) (outBuffer (m_output_unit r ! nat outport))\<rparr>"])
      (simp_all add: r' crossed_def Let_def ou_credits_ok_def)
  ultimately show ?thesis using traverse_frame [OF assms] by (simp add: loads_kept_def)
qed simp

lemma CrossbarSwitch_wakeup_loads:
  assumes "CrossbarSwitch_wakeup p now (r, ws) = Inr (r', ws')"
  shows "loads_kept r r'"
proof -
  have "loads_kept r (fst (r', ws'))"
  proof (rule rfold_inv [OF assms [unfolded CrossbarSwitch_wakeup_def], where I = "\<lambda>rw. loads_kept r (fst rw)"])
    fix x s s'
    assume "loads_kept r (fst s)" "CrossbarSwitch_traverse p now x s = Inr s'"
    moreover have "loads_kept (fst s) (fst s')"
      using traverse_loads [of p now x "fst s" "snd s" "fst s'" "snd s'"] calculation(2) by simp
    ultimately show "loads_kept r (fst s')" using loads_kept_trans by blast
  qed simp
  then show ?thesis by simp
qed

section \<open>Links\<close>

definition router_reads :: "Router \<Rightarrow> int set" where
  "router_reads r = m_in_link ` set (m_input_unit r) \<union> ou_credit_link ` set (m_output_unit r)"

text \<open>What a wake-up does to the loads and to the links the router reads.\<close>

definition loads_moved :: "Router \<Rightarrow> NetworkLink list \<Rightarrow> Router \<Rightarrow> NetworkLink list \<Rightarrow> bool" where
  "loads_moved r links r' links' =
     (router_frame r' = router_frame r \<and> (credits_ok r \<longrightarrow> credits_ok r') \<and> length links' = length links \<and>
      map link_wiring links' = map link_wiring links \<and>
      (\<forall>q v. out_valid r q v \<longrightarrow> router_out_load r' q v + on_link links' (credit_link_of r q) v =
         router_out_load r q v + on_link links (credit_link_of r q) v) \<and>
      (\<forall>i v. in_valid r i v \<longrightarrow> router_in_load r' i v + on_link links' (in_link_of r i) v =
         router_in_load r i v + on_link links (in_link_of r i) v) \<and>
      (\<forall>l. 0 \<le> l \<longrightarrow> l \<notin> router_reads r \<longrightarrow> links' ! nat l = links ! nat l))"

lemma router_reads_frame: "router_frame r' = router_frame r \<Longrightarrow> router_reads r' = router_reads r"
  using frame_lengths(5,8) [of r' r] by (metis list.set_map router_reads_def)

lemma links_frame:
  assumes "router_frame r' = router_frame r"
  shows "0 \<le> q \<Longrightarrow> q < int (length (m_output_unit r)) \<Longrightarrow> credit_link_of r' q = credit_link_of r q"
    "0 \<le> i \<Longrightarrow> i < int (length (m_input_unit r)) \<Longrightarrow> in_link_of r' i = in_link_of r i"
    "0 \<le> q \<Longrightarrow> q < int (length (m_output_unit r)) \<Longrightarrow> m_out_link (m_output_unit r' ! nat q) = m_out_link (m_output_unit r ! nat q)"
    "0 \<le> i \<Longrightarrow> i < int (length (m_input_unit r)) \<Longrightarrow> iu_credit_link (m_input_unit r' ! nat i) = iu_credit_link (m_input_unit r ! nat i)"
  using map_eq_nth [OF frame_lengths(8) [OF assms], of q] map_eq_nth [OF frame_lengths(5) [OF assms], of i]
    map_eq_nth [OF frame_lengths(7) [OF assms], of q] map_eq_nth [OF frame_lengths(6) [OF assms], of i] frame_lengths(1,2) [OF assms]
  by (simp_all add: credit_link_of_def in_link_of_def)

lemma loads_moved_refl [simp]: "loads_moved r links r links"
  by (simp add: loads_moved_def)

lemma loads_moved_trans:
  assumes "loads_moved r links r1 links1" "loads_moved r1 links1 r2 links2"
  shows "loads_moved r links r2 links2"
proof -
  have f: "router_frame r1 = router_frame r" using assms(1) by (simp add: loads_moved_def)
  have "credit_link_of r1 q = credit_link_of r q" if "out_valid r q v" for q v
    using that links_frame(1) [OF f, of q] by (simp add: out_valid_def)
  moreover have "in_link_of r1 i = in_link_of r i" if "in_valid r i v" for i v
    using that links_frame(2) [OF f, of i] by (simp add: in_valid_def)
  ultimately show ?thesis using assms valid_frame [OF f] router_reads_frame [OF f] by (simp add: loads_moved_def)
qed

lemma loads_kept_moved: "loads_kept r r' \<Longrightarrow> loads_moved r links r' links"
  by (simp add: loads_moved_def loads_kept_def)

lemma InputUnit_wakeup_frame:
  assumes "InputUnit_wakeup rc cfg p now l iu = Inr (iu', l', ws)"
  shows "iu_frame iu' = iu_frame iu"
proof (cases "NetworkLink_isReady now l")
  case True
  then show ?thesis using InputUnit_wakeupD [OF assms True] InputUnit_wakeup_stats [OF assms] by (auto simp: iu_frame_def)
qed (use assms in \<open>simp add: InputUnit_wakeup_def\<close>)

lemma InputUnit_wakeup_load:
  assumes "InputUnit_wakeup rc cfg p now l iu = Inr (iu', l', ws)" "0 \<le> v" "v < int (length (virtualChannels iu))"
  shows "iu_load v iu' + vc_count v (link_items l') = iu_load v iu + vc_count v (link_items l)"
proof (cases "NetworkLink_isReady now l")
  case True
  obtain f fs outport t where "link_items l = f # fs" "link_items l' = fs"
    "0 \<le> m_vc f" "m_vc f < int (length (virtualChannels iu))"
    "virtualChannels iu' = (virtualChannels iu)[nat (m_vc f) :=
      VC_insertFlit (staged t f) (admitted now (is_head f) outport (virtualChannels iu ! nat (m_vc f)))]"
    "creditQueue iu' = creditQueue iu"
    using InputUnit_wakeupD [OF assms(1) True] by (auto simp: link_items_def)
  then show ?thesis using assms(2,3) by (auto simp: iu_load_def nth_update_int)
qed (use assms(1) in \<open>simp add: InputUnit_wakeup_def\<close>)

lemma InputUnit_wakeup_wiring:
  assumes "InputUnit_wakeup rc cfg p now l iu = Inr (iu', l', ws)"
  shows "link_wiring l' = link_wiring l"
proof (cases "NetworkLink_isReady now l")
  case True
  then show ?thesis using InputUnit_wakeupD [OF assms] by auto
next
  case False
  then show ?thesis using assms by (simp add: InputUnit_wakeup_def)
qed

lemma wake_input_loads:
  assumes "Router_wake_input net rnd p now i (r, links, ws) = Inr (r', links', ws')" "wired r (length links)"
  shows "loads_moved r links r' links'"
proof -
  let ?iu = "m_input_unit r ! nat i"
  obtain iu' l' ws1 where i: "0 \<le> i" "i < int (length (m_input_unit r))"
    and li: "0 \<le> m_in_link ?iu" "m_in_link ?iu < int (length links)"
    and w: "InputUnit_wakeup (Router_route_compute net (rnd i) r) (r_cfg r) p now (links ! nat (m_in_link ?iu)) ?iu = Inr (iu', l', ws1)"
    and r': "r' = r\<lparr>m_input_unit := (m_input_unit r)[nat i := iu']\<rparr>" "links' = links[nat (m_in_link ?iu) := l']"
    using wake_inputD [OF assms(1)] by blast
  have lk: "links' ! nat (in_link_of r i) = l'" using li by (simp add: r' in_link_of_def nat_less_iff)
  have "router_frame r' = router_frame r"
    using map_update_same [OF i, of iu_frame iu'] InputUnit_wakeup_frame [OF w] by (simp add: r' router_frame_def)
  moreover have "router_in_load r' j v + on_link links' (in_link_of r j) v = router_in_load r j v + on_link links (in_link_of r j) v"
    if "in_valid r j v" for j v
  proof (cases "j = i")
    case True
    then show ?thesis using that i li lk InputUnit_wakeup_load [OF w, of v]
      by (simp add: r' router_in_load_def in_valid_def on_link_def in_link_of_def nth_update_int nat_less_iff)
  next
    case False
    have "nat (in_link_of r i) \<noteq> nat (in_link_of r j)"
      using wired_in_in [OF assms(2) i, of j] that False by (auto simp: in_valid_def)
    then show ?thesis using that i False
      by (simp add: r' router_in_load_def in_valid_def on_link_def in_link_of_def nth_update_int)
  qed
  moreover have "on_link links' (credit_link_of r q) v = on_link links (credit_link_of r q) v" if "out_valid r q v" for q v
    using wired_in_out [OF assms(2) i, of q] that by (simp add: r' on_link_def in_link_of_def out_valid_def)
  moreover have "links' ! nat l = links ! nat l" if "0 \<le> l" "l \<notin> router_reads r" for l
  proof -
    have "m_in_link ?iu \<in> router_reads r" using i by (simp add: router_reads_def nat_less_iff)
    then have "nat (m_in_link ?iu) \<noteq> nat l" using that li by (metis eq_nat_nat_iff)
    then show ?thesis by (simp add: r')
  qed
  moreover have "map link_wiring links' = map link_wiring links"
    unfolding r'(2) by (rule map_wiring_update) (rule InputUnit_wakeup_wiring [OF w])
  ultimately show ?thesis by (simp add: loads_moved_def r' router_out_load_def credits_ok_def)
qed

lemma OutputUnit_wakeup_load:
  assumes "OutputUnit_wakeup cfg now l ou = Inr (ou', l', ws)"
  shows "ou_frame ou' = ou_frame ou" "ou_credits_ok ou \<Longrightarrow> ou_credits_ok ou'"
    "0 \<le> v \<Longrightarrow> v < int (length (outVcState ou)) \<Longrightarrow> ou_load v ou' + vc_count v (link_items l') = ou_load v ou + vc_count v (link_items l)"
proof -
  have *: "ou_frame ou' = ou_frame ou \<and> (ou_credits_ok ou \<longrightarrow> ou_credits_ok ou') \<and>
      (0 \<le> v \<and> v < int (length (outVcState ou)) \<longrightarrow>
       ou_load v ou' + vc_count v (link_items l') = ou_load v ou + vc_count v (link_items l))"
  proof (cases "ou' = ou \<and> l' = l")
    case False
    then obtain c cs where l: "link_items l = c # cs" "link_items l' = cs" and t: "OutputUnit_take_credit now c ou = Inr ou'"
      using OutputUnit_wakeupD [OF assms] by (auto simp: link_items_def)
    from t obtain free where c: "0 \<le> m_vc c" "m_vc c < int (length (outVcState ou))"
        "ou' = ou\<lparr>outVcState := (outVcState ou)[nat (m_vc c) := credited now free (outVcState ou ! nat (m_vc c))]\<rparr>"
      by (auto simp: OutputUnit_take_credit_eq_Inr)
    have "m_credit_count (credited now free s) = m_credit_count s + 1" for s
      by (simp add: credited_def Let_def OutVcState_setState_def)
    then have "ou_load v ou' + vc_count v cs = ou_load v ou + vc_count v (c # cs)" if "0 \<le> v" "v < int (length (outVcState ou))"
      using that c(1,2) by (auto simp: c(3) ou_load_def nth_update_int)
    then show ?thesis using l take_credit_credits [OF t] by (simp add: c(3) ou_frame_def)
  qed simp
  then show "ou_frame ou' = ou_frame ou" "ou_credits_ok ou \<Longrightarrow> ou_credits_ok ou'"
    "0 \<le> v \<Longrightarrow> v < int (length (outVcState ou)) \<Longrightarrow> ou_load v ou' + vc_count v (link_items l') = ou_load v ou + vc_count v (link_items l)"
    by blast+
qed

lemma wake_output_loads:
  assumes "Router_wake_output now i (r, links, ws) = Inr (r', links', ws')" "wired r (length links)"
  shows "loads_moved r links r' links'"
proof -
  let ?ou = "m_output_unit r ! nat i"
  obtain ou' l' ws1 where i: "0 \<le> i" "i < int (length (m_output_unit r))"
    and li: "0 \<le> ou_credit_link ?ou" "ou_credit_link ?ou < int (length links)"
    and w: "OutputUnit_wakeup (r_cfg r) now (links ! nat (ou_credit_link ?ou)) ?ou = Inr (ou', l', ws1)"
    and r': "r' = r\<lparr>m_output_unit := (m_output_unit r)[nat i := ou']\<rparr>" "links' = links[nat (ou_credit_link ?ou) := l']"
    using wake_outputD [OF assms(1)] by blast
  have lk: "links' ! nat (credit_link_of r i) = l'" using li by (simp add: r' credit_link_of_def nat_less_iff)
  have "router_frame r' = router_frame r"
    using map_update_same [OF i, of ou_frame ou'] OutputUnit_wakeup_load(1) [OF w] by (simp add: r' router_frame_def)
  moreover have "credits_ok r \<Longrightarrow> credits_ok r'"
    by (rule credits_ok_update [OF _ _ i, where ou' = ou']) (use OutputUnit_wakeup_load(2) [OF w] in \<open>simp_all add: r'\<close>)
  moreover have "router_out_load r' q v + on_link links' (credit_link_of r q) v = router_out_load r q v + on_link links (credit_link_of r q) v"
    if "out_valid r q v" for q v
  proof (cases "q = i")
    case True
    then show ?thesis using that i li lk OutputUnit_wakeup_load(3) [OF w, of v]
      by (simp add: r' router_out_load_def out_valid_def on_link_def credit_link_of_def nth_update_int nat_less_iff)
  next
    case False
    have "nat (credit_link_of r i) \<noteq> nat (credit_link_of r q)"
      using wired_out_out [OF assms(2) i, of q] that False by (auto simp: out_valid_def)
    then show ?thesis using that i False
      by (simp add: r' router_out_load_def out_valid_def on_link_def credit_link_of_def nth_update_int)
  qed
  moreover have "on_link links' (in_link_of r j) v = on_link links (in_link_of r j) v" if "in_valid r j v" for j v
    using wired_in_out [OF assms(2) _ _ i, of j] that by (simp add: r' on_link_def credit_link_of_def in_valid_def)
  moreover have "links' ! nat l = links ! nat l" if "0 \<le> l" "l \<notin> router_reads r" for l
  proof -
    have "ou_credit_link ?ou \<in> router_reads r" using i by (simp add: router_reads_def nat_less_iff)
    then have "nat (ou_credit_link ?ou) \<noteq> nat l" using that li by (metis eq_nat_nat_iff)
    then show ?thesis by (simp add: r')
  qed
  moreover have "map link_wiring links' = map link_wiring links"
    unfolding r'(2) by (rule map_wiring_update) (use OutputUnit_wakeupD [OF w] in auto)
  ultimately show ?thesis by (simp add: loads_moved_def r' router_in_load_def)
qed

lemma rfold_loads:
  assumes "rfold f is (r, links, ws) = Inr (r', links', ws')" "wired r (length links)"
    and step: "\<And>i r links ws r' links' ws'. f i (r, links, ws) = Inr (r', links', ws') \<Longrightarrow> wired r (length links) \<Longrightarrow>
      loads_moved r links r' links'"
  shows "loads_moved r links r' links'"
proof -
  have "case (r', links', ws') of (r1, links1, _) \<Rightarrow> loads_moved r links r1 links1"
  proof (rule rfold_inv [OF assms(1), where I = "\<lambda>(r1, links1, _). loads_moved r links r1 links1"])
    fix x s s'
    assume a: "case s of (r1, links1, _) \<Rightarrow> loads_moved r links r1 links1" and b: "f x s = Inr s'"
    obtain r1 links1 ws1 r2 links2 ws2 where s: "s = (r1, links1, ws1)" "s' = (r2, links2, ws2)" by (metis prod.exhaust)
    have m: "loads_moved r links r1 links1" using a s by simp
    then have "wired r1 (length links1)" using wired_frame [of r1 r] assms(2) by (simp add: loads_moved_def)
    then have "loads_moved r1 links1 r2 links2" using step b s by blast
    then show "case s' of (r1, links1, _) \<Rightarrow> loads_moved r links r1 links1" using loads_moved_trans [OF m] s by simp
  qed simp
  then show ?thesis by simp
qed

lemma Router_wakeup_loads:
  assumes "Router_wakeup net sched rnd p now (r, links) = Inr (r', links', ws)" "wired r (length links)"
  shows "loads_moved r links r' links'"
proof -
  obtain r1 links1 ws1 r2 ws2 r3 ws3 where
    a: "rfold (Router_wake_input net rnd p now) [0..int (length (m_input_unit r)) - 1] (r, links, []) = Inr (r1, links1, ws1)" and
    b: "rfold (Router_wake_output now) [0..int (length (m_output_unit r1)) - 1] (r1, links1, ws1) = Inr (r2, links', ws2)" and
    c: "SwitchAllocator_wakeup sched p now net (r2, ws2) = Inr (r3, ws3)" and
    d: "CrossbarSwitch_wakeup p now (r3, ws3) = Inr (r', ws)"
    using Router_wakeupD [OF assms(1)] by blast
  have m1: "loads_moved r links r1 links1" by (rule rfold_loads [OF a assms(2) wake_input_loads])
  then have "wired r1 (length links1)" using wired_frame [of r1 r] assms(2) by (simp add: loads_moved_def)
  then have m2: "loads_moved r1 links1 r2 links'" by (rule rfold_loads [OF b]) (rule wake_output_loads)
  have "loads_kept r2 r'" using loads_kept_trans [OF SwitchAllocator_wakeup_loads [OF c] CrossbarSwitch_wakeup_loads [OF d]] .
  then show ?thesis using loads_moved_trans [OF loads_moved_trans [OF m1 m2] loads_kept_moved] by blast
qed

end
