(* ===== verification/Garnet_NI_Credit.thy ===== *)
theory Garnet_NI_Credit
  imports Garnet_NetworkInterface Garnet_Flow
begin

text \<open>
  The network interface's side of the flow control. For a virtual channel of its output port the
  interface keeps credits and the flits that wait for the link; for a virtual channel of an input
  port the stalled flits and the credits that wait for the credit link. A wake-up exchanges these
  loads with the links it reads, one for one: sending a flit uses up a credit of its channel,
  a flit that arrives is either stalled or answered by a credit, and a stalled flit is answered by a
  credit when its message is handed over.
\<close>

section \<open>Loads and invariant\<close>

definition ip_frame :: "InputPort \<Rightarrow> int list \<times> int \<times> int \<times> u32" where
  "ip_frame ip = (ip_vnets ip, inNetLink ip, outCreditLink ip, ip_bitWidth ip)"

definition op_frame :: "OutputPort \<Rightarrow> int list \<times> int \<times> int \<times> int \<times> u32" where
  "op_frame po = (op_vnets po, outNetLink po, inCreditLink po, routerID po, op_bitWidth po)"

definition ni_frame where
  "ni_frame ni = (ni_id ni, ni_virtual_networks ni, ni_vc_per_vnet ni, inNode_ptr ni, outNode_ptr ni,
     map ip_frame (inPorts ni), map op_frame (outPorts ni), length (ni_outVcState ni), length (niOutVcs ni))"

definition ni_out_load :: "NetworkInterface \<Rightarrow> int \<Rightarrow> int" where
  "ni_out_load ni v = m_credit_count (ni_outVcState ni ! nat v) + vc_count v (m_buffer (outFlitQueue (outPorts ni ! 0)))"

definition ip_load :: "int \<Rightarrow> InputPort \<Rightarrow> int" where
  "ip_load v ip = vc_count v (m_stall_queue ip) + vc_count v (m_buffer (outCreditQueue ip))"

definition ni_in_load :: "NetworkInterface \<Rightarrow> int \<Rightarrow> int \<Rightarrow> int" where
  "ni_in_load ni i v = ip_load v (inPorts ni ! nat i)"

definition ni_reads :: "NetworkInterface \<Rightarrow> int set" where
  "ni_reads ni = inNetLink ` set (inPorts ni) \<union> inCreditLink ` set (outPorts ni)"

text \<open>A flit in the buffer of an output virtual channel carries the number of the channel.\<close>

definition tagged :: "flitBuffer list \<Rightarrow> bool" where
  "tagged bs = (\<forall>k<length bs. \<forall>f\<in>set (m_buffer (bs ! k)). m_vc f = int k)"

text \<open>
  The invariant: one output port, links of its own, and credits that are not negative.
\<close>

definition ni_flow_ok :: "nat \<Rightarrow> NetworkInterface \<Rightarrow> bool" where
  "ni_flow_ok n ni =
     (length (outPorts ni) = 1 \<and> distinct (map inNetLink (inPorts ni) @ map inCreditLink (outPorts ni)) \<and>
      (\<forall>l\<in>ni_reads ni. 0 \<le> l \<and> l < int n) \<and> length (niOutVcs ni) = length (ni_outVcState ni) \<and>
      tagged (niOutVcs ni) \<and> (\<forall>s\<in>set (ni_outVcState ni). 0 \<le> m_credit_count s))"

definition ni_moved :: "NetworkInterface \<Rightarrow> NetworkLink list \<Rightarrow> NetworkInterface \<Rightarrow> NetworkLink list \<Rightarrow> bool" where
  "ni_moved ni links ni' links' =
     (ni_flow_ok (length links') ni' \<and> length links' = length links \<and> ni_frame ni' = ni_frame ni \<and>
      map link_wiring links' = map link_wiring links \<and>
      (\<forall>v. 0 \<le> v \<and> v < int (length (ni_outVcState ni)) \<longrightarrow>
         ni_out_load ni' v + on_link links' (inCreditLink (outPorts ni ! 0)) v =
         ni_out_load ni v + on_link links (inCreditLink (outPorts ni ! 0)) v) \<and>
      (\<forall>i v. 0 \<le> i \<and> i < int (length (inPorts ni)) \<longrightarrow>
         ni_in_load ni' i v + on_link links' (inNetLink (inPorts ni ! nat i)) v =
         ni_in_load ni i v + on_link links (inNetLink (inPorts ni ! nat i)) v) \<and>
      (\<forall>l. 0 \<le> l \<longrightarrow> l \<notin> ni_reads ni \<longrightarrow> links' ! nat l = links ! nat l))"

lemma ni_frame_ports:
  assumes "ni_frame ni' = ni_frame ni"
  shows "length (inPorts ni') = length (inPorts ni)" "length (outPorts ni') = length (outPorts ni)"
    "map inNetLink (inPorts ni') = map inNetLink (inPorts ni)" "map inCreditLink (outPorts ni') = map inCreditLink (outPorts ni)"
    "map outCreditLink (inPorts ni') = map outCreditLink (inPorts ni)" "map outNetLink (outPorts ni') = map outNetLink (outPorts ni)"
    "length (ni_outVcState ni') = length (ni_outVcState ni)" "length (niOutVcs ni') = length (niOutVcs ni)"
proof -
  have i: "map ip_frame (inPorts ni') = map ip_frame (inPorts ni)" and o: "map op_frame (outPorts ni') = map op_frame (outPorts ni)"
    and l: "length (ni_outVcState ni') = length (ni_outVcState ni)" "length (niOutVcs ni') = length (niOutVcs ni)"
    using assms by (simp_all add: ni_frame_def)
  show "length (inPorts ni') = length (inPorts ni)" "length (outPorts ni') = length (outPorts ni)"
    using arg_cong [OF i, of length] arg_cong [OF o, of length] by simp_all
  show "map inNetLink (inPorts ni') = map inNetLink (inPorts ni)"
    using arg_cong [OF i, of "map (\<lambda>(_, l, _). l)"] by (simp add: ip_frame_def comp_def)
  show "map inCreditLink (outPorts ni') = map inCreditLink (outPorts ni)"
    using arg_cong [OF o, of "map (\<lambda>(_, _, l, _). l)"] by (simp add: op_frame_def comp_def)
  show "map outCreditLink (inPorts ni') = map outCreditLink (inPorts ni)"
    using arg_cong [OF i, of "map (\<lambda>(_, _, l, _). l)"] by (simp add: ip_frame_def comp_def)
  show "map outNetLink (outPorts ni') = map outNetLink (outPorts ni)"
    using arg_cong [OF o, of "map (\<lambda>(_, l, _). l)"] by (simp add: op_frame_def comp_def)
qed (use assms in \<open>simp_all add: ni_frame_def\<close>)

lemma map_eq_nth0: "map g xs = map g ys \<Longrightarrow> 0 < length xs \<Longrightarrow> g (xs ! 0) = g (ys ! 0)"
  by (metis length_map nth_map)

lemma map_eq_nthi: "map g xs = map g ys \<Longrightarrow> 0 \<le> i \<Longrightarrow> i < int (length xs) \<Longrightarrow> g (xs ! nat i) = g (ys ! nat i)"
  by (metis length_map nat_less_length nth_map)

lemma ni_reads_frame: "ni_frame ni' = ni_frame ni \<Longrightarrow> ni_reads ni' = ni_reads ni"
  using ni_frame_ports(3,4) [of ni' ni] by (metis list.set_map ni_reads_def)

lemma ni_moved_refl: "ni_flow_ok (length links) ni \<Longrightarrow> ni_moved ni links ni links"
  by (simp add: ni_moved_def)

lemma ni_moved_ok: "ni_moved ni links ni' links' \<Longrightarrow> ni_flow_ok (length links') ni'"
  unfolding ni_moved_def by blast

lemma ni_moved_trans:
  assumes a: "ni_moved ni links ni1 links1" and b: "ni_moved ni1 links1 ni2 links2"
  shows "ni_moved ni links ni2 links2"
proof -
  have f: "ni_frame ni1 = ni_frame ni" and o: "length (outPorts ni1) = 1" using a by (simp_all add: ni_moved_def ni_flow_ok_def)
  have "inCreditLink (outPorts ni1 ! 0) = inCreditLink (outPorts ni ! 0)"
    using map_eq_nth0 [OF ni_frame_ports(4) [OF f]] o by simp
  moreover have "inNetLink (inPorts ni1 ! nat i) = inNetLink (inPorts ni ! nat i)" if "0 \<le> i" "i < int (length (inPorts ni))" for i
    using map_eq_nthi [OF ni_frame_ports(3) [OF f], of i] ni_frame_ports(1) [OF f] that by simp
  ultimately show ?thesis using a b ni_reads_frame [OF f] ni_frame_ports(1,7) [OF f] by (clarsimp simp: ni_moved_def)
qed

section \<open>Steps that move nothing\<close>

definition ni_quiet :: "NetworkInterface \<Rightarrow> NetworkInterface \<Rightarrow> bool" where
  "ni_quiet ni ni' =
     (ni_frame ni' = ni_frame ni \<and> outPorts ni' = outPorts ni \<and> inPorts ni' = inPorts ni \<and>
      map m_credit_count (ni_outVcState ni') = map m_credit_count (ni_outVcState ni) \<and>
      (tagged (niOutVcs ni) \<longrightarrow> tagged (niOutVcs ni')))"

lemma ni_quiet_refl [simp]: "ni_quiet ni ni"
  by (simp add: ni_quiet_def)

lemma ni_quiet_trans: "ni_quiet ni ni1 \<Longrightarrow> ni_quiet ni1 ni2 \<Longrightarrow> ni_quiet ni ni2"
  by (simp add: ni_quiet_def)

lemma ni_quiet_moved:
  assumes "ni_quiet ni ni'" "ni_flow_ok (length links) ni"
  shows "ni_moved ni links ni' links"
proof -
  have c: "map m_credit_count (ni_outVcState ni') = map m_credit_count (ni_outVcState ni)" using assms(1) by (simp add: ni_quiet_def)
  have "\<forall>s\<in>set (ni_outVcState ni'). 0 \<le> m_credit_count s"
    using arg_cong [OF c, of set] assms(2) unfolding ni_flow_ok_def by (metis imageI image_iff list.set_map)
  moreover have "m_credit_count (ni_outVcState ni' ! nat v) = m_credit_count (ni_outVcState ni ! nat v)"
    if "0 \<le> v" "v < int (length (ni_outVcState ni))" for v
    using map_eq_nthi [OF c, of v] that arg_cong [OF c, of length] by simp
  ultimately show ?thesis using assms ni_frame_ports(7,8) [of ni' ni]
    by (simp add: ni_moved_def ni_quiet_def ni_flow_ok_def ni_out_load_def ni_in_load_def ni_reads_def)
qed

lemma w_wake_links [simp]: "w_links (w_wake ws w) = w_links w" "w_gn (w_wake ws w) = w_gn w" "w_bufs (w_wake ws w) = w_bufs w"
  by (simp_all add: w_wake_def)

lemma w_count_links: "w_count f w = Inr w' \<Longrightarrow> w_links w' = w_links w"
  by (auto simp: w_count_def rbind_eq_Inr)

lemma w_enqueue_links: "w_enqueue env i m t d w = Inr w' \<Longrightarrow> w_links w' = w_links w \<and> w_gn w' = w_gn w"
  by (auto simp: w_enqueue_def rbind_eq_Inr)

lemma w_slots_links: "w_slots n t i w = Inr (ok, w') \<Longrightarrow> w_links w' = w_links w \<and> w_gn w' = w_gn w"
  by (cases "MessageBuffer_areNSlotsAvailable n t (w_bufs w ! nat i)") (auto simp: w_slots_def rbind_eq_Inr Let_def vget_eq_Inr)

lemma repeat_count_links: "repeat_count n f w = Inr w' \<Longrightarrow> w_links w' = w_links w"
  by (induction n arbitrary: w) (auto simp: rbind_eq_Inr dest!: w_count_links)

lemma incrementStats_links: "NI_incrementStats env f w = Inr w' \<Longrightarrow> w_links w' = w_links w"
  by (auto simp: NI_incrementStats_def Let_def rbind_eq_Inr dest: w_count_links)

lemma magicSend_links: "magicSend env i vnet m w = Inr w' \<Longrightarrow> w_links w' = w_links w"
  by (auto simp: magicSend_def NI_magicReceive_def rbind_eq_Inr dest: w_enqueue_links)

lemma calculateVC_change:
  assumes "NI_calculateVC now vnet ni = Inr (vc, ni')"
  shows "\<exists>alloc busy. ni' = ni\<lparr>m_vc_allocator := alloc, vc_busy_counter := busy\<rparr>"
proof -
  obtain delta found delta' where "vget (m_vc_allocator ni) vnet = Inr delta"
      "scan_vcs now (ni_outVcState ni) (vnet * ni_vc_per_vnet ni) (ni_vc_per_vnet ni) (nat (ni_vc_per_vnet ni)) delta = Inr (found, delta')"
    using assms by (auto simp: NI_calculateVC_def Let_def rbind_eq_Inr)
  then show ?thesis using assms by (cases found) (auto simp: NI_calculateVC_def Let_def rbind_eq_Inr)
qed

lemma calculateVC_quiet: "NI_calculateVC now vnet ni = Inr (vc, ni') \<Longrightarrow> ni_quiet ni ni'"
  by (drule calculateVC_change) (auto simp: ni_quiet_def ni_frame_def)

lemma flitisize_dest_quiet:
  assumes "flitisize_dest env vnet oPort n multi d (m, ni, w) = Inr (ok, m', ni', w')"
  shows "ni_quiet ni ni' \<and> w_links w' = w_links w"
proof -
  obtain vc ni1 where c: "NI_calculateVC (e_now env) vnet ni = Inr (vc, ni1)"
    using assms by (auto simp: flitisize_dest_def rbind_eq_Inr)
  have "ni' = ni1 \<and> w_links w' = w_links w"
  proof (cases "vc = -1")
    case False
    then show ?thesis using assms c
      by (auto simp: flitisize_dest_def rbind_eq_Inr Let_def getNextPacketID_def
          dest!: w_count_links repeat_count_links magicSend_links)
  qed (use assms c in \<open>simp add: flitisize_dest_def\<close>)
  then show ?thesis using calculateVC_quiet [OF c] by simp
qed

lemma flitisize_dests_quiet:
  assumes "flitisize_dests env vnet oPort n multi ds (m, ni, w) = Inr (ok, m', ni', w')"
  shows "ni_quiet ni ni' \<and> w_links w' = w_links w"
  using assms
proof (induction ds arbitrary: m ni w)
  case (Cons d ds)
  obtain ok1 m1 ni1 w1 where d: "flitisize_dest env vnet oPort n multi d (m, ni, w) = Inr (ok1, m1, ni1, w1)"
    using Cons.prems by (auto simp: rbind_eq_Inr)
  note q = flitisize_dest_quiet [OF d]
  show ?case
  proof (cases ok1)
    case True
    then show ?thesis using Cons.IH [of m1 ni1 w1] Cons.prems d q ni_quiet_trans by auto
  qed (use Cons.prems d q in auto)
qed simp

lemma flitisizeMessage_quiet:
  assumes "NI_flitisizeMessage env m vnet (ni, w) = Inr (ok, m', ni', w')"
  shows "ni_quiet ni ni' \<and> w_links w' = w_links w"
proof -
  obtain i where "NI_getOutportForVnet vnet ni = Some i"
    using assms by (cases "NI_getOutportForVnet vnet ni") (auto simp: NI_flitisizeMessage_def rbind_eq_Inr)
  then show ?thesis using assms
    by (auto simp: NI_flitisizeMessage_def rbind_eq_Inr dest!: flitisize_dests_quiet)
qed

lemma take_message_quiet:
  assumes "take_message env vnet i (ni, w) = Inr (go, ni', w')"
  shows "ni_quiet ni ni' \<and> w_links w' = w_links w"
proof -
  obtain b ready ws where b: "vget (w_bufs w) i = Inr b" "MessageBuffer_isReady (edge_at (e_period env) (e_now env) 0) b = Inr (ready, ws)"
    using assms by (auto simp: take_message_def rbind_eq_Inr)
  show ?thesis
  proof (cases ready)
    case True
    then obtain m sent m' ni1 w1 where f: "NI_flitisizeMessage env m vnet (ni, w_wake ws w) = Inr (sent, m', ni1, w1)"
        and n: "ni' = ni1 \<and> w_links w' = w_links w1"
      using assms b by (auto simp: take_message_def rbind_eq_Inr Let_def split: if_splits)
    then show ?thesis using flitisizeMessage_quiet [OF f] by simp
  qed (use assms b in \<open>auto simp: take_message_def Let_def\<close>)
qed

lemma take_messages_quiet:
  assumes "take_messages env ps (ni, w) = Inr (ni', w')"
  shows "ni_quiet ni ni' \<and> w_links w' = w_links w"
  using assms
proof (induction ps arbitrary: ni w)
  case (Cons q ps)
  obtain vnet p where q: "q = (vnet, p)" by fastforce
  show ?case
  proof (cases p)
    case None
    then show ?thesis using Cons q by simp
  next
    case (Some i)
    then obtain go ni1 w1 where t: "take_message env vnet i (ni, w) = Inr (go, ni1, w1)"
      using Cons.prems q by (auto simp: rbind_eq_Inr)
    then show ?thesis using Cons.IH [of ni1 w1] Cons.prems q Some take_message_quiet [OF t] ni_quiet_trans
      by (auto split: if_splits)
  qed
qed simp

section \<open>Replaying a trace\<close>

lemma transferD:
  assumes "NI_transferTraceRecordsToInjectionQueue env (ni, w) = Inr (ni', w')" "m_trace_record_queue ni = first # rs"
  shows "\<exists>r rest i routes fs g. dropWhile (\<lambda>r. tr_time r = tr_time first) rs = r # rest \<and>
    NI_getOutportForVnet (tr_vnet r) ni = Some i \<and> 0 \<le> i \<and> i < int (length (outPorts ni)) \<and>
    map_res (record_route env ni (outPorts ni ! nat i)) (first # takeWhile (\<lambda>r. tr_time r = tr_time first) rs) = Inr routes \<and>
    record_flits env (outPorts ni ! nat i) (zip (first # takeWhile (\<lambda>r. tr_time r = tr_time first) rs) routes) ([], w_gn w) = (fs, g) \<and>
    ni' = ni\<lparr>m_trace_record_queue := r # rest, m_trace_injection_queue := m_trace_injection_queue ni @ fs\<rparr> \<and> w' = w\<lparr>w_gn := g\<rparr>"
proof -
  let ?same = "first # takeWhile (\<lambda>r. tr_time r = tr_time first) rs"
  obtain r rest where rest: "dropWhile (\<lambda>r. tr_time r = tr_time first) rs = r # rest"
    using assms by (cases "dropWhile (\<lambda>r. tr_time r = tr_time first) rs")
      (simp_all add: NI_transferTraceRecordsToInjectionQueue_def Let_def del: dropWhile_eq_Nil_conv)
  obtain i where i: "NI_getOutportForVnet (tr_vnet r) ni = Some i"
    using assms rest by (cases "NI_getOutportForVnet (tr_vnet r) ni") (auto simp: NI_transferTraceRecordsToInjectionQueue_def Let_def)
  then obtain routes where o: "0 \<le> i" "i < int (length (outPorts ni))"
      and routes: "map_res (record_route env ni (outPorts ni ! nat i)) ?same = Inr routes"
    using assms rest by (auto simp: NI_transferTraceRecordsToInjectionQueue_def Let_def rbind_eq_Inr vget_eq_Inr simp del: map_res.simps)
  obtain fs g where fs: "record_flits env (outPorts ni ! nat i) (zip ?same routes) ([], w_gn w) = (fs, g)" by fastforce
  have "ni' = ni\<lparr>m_trace_record_queue := r # rest, m_trace_injection_queue := m_trace_injection_queue ni @ fs\<rparr> \<and> w' = w\<lparr>w_gn := g\<rparr>"
    using assms rest i o routes fs by (auto simp: NI_transferTraceRecordsToInjectionQueue_def Let_def vget_ok simp del: map_res.simps)
  then show ?thesis using rest i o routes fs by blast
qed

lemma transfer_quiet:
  assumes "NI_transferTraceRecordsToInjectionQueue env (ni, w) = Inr (ni', w')"
  shows "ni_quiet ni ni' \<and> w_links w' = w_links w"
proof (cases "m_trace_record_queue ni")
  case (Cons first rs)
  then show ?thesis using transferD [OF assms Cons] by (auto simp: ni_quiet_def ni_frame_def)
qed (use assms in \<open>simp add: NI_transferTraceRecordsToInjectionQueue_def\<close>)

lemma tagged_update: "tagged bs \<Longrightarrow> k < length bs \<Longrightarrow> \<forall>f\<in>set (m_buffer b). m_vc f = int k \<Longrightarrow> tagged (bs[k := b])"
  by (simp add: tagged_def nth_list_update)

lemma tagged_nth: "tagged bs \<Longrightarrow> 0 \<le> v \<Longrightarrow> v < int (length bs) \<Longrightarrow> \<forall>f\<in>set (m_buffer (bs ! nat v)). m_vc f = v"
  unfolding tagged_def by (drule spec [of _ "nat v"]) (simp add: nat_less_iff)

lemma injectTraceFlitD:
  assumes "NI_injectTraceFlit env vnet vc (ni, w) = Inr (ni', w')"
  shows "\<exists>f fs times. m_trace_injection_queue ni = f # fs \<and> 0 \<le> vc \<and> vc < int (length (niOutVcs ni)) \<and>
    vc < int (length (ni_outVcState ni)) \<and>
    ni' = ni\<lparr>m_trace_injection_queue := fs,
      niOutVcs := (niOutVcs ni)[nat vc := flitBuffer_insert
        (f\<lparr>m_vc := vc, m_time := e_now env, src_delay := Some (e_now env - m_enqueue_time f), m_enqueue_time := e_now env\<rparr>)
        (niOutVcs ni ! nat vc)],
      m_ni_out_vcs_enqueue_time := times,
      ni_outVcState := (ni_outVcState ni)[nat vc := OutVcState_setState ACTIVE (e_now env) (ni_outVcState ni ! nat vc)]\<rparr> \<and>
    w_links w' = w_links w"
proof (cases "m_trace_injection_queue ni")
  case (Cons f fs)
  then show ?thesis using assms
    by (auto simp: NI_injectTraceFlit_def Let_def rbind_eq_Inr vmod_eq_Inr vset_eq_Inr dest!: w_count_links split: if_splits)
qed (use assms in \<open>simp add: NI_injectTraceFlit_def\<close>)

lemma inject_quiet:
  assumes "NI_injectTraceFlit env vnet vc (ni, w) = Inr (ni', w')"
  shows "ni_quiet ni ni' \<and> w_links w' = w_links w"
proof -
  obtain f fs times where i: "0 \<le> vc" "vc < int (length (niOutVcs ni))" "vc < int (length (ni_outVcState ni))"
      "ni' = ni\<lparr>m_trace_injection_queue := fs,
      niOutVcs := (niOutVcs ni)[nat vc := flitBuffer_insert
        (f\<lparr>m_vc := vc, m_time := e_now env, src_delay := Some (e_now env - m_enqueue_time f), m_enqueue_time := e_now env\<rparr>)
        (niOutVcs ni ! nat vc)],
      m_ni_out_vcs_enqueue_time := times,
      ni_outVcState := (ni_outVcState ni)[nat vc := OutVcState_setState ACTIVE (e_now env) (ni_outVcState ni ! nat vc)]\<rparr>"
      "w_links w' = w_links w"
    using injectTraceFlitD [OF assms] by blast
  let ?b = "flitBuffer_insert (f\<lparr>m_vc := vc, m_time := e_now env, src_delay := Some (e_now env - m_enqueue_time f),
      m_enqueue_time := e_now env\<rparr>) (niOutVcs ni ! nat vc)"
  have "map m_credit_count (ni_outVcState ni') = map m_credit_count (ni_outVcState ni)"
    using i(1,3) by (simp add: i(4) map_update list_update_same_conv OutVcState_setState_def nat_less_iff)
  moreover have "tagged (niOutVcs ni) \<Longrightarrow> tagged (niOutVcs ni')"
    unfolding i(4) by (simp, rule tagged_update) (use i(1,2) tagged_nth [of "niOutVcs ni" vc] in \<open>auto simp: nat_less_iff\<close>)
  ultimately show ?thesis using i(5) by (simp add: i(4) ni_quiet_def ni_frame_def)
qed

lemma replay_trace_quiet:
  assumes "replay_trace env (ni, w) = Inr (ni', w')"
  shows "ni_quiet ni ni' \<and> w_links w' = w_links w"
proof -
  obtain ni1 w1 where a: "(if m_trace_injection_queue ni = [] \<and> m_trace_record_queue ni \<noteq> []
            then NI_transferTraceRecordsToInjectionQueue env (ni, w) else Inr (ni, w)) = Inr (ni1, w1)"
    using assms by (auto simp: replay_trace_def rbind_eq_Inr)
  have q1: "ni_quiet ni ni1 \<and> w_links w1 = w_links w" using a transfer_quiet by (auto split: if_splits)
  have "ni_quiet ni1 ni' \<and> w_links w' = w_links w1"
  proof (cases "m_trace_injection_queue ni1")
    case Nil
    then show ?thesis using assms a by (simp add: replay_trace_def)
  next
    case (Cons f fs)
    then obtain vc ni2 where c: "NI_calculateVC (e_now env) (m_vnet f) ni1 = Inr (vc, ni2)"
        and d: "(if vc \<noteq> -1 then NI_injectTraceFlit env (m_vnet f) vc (ni2, w1) else Inr (ni2, w1)) = Inr (ni', w')"
      using assms a by (auto simp: replay_trace_def rbind_eq_Inr)
    have "ni_quiet ni2 ni' \<and> w_links w' = w_links w1" using d inject_quiet by (auto split: if_splits)
    then show ?thesis using calculateVC_quiet [OF c] ni_quiet_trans by blast
  qed
  then show ?thesis using q1 ni_quiet_trans by auto
qed

section \<open>Sending\<close>

lemma port_for_Some: "port_for vnets ports vnet = Some i \<Longrightarrow> 0 \<le> i \<and> i < int (length ports) \<and> isVnetSupported (vnets (ports ! nat i)) vnet"
  unfolding port_for_def find_Some_iff by (auto dest: nth_mem)

lemma scheduleFlitD:
  assumes "NI_scheduleFlit env f (ni, w) = Inr (ni', w')"
  shows "\<exists>i. NI_getOutportForVnet (m_vnet f) ni = Some i \<and> 0 \<le> i \<and> i < int (length (outPorts ni)) \<and>
    ni' = ni\<lparr>outPorts := (outPorts ni)[nat i := (outPorts ni ! nat i)
      \<lparr>outFlitQueue := flitBuffer_insert f (outFlitQueue (outPorts ni ! nat i))\<rparr>]\<rparr> \<and>
    w' = w_wake [(ToLink (outNetLink (outPorts ni ! nat i)), At (edge_at (e_period env) (e_now env) 1))] w"
proof (cases "NI_getOutportForVnet (m_vnet f) ni")
  case (Some i)
  then show ?thesis using assms by (auto simp: NI_scheduleFlit_def rbind_eq_Inr vget_eq_Inr vset_eq_Inr)
qed (use assms in \<open>simp add: NI_scheduleFlit_def\<close>)

lemma send_fromD:
  assumes "send_from env i vc (ni, w) = Inr (ni', w')"
  shows "\<exists>f fs ports times j. 0 \<le> i \<and> i < int (length (outPorts ni)) \<and>
    ports = (outPorts ni)[nat i := (outPorts ni ! nat i)\<lparr>vcRoundRobin := vc\<rparr>] \<and>
    0 \<le> vc \<and> vc < int (length (ni_outVcState ni)) \<and> 0 < m_credit_count (ni_outVcState ni ! nat vc) \<and>
    vc < int (length (niOutVcs ni)) \<and> m_buffer (niOutVcs ni ! nat vc) = f # fs \<and>
    0 \<le> j \<and> j < int (length (outPorts ni)) \<and>
    ni' = ni\<lparr>outPorts := ports[nat j := (ports ! nat j)
        \<lparr>outFlitQueue := flitBuffer_insert (f\<lparr>m_time := edge_at (e_period env) (e_now env) 1\<rparr>) (outFlitQueue (ports ! nat j))\<rparr>],
      ni_outVcState := (ni_outVcState ni)[nat vc := (ni_outVcState ni ! nat vc)
        \<lparr>m_credit_count := m_credit_count (ni_outVcState ni ! nat vc) - 1\<rparr>],
      niOutVcs := (niOutVcs ni)[nat vc := (niOutVcs ni ! nat vc)\<lparr>m_buffer := fs\<rparr>],
      m_ni_out_vcs_enqueue_time := times\<rparr> \<and>
    w_links w' = w_links w \<and> w_gn w' = w_gn w"
proof -
  let ?ports = "(outPorts ni)[nat i := (outPorts ni ! nat i)\<lparr>vcRoundRobin := vc\<rparr>]"
  let ?s = "ni_outVcState ni ! nat vc" and ?b = "niOutVcs ni ! nat vc"
  obtain f fs ni1 w1 times where
    i: "0 \<le> i" "i < int (length (outPorts ni))" and v: "0 \<le> vc" "vc < int (length (ni_outVcState ni))" "0 < m_credit_count ?s"
      "vc < int (length (niOutVcs ni))" "m_buffer ?b = f # fs" and
    sch: "NI_scheduleFlit env (f\<lparr>m_time := edge_at (e_period env) (e_now env) 1\<rparr>)
      (ni\<lparr>outPorts := ?ports, ni_outVcState := (ni_outVcState ni)[nat vc := ?s\<lparr>m_credit_count := m_credit_count ?s - 1\<rparr>],
          niOutVcs := (niOutVcs ni)[nat vc := ?b\<lparr>m_buffer := fs\<rparr>]\<rparr>, w) = Inr (ni1, w1)" and
    res: "ni' = ni1\<lparr>m_ni_out_vcs_enqueue_time := times\<rparr>" "w' = w1"
    using assms by (auto simp: send_from_def rbind_eq_Inr vmod_eq_Inr vget_eq_Inr vset_eq_Inr flitBuffer_getTopFlit_eq_Inr
        OutVcState_decrement_eq_Inr)
  from scheduleFlitD [OF sch] obtain j where "0 \<le> j" "j < int (length (outPorts ni))"
      "ni1 = ni\<lparr>outPorts := ?ports[nat j := (?ports ! nat j)
        \<lparr>outFlitQueue := flitBuffer_insert (f\<lparr>m_time := edge_at (e_period env) (e_now env) 1\<rparr>) (outFlitQueue (?ports ! nat j))\<rparr>],
        ni_outVcState := (ni_outVcState ni)[nat vc := ?s\<lparr>m_credit_count := m_credit_count ?s - 1\<rparr>],
        niOutVcs := (niOutVcs ni)[nat vc := ?b\<lparr>m_buffer := fs\<rparr>]\<rparr>"
      "w_links w1 = w_links w" "w_gn w1 = w_gn w"
    by auto
  then show ?thesis using i v res
    by (intro exI [of _ f] exI [of _ fs] exI [of _ ?ports] exI [of _ times] exI [of _ j]) simp
qed

lemma ni_flow_okD:
  assumes "ni_flow_ok n ni"
  shows "length (outPorts ni) = 1" "tagged (niOutVcs ni)" "s \<in> set (ni_outVcState ni) \<Longrightarrow> 0 \<le> m_credit_count s"
  using assms by (simp_all add: ni_flow_ok_def)

lemma ni_flow_ok_frame:
  assumes "ni_flow_ok n ni" "ni_frame ni' = ni_frame ni" "tagged (niOutVcs ni')"
    and "\<forall>s\<in>set (ni_outVcState ni'). 0 \<le> m_credit_count s"
  shows "ni_flow_ok n ni'"
  using assms ni_frame_ports [OF assms(2)] ni_reads_frame [OF assms(2)] by (simp add: ni_flow_ok_def)

lemma credits_update:
  assumes "\<forall>s\<in>set ss. 0 \<le> m_credit_count s" "0 \<le> m_credit_count s'"
  shows "\<forall>s\<in>set (ss[k := s']). 0 \<le> m_credit_count s"
  using assms set_update_subset_insert [of ss k s'] by auto

lemma send_from_moved:
  assumes "send_from env i vc (ni, w) = Inr (ni', w')" "ni_flow_ok (length (w_links w)) ni"
  shows "ni_moved ni (w_links w) ni' (w_links w')"
proof -
  obtain f fs ports times j where i: "0 \<le> i" "i < int (length (outPorts ni))"
      "ports = (outPorts ni)[nat i := (outPorts ni ! nat i)\<lparr>vcRoundRobin := vc\<rparr>]"
    and v: "0 \<le> vc" "vc < int (length (ni_outVcState ni))" "0 < m_credit_count (ni_outVcState ni ! nat vc)"
      "vc < int (length (niOutVcs ni))" "m_buffer (niOutVcs ni ! nat vc) = f # fs"
    and j: "0 \<le> j" "j < int (length (outPorts ni))"
    and ni': "ni' = ni\<lparr>outPorts := ports[nat j := (ports ! nat j)
        \<lparr>outFlitQueue := flitBuffer_insert (f\<lparr>m_time := edge_at (e_period env) (e_now env) 1\<rparr>) (outFlitQueue (ports ! nat j))\<rparr>],
      ni_outVcState := (ni_outVcState ni)[nat vc := (ni_outVcState ni ! nat vc)
        \<lparr>m_credit_count := m_credit_count (ni_outVcState ni ! nat vc) - 1\<rparr>],
      niOutVcs := (niOutVcs ni)[nat vc := (niOutVcs ni ! nat vc)\<lparr>m_buffer := fs\<rparr>],
      m_ni_out_vcs_enqueue_time := times\<rparr>"
    and w': "w_links w' = w_links w"
    using send_fromD [OF assms(1)] by blast
  note ok = ni_flow_okD [OF assms(2)]
  obtain po where po: "outPorts ni = [po]" using ok(1) by (cases "outPorts ni") auto
  have ij: "i = 0" "j = 0" using i(1,2) j po by auto
  have vcf: "m_vc f = vc" "\<forall>g\<in>set fs. m_vc g = vc" using tagged_nth [OF ok(2) v(1,4)] v(5) by auto
  have fr: "ni_frame ni' = ni_frame ni" by (simp add: ni' ni_frame_def i(3) po ij op_frame_def)
  have "tagged (niOutVcs ni')" unfolding ni' by (simp, rule tagged_update [OF ok(2)]) (use v(1,4) vcf(2) in \<open>auto simp: nat_less_iff\<close>)
  then have "ni_flow_ok (length (w_links w')) ni'" unfolding w'
    by (rule ni_flow_ok_frame [OF assms(2) fr]) (simp add: ni', rule credits_update, use ok(3) v(3) in auto)
  moreover have "ni_out_load ni' u = ni_out_load ni u" if "0 \<le> u" "u < int (length (ni_outVcState ni))" for u
    using that v(1,2) vcf(1) by (simp add: ni_out_load_def ni' i(3) po ij nth_update_int)
  ultimately show ?thesis using fr by (simp add: ni_moved_def w' ni_in_load_def ni')
qed

lemma scheduleOutputPort_moved:
  assumes "NI_scheduleOutputPort env i (ni, w) = Inr (ni', w')" "ni_flow_ok (length (w_links w)) ni"
  shows "ni_moved ni (w_links w) ni' (w_links w')"
proof -
  obtain oPort found where f: "vget (outPorts ni) i = Inr oPort"
      "rr_scan (int (length (niOutVcs ni))) (candidate_vc env ni oPort) (nat (int (length (niOutVcs ni))))
        (if vcRoundRobin oPort + 1 = int (length (niOutVcs ni)) then 0 else vcRoundRobin oPort + 1) = Inr found"
    using assms(1) by (auto simp: NI_scheduleOutputPort_def Let_def rbind_eq_Inr)
  show ?thesis
  proof (cases found)
    case None
    then show ?thesis using assms f by (auto simp: NI_scheduleOutputPort_def Let_def intro: ni_moved_refl)
  next
    case (Some vc)
    then have "send_from env i vc (ni, w) = Inr (ni', w')" using assms(1) f by (simp add: NI_scheduleOutputPort_def Let_def)
    then show ?thesis using send_from_moved assms(2) by blast
  qed
qed

text \<open>A loop over ports moves what its iterations move.\<close>

lemma rfold_moved:
  assumes "rfold f is (ni, w) = Inr (ni', w')" "ni_flow_ok (length (w_links w)) ni"
    and step: "\<And>i ni w ni' w'. f i (ni, w) = Inr (ni', w') \<Longrightarrow> ni_flow_ok (length (w_links w)) ni \<Longrightarrow>
      ni_moved ni (w_links w) ni' (w_links w')"
  shows "ni_moved ni (w_links w) ni' (w_links w')"
proof -
  have "case (ni', w') of (ni1, w1) \<Rightarrow> ni_moved ni (w_links w) ni1 (w_links w1)"
  proof (rule rfold_inv [OF assms(1), where I = "\<lambda>(ni1, w1). ni_moved ni (w_links w) ni1 (w_links w1)"])
    fix x s s'
    assume a: "case s of (ni1, w1) \<Rightarrow> ni_moved ni (w_links w) ni1 (w_links w1)" and b: "f x s = Inr s'"
    obtain ni1 w1 ni2 w2 where s: "s = (ni1, w1)" "s' = (ni2, w2)" by fastforce
    have m: "ni_moved ni (w_links w) ni1 (w_links w1)" using a s by simp
    then have "ni_moved ni1 (w_links w1) ni2 (w_links w2)" using step b s ni_moved_ok by blast
    then show "case s' of (ni1, w1) \<Rightarrow> ni_moved ni (w_links w) ni1 (w_links w1)" using ni_moved_trans [OF m] s by simp
  qed (use assms(2) in \<open>simp add: ni_moved_refl\<close>)
  then show ?thesis by simp
qed

section \<open>Receiving\<close>

lemma mod_inport_eq_Inr [res_iff]:
  "mod_inport i f ni = Inr ni' \<longleftrightarrow> 0 \<le> i \<and> i < int (length (inPorts ni)) \<and>
     ni' = ni\<lparr>inPorts := (inPorts ni)[nat i := f (inPorts ni ! nat i)]\<rparr>"
  by (auto simp: mod_inport_def rbind_eq_Inr vmod_eq_Inr)

text \<open>
  An input port changes, and with it the load of the port and the link it reads; every other
  load, and every other link the interface reads, stays.
\<close>

lemma inport_moved:
  assumes ok: "ni_flow_ok (length links) ni" and i: "0 \<le> i" "i < int (length (inPorts ni))"
    and ni': "inPorts ni' = (inPorts ni)[nat i := ip]" "outPorts ni' = outPorts ni" "ni_outVcState ni' = ni_outVcState ni"
      "niOutVcs ni' = niOutVcs ni" "ni_frame ni' = ni_frame ni"
    and l: "links' = links[nat (inNetLink (inPorts ni ! nat i)) := l']"
    and wi: "link_wiring l' = link_wiring (links ! nat (inNetLink (inPorts ni ! nat i)))"
    and load: "\<And>v. ip_load v ip + vc_count v (link_items l') =
      ip_load v (inPorts ni ! nat i) + vc_count v (link_items (links ! nat (inNetLink (inPorts ni ! nat i))))"
  shows "ni_moved ni links ni' links'"
proof -
  let ?l = "inNetLink (inPorts ni ! nat i)" and ?c = "inCreditLink (outPorts ni ! 0)"
  have li: "?l \<in> inNetLink ` set (inPorts ni)" using i by (simp add: nat_less_iff)
  then have rd: "?l \<in> ni_reads ni" by (simp add: ni_reads_def)
  have pos: "0 \<le> ?l" "?l < int (length links)" using rd ok by (auto simp: ni_flow_ok_def)
  have o1: "0 < length (outPorts ni)" "?c \<in> set (map inCreditLink (outPorts ni))" using ok by (simp_all add: ni_flow_ok_def)
  have dc: "?l \<notin> set (map inCreditLink (outPorts ni))" "distinct (map inNetLink (inPorts ni))"
    using ok li by (auto simp: ni_flow_ok_def)
  have "0 \<le> ?c" using ok o1(2) by (auto simp: ni_flow_ok_def ni_reads_def)
  then have "nat ?l \<noteq> nat ?c" using pos o1(2) dc(1) by (metis eq_nat_nat_iff)
  then have cr: "on_link links' ?c v = on_link links ?c v" for v by (simp add: l on_link_def)
  have "ni_in_load ni' j v + on_link links' (inNetLink (inPorts ni ! nat j)) v =
      ni_in_load ni j v + on_link links (inNetLink (inPorts ni ! nat j)) v" if "0 \<le> j" "j < int (length (inPorts ni))" for j v
  proof (cases "j = i")
    case True
    then show ?thesis using load [of v] i pos by (simp add: ni_in_load_def ni'(1) on_link_def l nat_less_iff)
  next
    case False
    have "inNetLink (inPorts ni ! nat i) \<noteq> inNetLink (inPorts ni ! nat j)"
      using dc(2) i that False by (metis (no_types, lifting) eq_nat_nat_iff length_map nat_less_length nth_eq_iff_index_eq nth_map)
    moreover have "0 \<le> inNetLink (inPorts ni ! nat j)" using ok that by (auto simp: ni_flow_ok_def ni_reads_def nat_less_iff)
    ultimately have "nat ?l \<noteq> nat (inNetLink (inPorts ni ! nat j))" using pos by (simp add: eq_nat_nat_iff)
    then show ?thesis using False that i by (simp add: ni_in_load_def ni'(1) on_link_def l nth_update_int)
  qed
  moreover have "links' ! nat k = links ! nat k" if "0 \<le> k" "k \<notin> ni_reads ni" for k
  proof -
    have "nat ?l \<noteq> nat k" using that rd pos by (metis eq_nat_nat_iff)
    then show ?thesis by (simp add: l)
  qed
  moreover have "ni_flow_ok (length links) ni'"
    by (rule ni_flow_ok_frame [OF ok ni'(5)]) (use ni_flow_okD [OF ok] in \<open>simp_all add: ni'\<close>)
  moreover have "map link_wiring links' = map link_wiring links" unfolding l by (rule map_wiring_update [OF wi])
  ultimately show ?thesis using cr ni'(5) by (simp add: ni_moved_def ni_out_load_def ni'(2,3) l)
qed

lemma first_unstalledD:
  assumes "first_unstalled env ni sk fs w = Inr (found, w')"
  shows "w_links w' = w_links w \<and> w_gn w' = w_gn w \<and>
    (case found of None \<Rightarrow> True | Some (f, i, rest) \<Rightarrow> \<exists>ys zs. sk @ fs = ys @ f # zs \<and> rest = ys @ zs)"
  using assms
proof (induction fs arbitrary: sk w)
  case (Cons g fs)
  obtain i ok w1 where s: "node (outNode_ptr ni) (m_vnet g) = Inr i"
      "w_slots 1 (edge_at (e_period env) (e_now env) 0) i w = Inr (ok, w1)"
    using Cons.prems by (auto simp: rbind_eq_Inr)
  show ?case
  proof (cases ok)
    case True
    then have "found = Some (g, i, sk @ fs)" "w' = w1" using Cons.prems s by simp_all
    then show ?thesis using w_slots_links [OF s(2)] by auto
  next
    case False
    then have "first_unstalled env ni (sk @ [g]) fs w1 = Inr (found, w')" using Cons.prems s by simp
    moreover have "(sk @ [g]) @ fs = sk @ g # fs" by simp
    ultimately show ?thesis using Cons.IH [of "sk @ [g]" w1] w_slots_links [OF s(2)] by metis
  qed
qed auto

lemma unstallD:
  assumes "unstall env port f i rest (ni, w) = Inr (ni', w')"
  shows "0 \<le> port \<and> port < int (length (inPorts ni)) \<and> w_links w' = w_links w \<and>
    (\<exists>counts. ni' = ni\<lparr>inPorts := (inPorts ni)[nat port := (sendCredit (Credit_new (m_vc f) True (e_now env)) (inPorts ni ! nat port))
      \<lparr>m_stall_queue := rest, messageEnqueuedThisCycle := Some True\<rparr>], m_stall_count := counts\<rparr>)"
proof -
  obtain w1 w2 counts ni1 bufs where a: "w_enqueue env i (m_msg_ptr f) (edge_at (e_period env) (e_now env) 0) (cyclesToTicks (e_period env) 1) w = Inr w1"
      "NI_incrementStats env f w1 = Inr w2"
      "mod_inport port (\<lambda>ip. (sendCredit (Credit_new (m_vc f) True (e_now env)) ip)
              \<lparr>m_stall_queue := rest, messageEnqueuedThisCycle := Some True\<rparr>) ni = Inr ni1"
      "ni' = ni1\<lparr>m_stall_count := counts\<rparr>" "w' = w2\<lparr>w_bufs := bufs\<rparr>"
    using assms unfolding unstall_def by (simp add: rbind_eq_Inr) blast
  then show ?thesis using w_enqueue_links [OF a(1)] incrementStats_links [OF a(2)] by (auto simp: mod_inport_eq_Inr)
qed

lemma ip_frame_changes [simp]:
  "ip_frame (sendCredit c ip) = ip_frame ip" "ip_frame (ip\<lparr>m_stall_queue := q\<rparr>) = ip_frame ip"
  "ip_frame (ip\<lparr>messageEnqueuedThisCycle := e\<rparr>) = ip_frame ip"
  by (simp_all add: ip_frame_def sendCredit_def)

lemma ip_load_changes [simp]:
  "ip_load v (sendCredit c ip) = ip_load v ip + (if m_vc c = v then 1 else 0)"
  "ip_load v (ip\<lparr>messageEnqueuedThisCycle := e\<rparr>) = ip_load v ip"
  "ip_load v (ip\<lparr>m_stall_queue := q\<rparr>) = ip_load v ip - vc_count v (m_stall_queue ip) + vc_count v q"
  "m_stall_queue (sendCredit c ip) = m_stall_queue ip"
  by (simp_all add: ip_load_def sendCredit_def)

lemma map_update_frame:
  "0 \<le> i \<Longrightarrow> i < int (length xs) \<Longrightarrow> g y = g (xs ! nat i) \<Longrightarrow> map g (xs[nat i := y]) = map g xs"
  by (simp add: map_update list_update_same_conv nat_less_iff)

lemma check_stall_port_moved:
  assumes "check_stall_port env port (ni, w) = Inr (ni', w')" "ni_flow_ok (length (w_links w)) ni"
  shows "ni_moved ni (w_links w) ni' (w_links w')"
proof -
  let ?ip = "inPorts ni ! nat port"
  let ?ni1 = "ni\<lparr>inPorts := (inPorts ni)[nat port := ?ip\<lparr>messageEnqueuedThisCycle := Some False\<rparr>]\<rparr>"
  obtain found w1 where p: "0 \<le> port" "port < int (length (inPorts ni))"
      and fu: "first_unstalled env ?ni1 [] (m_stall_queue ?ip) w = Inr (found, w1)"
      and r: "(case found of None \<Rightarrow> Inr (?ni1, w1) | Some (f, i, rest) \<Rightarrow> unstall env port f i rest (?ni1, w1)) = Inr (ni', w')"
    using assms(1) by (auto simp: check_stall_port_def rbind_eq_Inr mod_inport_eq_Inr vget_eq_Inr nat_less_iff)
  note lk = first_unstalledD [OF fu]
  have same: "w_links w = (w_links w)[nat (inNetLink ?ip) := w_links w ! nat (inNetLink ?ip)]" by simp
  show ?thesis
  proof (cases found)
    case None
    then have n: "ni' = ?ni1" "w' = w1" using r by simp_all
    show ?thesis
      by (rule inport_moved [OF assms(2) p, where ip = "?ip\<lparr>messageEnqueuedThisCycle := Some False\<rparr>" and l' = "w_links w ! nat (inNetLink ?ip)"])
        (use p lk map_update_frame [OF p, of ip_frame] in \<open>simp_all add: n ni_frame_def\<close>)
  next
    case (Some q)
    then obtain f i rest where q: "found = Some (f, i, rest)" by (metis prod.exhaust)
    then have "unstall env port f i rest (?ni1, w1) = Inr (ni', w')" using r by simp
    from unstallD [OF this] obtain counts where u: "w_links w' = w_links w" "ni' = ni\<lparr>inPorts := (inPorts ni)[nat port :=
        (sendCredit (Credit_new (m_vc f) True (e_now env)) (?ip\<lparr>messageEnqueuedThisCycle := Some False\<rparr>))
      \<lparr>m_stall_queue := rest, messageEnqueuedThisCycle := Some True\<rparr>], m_stall_count := counts\<rparr>"
      using p lk by (auto simp: nat_less_iff)
    obtain ys zs where "m_stall_queue ?ip = ys @ f # zs" "rest = ys @ zs" using lk q by auto
    then show ?thesis
      by (intro inport_moved [OF assms(2) p, where ip = "(sendCredit (Credit_new (m_vc f) True (e_now env)) (?ip\<lparr>messageEnqueuedThisCycle := Some False\<rparr>))
          \<lparr>m_stall_queue := rest, messageEnqueuedThisCycle := Some True\<rparr>" and l' = "w_links w ! nat (inNetLink ?ip)"])
        (use p u(1) map_update_frame [OF p, of ip_frame] in \<open>simp_all add: u(2) ni_frame_def Credit_new_def flit_new_def\<close>)
  qed
qed

lemma eject_tailD:
  assumes "eject_tail env port f (ni, w) = Inr (ni', w')"
  shows "0 \<le> port \<and> port < int (length (inPorts ni)) \<and> w_links w' = w_links w \<and>
    (\<exists>ip' counts. ni' = ni\<lparr>inPorts := (inPorts ni)[nat port := ip'], m_stall_count := counts\<rparr> \<and>
      (ip' = sendCredit (Credit_new (m_vc f) True (e_now env)) (inPorts ni ! nat port) \<or>
       ip' = (inPorts ni ! nat port)\<lparr>m_stall_queue := m_stall_queue (inPorts ni ! nat port) @ [f]\<rparr>))"
proof -
  obtain ip enq ok w1 where p: "vget (inPorts ni) port = Inr ip" "messageEnqueuedThisCycle ip = Some enq"
      and s: "(if enq then Inr (False, w)
            else rbind (node (outNode_ptr ni) (m_vnet f)) (\<lambda>i. w_slots 1 (edge_at (e_period env) (e_now env) 0) i w)) = Inr (ok, w1)"
    using assms by (auto simp: eject_tail_def rbind_eq_Inr Let_def split: option.splits)
  have l1: "w_links w1 = w_links w" using s w_slots_links by (auto simp: rbind_eq_Inr split: if_splits)
  show ?thesis
  proof (cases ok)
    case True
    obtain w2 w3 where w: "(if \<not> m_trace_enable (w_gn w1) then
                rbind (node (outNode_ptr ni) (m_vnet f)) (\<lambda>i.
                w_enqueue env i (m_msg_ptr f) (edge_at (e_period env) (e_now env) 0) (cyclesToTicks (e_period env) 1) w1)
              else w_count increment_trace_flits_received w1) = Inr w2" "NI_incrementStats env f w2 = Inr w3" "w' = w3"
        and m: "mod_inport port (sendCredit (Credit_new (m_vc f) True (e_now env))) ni = Inr ni'"
      using assms p s True unfolding eject_tail_def by (simp add: rbind_eq_Inr) blast
    have "w_links w2 = w_links w1" using w(1) w_enqueue_links w_count_links by (auto simp: rbind_eq_Inr split: if_splits)
    moreover obtain counts where "ni' = ni'\<lparr>m_stall_count := counts\<rparr>" "counts = m_stall_count ni" using m by (auto simp: mod_inport_eq_Inr)
    ultimately show ?thesis using incrementStats_links [OF w(2)] w(3) m l1
      by (auto simp: mod_inport_eq_Inr intro!: exI [of _ "m_stall_count ni"])
  next
    case False
    then show ?thesis using assms p s l1 by (auto simp: eject_tail_def rbind_eq_Inr mod_inport_eq_Inr)
  qed
qed

lemma receive_flit_moved:
  assumes "receive_flit env port (ni, w) = Inr (ni', w')" "ni_flow_ok (length (w_links w)) ni"
  shows "ni_moved ni (w_links w) ni' (w_links w')"
proof -
  let ?ip = "inPorts ni ! nat port"
  let ?l = "w_links w ! nat (inNetLink ?ip)"
  have p: "0 \<le> port" "port < int (length (inPorts ni))" "vget (w_links w) (inNetLink ?ip) = Inr ?l"
    using assms(1) by (auto simp: receive_flit_def rbind_eq_Inr vget_eq_Inr)
  show ?thesis
  proof (cases "NetworkLink_isReady (e_now env) ?l")
    case False
    then have "ni' = ni" "w' = w" using assms(1) p by (simp_all add: receive_flit_def vget_ok)
    then show ?thesis using ni_moved_refl assms(2) by simp
  next
    case True
    then obtain f fs where f: "link_items ?l = f # fs" by (auto simp: NetworkLink_isReady_def flitBuffer_isReady_iff link_items_def)
    let ?l' = "?l\<lparr>linkBuffer := (linkBuffer ?l)\<lparr>m_buffer := fs\<rparr>\<rparr>"
    let ?w1 = "w\<lparr>w_links := (w_links w)[nat (inNetLink ?ip) := ?l']\<rparr>" and ?f = "f\<lparr>m_dequeue_time := e_now env\<rparr>"
    have c: "NetworkLink_consumeLink ?l = Inr (f, ?l')" using f by (simp add: NetworkLink_consumeLink_eq_Inr)
    have r: "(if m_type f = TAIL \<or> m_type f = HEAD_TAIL then eject_tail env port ?f (ni, ?w1)
       else
         rbind (mod_inport port (sendCredit (Credit_new (m_vc f) False (e_now env))) ni) (\<lambda>ni1.
         rbind (NI_incrementStats env ?f ?w1) (\<lambda>w2. Inr (ni1, w2)))) = Inr (ni', w')"
      using assms(1) p True c by (auto simp: receive_flit_def vget_eq_Inr rbind_eq_Inr vset_eq_Inr Let_def vget_ok)
    have "w_links w' = w_links ?w1 \<and> (\<exists>ip' counts. ni' = ni\<lparr>inPorts := (inPorts ni)[nat port := ip'], m_stall_count := counts\<rparr> \<and>
        ip_frame ip' = ip_frame ?ip \<and> (\<forall>v. ip_load v ip' = ip_load v ?ip + (if m_vc f = v then 1 else 0)))"
    proof (cases "m_type f = TAIL \<or> m_type f = HEAD_TAIL")
      case True
      then have "eject_tail env port ?f (ni, ?w1) = Inr (ni', w')" using r by simp
      from eject_tailD [OF this] obtain ip' counts where e: "w_links w' = w_links ?w1"
          "ni' = ni\<lparr>inPorts := (inPorts ni)[nat port := ip'], m_stall_count := counts\<rparr>"
          "ip' = sendCredit (Credit_new (m_vc f) True (e_now env)) ?ip \<or> ip' = ?ip\<lparr>m_stall_queue := m_stall_queue ?ip @ [?f]\<rparr>"
        by auto
      then have "ip_frame ip' = ip_frame ?ip \<and> (\<forall>v. ip_load v ip' = ip_load v ?ip + (if m_vc f = v then 1 else 0))"
        by (elim disjE) (simp_all add: Credit_new_def flit_new_def)
      then show ?thesis using e(1,2) by blast
    next
      case False
      then have "w_links w' = w_links ?w1" "ni' = ni\<lparr>inPorts := (inPorts ni)
          [nat port := sendCredit (Credit_new (m_vc f) False (e_now env)) ?ip], m_stall_count := m_stall_count ni\<rparr>"
        using r incrementStats_links by (auto simp: rbind_eq_Inr mod_inport_eq_Inr)
      then show ?thesis by (auto simp: Credit_new_def flit_new_def intro!: exI [of _ "m_stall_count ni"])
    qed
    then obtain ip' counts where n: "w_links w' = (w_links w)[nat (inNetLink ?ip) := ?l']"
        "ni' = ni\<lparr>inPorts := (inPorts ni)[nat port := ip'], m_stall_count := counts\<rparr>" "ip_frame ip' = ip_frame ?ip"
        "\<And>v. ip_load v ip' = ip_load v ?ip + (if m_vc f = v then 1 else 0)" by auto
    have it: "link_items ?l' = fs" by (simp add: link_items_def)
    show ?thesis
      by (rule inport_moved [OF assms(2) p(1,2), where ip = ip' and l' = ?l'])
        (use n(1,4) f it map_update_frame [OF p(1,2) n(3)] in \<open>simp_all add: n(2) ni_frame_def\<close>)
  qed
qed

lemma receive_creditD:
  assumes "receive_credit env port (ni, w) = Inr (ni', w')"
  shows "0 \<le> port \<and> port < int (length (outPorts ni)) \<and> (ni' = ni \<and> w' = w \<or>
    (\<exists>c cs free l' s'. link_items (w_links w ! nat (inCreditLink (outPorts ni ! nat port))) = c # cs \<and>
      0 \<le> inCreditLink (outPorts ni ! nat port) \<and> inCreditLink (outPorts ni ! nat port) < int (length (w_links w)) \<and>
      link_items l' = cs \<and> link_wiring l' = link_wiring (w_links w ! nat (inCreditLink (outPorts ni ! nat port))) \<and> 0 \<le> m_vc c \<and> m_vc c < int (length (ni_outVcState ni)) \<and>
      m_credit_count (ni_outVcState ni ! nat (m_vc c)) < m_max_credit_count (ni_outVcState ni ! nat (m_vc c)) \<and>
      m_credit_count s' = m_credit_count (ni_outVcState ni ! nat (m_vc c)) + 1 \<and>
      ni' = ni\<lparr>ni_outVcState := (ni_outVcState ni)[nat (m_vc c) := s']\<rparr> \<and>
      w' = w\<lparr>w_links := (w_links w)[nat (inCreditLink (outPorts ni ! nat port)) := l']\<rparr>))"
proof -
  let ?po = "outPorts ni ! nat port"
  let ?l = "w_links w ! nat (inCreditLink ?po)"
  have p: "0 \<le> port" "port < int (length (outPorts ni))" "0 \<le> inCreditLink ?po" "inCreditLink ?po < int (length (w_links w))"
    using assms by (auto simp: receive_credit_def rbind_eq_Inr vget_eq_Inr)
  show ?thesis
  proof (cases "NetworkLink_isReady (e_now env) ?l")
    case False
    then show ?thesis using assms p by (simp add: receive_credit_def vget_ok)
  next
    case True
    then obtain c cs where c: "link_items ?l = c # cs" by (auto simp: NetworkLink_isReady_def flitBuffer_isReady_iff link_items_def)
    let ?l' = "?l\<lparr>linkBuffer := (linkBuffer ?l)\<lparr>m_buffer := cs\<rparr>\<rparr>" and ?s = "ni_outVcState ni ! nat (m_vc c)"
    let ?s1 = "?s\<lparr>m_credit_count := m_credit_count ?s + 1\<rparr>"
    have t: "NetworkLink_consumeLink ?l = Inr (c, ?l')" using c by (simp add: NetworkLink_consumeLink_eq_Inr)
    obtain free states where v: "0 \<le> m_vc c" "m_vc c < int (length (ni_outVcState ni))" "m_credit_count ?s < m_max_credit_count ?s"
        and st: "(if free then vmod ((ni_outVcState ni)[nat (m_vc c) := ?s1]) (m_vc c) (\<lambda>s. Inr (OutVcState_setState IDLE (e_now env) s))
          else Inr ((ni_outVcState ni)[nat (m_vc c) := ?s1])) = Inr states"
        and n: "ni' = ni\<lparr>ni_outVcState := states\<rparr>" "w' = w\<lparr>w_links := (w_links w)[nat (inCreditLink ?po) := ?l']\<rparr>"
      using assms p True t by (auto simp: receive_credit_def vget_ok vset_ok rbind_eq_Inr vmod_eq_Inr OutVcState_increment_eq_Inr)
    have "\<exists>s'. states = (ni_outVcState ni)[nat (m_vc c) := s'] \<and> m_credit_count s' = m_credit_count ?s + 1"
      using st v(1,2) by (cases free) (auto simp: vmod_eq_Inr OutVcState_setState_def nat_less_iff intro: exI [of _ ?s1])
    then show ?thesis using p c v n by (auto simp: link_items_def intro!: exI [of _ ?l'])
  qed
qed

lemma receive_credit_moved:
  assumes "receive_credit env port (ni, w) = Inr (ni', w')" "ni_flow_ok (length (w_links w)) ni"
  shows "ni_moved ni (w_links w) ni' (w_links w')"
proof (cases "ni' = ni \<and> w' = w")
  case False
  note ok = ni_flow_okD [OF assms(2)]
  obtain po where po: "outPorts ni = [po]" using ok(1) by (cases "outPorts ni") auto
  obtain c cs l' s' where l: "link_items (w_links w ! nat (inCreditLink po)) = c # cs" "0 \<le> inCreditLink po"
      "inCreditLink po < int (length (w_links w))" "link_items l' = cs" "link_wiring l' = link_wiring (w_links w ! nat (inCreditLink po))"
    and v: "0 \<le> m_vc c" "m_vc c < int (length (ni_outVcState ni))" "m_credit_count s' = m_credit_count (ni_outVcState ni ! nat (m_vc c)) + 1"
    and n: "ni' = ni\<lparr>ni_outVcState := (ni_outVcState ni)[nat (m_vc c) := s']\<rparr>" "w' = w\<lparr>w_links := (w_links w)[nat (inCreditLink po) := l']\<rparr>"
    using receive_creditD [OF assms(1)] False po by auto
  have fr: "ni_frame ni' = ni_frame ni" by (simp add: n ni_frame_def)
  have "0 \<le> m_credit_count (ni_outVcState ni ! nat (m_vc c))" using ok(3) v(1,2) by (simp add: nat_less_iff)
  then have "ni_flow_ok (length (w_links w)) ni'"
    by (intro ni_flow_ok_frame [OF assms(2) fr]) (use ok(2,3) v(3) credits_update [of "ni_outVcState ni" s'] in \<open>simp_all add: n\<close>)
  moreover have "ni_out_load ni' u + on_link (w_links w') (inCreditLink po) u = ni_out_load ni u + on_link (w_links w) (inCreditLink po) u"
    if "0 \<le> u" "u < int (length (ni_outVcState ni))" for u
    using that l v by (auto simp: n po ni_out_load_def nth_update_int on_link_def nat_less_iff)
  moreover have "on_link (w_links w') (inNetLink (inPorts ni ! nat i)) u = on_link (w_links w) (inNetLink (inPorts ni ! nat i)) u"
    if "0 \<le> i" "i < int (length (inPorts ni))" for i u
  proof -
    have "inNetLink (inPorts ni ! nat i) \<in> inNetLink ` set (inPorts ni)" using that by (simp add: nat_less_iff)
    then have "inNetLink (inPorts ni ! nat i) \<noteq> inCreditLink po" "0 \<le> inNetLink (inPorts ni ! nat i)"
      using assms(2) by (auto simp: ni_flow_ok_def po ni_reads_def)
    then have "nat (inNetLink (inPorts ni ! nat i)) \<noteq> nat (inCreditLink po)" using l(2) by (simp add: eq_nat_nat_iff)
    then show ?thesis by (simp add: n on_link_def)
  qed
  moreover have "w_links w' ! nat k = w_links w ! nat k" if "0 \<le> k" "k \<notin> ni_reads ni" for k
  proof -
    have "nat k \<noteq> nat (inCreditLink po)" using that l(2) by (auto simp: ni_reads_def po eq_nat_nat_iff)
    then show ?thesis by (simp add: n)
  qed
  moreover have "map link_wiring (w_links w') = map link_wiring (w_links w)" using map_wiring_update [OF l(5)] by (simp add: n)
  ultimately show ?thesis using fr po by (simp add: ni_moved_def ni_in_load_def n)
qed (use assms(2) ni_moved_refl in blast)

lemma checkReschedule_same: "NI_checkReschedule env (ni, w) = Inr (ni', w') \<Longrightarrow> ni' = ni \<and> w_links w' = w_links w \<and> w_gn w' = w_gn w"
  by (auto simp: NI_checkReschedule_def Let_def rbind_eq_Inr split: if_splits)

section \<open>The whole wake-up\<close>

lemma NI_wakeupD:
  assumes "NI_wakeup env (ni, w) = Inr (ni', w')"
  shows "\<exists>ni1 w1 ni2 w2 ni3 w3 ni4 w4 ni5 w5.
    (if \<not> m_trace_enable (w_gn w) then take_messages env (zip [0..int (length (inNode_ptr ni)) - 1] (inNode_ptr ni)) (ni, w)
     else replay_trace env (ni, w)) = Inr (ni1, w1) \<and>
    rfold (NI_scheduleOutputPort env) [0..int (length (outPorts ni1)) - 1] (ni1, w1) = Inr (ni2, w2) \<and>
    rfold (check_stall_port env) [0..int (length (inPorts ni2)) - 1] (ni2, w2) = Inr (ni3, w3) \<and>
    rfold (receive_flit env) [0..int (length (inPorts ni3)) - 1] (ni3, w3) = Inr (ni4, w4) \<and>
    rfold (receive_credit env) [0..int (length (outPorts ni4)) - 1] (ni4, w4) = Inr (ni5, w5) \<and>
    NI_checkReschedule env (ni5, w_wake (credit_wakes env ni5) w5) = Inr (ni', w')"
  using assms by (auto simp: NI_wakeup_def NI_scheduleOutputLink_def NI_checkStallQueue_def rbind_eq_Inr)

lemma NI_wakeup_moved:
  assumes "NI_wakeup env (ni, w) = Inr (ni', w')" "ni_flow_ok (length (w_links w)) ni"
  shows "ni_moved ni (w_links w) ni' (w_links w')"
proof -
  obtain ni1 w1 ni2 w2 ni3 w3 ni4 w4 ni5 w5 where
    a: "(if \<not> m_trace_enable (w_gn w) then take_messages env (zip [0..int (length (inNode_ptr ni)) - 1] (inNode_ptr ni)) (ni, w)
     else replay_trace env (ni, w)) = Inr (ni1, w1)" and
    b: "rfold (NI_scheduleOutputPort env) [0..int (length (outPorts ni1)) - 1] (ni1, w1) = Inr (ni2, w2)" and
    c: "rfold (check_stall_port env) [0..int (length (inPorts ni2)) - 1] (ni2, w2) = Inr (ni3, w3)" and
    d: "rfold (receive_flit env) [0..int (length (inPorts ni3)) - 1] (ni3, w3) = Inr (ni4, w4)" and
    e: "rfold (receive_credit env) [0..int (length (outPorts ni4)) - 1] (ni4, w4) = Inr (ni5, w5)" and
    f: "NI_checkReschedule env (ni5, w_wake (credit_wakes env ni5) w5) = Inr (ni', w')"
    using NI_wakeupD [OF assms(1)] by blast
  have q: "ni_quiet ni ni1 \<and> w_links w1 = w_links w"
    using a take_messages_quiet replay_trace_quiet by (auto split: if_splits)
  then have m1: "ni_moved ni (w_links w) ni1 (w_links w1)" using ni_quiet_moved assms(2) by simp
  have m2: "ni_moved ni1 (w_links w1) ni2 (w_links w2)" by (rule rfold_moved [OF b ni_moved_ok [OF m1]]) (rule scheduleOutputPort_moved)
  have m3: "ni_moved ni2 (w_links w2) ni3 (w_links w3)" by (rule rfold_moved [OF c ni_moved_ok [OF m2]]) (rule check_stall_port_moved)
  have m4: "ni_moved ni3 (w_links w3) ni4 (w_links w4)" by (rule rfold_moved [OF d ni_moved_ok [OF m3]]) (rule receive_flit_moved)
  have m5: "ni_moved ni4 (w_links w4) ni5 (w_links w5)" by (rule rfold_moved [OF e ni_moved_ok [OF m4]]) (rule receive_credit_moved)
  have "ni' = ni5" "w_links w' = w_links w5" using checkReschedule_same [OF f] by auto
  then show ?thesis using ni_moved_trans [OF m1 ni_moved_trans [OF m2 ni_moved_trans [OF m3 ni_moved_trans [OF m4 m5]]]] by simp
qed

end
