(* ===== verification/Garnet_Network_Flow.thy ===== *)
theory Garnet_Network_Flow
  imports Garnet_Network Garnet_Router_Credit Garnet_NI_Credit
begin

text \<open>
  Flow control of a whole network. Routers and interfaces are the components of the contract
  \<open>flow_component\<close>; the wake-ups of routers, output units and interfaces are its steps, the
  wake-ups of links its pulls. Every event of the network is a run of such actions, so the theorem
  of the contract holds of every run of a network without bridges: for every virtual channel
  of every hop, credits, flits under way, flits in the receiver's buffer and credits under way add
  up to the same number for ever.
\<close>

section \<open>Routers and interfaces as components\<close>

datatype flow_node = RouterNode Router | NINode NetworkInterface

fun feed_links :: "flow_node \<Rightarrow> int list" where
  "feed_links (RouterNode r) = map m_out_link (m_output_unit r) @ map iu_credit_link (m_input_unit r)"
| "feed_links (NINode ni) = map outNetLink (outPorts ni) @ map outCreditLink (inPorts ni)"

fun feed_ports :: "flow_node \<Rightarrow> int list \<times> int list" where
  "feed_ports (RouterNode r) = (map m_out_link (m_output_unit r), map iu_credit_link (m_input_unit r))"
| "feed_ports (NINode ni) = (map outNetLink (outPorts ni), map outCreditLink (inPorts ni))"

fun node_reads :: "flow_node \<Rightarrow> int set" where
  "node_reads (RouterNode r) = router_reads r"
| "node_reads (NINode ni) = ni_reads ni"

definition feeds_ok :: "nat \<Rightarrow> int list \<Rightarrow> bool" where
  "feeds_ok n ls = (distinct ls \<and> (\<forall>l\<in>set ls. 0 \<le> l \<and> l < int n))"

fun node_inv :: "nat \<Rightarrow> flow_node \<Rightarrow> bool" where
  "node_inv n (RouterNode r) = (wired r n \<and> credits_ok r \<and> feeds_ok n (feed_links (RouterNode r)))"
| "node_inv n (NINode ni) = (ni_flow_ok n ni \<and> feeds_ok n (feed_links (NINode ni)))"

fun node_out :: "flow_node \<Rightarrow> int \<Rightarrow> int \<Rightarrow> bool" where
  "node_out (RouterNode r) q v = out_valid r q v"
| "node_out (NINode ni) q v = (q = 0 \<and> 0 \<le> v \<and> v < int (length (ni_outVcState ni)))"

fun node_in :: "flow_node \<Rightarrow> int \<Rightarrow> int \<Rightarrow> bool" where
  "node_in (RouterNode r) i v = in_valid r i v"
| "node_in (NINode ni) i v = (0 \<le> i \<and> i < int (length (inPorts ni)))"

fun node_out_load :: "flow_node \<Rightarrow> int \<Rightarrow> int \<Rightarrow> int" where
  "node_out_load (RouterNode r) q v = router_out_load r q v"
| "node_out_load (NINode ni) q v = ni_out_load ni v"

fun node_in_load :: "flow_node \<Rightarrow> int \<Rightarrow> int \<Rightarrow> int" where
  "node_in_load (RouterNode r) i v = router_in_load r i v"
| "node_in_load (NINode ni) i v = ni_in_load ni i v"

text \<open>The credits of an output virtual channel, and the flits an input virtual channel holds.\<close>

fun node_credits :: "flow_node \<Rightarrow> int \<Rightarrow> int \<Rightarrow> int" where
  "node_credits (RouterNode r) q v = m_credit_count (outVcState (m_output_unit r ! nat q) ! nat v)"
| "node_credits (NINode ni) q v = m_credit_count (ni_outVcState ni ! nat v)"

fun node_held :: "flow_node \<Rightarrow> int \<Rightarrow> int \<Rightarrow> int" where
  "node_held (RouterNode r) i v = int (length (VC_items (virtualChannels (m_input_unit r ! nat i) ! nat v)))"
| "node_held (NINode ni) i v = vc_count v (m_stall_queue (inPorts ni ! nat i))"

fun node_flit_out :: "flow_node \<Rightarrow> int \<Rightarrow> int" where
  "node_flit_out (RouterNode r) q = m_out_link (m_output_unit r ! nat q)"
| "node_flit_out (NINode ni) q = outNetLink (outPorts ni ! 0)"

fun node_credit_in :: "flow_node \<Rightarrow> int \<Rightarrow> int" where
  "node_credit_in (RouterNode r) q = credit_link_of r q"
| "node_credit_in (NINode ni) q = inCreditLink (outPorts ni ! 0)"

fun node_flit_in :: "flow_node \<Rightarrow> int \<Rightarrow> int" where
  "node_flit_in (RouterNode r) i = in_link_of r i"
| "node_flit_in (NINode ni) i = inNetLink (inPorts ni ! nat i)"

fun node_credit_out :: "flow_node \<Rightarrow> int \<Rightarrow> int" where
  "node_credit_out (RouterNode r) i = iu_credit_link (m_input_unit r ! nat i)"
| "node_credit_out (NINode ni) i = outCreditLink (inPorts ni ! nat i)"

text \<open>The steps: the wake-ups of the component, and the hand-over of a trace record.\<close>

inductive node_step :: "flow_node \<times> NetworkLink list \<Rightarrow> flow_node \<times> NetworkLink list \<Rightarrow> bool" where
  step_router: "Router_wakeup net sched rnd p now (r, links) = Inr (r', links', ws) \<Longrightarrow>
    node_step (RouterNode r, links) (RouterNode r', links')"
| step_output: "Router_wake_output now q (r, links, ws) = Inr (r', links', ws') \<Longrightarrow>
    node_step (RouterNode r, links) (RouterNode r', links')"
| step_ni: "NI_wakeup env (ni, w) = Inr (ni', w') \<Longrightarrow> node_step (NINode ni, w_links w) (NINode ni', w_links w')"
| step_record: "node_step (NINode ni, links) (NINode (ni\<lparr>m_trace_record_queue := rs\<rparr>), links)"

text \<open>The pulls: a link takes a flit or a credit from the queue it reads.\<close>

definition link_pull :: "flitBuffer \<Rightarrow> NetworkLink \<Rightarrow> flitBuffer \<Rightarrow> NetworkLink \<Rightarrow> bool" where
  "link_pull src l src' l' = (\<exists>self p now ws. NetworkLink_wakeup self p now src l = Inr (src', l', ws))"

definition set_out_buffer :: "int \<Rightarrow> flitBuffer \<Rightarrow> Router \<Rightarrow> Router" where
  "set_out_buffer q b r = r\<lparr>m_output_unit := (m_output_unit r)[nat q := (m_output_unit r ! nat q)\<lparr>outBuffer := b\<rparr>]\<rparr>"

definition set_credit_queue :: "int \<Rightarrow> flitBuffer \<Rightarrow> Router \<Rightarrow> Router" where
  "set_credit_queue i b r = r\<lparr>m_input_unit := (m_input_unit r)[nat i := (m_input_unit r ! nat i)\<lparr>creditQueue := b\<rparr>]\<rparr>"

definition set_ni_out :: "int \<Rightarrow> flitBuffer \<Rightarrow> NetworkInterface \<Rightarrow> NetworkInterface" where
  "set_ni_out q b ni = ni\<lparr>outPorts := (outPorts ni)[nat q := (outPorts ni ! nat q)\<lparr>outFlitQueue := b\<rparr>]\<rparr>"

definition set_ni_credit :: "int \<Rightarrow> flitBuffer \<Rightarrow> NetworkInterface \<Rightarrow> NetworkInterface" where
  "set_ni_credit i b ni = ni\<lparr>inPorts := (inPorts ni)[nat i := (inPorts ni ! nat i)\<lparr>outCreditQueue := b\<rparr>]\<rparr>"

inductive node_pull :: "flow_node \<times> NetworkLink list \<Rightarrow> flow_node \<times> NetworkLink list \<Rightarrow> bool" where
  pull_router_out: "0 \<le> q \<Longrightarrow> q < int (length (m_output_unit r)) \<Longrightarrow> l = m_out_link (m_output_unit r ! nat q) \<Longrightarrow>
    link_pull (outBuffer (m_output_unit r ! nat q)) (links ! nat l) b l' \<Longrightarrow>
    node_pull (RouterNode r, links) (RouterNode (set_out_buffer q b r), links[nat l := l'])"
| pull_router_credit: "0 \<le> i \<Longrightarrow> i < int (length (m_input_unit r)) \<Longrightarrow> l = iu_credit_link (m_input_unit r ! nat i) \<Longrightarrow>
    link_pull (creditQueue (m_input_unit r ! nat i)) (links ! nat l) b l' \<Longrightarrow>
    node_pull (RouterNode r, links) (RouterNode (set_credit_queue i b r), links[nat l := l'])"
| pull_ni_out: "0 \<le> q \<Longrightarrow> q < int (length (outPorts ni)) \<Longrightarrow> l = outNetLink (outPorts ni ! nat q) \<Longrightarrow>
    link_pull (outFlitQueue (outPorts ni ! nat q)) (links ! nat l) b l' \<Longrightarrow>
    node_pull (NINode ni, links) (NINode (set_ni_out q b ni), links[nat l := l'])"
| pull_ni_credit: "0 \<le> i \<Longrightarrow> i < int (length (inPorts ni)) \<Longrightarrow> l = outCreditLink (inPorts ni ! nat i) \<Longrightarrow>
    link_pull (outCreditQueue (inPorts ni ! nat i)) (links ! nat l) b l' \<Longrightarrow>
    node_pull (NINode ni, links) (NINode (set_ni_credit i b ni), links[nat l := l'])"

section \<open>What steps and pulls keep\<close>

text \<open>The fixed part of a component: its ports, the links it reads and the links it feeds.\<close>

definition same_shape :: "flow_node \<Rightarrow> flow_node \<Rightarrow> bool" where
  "same_shape s t =
     (node_out t = node_out s \<and> node_in t = node_in s \<and> node_reads t = node_reads s \<and> feed_links t = feed_links s \<and> feed_ports t = feed_ports s \<and>
      (\<forall>q v. node_out s q v \<longrightarrow> node_flit_out t q = node_flit_out s q \<and> node_credit_in t q = node_credit_in s q) \<and>
      (\<forall>i v. node_in s i v \<longrightarrow> node_flit_in t i = node_flit_in s i \<and> node_credit_out t i = node_credit_out s i))"

lemma router_shape: "router_frame r' = router_frame r \<Longrightarrow> same_shape (RouterNode r) (RouterNode r')"
  using valid_frame [of r' r] links_frame [of r' r] frame_lengths(6,7) [of r' r] router_reads_frame [of r' r]
  by (simp add: same_shape_def out_valid_def in_valid_def fun_eq_iff)

lemma ni_shape:
  assumes "ni_frame ni' = ni_frame ni" "length (outPorts ni) = 1"
  shows "same_shape (NINode ni) (NINode ni')"
proof -
  note p = ni_frame_ports [OF assms(1)]
  have "0 < length (outPorts ni')" using p(2) assms(2) by simp
  then show ?thesis
    using p ni_reads_frame [OF assms(1)] map_eq_nth0 [OF p(4)] map_eq_nth0 [OF p(6)] map_eq_nthi [OF p(3)] map_eq_nthi [OF p(5)]
    by (simp add: same_shape_def fun_eq_iff)
qed

lemma map_update_eq: "g y = g (xs ! i) \<Longrightarrow> map g (xs[i := y]) = map g xs"
  by (metis list_update_id map_update)

lemma pull_frames [simp]:
  "router_frame (set_out_buffer q b r) = router_frame r" "router_frame (set_credit_queue i b r) = router_frame r"
  "ni_frame (set_ni_out q b ni) = ni_frame ni" "ni_frame (set_ni_credit i b ni) = ni_frame ni"
  by (simp_all add: router_frame_def set_out_buffer_def set_credit_queue_def ni_frame_def set_ni_out_def set_ni_credit_def)
    (rule map_update_eq; simp add: iu_frame_def ou_frame_def ip_frame_def op_frame_def)+

text \<open>A pull moves at most one flit from the queue to the link, in its virtual channel.\<close>

lemma link_pull_count:
  assumes "link_pull src l src' l'"
  shows "vc_count v (m_buffer src') + vc_count v (link_items l') = vc_count v (m_buffer src) + vc_count v (link_items l)"
proof -
  obtain self p now ws where "NetworkLink_wakeup self p now src l = Inr (src', l', ws)" using assms by (auto simp: link_pull_def)
  then show ?thesis using NetworkLink_wakeup_moves [of self p now src l src' l' ws] by (auto split: if_splits)
qed

lemma link_pull_wiring: "link_pull src l src' l' \<Longrightarrow> link_wiring l' = link_wiring l"
  unfolding link_pull_def using NetworkLink_wakeupD link_transferD by (fastforce simp: link_wiring_def)

text \<open>Feeding one link leaves the other links a component feeds as they are.\<close>

lemma feeds_apart:
  assumes "feeds_ok n fs" "j < length fs" "k < length fs" "j \<noteq> k"
  shows "nat (fs ! j) \<noteq> nat (fs ! k)"
  using assms nth_mem [of j fs] nth_mem [of k fs] by (auto simp: feeds_ok_def eq_nat_nat_iff nth_eq_iff_index_eq)

lemma feed_update:
  assumes ok: "feeds_ok (length links) fs" and j: "j < length fs" and l: "l = fs ! j"
    and load: "\<And>v. a' v + vc_count v (link_items l') = a v + vc_count v (link_items (links ! nat l))"
  shows "a' v + on_link (links[nat l := l']) l v = a v + on_link links l v"
    and "k < length fs \<Longrightarrow> k \<noteq> j \<Longrightarrow> on_link (links[nat l := l']) (fs ! k) v = on_link links (fs ! k) v"
    and "0 \<le> m \<Longrightarrow> m \<notin> set fs \<Longrightarrow> links[nat l := l'] ! nat m = links ! nat m"
proof -
  have r: "0 \<le> l" "l < int (length links)" using ok j by (auto simp: feeds_ok_def l)
  then have "nat l < length links" by (simp add: nat_less_iff)
  then show "a' v + on_link (links[nat l := l']) l v = a v + on_link links l v" using load by (simp add: on_link_def)
  show "on_link (links[nat l := l']) (fs ! k) v = on_link links (fs ! k) v" if "k < length fs" "k \<noteq> j"
    using feeds_apart [OF ok j that(1)] that(2) by (simp add: on_link_def l)
  show "links[nat l := l'] ! nat m = links ! nat m" if "0 \<le> m" "m \<notin> set fs"
  proof -
    have "l \<in> set fs" using j by (simp add: l)
    then have "nat l \<noteq> nat m" using that r by (metis eq_nat_nat_iff)
    then show ?thesis by simp
  qed
qed

text \<open>What a pull moves: loads against the links the component feeds.\<close>

definition pull_moved :: "flow_node \<Rightarrow> NetworkLink list \<Rightarrow> flow_node \<Rightarrow> NetworkLink list \<Rightarrow> bool" where
  "pull_moved s links t links' =
     ((\<forall>q v. node_out s q v \<longrightarrow> node_out_load t q v + on_link links' (node_flit_out s q) v =
         node_out_load s q v + on_link links (node_flit_out s q) v) \<and>
      (\<forall>i v. node_in s i v \<longrightarrow> node_in_load t i v + on_link links' (node_credit_out s i) v =
         node_in_load s i v + on_link links (node_credit_out s i) v) \<and>
      (\<forall>l. 0 \<le> l \<longrightarrow> l \<notin> set (feed_links s) \<longrightarrow> links' ! nat l = links ! nat l))"

lemma pull_router_out_moved:
  assumes ok: "feeds_ok (length links) (feed_links (RouterNode r))" and q: "0 \<le> q" "q < int (length (m_output_unit r))"
    and l: "l = m_out_link (m_output_unit r ! nat q)"
    and lp: "link_pull (outBuffer (m_output_unit r ! nat q)) (links ! nat l) b l'"
  shows "pull_moved (RouterNode r) links (RouterNode (set_out_buffer q b r)) (links[nat l := l'])"
proof -
  let ?fs = "feed_links (RouterNode r)" and ?r = "set_out_buffer q b r" and ?ls = "links[nat l := l']"
  have j: "nat q < length ?fs" "l = ?fs ! nat q" using q by (simp_all add: l nth_append nat_less_iff)
  note u = feed_update [OF ok j, of "\<lambda>v. vc_count v (m_buffer b)" l' "\<lambda>v. vc_count v (m_buffer (outBuffer (m_output_unit r ! nat q)))",
      OF link_pull_count [OF lp]]
  have "router_out_load ?r k v + on_link ?ls (m_out_link (m_output_unit r ! nat k)) v =
      router_out_load r k v + on_link links (m_out_link (m_output_unit r ! nat k)) v" if "out_valid r k v" for k v
  proof (cases "k = q")
    case True
    then show ?thesis using u(1) [of v] q by (simp add: l set_out_buffer_def router_out_load_def ou_load_def nat_less_iff)
  next
    case False
    have k: "0 \<le> k" "k < int (length (m_output_unit r))" "nat k \<noteq> nat q" using that False q(1) by (auto simp: out_valid_def)
    then have "on_link ?ls (?fs ! nat k) v = on_link links (?fs ! nat k) v" by (intro u(2)) (simp_all add: nat_less_iff)
    then show ?thesis using k by (simp add: set_out_buffer_def router_out_load_def nth_append nat_less_iff)
  qed
  moreover have "on_link ?ls (iu_credit_link (m_input_unit r ! nat i)) v = on_link links (iu_credit_link (m_input_unit r ! nat i)) v"
    if "in_valid r i v" for i v
    using u(2) [of "length (m_output_unit r) + nat i" v] that q by (simp add: in_valid_def nth_append nat_less_iff)
  ultimately show ?thesis using u(3) by (simp add: pull_moved_def set_out_buffer_def router_in_load_def)
qed

lemma pull_router_credit_moved:
  assumes ok: "feeds_ok (length links) (feed_links (RouterNode r))" and i: "0 \<le> i" "i < int (length (m_input_unit r))"
    and l: "l = iu_credit_link (m_input_unit r ! nat i)"
    and lp: "link_pull (creditQueue (m_input_unit r ! nat i)) (links ! nat l) b l'"
  shows "pull_moved (RouterNode r) links (RouterNode (set_credit_queue i b r)) (links[nat l := l'])"
proof -
  let ?fs = "feed_links (RouterNode r)" and ?r = "set_credit_queue i b r" and ?ls = "links[nat l := l']" and ?n = "length (m_output_unit r)"
  have j: "?n + nat i < length ?fs" "l = ?fs ! (?n + nat i)" using i by (simp_all add: l nth_append nat_less_iff)
  note u = feed_update [OF ok j, of "\<lambda>v. vc_count v (m_buffer b)" l' "\<lambda>v. vc_count v (m_buffer (creditQueue (m_input_unit r ! nat i)))",
      OF link_pull_count [OF lp]]
  have "router_in_load ?r k v + on_link ?ls (iu_credit_link (m_input_unit r ! nat k)) v =
      router_in_load r k v + on_link links (iu_credit_link (m_input_unit r ! nat k)) v" if "in_valid r k v" for k v
  proof (cases "k = i")
    case True
    then show ?thesis using u(1) [of v] i by (simp add: l set_credit_queue_def router_in_load_def iu_load_def nat_less_iff)
  next
    case False
    have k: "0 \<le> k" "k < int (length (m_input_unit r))" "nat k \<noteq> nat i" using that False i(1) by (auto simp: in_valid_def)
    then have "on_link ?ls (?fs ! (?n + nat k)) v = on_link links (?fs ! (?n + nat k)) v" by (intro u(2)) (simp_all add: nat_less_iff)
    then show ?thesis using k by (simp add: set_credit_queue_def router_in_load_def nth_append nat_less_iff)
  qed
  moreover have "on_link ?ls (m_out_link (m_output_unit r ! nat q)) v = on_link links (m_out_link (m_output_unit r ! nat q)) v"
    if "out_valid r q v" for q v
  proof -
    have "nat q < ?n" using that by (simp add: out_valid_def nat_less_iff)
    then show ?thesis using u(2) [of "nat q" v] by (simp add: nth_append)
  qed
  ultimately show ?thesis using u(3) by (simp add: pull_moved_def set_credit_queue_def router_out_load_def)
qed

lemma pull_ni_out_moved:
  assumes ok: "feeds_ok (length links) (feed_links (NINode ni))" and one: "outPorts ni = [po]"
    and lp: "link_pull (outFlitQueue po) (links ! nat (outNetLink po)) b l'"
  shows "pull_moved (NINode ni) links (NINode (set_ni_out 0 b ni)) (links[nat (outNetLink po) := l'])"
proof -
  let ?fs = "feed_links (NINode ni)"
  have j: "0 < length ?fs" "outNetLink po = ?fs ! 0" using one by simp_all
  note u = feed_update [OF ok j, of "\<lambda>v. vc_count v (m_buffer b)" l' "\<lambda>v. vc_count v (m_buffer (outFlitQueue po))", OF link_pull_count [OF lp]]
  have "on_link (links[nat (outNetLink po) := l']) (outCreditLink (inPorts ni ! nat i)) v = on_link links (outCreditLink (inPorts ni ! nat i)) v"
    if "0 \<le> i" "i < int (length (inPorts ni))" for i v
    using u(2) [of "Suc (nat i)" v] that one by (simp add: nat_less_iff)
  then show ?thesis using u(1,3) one by (simp add: pull_moved_def set_ni_out_def ni_out_load_def ni_in_load_def)
qed

lemma pull_ni_credit_moved:
  assumes ok: "feeds_ok (length links) (feed_links (NINode ni))" and one: "outPorts ni = [po]"
    and i: "0 \<le> i" "i < int (length (inPorts ni))" and l: "l = outCreditLink (inPorts ni ! nat i)"
    and lp: "link_pull (outCreditQueue (inPorts ni ! nat i)) (links ! nat l) b l'"
  shows "pull_moved (NINode ni) links (NINode (set_ni_credit i b ni)) (links[nat l := l'])"
proof -
  let ?fs = "feed_links (NINode ni)" and ?ni = "set_ni_credit i b ni" and ?ls = "links[nat l := l']"
  have j: "Suc (nat i) < length ?fs" "l = ?fs ! Suc (nat i)" using i one by (simp_all add: l nat_less_iff)
  note u = feed_update [OF ok j, of "\<lambda>v. vc_count v (m_buffer b)" l' "\<lambda>v. vc_count v (m_buffer (outCreditQueue (inPorts ni ! nat i)))",
      OF link_pull_count [OF lp]]
  have "ni_in_load ?ni k v + on_link ?ls (outCreditLink (inPorts ni ! nat k)) v =
      ni_in_load ni k v + on_link links (outCreditLink (inPorts ni ! nat k)) v" if "0 \<le> k" "k < int (length (inPorts ni))" for k v
  proof (cases "k = i")
    case True
    then show ?thesis using u(1) [of v] i by (simp add: l set_ni_credit_def ni_in_load_def ip_load_def nat_less_iff)
  next
    case False
    then have k: "nat k \<noteq> nat i" using that i(1) by simp
    then have "on_link ?ls (?fs ! Suc (nat k)) v = on_link links (?fs ! Suc (nat k)) v"
      using that one by (intro u(2)) (simp_all add: nat_less_iff)
    then show ?thesis using that k one by (simp add: set_ni_credit_def ni_in_load_def nat_less_iff)
  qed
  moreover have "on_link ?ls (outNetLink po) v = on_link links (outNetLink po) v" for v using u(2) [of 0 v] one by simp
  ultimately show ?thesis using u(3) one by (simp add: pull_moved_def set_ni_credit_def ni_out_load_def)
qed

section \<open>The contract holds\<close>

lemma node_inv_feeds: "node_inv n s \<Longrightarrow> feeds_ok n (feed_links s)"
  by (cases s) simp_all

lemma router_inv_keeps:
  "node_inv n (RouterNode r) \<Longrightarrow> router_frame r' = router_frame r \<Longrightarrow> credits_ok r' \<Longrightarrow> node_inv n (RouterNode r')"
  using router_shape [of r' r] wired_frame [of r' r n] by (simp add: same_shape_def)

lemma ni_inv_keeps:
  "node_inv n (NINode ni) \<Longrightarrow> ni_frame ni' = ni_frame ni \<Longrightarrow> ni_flow_ok n ni' \<Longrightarrow> node_inv n (NINode ni')"
  using ni_shape [of ni' ni] ni_flow_okD(1) [of n ni] by (simp add: same_shape_def)

lemma set_ni_flow_ok:
  assumes "ni_flow_ok n ni"
  shows "ni_flow_ok n (set_ni_out q b ni)" "ni_flow_ok n (set_ni_credit q b ni)"
proof -
  have t: "tagged (niOutVcs ni)" "\<forall>s\<in>set (ni_outVcState ni). 0 \<le> m_credit_count s" using ni_flow_okD [OF assms] by blast+
  show "ni_flow_ok n (set_ni_out q b ni)"
    by (rule ni_flow_ok_frame [OF assms pull_frames(3)]) (use t in \<open>simp_all add: set_ni_out_def\<close>)
  show "ni_flow_ok n (set_ni_credit q b ni)"
    by (rule ni_flow_ok_frame [OF assms pull_frames(4)]) (use t in \<open>simp_all add: set_ni_credit_def\<close>)
qed

lemma one_outport: "node_inv n (NINode ni) \<Longrightarrow> \<exists>po. outPorts ni = [po]"
  using ni_flow_okD(1) [of n ni] by (cases "outPorts ni") auto

text \<open>What both kinds of action keep.\<close>

definition kept :: "flow_node \<Rightarrow> NetworkLink list \<Rightarrow> flow_node \<Rightarrow> NetworkLink list \<Rightarrow> bool" where
  "kept s links t links' =
     (same_shape s t \<and> node_inv (length links') t \<and> length links' = length links \<and> map link_wiring links' = map link_wiring links)"

lemma keptD:
  assumes "kept s links t links'"
  shows "node_out t = node_out s" "node_in t = node_in s" "node_reads t = node_reads s" "feed_links t = feed_links s"
    "node_inv (length links') t" "length links' = length links"
    "feed_ports t = feed_ports s" "map link_wiring links' = map link_wiring links"
    "node_out s q v \<Longrightarrow> node_flit_out t q = node_flit_out s q \<and> node_credit_in t q = node_credit_in s q"
    "node_in s i v \<Longrightarrow> node_flit_in t i = node_flit_in s i \<and> node_credit_out t i = node_credit_out s i"
  using assms unfolding kept_def same_shape_def by blast+

lemma router_kept:
  assumes "node_inv (length links) (RouterNode r)" "router_frame r' = router_frame r" "credits_ok r'"
    and "length links' = length links" "map link_wiring links' = map link_wiring links"
  shows "kept (RouterNode r) links (RouterNode r') links'"
  using assms router_shape [OF assms(2)] router_inv_keeps [OF assms(1-3)] by (simp add: kept_def)

lemma ni_kept:
  assumes "node_inv (length links) (NINode ni)" "ni_frame ni' = ni_frame ni" "ni_flow_ok (length links) ni'"
    and "length links' = length links" "map link_wiring links' = map link_wiring links"
  shows "kept (NINode ni) links (NINode ni') links'"
proof -
  have "length (outPorts ni) = 1" using assms(1) ni_flow_okD(1) by auto
  then show ?thesis using assms(4,5) ni_shape [OF assms(2)] ni_inv_keeps [OF assms(1-3)] by (simp add: kept_def)
qed

lemma pull_links:
  assumes "link_pull src (links ! nat l) b l'"
  shows "length (links[nat l := l']) = length links" "map link_wiring (links[nat l := l']) = map link_wiring links"
  using map_update_eq [of link_wiring l' links "nat l"] link_pull_wiring [OF assms] by simp_all

lemma node_pull_moved:
  assumes "node_pull (s, links) (t, links')" "node_inv (length links) s"
  shows "pull_moved s links t links' \<and> kept s links t links'"
proof -
  note fd = node_inv_feeds [OF assms(2)]
  have *: "node_pull a b \<Longrightarrow> a = (s, links) \<Longrightarrow> b = (t, links') \<Longrightarrow> pull_moved s links t links' \<and> kept s links t links'" for a b
  proof (induction rule: node_pull.induct)
    case (pull_router_out q r l links b l')
    have "credits_ok r" using assms(2) pull_router_out(5) by auto
    then have "credits_ok (set_out_buffer q b r)"
      by (rule credits_ok_update [OF _ _ pull_router_out(1,2), where ou' = "(m_output_unit r ! nat q)\<lparr>outBuffer := b\<rparr>"])
        (simp_all add: set_out_buffer_def ou_credits_ok_def)
    then show ?case using pull_router_out assms(2) fd pull_router_out_moved [OF _ pull_router_out(1-4)]
        router_kept [OF _ pull_frames(1) _ pull_links [OF pull_router_out(4)]] by auto
  next
    case (pull_router_credit i r l links b l')
    have "credits_ok (set_credit_queue i b r)" using assms(2) pull_router_credit(5) by (auto simp: set_credit_queue_def credits_ok_def)
    then show ?case using pull_router_credit assms(2) fd pull_router_credit_moved [OF _ pull_router_credit(1-4)]
        router_kept [OF _ pull_frames(2) _ pull_links [OF pull_router_credit(4)]] by auto
  next
    case (pull_ni_out q ni l links b l')
    obtain po where po: "outPorts ni = [po]" using one_outport [of "length links" ni] assms(2) pull_ni_out(5) by auto
    then have "q = 0" "l = outNetLink po" using pull_ni_out(1-3) by simp_all
    then show ?case using pull_ni_out assms(2) fd pull_ni_out_moved [OF _ po] po
        ni_kept [OF _ pull_frames(3) _ pull_links [OF pull_ni_out(4)]] set_ni_flow_ok(1) by auto
  next
    case (pull_ni_credit i ni l links b l')
    obtain po where po: "outPorts ni = [po]" using one_outport [of "length links" ni] assms(2) pull_ni_credit(5) by auto
    then show ?case using pull_ni_credit assms(2) fd pull_ni_credit_moved [OF _ po pull_ni_credit(1-4)]
        ni_kept [OF _ pull_frames(4) _ pull_links [OF pull_ni_credit(4)]] set_ni_flow_ok(2) by auto
  qed
  show ?thesis using * [OF assms(1)] by simp
qed

definition step_moved :: "flow_node \<Rightarrow> NetworkLink list \<Rightarrow> flow_node \<Rightarrow> NetworkLink list \<Rightarrow> bool" where
  "step_moved s links t links' =
     ((\<forall>q v. node_out s q v \<longrightarrow> node_out_load t q v + on_link links' (node_credit_in s q) v =
         node_out_load s q v + on_link links (node_credit_in s q) v) \<and>
      (\<forall>i v. node_in s i v \<longrightarrow> node_in_load t i v + on_link links' (node_flit_in s i) v =
         node_in_load s i v + on_link links (node_flit_in s i) v) \<and>
      (\<forall>l. 0 \<le> l \<longrightarrow> l \<notin> node_reads s \<longrightarrow> links' ! nat l = links ! nat l))"

lemma router_step_moved:
  assumes "loads_moved r links r' links'" "node_inv (length links) (RouterNode r)"
  shows "step_moved (RouterNode r) links (RouterNode r') links' \<and> kept (RouterNode r) links (RouterNode r') links'"
proof -
  have "kept (RouterNode r) links (RouterNode r') links'"
    by (rule router_kept [OF assms(2)]) (use assms in \<open>simp_all add: loads_moved_def\<close>)
  then show ?thesis using assms(1) by (simp add: step_moved_def loads_moved_def)
qed

lemma ni_step_moved:
  assumes "ni_moved ni links ni' links'" "node_inv (length links) (NINode ni)"
  shows "step_moved (NINode ni) links (NINode ni') links' \<and> kept (NINode ni) links (NINode ni') links'"
proof -
  have "kept (NINode ni) links (NINode ni') links'"
    by (rule ni_kept [OF assms(2)]) (use assms(1) in \<open>clarsimp simp: ni_moved_def\<close>)+
  then show ?thesis using assms(1) unfolding step_moved_def ni_moved_def by simp
qed

lemma node_step_moved:
  assumes "node_step (s, links) (t, links')" "node_inv (length links) s"
  shows "step_moved s links t links' \<and> kept s links t links'"
proof -
  have *: "node_step a b \<Longrightarrow> a = (s, links) \<Longrightarrow> b = (t, links') \<Longrightarrow> step_moved s links t links' \<and> kept s links t links'" for a b
  proof (induction rule: node_step.induct)
    case (step_router net sched rnd p now r links1 r' links1' ws)
    then show ?case using router_step_moved [OF Router_wakeup_loads [OF step_router(1)]] assms(2) by auto
  next
    case (step_output now q r links1 ws r' links1' ws')
    then show ?case using router_step_moved [OF wake_output_loads [OF step_output(1)]] assms(2) by auto
  next
    case (step_ni env ni w ni' w')
    then show ?case using ni_step_moved [OF NI_wakeup_moved [OF step_ni(1)]] assms(2) by auto
  next
    case (step_record ni links1 rs)
    have "ni_quiet ni (ni\<lparr>m_trace_record_queue := rs\<rparr>)" by (simp add: ni_quiet_def ni_frame_def)
    from ni_step_moved [OF ni_quiet_moved [OF this]] show ?case using step_record assms(2) by auto
  qed
  show ?thesis using * [OF assms(1)] by simp
qed

lemma node_credits_nonneg:
  assumes "node_inv n s" "node_out s q v"
  shows "0 \<le> node_credits s q v"
proof (cases s)
  case (RouterNode r)
  let ?ou = "m_output_unit r ! nat q"
  have "?ou \<in> set (m_output_unit r)" "outVcState ?ou ! nat v \<in> set (outVcState ?ou)"
    using assms(2) RouterNode by (simp_all add: out_valid_def nat_less_iff)
  then show ?thesis using assms(1) RouterNode by (auto simp: credits_ok_def ou_credits_ok_def)
next
  case (NINode ni)
  then show ?thesis using assms by (auto simp: ni_flow_ok_def nat_less_iff)
qed

lemma credits_le_load: "node_credits s q v \<le> node_out_load s q v"
proof (cases s)
  case (RouterNode r)
  have "0 \<le> switch_load q v (switchBuffers (crossbarSwitch r))" unfolding switch_load_def by (rule sum_list_nonneg) auto
  then show ?thesis using RouterNode by (simp add: router_out_load_def ou_load_def)
qed (simp add: ni_out_load_def)

interpretation nf: flow_component node_inv node_step node_pull node_out node_in
  node_out_load node_in_load node_credits node_held node_flit_out node_credit_in node_flit_in node_credit_out
  node_reads "\<lambda>s. set (feed_links s)"
proof
  fix links links' :: "NetworkLink list" and s t
  assume iv: "node_inv (length links) s"
  show "node_inv (length links') t \<and> length links' = length links \<and> node_out t = node_out s \<and> node_in t = node_in s \<and>
      node_reads t = node_reads s \<and> set (feed_links t) = set (feed_links s) \<and>
      (\<forall>o' v. node_out s o' v \<longrightarrow> node_flit_out t o' = node_flit_out s o' \<and> node_credit_in t o' = node_credit_in s o') \<and>
      (\<forall>i v. node_in s i v \<longrightarrow> node_flit_in t i = node_flit_in s i \<and> node_credit_out t i = node_credit_out s i)"
    if "node_step (s, links) (t, links') \<or> node_pull (s, links) (t, links')"
  proof -
    have "kept s links t links'" using that node_step_moved [OF _ iv] node_pull_moved [OF _ iv] by blast
    note k = keptD [OF this]
    show ?thesis by (intro conjI k(1-3,5,6) arg_cong [OF k(4)]) (use k(9,10) in blast)+
  qed
next
  show "(\<forall>o' v. node_out s o' v \<longrightarrow> node_out_load t o' v + on_link links' (node_credit_in s o') v =
        node_out_load s o' v + on_link links (node_credit_in s o') v) \<and>
      (\<forall>i v. node_in s i v \<longrightarrow> node_in_load t i v + on_link links' (node_flit_in s i) v =
        node_in_load s i v + on_link links (node_flit_in s i) v) \<and>
      (\<forall>l. 0 \<le> l \<longrightarrow> l \<notin> node_reads s \<longrightarrow> links' ! nat l = links ! nat l)"
    if "node_inv (length links) s" "node_step (s, links) (t, links')" for links s t links'
    using node_step_moved [OF that(2,1)] unfolding step_moved_def by (rule conjunct1)
  show "(\<forall>o' v. node_out s o' v \<longrightarrow> node_out_load t o' v + on_link links' (node_flit_out s o') v =
        node_out_load s o' v + on_link links (node_flit_out s o') v) \<and>
      (\<forall>i v. node_in s i v \<longrightarrow> node_in_load t i v + on_link links' (node_credit_out s i) v =
        node_in_load s i v + on_link links (node_credit_out s i) v) \<and>
      (\<forall>l. 0 \<le> l \<longrightarrow> l \<notin> set (feed_links s) \<longrightarrow> links' ! nat l = links ! nat l)"
    if "node_inv (length links) s" "node_pull (s, links) (t, links')" for links s t links'
    using node_pull_moved [OF that(2,1)] unfolding pull_moved_def by (rule conjunct1)
  show "node_inv n s \<Longrightarrow> node_out s q v \<Longrightarrow> 0 \<le> node_credits s q v \<and> node_credits s q v \<le> node_out_load s q v" for n s q v
    using node_credits_nonneg [of n s q v] credits_le_load [of s q v] by simp
  show "node_inv n s \<Longrightarrow> node_in s i v \<Longrightarrow> 0 \<le> node_held s i v \<and> node_held s i v \<le> node_in_load s i v" for n s i v
    by (cases s) (simp_all add: router_in_load_def iu_load_def ni_in_load_def ip_load_def)
qed

end
