(* ===== verification/Garnet_Network_Run.thy ===== *)
theory Garnet_Network_Run
  imports Garnet_Network_Flow
begin

text \<open>
  Runs of a whole network: any number of wake-ups of its objects in any order, at any times. Every
  event is a run of the actions of the contract \<open>flow_component\<close>, so what the contract promises
  holds of the network: the credits of every hop are conserved, and no buffer overflows.
\<close>

section \<open>Wiring of a network\<close>

definition nodes :: "network \<Rightarrow> flow_node list" where
  "nodes nw = map RouterNode (m_routers nw) @ map NINode (m_nis nw)"

text \<open>The link a port attaches to the queue that the reference names.\<close>

fun queue_link :: "qref \<Rightarrow> network \<Rightarrow> int res" where
  "queue_link (RouterOut r q) nw = rbind (vget (map (feed_ports \<circ> RouterNode) (m_routers nw)) r) (\<lambda>p. vget (fst p) q)"
| "queue_link (RouterCredit r i) nw = rbind (vget (map (feed_ports \<circ> RouterNode) (m_routers nw)) r) (\<lambda>p. vget (snd p) i)"
| "queue_link (NIOut n q) nw = rbind (vget (map (feed_ports \<circ> NINode) (m_nis nw)) n) (\<lambda>p. vget (fst p) q)"
| "queue_link (NICredit n i) nw = rbind (vget (map (feed_ports \<circ> NINode) (m_nis nw)) n) (\<lambda>p. vget (snd p) i)"
| "queue_link (LinkBuf l) nw = Inl Undefined"

text \<open>Every link that has a source reads the queue of a port attached to it, and there are no bridges.\<close>

definition attached :: "network \<Rightarrow> nat \<Rightarrow> qref option \<times> bool \<Rightarrow> bool" where
  "attached nw i = (\<lambda>(src, plain). plain \<and> (case src of None \<Rightarrow> True | Some q \<Rightarrow> queue_link q nw = Inr (int i)))"

definition links_attached :: "network \<Rightarrow> bool" where
  "links_attached nw = (\<forall>i<length (nw_links nw). attached nw i (link_wiring (nw_links nw ! i)))"

definition nodes_ok :: "flow_node list \<times> NetworkLink list \<Rightarrow> bool" where
  "nodes_ok = (\<lambda>(ss, links).
     (\<forall>s\<in>set ss. node_inv (length links) s) \<and>
     (\<forall>j<length ss. \<forall>k<length ss. j \<noteq> k \<longrightarrow> node_reads (ss ! j) \<inter> node_reads (ss ! k) = {} \<and>
        set (feed_links (ss ! j)) \<inter> set (feed_links (ss ! k)) = {}))"

definition flow_wired :: "network \<Rightarrow> bool" where
  "flow_wired nw = (nodes_ok (nodes nw, nw_links nw) \<and> links_attached nw)"

lemma nodes_ok_eq: "nodes_ok = nf.flow_inv"
  by (simp add: fun_eq_iff nodes_ok_def nf.flow_inv_def)

abbreviation node_run :: "flow_node list \<times> NetworkLink list \<Rightarrow> flow_node list \<times> NetworkLink list \<Rightarrow> bool" where
  "node_run \<equiv> flow_run nf.act"

lemma flow_run_trans: "flow_run f t u \<Longrightarrow> flow_run f s t \<Longrightarrow> flow_run f s u"
  by (induction rule: flow_run.induct) (auto intro: flow_run.intros)

lemma node_run_act:
  assumes "k < length ss" "ss ! k = s" "node_step (s, links) (t, links') \<or> node_pull (s, links) (t, links')" "ss' = ss[k := t]"
  shows "node_run (ss, links) (ss', links')"
  unfolding assms(4) by (rule flow_act [OF flow_refl assms(1)]) (use assms(2,3) in \<open>simp add: nf.act_def\<close>)

lemma act_kept: "nf.act (s, links) (t, links') \<Longrightarrow> node_inv (length links) s \<Longrightarrow> kept s links t links'"
  using node_step_moved node_pull_moved unfolding nf.act_def by blast

lemma act_nodes_ok:
  assumes "nodes_ok (ss, links)" "k < length ss" "nf.act (ss ! k, links) (t, links')"
  shows "nodes_ok (ss[k := t], links') \<and> map feed_ports (ss[k := t]) = map feed_ports ss \<and>
    map link_wiring links' = map link_wiring links"
proof -
  have iv: "\<And>s. s \<in> set ss \<Longrightarrow> node_inv (length links) s" using assms(1) by (simp add: nodes_ok_def)
  note k = keptD [OF act_kept [OF assms(3) iv [OF nth_mem [OF assms(2)]]]]
  have "nodes_ok (ss[k := t], links')"
    using assms(1,2) k(3-5) set_update_subset_insert [of ss k t] unfolding nodes_ok_def
    by (auto simp: nth_list_update k(6))
  then show ?thesis using k(7,8) map_update_eq [of feed_ports t ss k] by simp
qed

lemma node_run_kept:
  "node_run s t \<Longrightarrow> nodes_ok s \<Longrightarrow> nodes_ok t \<and> map feed_ports (fst t) = map feed_ports (fst s) \<and>
     map link_wiring (snd t) = map link_wiring (snd s)"
proof (induction rule: flow_run.induct)
  case (flow_act s ss links k t links')
  then show ?case using act_nodes_ok [of ss links k t links'] by simp
qed simp

text \<open>The wiring stays when the nodes make a run.\<close>

lemma flow_wired_run:
  assumes "node_run (nodes nw, nw_links nw) (nodes nw', nw_links nw')" "flow_wired nw"
    and "length (m_routers nw') = length (m_routers nw)"
  shows "flow_wired nw'"
proof -
  have k: "nodes_ok (nodes nw', nw_links nw')" "map feed_ports (nodes nw') = map feed_ports (nodes nw)"
      "map link_wiring (nw_links nw') = map link_wiring (nw_links nw)"
    using node_run_kept [OF assms(1)] assms(2) by (auto simp: flow_wired_def)
  have "map (feed_ports \<circ> RouterNode) (m_routers nw') = map (feed_ports \<circ> RouterNode) (m_routers nw)"
      "map (feed_ports \<circ> NINode) (m_nis nw') = map (feed_ports \<circ> NINode) (m_nis nw)"
    using k(2) assms(3) by (simp_all add: nodes_def)
  then have "queue_link q nw' = queue_link q nw" for q by (cases q) simp_all
  moreover have "link_wiring (nw_links nw' ! i) = link_wiring (nw_links nw ! i)" if "i < length (nw_links nw')" for i
    using k(3) that by (metis length_map nth_map)
  moreover have "length (nw_links nw') = length (nw_links nw)" using arg_cong [OF k(3), of length] by simp
  moreover have "attached nw' = attached nw" using calculation(1) by (simp add: attached_def fun_eq_iff split: option.split)
  ultimately show ?thesis using k(1) assms(2) by (simp add: flow_wired_def links_attached_def)
qed

section \<open>Every event is a run of actions\<close>

lemma nodes_router: "0 \<le> i \<Longrightarrow> i < int (length (m_routers nw)) \<Longrightarrow>
    nodes (nw\<lparr>m_routers := (m_routers nw)[nat i := r]\<rparr>) = (nodes nw)[nat i := RouterNode r] \<and>
    nodes nw ! nat i = RouterNode (m_routers nw ! nat i) \<and> nat i < length (nodes nw)"
  by (simp add: nodes_def map_update list_update_append nth_append nat_less_iff)

lemma nodes_ni: "0 \<le> i \<Longrightarrow> i < int (length (m_nis nw)) \<Longrightarrow>
    nodes (nw\<lparr>m_nis := (m_nis nw)[nat i := ni]\<rparr>) = (nodes nw)[length (m_routers nw) + nat i := NINode ni] \<and>
    nodes nw ! (length (m_routers nw) + nat i) = NINode (m_nis nw ! nat i) \<and> length (m_routers nw) + nat i < length (nodes nw)"
  by (simp add: nodes_def map_update list_update_append nth_append nat_less_iff)

lemma nodes_links [simp]:
  "nodes (set_links ls nw) = nodes nw" "nw_links (set_links ls nw) = ls" "nodes (nw_wake ws nw) = nodes nw"
  "nw_links (nw_wake ws nw) = nw_links nw" "nw_links (nw\<lparr>m_routers := rs\<rparr>) = nw_links nw" "nw_links (nw\<lparr>m_nis := nis\<rparr>) = nw_links nw"
  "nodes (nw\<lparr>nw_world := w\<rparr>) = nodes nw" "nw_links (nw\<lparr>nw_world := w\<rparr>) = w_links w"
  "m_routers (set_links ls nw) = m_routers nw" "m_routers (nw_wake ws nw) = m_routers nw"
  "m_nis (set_links ls nw) = m_nis nw"
  by (simp_all add: nodes_def nw_links_def set_links_def nw_wake_def w_wake_def)

lemma router_run:
  assumes "0 \<le> i" "i < int (length (m_routers nw))"
    and "node_step (RouterNode (m_routers nw ! nat i), links) (RouterNode r', links') \<or>
      node_pull (RouterNode (m_routers nw ! nat i), links) (RouterNode r', links')"
  shows "node_run (nodes nw, links) (nodes (nw\<lparr>m_routers := (m_routers nw)[nat i := r']\<rparr>), links')"
  using node_run_act [OF _ _ assms(3)] nodes_router [OF assms(1,2), of r'] by simp

lemma ni_run:
  assumes "0 \<le> i" "i < int (length (m_nis nw))"
    and "node_step (NINode (m_nis nw ! nat i), links) (NINode ni', links') \<or>
      node_pull (NINode (m_nis nw ! nat i), links) (NINode ni', links')"
  shows "node_run (nodes nw, links) (nodes (nw\<lparr>m_nis := (m_nis nw)[nat i := ni']\<rparr>), links')"
  using node_run_act [OF _ _ assms(3)] nodes_ni [OF assms(1,2), of ni'] by simp

lemma router_event_run:
  assumes "router_event env now i nw = Inr nw'"
  shows "node_run (nodes nw, nw_links nw) (nodes nw', nw_links nw') \<and> length (m_routers nw') = length (m_routers nw)"
proof -
  obtain r' links ws where i: "0 \<le> i" "i < int (length (m_routers nw))"
    and w: "Router_wakeup (nw_params nw) (ne_scheduled env (ToRouter i)) (ne_route_rnd env i) (ne_period env (ToRouter i)) now
        (m_routers nw ! nat i, nw_links nw) = Inr (r', links, ws)"
    and n: "nw' = nw_wake ws (set_links links (nw\<lparr>m_routers := (m_routers nw)[nat i := r']\<rparr>))"
    using assms by (auto simp: router_event_def rbind_eq_Inr vget_eq_Inr vset_eq_Inr)
  show ?thesis using router_run [OF i disjI1 [OF step_router [OF w]]] by (simp add: n)
qed

lemma output_unit_event_run:
  assumes "output_unit_event now i q nw = Inr nw'"
  shows "node_run (nodes nw, nw_links nw) (nodes nw', nw_links nw') \<and> length (m_routers nw') = length (m_routers nw)"
proof -
  obtain r' links ws where i: "0 \<le> i" "i < int (length (m_routers nw))"
    and w: "Router_wake_output now q (m_routers nw ! nat i, nw_links nw, []) = Inr (r', links, ws)"
    and n: "nw' = nw_wake ws (set_links links (nw\<lparr>m_routers := (m_routers nw)[nat i := r']\<rparr>))"
    using assms by (auto simp: output_unit_event_def rbind_eq_Inr vget_eq_Inr vset_eq_Inr)
  show ?thesis using router_run [OF i disjI1 [OF step_output [OF w]]] by (simp add: n)
qed

lemma ni_event_run:
  assumes "ni_event env now i nw = Inr nw'"
  shows "node_run (nodes nw, nw_links nw) (nodes nw', nw_links nw') \<and> length (m_routers nw') = length (m_routers nw)"
proof -
  obtain ni' w where i: "0 \<le> i" "i < int (length (m_nis nw))"
    and w: "NI_wakeup (ni_env_of env now i nw) (m_nis nw ! nat i, nw_world nw) = Inr (ni', w)"
    and n: "nw' = nw\<lparr>m_nis := (m_nis nw)[nat i := ni'], nw_world := w\<rparr>"
    using assms by (auto simp: ni_event_def rbind_eq_Inr vget_eq_Inr vset_eq_Inr)
  show ?thesis using ni_run [OF i disjI1 [OF step_ni [OF w]]] by (simp add: n nw_links_def)
qed

lemma link_eventD:
  assumes "link_event env now i nw = Inr nw'" "links_attached nw"
  shows "\<exists>q src src' l' nw1 ws. 0 \<le> i \<and> i < int (length (nw_links nw)) \<and> queue_link q nw = Inr i \<and> get_queue q nw = Inr src \<and>
    link_pull src (nw_links nw ! nat i) src' l' \<and> put_queue q src' nw = Inr nw1 \<and>
    i < int (length (nw_links nw1)) \<and> nw' = nw_wake ws (set_links ((nw_links nw1)[nat i := l']) nw1)"
proof -
  let ?l = "nw_links nw ! nat i"
  have i: "0 \<le> i" "i < int (length (nw_links nw))" "vget (nw_links nw) i = Inr ?l"
    using assms(1) by (auto simp: link_event_def rbind_eq_Inr vget_eq_Inr)
  then have "attached nw (nat i) (link_wiring ?l)" using assms(2) by (simp add: links_attached_def nat_less_iff)
  then have at: "nl_bridge ?l = None" "\<And>q. link_srcQueue ?l = Some q \<Longrightarrow> queue_link q nw = Inr i"
    using i(1) by (auto simp: attached_def link_wiring_def)
  obtain q where q: "link_srcQueue ?l = Some q" using assms(1) i by (cases "link_srcQueue ?l") (auto simp: link_event_def)
  then obtain src src' l' ws nw1 where g: "get_queue q nw = Inr src"
      and w: "NetworkLink_wakeup i (ne_period env (ToLink i)) now src ?l = Inr (src', l', ws)"
      and pq: "put_queue q src' nw = Inr nw1" "i < int (length (nw_links nw1))"
      and n: "nw' = nw_wake ws (set_links ((nw_links nw1)[nat i := l']) nw1)"
    using assms(1) i at by (auto simp: link_event_def rbind_eq_Inr vset_eq_Inr)
  have "link_pull src ?l src' l'" using w unfolding link_pull_def by blast
  then show ?thesis using i(1,2) at(2) [OF q] g pq n by blast
qed

lemma get_queue_eq [simp]:
  "get_queue (RouterOut r q) nw = Inr b \<longleftrightarrow> 0 \<le> r \<and> r < int (length (m_routers nw)) \<and> 0 \<le> q \<and>
     q < int (length (m_output_unit (m_routers nw ! nat r))) \<and> b = outBuffer (m_output_unit (m_routers nw ! nat r) ! nat q)"
  "get_queue (RouterCredit r q) nw = Inr b \<longleftrightarrow> 0 \<le> r \<and> r < int (length (m_routers nw)) \<and> 0 \<le> q \<and>
     q < int (length (m_input_unit (m_routers nw ! nat r))) \<and> b = creditQueue (m_input_unit (m_routers nw ! nat r) ! nat q)"
  "get_queue (NIOut r q) nw = Inr b \<longleftrightarrow> 0 \<le> r \<and> r < int (length (m_nis nw)) \<and> 0 \<le> q \<and>
     q < int (length (outPorts (m_nis nw ! nat r))) \<and> b = outFlitQueue (outPorts (m_nis nw ! nat r) ! nat q)"
  "get_queue (NICredit r q) nw = Inr b \<longleftrightarrow> 0 \<le> r \<and> r < int (length (m_nis nw)) \<and> 0 \<le> q \<and>
     q < int (length (inPorts (m_nis nw ! nat r))) \<and> b = outCreditQueue (inPorts (m_nis nw ! nat r) ! nat q)"
  by (auto simp: get_queue_def rbind_eq_Inr vget_eq_Inr)

lemma put_queueD:
  "put_queue (RouterOut r q) b nw = Inr nw1 \<Longrightarrow>
     nw1 = nw\<lparr>m_routers := (m_routers nw)[nat r := set_out_buffer q b (m_routers nw ! nat r)]\<rparr>"
  "put_queue (RouterCredit r q) b nw = Inr nw1 \<Longrightarrow>
     nw1 = nw\<lparr>m_routers := (m_routers nw)[nat r := set_credit_queue q b (m_routers nw ! nat r)]\<rparr>"
  "put_queue (NIOut r q) b nw = Inr nw1 \<Longrightarrow> nw1 = nw\<lparr>m_nis := (m_nis nw)[nat r := set_ni_out q b (m_nis nw ! nat r)]\<rparr>"
  "put_queue (NICredit r q) b nw = Inr nw1 \<Longrightarrow> nw1 = nw\<lparr>m_nis := (m_nis nw)[nat r := set_ni_credit q b (m_nis nw ! nat r)]\<rparr>"
  by (auto simp: put_queue_def rbind_eq_Inr vmod_eq_Inr set_out_buffer_def set_credit_queue_def set_ni_out_def set_ni_credit_def)

lemma link_event_run:
  assumes "link_event env now i nw = Inr nw'" "links_attached nw"
  shows "node_run (nodes nw, nw_links nw) (nodes nw', nw_links nw') \<and> length (m_routers nw') = length (m_routers nw)"
proof -
  obtain q src src' l' nw1 ws where i: "0 \<le> i" "i < int (length (nw_links nw))" and ql: "queue_link q nw = Inr i"
    and g: "get_queue q nw = Inr src" and lp: "link_pull src (nw_links nw ! nat i) src' l'" and pq: "put_queue q src' nw = Inr nw1"
    and n: "nw' = nw_wake ws (set_links ((nw_links nw1)[nat i := l']) nw1)"
    using link_eventD [OF assms] by blast
  show ?thesis
  proof (cases q)
    case (RouterOut r o')
    let ?r = "m_routers nw ! nat r"
    have b: "0 \<le> r" "r < int (length (m_routers nw))" "0 \<le> o'" "o' < int (length (m_output_unit ?r))" "src = outBuffer (m_output_unit ?r ! nat o')"
      using g RouterOut by auto
    then have "m_out_link (m_output_unit ?r ! nat o') = i" using ql RouterOut by (auto simp: rbind_eq_Inr vget_eq_Inr nat_less_iff)
    with b lp have "node_pull (RouterNode ?r, nw_links nw) (RouterNode (set_out_buffer o' src' ?r), (nw_links nw)[nat i := l'])"
      by (intro pull_router_out) auto
    from router_run [OF b(1,2) disjI2 [OF this]] show ?thesis using put_queueD(1) [of r o' src' nw nw1] pq RouterOut by (simp add: n)
  next
    case (RouterCredit r o')
    let ?r = "m_routers nw ! nat r"
    have b: "0 \<le> r" "r < int (length (m_routers nw))" "0 \<le> o'" "o' < int (length (m_input_unit ?r))" "src = creditQueue (m_input_unit ?r ! nat o')"
      using g RouterCredit by auto
    then have "iu_credit_link (m_input_unit ?r ! nat o') = i" using ql RouterCredit by (auto simp: rbind_eq_Inr vget_eq_Inr nat_less_iff)
    with b lp have "node_pull (RouterNode ?r, nw_links nw) (RouterNode (set_credit_queue o' src' ?r), (nw_links nw)[nat i := l'])"
      by (intro pull_router_credit) auto
    from router_run [OF b(1,2) disjI2 [OF this]] show ?thesis using put_queueD(2) [of r o' src' nw nw1] pq RouterCredit by (simp add: n)
  next
    case (NIOut r o')
    let ?r = "m_nis nw ! nat r"
    have b: "0 \<le> r" "r < int (length (m_nis nw))" "0 \<le> o'" "o' < int (length (outPorts ?r))" "src = outFlitQueue (outPorts ?r ! nat o')"
      using g NIOut by auto
    then have "outNetLink (outPorts ?r ! nat o') = i" using ql NIOut by (auto simp: rbind_eq_Inr vget_eq_Inr nat_less_iff)
    with b lp have "node_pull (NINode ?r, nw_links nw) (NINode (set_ni_out o' src' ?r), (nw_links nw)[nat i := l'])"
      by (intro pull_ni_out) auto
    from ni_run [OF b(1,2) disjI2 [OF this]] show ?thesis using put_queueD(3) [of r o' src' nw nw1] pq NIOut by (simp add: n)
  next
    case (NICredit r o')
    let ?r = "m_nis nw ! nat r"
    have b: "0 \<le> r" "r < int (length (m_nis nw))" "0 \<le> o'" "o' < int (length (inPorts ?r))" "src = outCreditQueue (inPorts ?r ! nat o')"
      using g NICredit by auto
    then have "outCreditLink (inPorts ?r ! nat o') = i" using ql NICredit by (auto simp: rbind_eq_Inr vget_eq_Inr nat_less_iff)
    with b lp have "node_pull (NINode ?r, nw_links nw) (NINode (set_ni_credit o' src' ?r), (nw_links nw)[nat i := l'])"
      by (intro pull_ni_credit) auto
    from ni_run [OF b(1,2) disjI2 [OF this]] show ?thesis using put_queueD(4) [of r o' src' nw nw1] pq NICredit by (simp add: n)
  qed (use ql in simp)
qed

lemma inject_nextD:
  assumes "inject_next p now (g, nis) = Inr (g', nis', ws)"
  shows "nis' = nis \<or> (\<exists>i rs. i < length nis \<and> nis' = nis[i := (nis ! i)\<lparr>m_trace_record_queue := rs\<rparr>])"
proof (cases "tr_valid (trace_next_packet g)")
  case True
  let ?i = "tr_src_id (trace_next_packet g)"
  have "0 \<le> ?i" "?i < int (length nis)" "nis' = nis[nat ?i := (nis ! nat ?i)\<lparr>m_trace_record_queue :=
      m_trace_record_queue (nis ! nat ?i) @ [trace_next_packet g]\<rparr>]"
    using assms True by (auto simp: inject_next_def Let_def rbind_eq_Inr vget_eq_Inr vset_eq_Inr NI_enqueueTracePacket_def)
  then show ?thesis by (intro disjI2 exI [of _ "nat ?i"] exI conjI) (simp_all add: nat_less_iff)
qed (use assms in \<open>simp add: inject_next_def\<close>)

lemma record_run:
  assumes "i < length nis"
  shows "node_run (map RouterNode rs @ map NINode nis, links)
    (map RouterNode rs @ map NINode (nis[i := (nis ! i)\<lparr>m_trace_record_queue := q\<rparr>]), links)"
  by (rule node_run_act [OF _ _ disjI1 [OF step_record], where k = "length rs + i"])
    (use assms in \<open>simp_all add: nth_append list_update_append map_update\<close>)

lemma trace_run:
  "GarnetNetwork_wakeup p now gn = Inr (g', nis', ws) \<Longrightarrow>
     node_run (map RouterNode rs @ map NINode (snd gn), links) (map RouterNode rs @ map NINode nis', links)"
proof (induction p now gn arbitrary: g' nis' ws rule: GarnetNetwork_wakeup.induct)
  case (1 p now gn)
  obtain g nis where gn: "gn = (g, nis)" by fastforce
  obtain g1 nis1 ws1 out where a: "inject_next p now gn = Inr (g1, nis1, ws1)" and b: "read_next p now (length nis1) g1 = Inr out"
    using 1(2) unfolding GarnetNetwork_wakeup.simps [of p now gn] by (auto simp: rbind_eq_Inr)
  have r1: "node_run (map RouterNode rs @ map NINode (snd gn), links) (map RouterNode rs @ map NINode nis1, links)"
    using inject_nextD [of p now g nis] a record_run [of _ nis rs links] by (auto simp: gn intro: flow_refl)
  show ?case
  proof (cases out)
    case (Again g2)
    then obtain g3 nis3 ws3 where c: "GarnetNetwork_wakeup p now (g2, nis1) = Inr (g3, nis3, ws3)" "nis' = nis3"
      using 1(2) a b unfolding GarnetNetwork_wakeup.simps [of p now gn] by (auto simp: rbind_eq_Inr)
    have "node_run (map RouterNode rs @ map NINode (snd (g2, nis1)), links) (map RouterNode rs @ map NINode nis3, links)"
      using 1(1) a b c(1) Again by (metis prod.collapse snd_conv)
    then show ?thesis using flow_run_trans [OF _ r1] c(2) by simp
  next
    case (Stop g2 ws2)
    then have "nis' = nis1" using 1(2) a b unfolding GarnetNetwork_wakeup.simps [of p now gn] by simp
    then show ?thesis using r1 by simp
  qed
qed

lemma trace_event_run:
  assumes "trace_event env now nw = Inr nw'"
  shows "node_run (nodes nw, nw_links nw) (nodes nw', nw_links nw') \<and> length (m_routers nw') = length (m_routers nw)"
proof -
  obtain g nis ws where "GarnetNetwork_wakeup (ne_period env ToNetwork) now (w_gn (nw_world nw), m_nis nw) = Inr (g, nis, ws)"
    and n: "nw' = nw_wake ws (nw\<lparr>m_nis := nis, nw_world := (nw_world nw)\<lparr>w_gn := g\<rparr>\<rparr>)"
    using assms by (auto simp: trace_event_def rbind_eq_Inr)
  from trace_run [OF this(1), of "m_routers nw" "nw_links nw"] show ?thesis by (simp add: n nodes_def nw_links_def nw_wake_def w_wake_def)
qed

lemma network_event_run:
  assumes "network_event env now c nw = Inr nw'" "flow_wired nw"
  shows "node_run (nodes nw, nw_links nw) (nodes nw', nw_links nw') \<and> flow_wired nw'"
proof -
  have "node_run (nodes nw, nw_links nw) (nodes nw', nw_links nw') \<and> length (m_routers nw') = length (m_routers nw)"
    using assms router_event_run output_unit_event_run ni_event_run link_event_run trace_event_run
    by (cases c) (auto simp: flow_wired_def)
  then show ?thesis using flow_wired_run [OF _ assms(2)] by blast
qed

section \<open>Runs\<close>

text \<open>Any number of wake-ups, of any objects at any times and in any surroundings.\<close>

definition run_events :: "(net_env \<times> tick \<times> cref) list \<Rightarrow> network \<Rightarrow> network res" where
  "run_events evs nw = rfold (\<lambda>(env, now, c). network_event env now c) evs nw"

lemma run_events_nodes:
  assumes "run_events evs nw = Inr nw'" "flow_wired nw"
  shows "flow_wired nw' \<and> node_run (nodes nw, nw_links nw) (nodes nw', nw_links nw')"
proof (rule rfold_inv [OF assms(1) [unfolded run_events_def]])
  fix e nw1 nw2
  assume "(case e of (env, now, c) \<Rightarrow> network_event env now c) nw1 = Inr nw2"
    and "flow_wired nw1 \<and> node_run (nodes nw, nw_links nw) (nodes nw1, nw_links nw1)"
  then have "node_run (nodes nw1, nw_links nw1) (nodes nw2, nw_links nw2) \<and> flow_wired nw2"
      "node_run (nodes nw, nw_links nw) (nodes nw1, nw_links nw1)"
    using network_event_run [of _ _ _ nw1 nw2] by (cases e; auto)+
  then show "flow_wired nw2 \<and> node_run (nodes nw, nw_links nw) (nodes nw2, nw_links nw2)"
    using flow_run_trans by blast
qed (simp add: assms(2) flow_refl)

text \<open>
  A hop: output port \<open>q\<close> of node \<open>a\<close> sends flits of virtual channel \<open>v\<close> over link \<open>l\<close> to input port
  \<open>i\<close> of node \<open>b\<close>, and the credits come back over link \<open>c\<close>.
\<close>

definition hop :: "nat \<Rightarrow> int \<Rightarrow> nat \<Rightarrow> int \<Rightarrow> int \<Rightarrow> int \<Rightarrow> int \<Rightarrow> network \<Rightarrow> bool" where
  "hop a q b i l c v nw = (let ss = nodes nw in
     a < length ss \<and> b < length ss \<and> node_out (ss ! a) q v \<and> node_in (ss ! b) i v \<and> 0 \<le> l \<and> 0 \<le> c \<and>
     node_flit_out (ss ! a) q = l \<and> node_flit_in (ss ! b) i = l \<and> node_credit_out (ss ! b) i = c \<and> node_credit_in (ss ! a) q = c \<and>
     l \<in> node_reads (ss ! b) \<and> c \<in> node_reads (ss ! a) \<and> l \<in> set (feed_links (ss ! a)) \<and> c \<in> set (feed_links (ss ! b)))"

text \<open>
  Credits and flits of the sender that are not yet on the link, flits on the link, flits and credits
  the receiver holds, credits on the way back.
\<close>

definition hop_total :: "nat \<Rightarrow> int \<Rightarrow> nat \<Rightarrow> int \<Rightarrow> int \<Rightarrow> int \<Rightarrow> int \<Rightarrow> network \<Rightarrow> int" where
  "hop_total a q b i l c v nw =
     node_out_load (nodes nw ! a) q v + on_link (nw_links nw) l v + node_in_load (nodes nw ! b) i v + on_link (nw_links nw) c v"

lemma hop_eq:
  "hop a q b i l c v nw = nf.channel a q b i l c v (nodes nw)"
  "hop_total a q b i l c v nw = nf.channel_load a q b i l c v (nodes nw, nw_links nw)"
  by (simp_all add: hop_def nf.channel_def hop_total_def nf.channel_load_def Let_def)

end
