(* ===== verification/Garnet_Network_Props.thy ===== *)
theory Garnet_Network_Props
  imports Garnet_Network_Run
begin

text \<open>
  Properties of runs of a whole network, with a small network of one router and two interfaces,
  built by the calls the topology makes, to apply them to.
\<close>

section \<open>A small network\<close>

definition demo_params :: net_params where
  "demo_params = \<lparr>m_num_rows = 0, m_num_cols = 0, m_ni_flit_size = 16, m_max_vcs_per_vnet = 0, m_buffers_per_ctrl_vc = 2,
     m_buffers_per_data_vc = 2, m_routing_algorithm = 0, m_virtual_networks = 1, m_vnet_type = [DATA_VNET], m_ordered = [False]\<rparr>"

definition demo_link :: "int \<Rightarrow> basic_link" where
  "demo_link i = \<lparr>bl_id = i, bl_latency = 1, bl_weight = 1, bl_vnets = []\<rparr>"

definition demo_dest :: "int \<Rightarrow> net_dest" where
  "demo_dest i = \<lparr>m_bits = [\<lparr>m_nSize = 2, bits = [i = 0, i = 1]\<rparr>]\<rparr>"

definition demo_ext :: "int \<Rightarrow> GarnetExtLink" where
  "demo_ext k = GarnetExtLink_new (k, k + 1) (k + 2, k + 3) (False, False) (False, False) (0, 0) (0, 0) (0, 0) (0, 0)"

definition demo_calls :: "make_call list" where
  "demo_calls =
     [MakeExtInLink 0 0 (demo_link 0) [demo_dest 0], MakeExtOutLink 0 0 (demo_link 0) [demo_dest 0],
      MakeExtInLink 1 0 (demo_link 1) [demo_dest 1], MakeExtOutLink 0 1 (demo_link 1) [demo_dest 1]]"

definition demo_bare :: "network_base \<Rightarrow> network" where
  "demo_bare nb =
     \<lparr>nw_base = nb, nw_params = demo_params, m_routers = [Router_new 0 1 1 1 16], m_nis = [NI_new 0 1 100, NI_new 1 1 100],
      nw_world = \<lparr>w_links = map (\<lambda>i. NetworkLink_new i 1 1 [] 16) [0..7], w_bufs = [], w_gn = demo_garnet, w_draws = 0, w_wakes = []\<rparr>,
      ext_link_table = [(0, demo_ext 0), (1, demo_ext 4)], int_link_table = [], m_networklinks = [], m_creditlinks = [],
      m_networkbridges = []\<rparr>"

text \<open>The network with two records of a trace waiting at the first interface.\<close>

definition demo_rec :: "tick \<Rightarrow> NetworkTraceRecord" where
  "demo_rec t = demo_record\<lparr>tr_valid := True, tr_time := t, tr_src_id := 0, tr_dest_id := 1, tr_num_flits := 1\<rparr>"

definition demo_network :: "network res" where
  "demo_network =
     rbind (Network_new 1 8 64 64 [2] [(0, 0), (0, 1)]) (\<lambda>nb.
     rbind (rfold make_link_call demo_calls (demo_bare nb)) (\<lambda>nw.
     rbind (vmod (m_nis nw) 0 (\<lambda>ni. Inr (ni\<lparr>m_trace_record_queue := [demo_rec 2, demo_rec 3]\<rparr>))) (\<lambda>nis.
     Inr (nw\<lparr>m_routers := map Router_init (m_routers nw), m_nis := nis\<rparr>))))"

definition demo_env :: net_env where
  "demo_env = \<lparr>ne_period = \<lambda>_. 1, ne_rs = demo_rs, ne_rnd = \<lambda>_. (0, 0, 0), ne_route_rnd = \<lambda>_ _. 0, ne_nb = 2, ne_cs = [2],
     ne_scheduled = \<lambda>_ _. False\<rparr>"

definition demo_events :: "(net_env \<times> tick \<times> cref) list" where
  "demo_events = map (\<lambda>(t, c). (demo_env, t, c)) [(4, ToNI 0), (5, ToLink 0), (6, ToRouter 0)]"

text \<open>It is wired for flow control, and a run takes a flit from the interface through the router.\<close>

lemma demo_run:
  "\<exists>nw nw'. demo_network = Inr nw \<and> run_events demo_events nw = Inr nw' \<and> flow_wired nw \<and> hop 1 0 0 0 0 2 0 nw \<and> hop_total 1 0 0 0 0 2 0 nw = 2"
proof -
  have "case demo_network of Inr nw \<Rightarrow> (case run_events demo_events nw of Inr nw' \<Rightarrow> flow_wired nw \<and> hop 1 0 0 0 0 2 0 nw \<and>
      hop_total 1 0 0 0 0 2 0 nw = 2 | Inl _ \<Rightarrow> False) | Inl _ \<Rightarrow> False" by code_simp
  then show ?thesis by (auto split: sum.splits)
qed

section \<open>Flow control\<close>

lemma run_events_hop:
  assumes "run_events evs nw = Inr nw'" "flow_wired nw" "hop a q b i l c v nw"
  shows "hop a q b i l c v nw'" "hop_total a q b i l c v nw' = hop_total a q b i l c v nw" "nf.flow_inv (nodes nw', nw_links nw')"
  using run_events_nodes [OF assms(1,2)] assms(2,3)
    nf.run_channel [of "(nodes nw, nw_links nw)" "(nodes nw', nw_links nw')" a q b i l c v]
  by (simp_all add: hop_eq flow_wired_def nodes_ok_eq)

text \<open>
  C1. Credits are conserved. In a network wired port to port without bridges, take any hop from an
  output port of a router or interface to an input port of another. Whatever wake-ups of
  routers, output units, interfaces, links and the trace reader follow each other, in any order and
  at any times, the sender's credits for a virtual channel, its flits on the way out, the flits on
  the link, the flits in the receiver's buffer and the credits on their way back add up to the
  same number.
\<close>

theorem credits_conserved:
  assumes "run_events evs nw = Inr nw'" "flow_wired nw" "hop a q b i l c v nw"
  shows "flow_wired nw' \<and> hop a q b i l c v nw' \<and> hop_total a q b i l c v nw' = hop_total a q b i l c v nw"
  using run_events_hop [OF assms] run_events_nodes [OF assms(1,2)] by blast

theorem credits_conserved_witness:
  "\<exists>nw nw'. demo_network = Inr nw \<and> run_events demo_events nw = Inr nw' \<and> flow_wired nw' \<and> hop_total 1 0 0 0 0 2 0 nw' = 2"
proof -
  obtain nw nw' where r: "demo_network = Inr nw" "run_events demo_events nw = Inr nw'" "flow_wired nw" "hop 1 0 0 0 0 2 0 nw"
      "hop_total 1 0 0 0 0 2 0 nw = 2" using demo_run by blast
  then show ?thesis using credits_conserved [OF r(2-4)] by auto
qed

text \<open>
  C2. No buffer overflows and no credit counter runs over. At every moment of every run, the
  credits of the sender are not negative, and the flits in the receiver's buffer and on the link
  together with the sender's credits and the credits on their way back are at most the number of
  buffers the hop started with. So a flit that is sent finds a free place in the receiver, and a
  credit that arrives leaves the sender's counter within its maximum (the assertion of
  \<open>OutVcState::increment_credit\<close>).
\<close>

theorem buffers_never_overflow:
  assumes "run_events evs nw = Inr nw'" "flow_wired nw" "hop a q b i l c v nw"
  shows "0 \<le> node_credits (nodes nw' ! a) q v \<and>
    node_held (nodes nw' ! b) i v + on_link (nw_links nw') l v + on_link (nw_links nw') c v + node_credits (nodes nw' ! a) q v
      \<le> hop_total a q b i l c v nw"
proof -
  note r = run_events_hop [OF assms]
  have "node_inv (length (nw_links nw')) (nodes nw' ! a)" "node_inv (length (nw_links nw')) (nodes nw' ! b)"
      "node_out (nodes nw' ! a) q v" "node_in (nodes nw' ! b) i v"
    using r(1,3) by (auto simp: nf.flow_inv_def hop_def Let_def)
  note bd = nf.bounds(1) [OF this(1,3)] nf.bounds(2) [OF this(2,4)]
  then show ?thesis using r(2) by (simp add: hop_total_def)
qed

theorem buffers_never_overflow_witness:
  "\<exists>nw nw'. demo_network = Inr nw \<and> run_events demo_events nw = Inr nw' \<and>
     node_held (nodes nw' ! 0) 0 0 + on_link (nw_links nw') 0 0 + on_link (nw_links nw') 2 0 + node_credits (nodes nw' ! 1) 0 0 \<le> 2"
proof -
  obtain nw nw' where r: "demo_network = Inr nw" "run_events demo_events nw = Inr nw'" "flow_wired nw" "hop 1 0 0 0 0 2 0 nw"
      "hop_total 1 0 0 0 0 2 0 nw = 2" using demo_run by blast
  then show ?thesis using buffers_never_overflow [OF r(2-4)] by auto
qed

end
