(* ===== verification/Garnet_Bridge_Props.thy ===== *)
theory Garnet_Bridge_Props
  imports Garnet_Bridge
begin

text \<open>
  Properties of bridges that change the width of a link. A packet of wide flits goes through a
  serialiser and becomes a packet of narrow ones; a deserialiser at the other end of the link
  restores it; and the two tell the bridges that carry the credits how many flits one flit became.
\<close>

section \<open>Packets of a width\<close>

text \<open>The quotient rounded up.\<close>

definition cl :: "int \<Rightarrow> int \<Rightarrow> int" where
  "cl a b = (a + b - 1) div b"

lemma int_div_iff: "x div b = c \<longleftrightarrow> c * b \<le> x \<and> x < (c + 1) * b" if "0 < b" for x b c :: int
proof
  assume "x div b = c"
  then have "x = c * b + x mod b" using div_mult_mod_eq [of x b] by simp
  moreover have "0 \<le> x mod b" "x mod b < b" "(c + 1) * b = c * b + b" using that by (simp_all add: algebra_simps)
  ultimately show "c * b \<le> x \<and> x < (c + 1) * b" by linarith
next
  assume "c * b \<le> x \<and> x < (c + 1) * b"
  then show "x div b = c" by (intro int_div_pos_eq [where r = "x - b * c"]) (auto simp: algebra_simps)
qed

lemma cl_iff: "0 < b \<Longrightarrow> cl a b = c \<longleftrightarrow> (c - 1) * b < a \<and> a \<le> c * b"
  unfolding cl_def by (subst int_div_iff) (auto simp: algebra_simps)

lemma cl_bounds: "0 < b \<Longrightarrow> (cl a b - 1) * b < a \<and> a \<le> cl a b * b"
  using cl_iff [of b a "cl a b"] by simp

lemma cl_pos: "0 < a \<Longrightarrow> 0 < b \<Longrightarrow> 0 < cl a b"
  using cl_bounds [of b a] by (smt (verit) mult_nonneg_nonpos mult_nonpos_nonneg)

lemma cl_eqs [simp]:
  "0 < b \<Longrightarrow> ceil_div_int a b = Inr (cl a b)" "0 < b \<Longrightarrow> floor_div_int a b = Inr (a div b)"
  "0 < b \<Longrightarrow> 0 < a \<Longrightarrow> divCeilF a b = Inr (cl a b)"
proof -
  assume b: "0 < b"
  have "- ((- a) div b) = cl a b"
    using b int_div_iff [of b "- a" "- cl a b"] cl_bounds [OF b, of a] by (auto simp: algebra_simps)
  then show "ceil_div_int a b = Inr (cl a b)" using b by (simp add: ceil_div_int_def)
  show "floor_div_int a b = Inr (a div b)" using b by (simp add: floor_div_int_def)
  show "0 < a \<Longrightarrow> divCeilF a b = Inr (cl a b)" using b by (simp add: divCeilF_def cdiv_nonneg cl_def)
qed

lemma cl_multiple: "0 < w \<Longrightarrow> cl (w * k) w = k"
  by (subst cl_iff) (simp_all add: algebra_simps)

lemma cl_mult:
  assumes "0 < w" "0 < k"
  shows "cl s (w * k) = cl (cl s w) k"
proof -
  let ?m = "cl s w" and ?n = "cl (cl s w) k"
  have b: "(?m - 1) * w < s" "s \<le> ?m * w" "(?n - 1) * k \<le> ?m - 1" "?m \<le> ?n * k"
    using cl_bounds [OF assms(1), of s] cl_bounds [OF assms(2), of ?m] by simp_all
  have "(?n - 1) * (w * k) \<le> (?m - 1) * w" using mult_right_mono [OF b(3), of w] assms by (simp only: mult_ac)
  moreover have "?m * w \<le> ?n * (w * k)" using mult_right_mono [OF b(4), of w] assms by (simp only: mult_ac)
  ultimately show ?thesis using b(1,2) assms by (subst cl_iff) (simp, linarith)
qed

text \<open>
  What a flit is apart from its times and the route it has taken so far; and flit \<open>i\<close> of the
  packet that a message is cut into when flits have the width \<open>W\<close>. The first argument gives the
  packet, the virtual channel, the message and its size.
\<close>

definition bare :: "flit \<Rightarrow> flit" where
  "bare f = f\<lparr>m_time := 0, m_enqueue_time := 0, m_dequeue_time := 0, src_delay := None, m_stage := (I_STAGE, 0), m_outport := None\<rparr>"

definition cut_flit :: "flit \<Rightarrow> int \<Rightarrow> int \<Rightarrow> flit" where
  "cut_flit f W i = flit_new (m_packet_id f) i (m_vc f) (m_vnet f) (m_route f) (cl (msgSize f) W) (m_msg_ptr f) (msgSize f) (word_of_int W) 0"

definition packet :: "flit \<Rightarrow> int \<Rightarrow> flit list" where
  "packet f W = map (cut_flit f W) [0..cl (msgSize f) W - 1]"

lemma bareD:
  assumes "bare g = cut_flit f W i"
  shows "m_width g = word_of_int W" "msgSize g = msgSize f" "m_packet_id g = m_packet_id f" "m_id g = i" "m_vnet g = m_vnet f"
    "m_vc g = m_vc f" "m_route g = m_route f" "m_msg_ptr g = m_msg_ptr f" "m_type g = flit_type_of i (cl (msgSize f) W)"
    "m_is_free_signal g = None"
  using assms by (simp_all add: bare_def cut_flit_def flit_new_def flit.defs(1) flit.ext_inject) (cases g; simp)+

lemma bare_new [simp]:
  "bare ((flit_new p i vc vn r sz msg ms bw t)\<lparr>m_enqueue_time := a, src_delay := d\<rparr>) = flit_new p i vc vn r sz msg ms bw 0"
  "bare (f\<lparr>m_time := t\<rparr>) = bare f"
  by (simp_all add: bare_def flit_new_def)

lemma uint_small: "0 \<le> a \<Longrightarrow> a < 2 ^ 32 \<Longrightarrow> uint (word_of_int a :: u32) = a"
  by (simp add: uint_word_of_int)

lemma width_word:
  assumes "0 < w" "w < W" "W < 2 ^ 31"
  shows "(word_of_int w :: u32) < word_of_int W" "uint (word_of_int w :: u32) = w" "uint (word_of_int W :: u32) = W"
    "divCeil32 (word_of_int W) (word_of_int w) = Inr (word_of_int (cl W w))" "sint (word_of_int (cl W w) :: u32) = cl W w"
proof -
  show u: "uint (word_of_int w :: u32) = w" "uint (word_of_int W :: u32) = W" using assms by (intro uint_small; simp)+
  show "(word_of_int w :: u32) < word_of_int W" using u assms(2) by (simp add: word_less_def)
  have s: "(word_of_int W + word_of_int w - 1 :: u32) = word_of_int (W + w - 1)" by simp
  have "uint (word_of_int (W + w - 1) :: u32) = W + w - 1" using assms by (intro uint_small) simp_all
  then have "(word_of_int W + word_of_int w - 1 :: u32) div word_of_int w = word_of_int (cl W w)"
    unfolding s word_div_def u(1) cl_def by simp
  moreover have "(word_of_int w :: u32) \<noteq> 0" using u(1) assms(1) by auto
  ultimately show "divCeil32 (word_of_int W) (word_of_int w) = Inr (word_of_int (cl W w))" by (simp add: divCeil32_def)
  have "(cl W w - 1) * 1 \<le> (cl W w - 1) * w" using assms(1) cl_pos [of W w] assms(2) by (intro mult_left_mono) simp_all
  then have "0 < cl W w" "cl W w < 2 ^ 31" using assms cl_pos [of W w] cl_bounds [of w W] by simp_all
  then show "sint (word_of_int (cl W w) :: u32) = cl W w" by (simp add: sint_uint uint_small signed_take_bit_int_eq_self)
qed

text \<open>One part of a wide flit: the number of the narrow flit must lie within the packet.\<close>

lemma serialize_part_cut:
  assumes w: "0 < w" "w < W" "W < 2 ^ 31" and s: "0 < msgSize f" and g: "bare g = cut_flit f W i"
  shows "i * cl W w + j < cl (msgSize f) w \<Longrightarrow>
      \<exists>h. serialize j n (word_of_int w) g = Inr h \<and> bare h = cut_flit f w (i * cl W w + j)"
    and "cl (msgSize f) w \<le> i * cl W w + j \<Longrightarrow> serialize j n (word_of_int w) g = Inl Assertion"
  using w(1) s by (simp_all add: serialize_def flit_serialize_def bareD [OF g] width_word [OF w] cut_flit_def)

lemma deserialize_cut:
  assumes w: "0 < w" "1 < k" "W = w * k" "W < 2 ^ 31" and s: "0 < msgSize f" and g: "bare g = cut_flit f w j"
    and j: "0 \<le> j" "j < cl (msgSize f) w"
  shows "\<exists>h. deserialize d n (word_of_int W) g = Inr h \<and> bare h = cut_flit f W (j div k)"
proof -
  have W: "0 < W" "w < W" "W < 2 ^ 31" using w by (simp_all add: mult_less_cancel_left1)
  note d = bareD [OF g] and ww = width_word [OF w(1) W(2,3)]
  have "cl W w = k" using w by (simp add: cl_multiple)
  moreover have c: "cl (j + 1) k - 1 = j div k" using w(2) div_add_self2 [of k j] by (simp add: cl_def)
  moreover have "j div k < cl (msgSize f) W"
  proof -
    have "cl (j + 1) k \<le> cl (cl (msgSize f) w) k" using j w(2) unfolding cl_def by (intro zdiv_mono1) auto
    then show ?thesis using c cl_mult [OF w(1), of k "msgSize f"] w(2,3) by simp
  qed
  ultimately show ?thesis using j w(1,2) s W(1) by (simp add: deserialize_def flit_deserialize_def d ww cut_flit_def)
qed

section \<open>The state of a bridge\<close>

text \<open>
  Bridge \<open>self\<close> changes flits of width \<open>cur\<close> to the width \<open>target\<close> and reports to the bridge
  \<open>co\<close>. On virtual channel \<open>vc\<close> it has passed on \<open>sent\<close> bits in \<open>fsent\<close> flits of the packet under
  way, \<open>q\<close> are the numbers the other bridge has been told and not yet used, and \<open>items\<close> are the
  flits in its buffer.
\<close>

definition serdes :: "int \<Rightarrow> int \<Rightarrow> int \<Rightarrow> int \<Rightarrow> int \<Rightarrow> int \<Rightarrow> int \<Rightarrow> int list \<Rightarrow> flit list \<Rightarrow> NetworkLink list \<Rightarrow> bool" where
  "serdes self co vc target cur sent fsent q items links =
     (0 \<le> self \<and> self < int (length links) \<and> 0 \<le> co \<and> co < int (length links) \<and> co \<noteq> self \<and>
      (case nl_bridge (links ! nat self) of None \<Rightarrow> False
       | Some b \<Rightarrow> enSerDes b \<and> coBridge b = Some co \<and> 0 \<le> vc \<and> vc < int (length (lenBuffer b)) \<and>
           vc < int (length (sizeSent b)) \<and> vc < int (length (flitsSent b)) \<and>
           sizeSent b ! nat vc = sent \<and> flitsSent b ! nat vc = fsent) \<and>
      (case nl_bridge (links ! nat co) of None \<Rightarrow> False
       | Some c \<Rightarrow> vc < int (length (extraCredit c)) \<and> extraCredit c ! nat vc = q) \<and>
      bridge_widths self links = Inr (target, cur) \<and> link_consumer (links ! nat self) \<noteq> None \<and>
      map bare (link_items (links ! nat self)) = items)"

text \<open>The widths depend only on what a bridge never changes.\<close>

lemma bridge_widths_cong:
  assumes "map bitWidth links' = map bitWidth links" "0 \<le> self" "self < int (length links)"
    and "nl_bridge (links ! nat self) = Some b" "nl_bridge (links' ! nat self) = Some b'" "nLink b' = nLink b" "mType b' = mType b"
  shows "bridge_widths self links' = bridge_widths self links"
proof -
  have len: "length links' = length links" using arg_cong [OF assms(1), of length] by simp
  have bw: "bitWidth (links' ! nat i) = bitWidth (links ! nat i)" if "0 \<le> i" "i < int (length links)" for i
    using assms(1) that len by (metis nat_less_iff nth_map)
  show ?thesis
  proof (cases "0 \<le> nLink b \<and> nLink b < int (length links)")
    case True
    then show ?thesis using assms(2-7) bw len by (simp add: bridge_widths_def get_bridge_def vget_ok)
  next
    case False
    then show ?thesis using assms(2-7) len by (auto simp: bridge_widths_def get_bridge_def vget_ok vget_def)
  qed
qed

lemma map_bitWidth_update: "bitWidth l' = bitWidth (links ! i) \<Longrightarrow> map bitWidth (links[i := l']) = map bitWidth links"
  by (metis list_update_id map_update)

text \<open>The bridge changes its own accounts.\<close>

lemma serdes_put:
  assumes "serdes self co vc target cur sent fsent q items links" "nl_bridge (links ! nat self) = Some b"
    and b': "b' = b\<lparr>lenBuffer := lens, sizeSent := (sizeSent b)[nat vc := sent'], flitsSent := (flitsSent b)[nat vc := fsent']\<rparr>"
    and lens: "vc < int (length lens)"
  shows "\<exists>links'. put_bridge self b' links = Inr links' \<and> serdes self co vc target cur sent' fsent' q items links' \<and>
    nl_bridge (links' ! nat self) = Some b'"
proof -
  let ?l = "links ! nat self"
  let ?ls = "links[nat self := ?l\<lparr>nl_bridge := Some b'\<rparr>]"
  have r: "0 \<le> self" "self < int (length links)" "nat co \<noteq> nat self" using assms(1) by (auto simp: serdes_def)
  have "bridge_widths self ?ls = bridge_widths self links"
    by (rule bridge_widths_cong [OF map_bitWidth_update _ _ assms(2), where b' = b']) (use r in \<open>simp_all add: b' nat_less_iff\<close>)
  then have "serdes self co vc target cur sent' fsent' q items ?ls"
    using assms(1,2) r lens by (simp add: serdes_def b' nat_less_iff link_items_def)
  moreover have "put_bridge self b' links = Inr ?ls" using r by (simp add: put_bridge_def mod_link_def vmod_ok)
  ultimately show ?thesis using r by (simp add: nat_less_iff)
qed

text \<open>The bridge sends a flit.\<close>

lemma serdes_schedule:
  assumes "serdes self co vc target cur sent fsent q items links" "nl_bridge (links ! nat self) = Some b"
  shows "\<exists>links' ws t. NetworkBridge_scheduleFlit per now f lat self links = Inr (links', ws) \<and>
    serdes self co vc target cur sent fsent q (items @ [bare f]) links' \<and> nl_bridge (links' ! nat self) = Some (b\<lparr>lastScheduledAt := t\<rparr>)"
proof -
  let ?l = "links ! nat self"
  have r: "0 \<le> self" "self < int (length links)" "nat co \<noteq> nat self" using assms(1) by (auto simp: serdes_def)
  obtain c where c: "link_consumer ?l = Some c" using assms(1) by (auto simp: serdes_def)
  define t where "t = max (lastScheduledAt b + cyclesToTicks (per c) 1) (edge_at (per c) now (if enCdc b then lat + cdcLatency b else lat))"
  let ?ls = "links[nat self := ?l\<lparr>linkBuffer := flitBuffer_insert (f\<lparr>m_time := t\<rparr>) (linkBuffer ?l), nl_bridge := Some (b\<lparr>lastScheduledAt := t\<rparr>)\<rparr>]"
  have "bridge_widths self ?ls = bridge_widths self links"
    by (rule bridge_widths_cong [OF map_bitWidth_update _ _ assms(2), where b' = "b\<lparr>lastScheduledAt := t\<rparr>"]) (use r in \<open>simp_all add: nat_less_iff\<close>)
  then have "serdes self co vc target cur sent fsent q (items @ [bare f]) ?ls"
    using assms r by (auto simp: serdes_def nat_less_iff link_items_def)
  moreover have "NetworkBridge_scheduleFlit per now f lat self links = Inr (?ls, [(c, At t)])"
    using r assms(2) c by (simp add: NetworkBridge_scheduleFlit_def get_bridge_def vget_ok vset_ok t_def Let_def)
  ultimately show ?thesis using r by (auto simp: nat_less_iff)
qed

text \<open>The other bridge is told a number of flits.\<close>

lemma serdes_neutralize:
  assumes "serdes self co vc target cur sent fsent q items links" "coBridge b = Some co"
  shows "\<exists>links'. co_neutralize vc n b links = Inr links' \<and> serdes self co vc target cur sent fsent (q @ [n]) items links' \<and>
    links' ! nat self = links ! nat self"
proof -
  let ?l = "links ! nat co"
  obtain c where c: "nl_bridge ?l = Some c" "vc < int (length (extraCredit c))" "extraCredit c ! nat vc = q"
    using assms(1) by (auto simp: serdes_def split: option.splits)
  obtain b0 where b0: "nl_bridge (links ! nat self) = Some b0" using assms(1) by (auto simp: serdes_def split: option.splits)
  have r: "0 \<le> self" "self < int (length links)" "0 \<le> co" "co < int (length links)" "nat co \<noteq> nat self" "0 \<le> vc"
    using assms(1) b0 by (auto simp: serdes_def)
  let ?c = "c\<lparr>extraCredit := (extraCredit c)[nat vc := q @ [n]]\<rparr>"
  let ?ls = "links[nat co := ?l\<lparr>nl_bridge := Some ?c\<rparr>]"
  have "bridge_widths self ?ls = bridge_widths self links"
    by (rule bridge_widths_cong [OF map_bitWidth_update _ _ b0]) (use r b0 in \<open>simp_all add: nat_less_iff\<close>)
  then have "serdes self co vc target cur sent fsent (q @ [n]) items ?ls"
    using assms(1) r b0 c by (simp add: serdes_def nat_less_iff link_items_def)
  moreover have "co_neutralize vc n b links = Inr ?ls"
    using r c assms(2) by (simp add: co_neutralize_def NetworkBridge_neutralize_def get_bridge_def put_bridge_def mod_link_def vget_ok vmod_ok)
  ultimately show ?thesis using r by simp
qed

section \<open>The serialiser\<close>

text \<open>The number of narrow flits that wide flit \<open>i\<close> of a packet becomes.\<close>

definition parts_of :: "flit \<Rightarrow> int \<Rightarrow> int \<Rightarrow> int \<Rightarrow> int" where
  "parts_of f w k i = (if i < cl (msgSize f) (w * k) - 1 then k else cl (msgSize f) w - i * k)"

lemma flit_type_cases:
  assumes "0 \<le> i" "i < n"
  shows "i < n - 1 \<Longrightarrow> flit_type_of i n = HEAD \<or> flit_type_of i n = BODY"
    "i = n - 1 \<Longrightarrow> flit_type_of i n = TAIL \<or> flit_type_of i n = HEAD_TAIL"
  using assms by (auto simp: flit_type_of_def)

lemma wide_bounds:
  assumes "0 < w" "1 < k" "0 < S"
  shows "(cl S (w * k) - 1) * k < cl S w" "cl S w \<le> cl S (w * k) * k" "0 < cl S (w * k)"
  using cl_bounds [of k "cl S w"] cl_mult [of w k S] assms cl_pos [of S "w * k"] by simp_all

lemma parts_of_range:
  assumes "0 < w" "1 < k" "0 < msgSize f" "0 \<le> i" "i < cl (msgSize f) (w * k)"
  shows "0 < parts_of f w k i" "parts_of f w k i \<le> k" "i * k + parts_of f w k i = min ((i + 1) * k) (cl (msgSize f) w)"
proof -
  note b = wide_bounds [OF assms(1-3)]
  let ?n = "cl (msgSize f) (w * k)"
  have e: "(i + 1) * k = i * k + k" "?n * k = (?n - 1) * k + k" by (simp_all add: algebra_simps)
  have "0 < parts_of f w k i \<and> parts_of f w k i \<le> k \<and> i * k + parts_of f w k i = min ((i + 1) * k) (cl (msgSize f) w)"
  proof (cases "i < ?n - 1")
    case True
    then have "(i + 1) * k \<le> (?n - 1) * k" using assms(2) by (intro mult_right_mono) simp_all
    then have "(i + 1) * k \<le> cl (msgSize f) w" using b(1) by linarith
    then show ?thesis using True assms(2) e(1) by (simp add: parts_of_def min_def)
  next
    case False
    then have i: "i = ?n - 1" using assms(5) by simp
    then have "cl (msgSize f) w \<le> (i + 1) * k" "i * k < cl (msgSize f) w" using b(1,2) by simp_all
    then show ?thesis using False e(1) by (simp add: parts_of_def min_def)
  qed
  then show "0 < parts_of f w k i" "parts_of f w k i \<le> k" "i * k + parts_of f w k i = min ((i + 1) * k) (cl (msgSize f) w)"
    by blast+
qed

lemma serialize_count_cut:
  assumes w: "0 < w" "1 < k" "0 < msgSize f" and g: "bare g = cut_flit f (w * k) i" and i: "0 \<le> i" "i < cl (msgSize f) (w * k)"
    and b: "0 \<le> m_vc f" "m_vc f < int (length (sizeSent b))" "m_vc f < int (length (flitsSent b))"
      "sizeSent b ! nat (m_vc f) = i * (w * k)"
  shows "\<exists>sent fsent. serialize_count w (w * k) g b = Inr (parts_of f w k i,
      b\<lparr>sizeSent := (sizeSent b)[nat (m_vc f) := sent], flitsSent := (flitsSent b)[nat (m_vc f) := fsent]\<rparr>) \<and>
    sent = (if i < cl (msgSize f) (w * k) - 1 then (i + 1) * (w * k) else 0) \<and>
    (i = cl (msgSize f) (w * k) - 1 \<longrightarrow> fsent = 0)"
proof -
  note d = bareD [OF g]
  let ?n = "cl (msgSize f) (w * k)"
  consider (inner) "i < ?n - 1" | (last) "i = ?n - 1" using i(2) by linarith
  then show ?thesis
  proof cases
    case inner
    have "((i + 1) * (w * k) - i * (w * k)) div w = k" using w(1) by (simp add: algebra_simps)
    then show ?thesis using inner b w flit_type_cases(1) [OF i inner] i(1)
      by (auto simp: serialize_count_def Let_def d vget_ok vset_ok vmod_ok parts_of_def algebra_simps)
  next
    case last
    have "cl (msgSize f - i * (w * k)) w = cl (msgSize f) w - i * k"
      using w(1) cl_bounds [OF w(1), of "msgSize f"] by (subst cl_iff) (auto simp: algebra_simps)
    then show ?thesis using last b w flit_type_cases(2) [OF i last]
      by (auto simp: serialize_count_def Let_def d vget_ok vset_ok parts_of_def)
  qed
qed

lemma serialize_parts_run:
  assumes w: "0 < w" "w < W" "W < 2 ^ 31" "0 < msgSize f" and g: "bare g = cut_flit f W i"
  shows "\<lbrakk>serdes self co vc w W sent fsent q items links; nl_bridge (links ! nat self) = Some b\<rbrakk> \<Longrightarrow>
    (if \<forall>j\<in>set js. i * cl W w + j < cl (msgSize f) w then
      \<exists>links' ws' t. rfold (serialize_part per now w n g lat self) js (links, ws) = Inr (links', ws') \<and>
        serdes self co vc w W sent fsent q (items @ map (\<lambda>j. cut_flit f w (i * cl W w + j)) js) links' \<and>
        nl_bridge (links' ! nat self) = Some (b\<lparr>lastScheduledAt := t\<rparr>)
     else rfold (serialize_part per now w n g lat self) js (links, ws) = Inl Assertion)"
proof (induction js arbitrary: items links b ws)
  case Nil
  then show ?case by (auto intro: exI [of _ "lastScheduledAt b"])
next
  case (Cons j js)
  show ?case
  proof (cases "i * cl W w + j < cl (msgSize f) w")
    case False
    then show ?thesis using serialize_part_cut(2) [OF w g, of j n] by (simp add: serialize_part_def)
  next
    case True
    obtain h where h: "serialize j n (word_of_int w) g = Inr h" "bare h = cut_flit f w (i * cl W w + j)"
      using serialize_part_cut(1) [OF w g True, of n] by blast
    obtain links1 ws1 t where s: "NetworkBridge_scheduleFlit per now h lat self links = Inr (links1, ws1)"
        "serdes self co vc w W sent fsent q (items @ [bare h]) links1" "nl_bridge (links1 ! nat self) = Some (b\<lparr>lastScheduledAt := t\<rparr>)"
      using serdes_schedule [OF Cons.prems(1,2)] by blast
    have "serialize_part per now w n g lat self j (links, ws) = Inr (links1, ws @ ws1)" using h s(1) by (simp add: serialize_part_def)
    then show ?thesis using Cons.IH [OF s(2,3), of "ws @ ws1"] True h(2) by auto
  qed
qed

lemma map_shift: "map (\<lambda>j. F (a + j)) [0..n - 1] = map F [a..a + n - 1]" for a n :: int
  by (rule nth_equalityI) simp_all

text \<open>
  One wide flit through the serialiser, given the number of parts it is cut into: the parts are
  sent and the other bridge is told their number, unless a part lies beyond the packet.
\<close>

lemma serialize_step:
  assumes w: "0 < w" "w < W" "W < 2 ^ 31" "0 < msgSize f" and g: "bare g = cut_flit f W i"
    and st: "serdes self co (m_vc f) w W sent fsent q items links" and b: "nl_bridge (links ! nat self) = Some b" and p: "0 < p"
    and c: "serialize_count w W g b = Inr (p,
        b\<lparr>sizeSent := (sizeSent b)[nat (m_vc f) := sent'], flitsSent := (flitsSent b)[nat (m_vc f) := fsent']\<rparr>)"
  shows "if i * cl W w + p \<le> cl (msgSize f) w then
      \<exists>links' ws'. NetworkBridge_flitisizeAndSend per now g self links = Inr (links', ws') \<and>
        serdes self co (m_vc f) w W sent' fsent' (q @ [p]) (items @ map (\<lambda>j. cut_flit f w (i * cl W w + j)) [0..p - 1]) links'
    else NetworkBridge_flitisizeAndSend per now g self links = Inl Assertion"
proof -
  let ?vc = "m_vc f"
  have r: "0 \<le> self" "self < int (length links)" "bridge_widths self links = Inr (w, W)" "enSerDes b" "coBridge b = Some co"
      "?vc < int (length (lenBuffer b))" using st b by (auto simp: serdes_def)
  define b1 where "b1 = b\<lparr>sizeSent := (sizeSent b)[nat ?vc := sent'], flitsSent := (flitsSent b)[nat ?vc := fsent']\<rparr>"
  obtain links1 where l1: "put_bridge self b1 links = Inr links1" "serdes self co ?vc w W sent' fsent' q items links1"
      "nl_bridge (links1 ! nat self) = Some b1"
    using serdes_put [OF st b, where b' = b1 and lens = "lenBuffer b" and sent' = sent' and fsent' = fsent'] r(6) by (auto simp: b1_def)
  have ty: "m_type g \<noteq> CREDIT" "m_vc g = ?vc" using bareD [OF g] by (auto simp: flit_type_of_def)
  have "get_bridge self links = Inr b" using b r by (simp add: get_bridge_def vget_ok)
  then have e: "NetworkBridge_flitisizeAndSend per now g self links =
      rbind (rfold (serialize_part per now w p g (serDesLatency b1) self) [0..p - 1] (links1, [])) (\<lambda>(links2, ws).
      rbind (co_neutralize ?vc p b1 links2) (\<lambda>links3. Inr (links3, ws)))"
    using r(3,4) w(1,2) c l1(1) ty p by (simp add: NetworkBridge_flitisizeAndSend_def bridge_serialize_def b1_def [symmetric])
  note run = serialize_parts_run [OF w g l1(2,3), of "[0..p - 1]" per now p "serDesLatency b1" "[]"]
  show ?thesis
  proof (cases "i * cl W w + p \<le> cl (msgSize f) w")
    case True
    then have "\<forall>j\<in>set [0..p - 1]. i * cl W w + j < cl (msgSize f) w" by auto
    then obtain links2 ws2 where l2: "rfold (serialize_part per now w p g (serDesLatency b1) self) [0..p - 1] (links1, []) = Inr (links2, ws2)"
        "serdes self co ?vc w W sent' fsent' q (items @ map (\<lambda>j. cut_flit f w (i * cl W w + j)) [0..p - 1]) links2"
      using run by auto
    have "coBridge b1 = Some co" by (simp add: b1_def r(5))
    from serdes_neutralize [OF l2(2) this, of p] show ?thesis using True l2(1) by (auto simp: e)
  next
    case False
    then have "\<not> (\<forall>j\<in>set [0..p - 1]. i * cl W w + j < cl (msgSize f) w)" using p by (auto intro!: bexI [of _ "p - 1"])
    then show ?thesis using run False by (simp add: e)
  qed
qed

lemma serialize_flit:
  assumes w: "0 < w" "1 < k" "w * k < 2 ^ 31" "0 < msgSize f" and g: "bare g = cut_flit f (w * k) i"
    and i: "0 \<le> i" "i < cl (msgSize f) (w * k)"
    and st: "serdes self co (m_vc f) w (w * k) (i * (w * k)) fsent q items links"
  shows "\<exists>links' ws' fsent'. NetworkBridge_flitisizeAndSend per now g self links = Inr (links', ws') \<and>
    serdes self co (m_vc f) w (w * k) (if i < cl (msgSize f) (w * k) - 1 then (i + 1) * (w * k) else 0) fsent' (q @ [parts_of f w k i])
      (items @ map (cut_flit f w) [i * k..i * k + parts_of f w k i - 1]) links' \<and> (i = cl (msgSize f) (w * k) - 1 \<longrightarrow> fsent' = 0)"
proof -
  let ?p = "parts_of f w k i" and ?vc = "m_vc f"
  obtain b where b: "nl_bridge (links ! nat self) = Some b" "0 \<le> ?vc"
      "?vc < int (length (sizeSent b))" "?vc < int (length (flitsSent b))" "sizeSent b ! nat ?vc = i * (w * k)"
    using st by (auto simp: serdes_def split: option.splits)
  obtain sent fsent1 where c: "serialize_count w (w * k) g b = Inr (?p,
        b\<lparr>sizeSent := (sizeSent b)[nat ?vc := sent], flitsSent := (flitsSent b)[nat ?vc := fsent1]\<rparr>)"
      "sent = (if i < cl (msgSize f) (w * k) - 1 then (i + 1) * (w * k) else 0)" "i = cl (msgSize f) (w * k) - 1 \<longrightarrow> fsent1 = 0"
    using serialize_count_cut [OF w(1,2,4) g i b(2-5)] by blast
  note pr = parts_of_range [OF w(1,2,4) i]
  have W: "w < w * k" "cl (w * k) w = k" using w(1,2) by (simp_all add: mult_less_cancel_left1 cl_multiple)
  have "i * k + ?p \<le> cl (msgSize f) w" using pr(3) by simp
  then show ?thesis using serialize_step [OF w(1) W(1) w(3,4) g st b(1) pr(1) c(1), of per now] c(2,3) map_shift [of "cut_flit f w" "i * k" ?p]
    by (auto simp: W(2))
qed

text \<open>A bridge takes flits one after the other.\<close>

definition send_next :: "(cref \<Rightarrow> tick) \<Rightarrow> tick \<Rightarrow> int \<Rightarrow> flit \<Rightarrow> NetworkLink list \<times> wakes \<Rightarrow> (NetworkLink list \<times> wakes) res" where
  "send_next per now self g = (\<lambda>(links, ws).
     rbind (NetworkBridge_flitisizeAndSend per now g self links) (\<lambda>(links', ws'). Inr (links', ws @ ws')))"

definition bridge_send :: "(cref \<Rightarrow> tick) \<Rightarrow> tick \<Rightarrow> int \<Rightarrow> flit list \<Rightarrow> NetworkLink list \<Rightarrow> (NetworkLink list \<times> wakes) res" where
  "bridge_send per now self gs links = rfold (send_next per now self) gs (links, [])"

lemma upto_append: "a \<le> b \<Longrightarrow> b \<le> c + 1 \<Longrightarrow> [a..b - 1] @ [b..c] = [a..c]" for a b c :: int
  using upto_split1 [of a b c] by (cases "b = c + 1") auto

lemma serialize_run:
  assumes w: "0 < w" "1 < k" "w * k < 2 ^ 31" "0 < msgSize f"
  shows "\<lbrakk>map bare gs = map (cut_flit f (w * k)) [i..cl (msgSize f) (w * k) - 1]; 0 \<le> i; i < cl (msgSize f) (w * k);
      serdes self co (m_vc f) w (w * k) (i * (w * k)) fsent q items links\<rbrakk> \<Longrightarrow>
    \<exists>links' ws'. rfold (send_next per now self) gs (links, ws) = Inr (links', ws') \<and>
      serdes self co (m_vc f) w (w * k) 0 0 (q @ map (parts_of f w k) [i..cl (msgSize f) (w * k) - 1])
        (items @ map (cut_flit f w) [i * k..cl (msgSize f) w - 1]) links'"
proof (induction gs arbitrary: i fsent q items links ws)
  case Nil
  then show ?case by simp
next
  case (Cons g gs)
  let ?n = "cl (msgSize f) (w * k)" and ?m = "cl (msgSize f) w" and ?p = "parts_of f w k i"
  have u: "[i..?n - 1] = i # [i + 1..?n - 1]" using Cons.prems(3) by (simp add: upto_rec1)
  then have g: "bare g = cut_flit f (w * k) i" "map bare gs = map (cut_flit f (w * k)) [i + 1..?n - 1]" using Cons.prems(1) by simp_all
  obtain links1 ws1 fsent1 where s: "NetworkBridge_flitisizeAndSend per now g self links = Inr (links1, ws1)"
      "serdes self co (m_vc f) w (w * k) (if i < ?n - 1 then (i + 1) * (w * k) else 0) fsent1 (q @ [?p])
        (items @ map (cut_flit f w) [i * k..i * k + ?p - 1]) links1" "i = ?n - 1 \<longrightarrow> fsent1 = 0"
    using serialize_flit [OF w g(1) Cons.prems(2,3,4)] by blast
  have st: "send_next per now self g (links, ws) = Inr (links1, ws @ ws1)" using s(1) by (simp add: send_next_def)
  note pr = parts_of_range [OF w(1,2,4) Cons.prems(2,3)]
  have ap: "[i * k..i * k + ?p - 1] @ [i * k + ?p..?m - 1] = [i * k..?m - 1]" using pr by (intro upto_append) auto
  show ?case
  proof (cases "i < ?n - 1")
    case True
    have "(i + 1) * k \<le> ?m"
    proof -
      have "(i + 1) * k \<le> (?n - 1) * k" using True w(2) by (intro mult_right_mono) simp_all
      then show ?thesis using wide_bounds(1) [OF w(1,2,4)] by linarith
    qed
    then have e: "i * k + ?p = (i + 1) * k" using pr(3) by simp
    from Cons.IH [OF g(2) _ _ , of fsent1 "q @ [?p]" "items @ map (cut_flit f w) [i * k..i * k + ?p - 1]" links1 "ws @ ws1"]
    obtain links2 ws2 where "rfold (send_next per now self) gs (links1, ws @ ws1) = Inr (links2, ws2)"
        "serdes self co (m_vc f) w (w * k) 0 0 ((q @ [?p]) @ map (parts_of f w k) [i + 1..?n - 1])
          ((items @ map (cut_flit f w) [i * k..i * k + ?p - 1]) @ map (cut_flit f w) [(i + 1) * k..?m - 1]) links2"
      using s(2) True Cons.prems(2) by auto
    then show ?thesis using st u ap by (auto simp: e map_append [symmetric] simp del: map_append)
  next
    case False
    then have i: "i = ?n - 1" using Cons.prems(3) by simp
    then have "gs = []" using g(2) by simp
    moreover have "i * k + ?p = ?m" using False by (simp add: parts_of_def)
    ultimately show ?thesis using st s(2,3) u i False by auto
  qed
qed

section \<open>The deserialiser\<close>

lemma last_wide:
  assumes "0 < w" "1 < k" "0 < S"
  shows "(cl S w - 1) div k = cl S (w * k) - 1"
  using cl_mult [of w k S] div_add_self2 [of k "cl S w - 1"] assms by (simp add: cl_def [of "cl S w" k] algebra_simps)

lemma next_div: "1 < k \<Longrightarrow> (j + 1) div k = j div k \<or> ((j + 1) div k = j div k + 1 \<and> j + 1 = (j div k + 1) * k)" for j k :: int
proof -
  assume k: "1 < k"
  have j: "j = (j div k) * k + j mod k" "0 \<le> j mod k" "j mod k < k" using k by simp_all
  show ?thesis
  proof (cases "j mod k = k - 1")
    case True
    then have "j + 1 = (j div k) * k + k" using j(1) by linarith
    then have "j + 1 = (j div k + 1) * k" by (simp only: distrib_right mult_1)
    moreover have "(j div k + 1) * k div k = j div k + 1" using k by simp
    ultimately show ?thesis by metis
  next
    case False
    then have "(j div k) * k \<le> j + 1" "j + 1 < (j div k) * k + k" using j by linarith+
    then have "(j + 1) div k = j div k" using k by (subst int_div_iff) (simp_all add: distrib_right)
    then show ?thesis by simp
  qed
qed

lemma narrow_index:
  assumes "0 < w" "1 < k" "0 < msgSize f" "0 \<le> j" "j < cl (msgSize f) w"
  shows "0 \<le> j div k" "j div k < cl (msgSize f) (w * k)"
  using last_wide [OF assms(1-3)] zdiv_mono1 [of j "cl (msgSize f) w - 1" k] assms by (simp_all add: pos_imp_zdiv_nonneg_iff)

text \<open>
  After narrow flit \<open>j\<close> a wide one is complete if it is the last or fills the wide one.
\<close>

definition completes :: "flit \<Rightarrow> int \<Rightarrow> int \<Rightarrow> int \<Rightarrow> bool" where
  "completes f w k j = (j = cl (msgSize f) w - 1 \<or> (j + 1) div k \<noteq> j div k)"

lemma deserialize_count_cut:
  assumes w: "0 < w" "1 < k" "0 < msgSize f" and g: "bare g = cut_flit f w j" and j: "0 \<le> j" "j < cl (msgSize f) w"
    and b: "0 \<le> m_vc f" "m_vc f < int (length (sizeSent b))" "m_vc f < int (length (flitsSent b))"
      "sizeSent b ! nat (m_vc f) = (j div k) * (w * k)" "flitsSent b ! nat (m_vc f) = (j div k) * k"
  shows "\<exists>sent fsent. deserialize_count (w * k) w g b = Inr (if completes f w k j then 1 else 0, j + 1 - (j div k) * k,
      b\<lparr>sizeSent := (sizeSent b)[nat (m_vc f) := sent], flitsSent := (flitsSent b)[nat (m_vc f) := fsent]\<rparr>) \<and>
    sent = (if j < cl (msgSize f) w - 1 then ((j + 1) div k) * (w * k) else 0) \<and>
    fsent = (if j < cl (msgSize f) w - 1 then ((j + 1) div k) * k else 0)"
proof -
  note d = bareD [OF g]
  let ?m = "cl (msgSize f) w"
  consider (inner) "j < ?m - 1" | (last) "j = ?m - 1" using j(2) by linarith
  then show ?thesis
  proof cases
    case inner
    have "((j + 1) * w - (j div k) * (w * k)) div (w * k) = (j + 1) div k - j div k"
    proof -
      have "((j + 1) * w - (j div k) * (w * k)) = w * ((j + 1) - (j div k) * k)" by (simp add: algebra_simps)
      then have "((j + 1) * w - (j div k) * (w * k)) div (w * k) = ((j + 1) - (j div k) * k) div k" using w(1) by simp
      also have "\<dots> = (j + 1) div k - j div k" using w(2) div_mult_self1 [of k "j + 1" "- (j div k)"] by simp
      finally show ?thesis .
    qed
    note q = this
    have ty: "m_type g \<noteq> CREDIT" "m_type g \<noteq> TAIL" "m_type g \<noteq> HEAD_TAIL" using flit_type_cases(1) [OF j inner] by (auto simp: d)
    show ?thesis
    proof (cases "(j + 1) div k = j div k")
      case True
      have "(sizeSent b)[nat (m_vc f) := (j div k) * (w * k)] = sizeSent b" "(flitsSent b)[nat (m_vc f) := (j div k) * k] = flitsSent b"
        using b(4,5) by (metis list_update_id)+
      then show ?thesis using True inner b w(1,2) q ty
        by (simp add: deserialize_count_def Let_def d vget_ok completes_def)
    next
      case False
      then have n: "(j + 1) div k = j div k + 1" "j + 1 = (j div k + 1) * k" using next_div [OF w(2), of j] by auto
      have e: "(j div k) * (w * k) + w * k = (j div k + 1) * (w * k)" by (simp only: distrib_right mult_1)
      show ?thesis using inner b w(1,2) q ty n(1)
        by (simp add: deserialize_count_def Let_def d vget_ok vset_ok completes_def e n(2) [symmetric])
    qed
  next
    case last
    let ?n = "cl (msgSize f) (w * k)"
    have jn: "j div k = ?n - 1" using last_wide [OF w] last by simp
    have "(?n - 1) * (w * k) < msgSize f" "msgSize f \<le> ?n * (w * k)" using cl_bounds [of "w * k" "msgSize f"] w by simp_all
    moreover have "?n * (w * k) = (?n - 1) * (w * k) + w * k" by (simp add: algebra_simps)
    ultimately have q: "cl (msgSize f - (j div k) * (w * k)) (w * k) = 1" unfolding jn using w(1,2) by (subst cl_iff) simp_all
    have ty: "m_type g \<noteq> CREDIT" "m_type g = TAIL \<or> m_type g = HEAD_TAIL" using flit_type_cases(2) [OF j last] by (auto simp: d)
    show ?thesis using last b w(1,2) q ty by (simp add: deserialize_count_def Let_def d vget_ok vset_ok completes_def)
  qed
qed

lemma completed_parts:
  assumes "0 < w" "1 < k" "0 < msgSize f" "0 \<le> j" "j < cl (msgSize f) w" "completes f w k j"
  shows "j + 1 - (j div k) * k = parts_of f w k (j div k)"
proof (cases "j = cl (msgSize f) w - 1")
  case True
  then have "j div k = cl (msgSize f) (w * k) - 1" using last_wide [OF assms(1-3)] by simp
  then show ?thesis using True by (simp add: parts_of_def)
next
  case False
  then have n: "(j + 1) div k = j div k + 1" "j + 1 = (j div k + 1) * k" using assms(6) next_div [OF assms(2), of j] by (auto simp: completes_def)
  have "j div k + 1 \<le> cl (msgSize f) (w * k) - 1"
    using narrow_index(2) [of w k f "j + 1"] assms(1-5) False n(1) by simp
  then show ?thesis using n(2) by (simp add: parts_of_def distrib_right)
qed

text \<open>One narrow flit through the deserialiser.\<close>

lemma deserialize_flit:
  assumes w: "0 < w" "1 < k" "w * k < 2 ^ 31" "0 < msgSize f" and g: "bare g = cut_flit f w j"
    and j: "0 \<le> j" "j < cl (msgSize f) w"
    and st: "serdes self co (m_vc f) (w * k) w ((j div k) * (w * k)) ((j div k) * k) q items links"
  shows "\<exists>links' ws'. NetworkBridge_flitisizeAndSend per now g self links = Inr (links', ws') \<and>
    serdes self co (m_vc f) (w * k) w (if j < cl (msgSize f) w - 1 then ((j + 1) div k) * (w * k) else 0)
      (if j < cl (msgSize f) w - 1 then ((j + 1) div k) * k else 0)
      (q @ (if completes f w k j then [parts_of f w k (j div k)] else []))
      (items @ (if completes f w k j then [cut_flit f (w * k) (j div k)] else [])) links'"
proof -
  let ?vc = "m_vc f" and ?num = "j + 1 - (j div k) * k"
  obtain b where b: "nl_bridge (links ! nat self) = Some b" "enSerDes b" "coBridge b = Some co" "0 \<le> ?vc" "?vc < int (length (lenBuffer b))"
      "?vc < int (length (sizeSent b))" "?vc < int (length (flitsSent b))" "sizeSent b ! nat ?vc = (j div k) * (w * k)"
      "flitsSent b ! nat ?vc = (j div k) * k"
    using st by (auto simp: serdes_def split: option.splits)
  have r: "0 \<le> self" "self < int (length links)" "bridge_widths self links = Inr (w * k, w)" using st by (auto simp: serdes_def)
  obtain sent fsent where c: "deserialize_count (w * k) w g b = Inr (if completes f w k j then 1 else 0, ?num,
        b\<lparr>sizeSent := (sizeSent b)[nat ?vc := sent], flitsSent := (flitsSent b)[nat ?vc := fsent]\<rparr>)"
      "sent = (if j < cl (msgSize f) w - 1 then ((j + 1) div k) * (w * k) else 0)"
      "fsent = (if j < cl (msgSize f) w - 1 then ((j + 1) div k) * k else 0)"
    using deserialize_count_cut [OF w(1,2,4) g j b(4,6-9)] by blast
  define b1 where "b1 = b\<lparr>sizeSent := (sizeSent b)[nat ?vc := sent], flitsSent := (flitsSent b)[nat ?vc := fsent]\<rparr>"
  obtain links1 where l1: "put_bridge self b1 links = Inr links1" "serdes self co ?vc (w * k) w sent fsent q items links1"
      "nl_bridge (links1 ! nat self) = Some b1"
    using serdes_put [OF st b(1), where b' = b1 and lens = "lenBuffer b" and sent' = sent and fsent' = fsent] b(5) by (auto simp: b1_def)
  have gb: "get_bridge self links = Inr b" "get_bridge self links' = Inr b'"
    if "nl_bridge (links' ! nat self) = Some b'" "length links' = length links" for links' b'
    using b(1) r that by (simp_all add: get_bridge_def vget_ok)
  have ty: "m_type g \<noteq> CREDIT" "m_vc g = ?vc" using bareD [OF g] by (auto simp: flit_type_of_def)
  have wk: "w < w * k" using w(1,2) by (simp add: mult_less_cancel_left1)
  show ?thesis
  proof (cases "completes f w k j")
    case False
    then have "NetworkBridge_flitisizeAndSend per now g self links = Inr (links1, [])"
      using b(2) r(3) wk c(1) l1(1) gb(1) [OF b(1) refl]
      by (simp add: NetworkBridge_flitisizeAndSend_def bridge_deserialize_def b1_def [symmetric])
    then show ?thesis using False l1(2) c(2,3) by auto
  next
    case True
    obtain h where h: "deserialize (lenBuffer b ! nat ?vc) ?num (word_of_int (w * k)) g = Inr h" "bare h = cut_flit f (w * k) (j div k)"
      using deserialize_cut [OF w(1,2) refl w(3,4) g j] by blast
    have "coBridge b1 = Some co" by (simp add: b1_def b(3))
    from serdes_neutralize [OF l1(2) this, of ?num] obtain links2 where l2: "co_neutralize ?vc ?num b1 links1 = Inr links2"
        "serdes self co ?vc (w * k) w sent fsent (q @ [?num]) items links2" "links2 ! nat self = links1 ! nat self" by blast
    have b2: "nl_bridge (links2 ! nat self) = Some b1" using l1(3) l2(3) by simp
    define b3 where "b3 = b1\<lparr>lenBuffer := (lenBuffer b1)[nat ?vc := 0]\<rparr>"
    obtain links3 where l3: "put_bridge self b3 links2 = Inr links3" "serdes self co ?vc (w * k) w sent fsent (q @ [?num]) items links3"
        "nl_bridge (links3 ! nat self) = Some b3"
      using serdes_put [OF l2(2) b2, where b' = b3 and lens = "(lenBuffer b)[nat ?vc := 0]" and sent' = sent and fsent' = fsent] b(5)
      by (auto simp: b3_def b1_def)
    obtain links4 ws4 where l4: "NetworkBridge_scheduleFlit per now h (serDesLatency b1) self links3 = Inr (links4, ws4)"
        "serdes self co ?vc (w * k) w sent fsent (q @ [?num]) (items @ [bare h]) links4"
      using serdes_schedule [OF l3(2,3)] by blast
    have lb: "lenBuffer b1 = lenBuffer b" by (simp add: b1_def)
    have "length links2 = length links"
      using l1(1) l2(1) r by (auto simp: put_bridge_def mod_link_def vmod_eq_Inr co_neutralize_def NetworkBridge_neutralize_def rbind_eq_Inr split: option.splits)
    then have g2: "get_bridge self links2 = Inr b1" using gb(2) [OF b2] by simp
    have "NetworkBridge_flitisizeAndSend per now g self links = Inr (links4, ws4)"
      using b(2,4,5) r(3) wk c(1) True l1(1) l2(1) l3(1) l4(1) ty gb(1) [OF b(1) refl] g2 h(1)
      by (simp add: NetworkBridge_flitisizeAndSend_def bridge_deserialize_def b1_def [symmetric] lb vget_ok vset_ok b3_def)
    then show ?thesis using True l4(2) c(2,3) h(2) completed_parts [OF w(1,2,4) j True] by auto
  qed
qed

lemma deserialize_run:
  assumes w: "0 < w" "1 < k" "w * k < 2 ^ 31" "0 < msgSize f"
  shows "\<lbrakk>map bare gs = map (cut_flit f w) [j..cl (msgSize f) w - 1]; 0 \<le> j; j < cl (msgSize f) w;
      serdes self co (m_vc f) (w * k) w ((j div k) * (w * k)) ((j div k) * k) q items links\<rbrakk> \<Longrightarrow>
    \<exists>links' ws'. rfold (send_next per now self) gs (links, ws) = Inr (links', ws') \<and>
      serdes self co (m_vc f) (w * k) w 0 0 (q @ map (parts_of f w k) [j div k..cl (msgSize f) (w * k) - 1])
        (items @ map (cut_flit f (w * k)) [j div k..cl (msgSize f) (w * k) - 1]) links'"
proof (induction gs arbitrary: j q items links ws)
  case Nil
  then show ?case by simp
next
  case (Cons g gs)
  let ?n = "cl (msgSize f) (w * k)" and ?m = "cl (msgSize f) w" and ?i = "j div k"
  let ?c = "\<lambda>x. if completes f w k j then [x] else []"
  have u: "[j..?m - 1] = j # [j + 1..?m - 1]" using Cons.prems(3) by (simp add: upto_rec1)
  then have g: "bare g = cut_flit f w j" "map bare gs = map (cut_flit f w) [j + 1..?m - 1]" using Cons.prems(1) by simp_all
  obtain links1 ws1 where s: "NetworkBridge_flitisizeAndSend per now g self links = Inr (links1, ws1)"
      "serdes self co (m_vc f) (w * k) w (if j < ?m - 1 then ((j + 1) div k) * (w * k) else 0) (if j < ?m - 1 then ((j + 1) div k) * k else 0)
        (q @ ?c (parts_of f w k ?i)) (items @ ?c (cut_flit f (w * k) ?i)) links1"
    using deserialize_flit [OF w g(1) Cons.prems(2-4)] by blast
  have st: "send_next per now self g (links, ws) = Inr (links1, ws @ ws1)" using s(1) by (simp add: send_next_def)
  note ni = narrow_index [OF w(1,2,4) Cons.prems(2,3)]
  show ?case
  proof (cases "j < ?m - 1")
    case True
    have ui: "[?i..?n - 1] = ?c ?i @ [(j + 1) div k..?n - 1]"
      using True ni next_div [OF w(2), of j] by (auto simp: completes_def upto_rec1)
    from Cons.IH [OF g(2), of "q @ ?c (parts_of f w k ?i)" "items @ ?c (cut_flit f (w * k) ?i)" links1 "ws @ ws1"]
    obtain links2 ws2 where "rfold (send_next per now self) gs (links1, ws @ ws1) = Inr (links2, ws2)"
        "serdes self co (m_vc f) (w * k) w 0 0 ((q @ ?c (parts_of f w k ?i)) @ map (parts_of f w k) [(j + 1) div k..?n - 1])
          ((items @ ?c (cut_flit f (w * k) ?i)) @ map (cut_flit f (w * k)) [(j + 1) div k..?n - 1]) links2"
      using s(2) True Cons.prems(2) by auto
    then show ?thesis using st by (cases "completes f w k j") (simp_all add: ui)
  next
    case False
    then have j: "j = ?m - 1" using Cons.prems(3) by simp
    then have "?i = ?n - 1" "gs = []" "completes f w k j" using last_wide [OF w(1,2,4)] g(2) by (simp_all add: completes_def)
    then show ?thesis using st s(2) False by simp
  qed
qed

section \<open>A packet over a narrow link\<close>

section \<open>Widths that do not divide\<close>

text \<open>
  A message of as many wide flits as the narrow width has bits. Every wide flit but the last is
  floored, and the numbers of the narrow flits are a multiple of the quotient rounded up: the last
  part of the last flit is numbered beyond the packet.
\<close>

lemma floor_parts:
  fixes i w W :: int
  assumes "0 < w" "w < W"
  shows "((i + 1) * W - i * W div w * w) div w = (i + 1) * W div w - i * W div w" "i * W div w < (i + 1) * W div w"
proof -
  have "((i + 1) * W + (- (i * W div w)) * w) div w = - (i * W div w) + (i + 1) * W div w" using assms(1) by (subst div_mult_self1) simp_all
  then show "((i + 1) * W - i * W div w * w) div w = (i + 1) * W div w - i * W div w" by (simp add: algebra_simps)
  have "(i * W + 1 * w) div w \<le> (i + 1) * W div w" using assms by (intro zdiv_mono1) (simp_all add: algebra_simps)
  then show "i * W div w < (i + 1) * W div w" using assms(1) div_add_self2 [of w "i * W"] by simp
qed

lemma last_part:
  fixes w W :: int
  assumes "0 < w" "w < W" "\<not> w dvd W"
  shows "W < (w - 1) * cl W w + (W - (w - 1) * W div w)" "0 < W - (w - 1) * W div w"
proof -
  have "(w - 1) * W div w = W + (- W) div w" using assms(1) div_mult_self1 [of w "- W" W] by (simp add: algebra_simps)
  moreover have "(- W) div w = - cl W w" using assms(1) int_div_iff [of w "- W" "- cl W w"] cl_bounds [of w W] by (auto simp: algebra_simps)
  ultimately have e: "W - (w - 1) * W div w = cl W w" by simp
  then show "0 < W - (w - 1) * W div w" using cl_pos [of W w] assms by simp
  have "W \<noteq> cl W w * w" using assms(3) by (metis dvd_triv_right)
  then have "W < cl W w * w" using cl_bounds [of w W] assms(1) by simp
  then show "W < (w - 1) * cl W w + (W - (w - 1) * W div w)" unfolding e by (simp add: algebra_simps)
qed

lemma whole_message:
  assumes "0 < w" "0 < W" "msgSize f = w * W"
  shows "cl (msgSize f) W = w" "cl (msgSize f) w = W"
  using assms cl_multiple [of W w] cl_multiple [of w W] by (simp_all add: mult.commute)

text \<open>A wide flit that is not the last: the parts that fit are sent, or the assertion fails already.\<close>

lemma serialize_odd_flit:
  assumes w: "0 < w" "w < W" "W < 2 ^ 31" "msgSize f = w * W" and g: "bare g = cut_flit f W i" and i: "0 \<le> i" "i < w - 1"
    and st: "serdes self co (m_vc f) w W (i * W div w * w) fsent q items links"
  shows "NetworkBridge_flitisizeAndSend per now g self links = Inl Assertion \<or>
    (\<exists>links' ws' fsent' q' items'. NetworkBridge_flitisizeAndSend per now g self links = Inr (links', ws') \<and>
      serdes self co (m_vc f) w W ((i + 1) * W div w * w) fsent' q' items' links')"
proof -
  let ?vc = "m_vc f" and ?p = "(i + 1) * W div w - i * W div w"
  obtain b where b: "nl_bridge (links ! nat self) = Some b" "0 \<le> ?vc"
      "?vc < int (length (sizeSent b))" "?vc < int (length (flitsSent b))" "sizeSent b ! nat ?vc = i * W div w * w"
    using st by (auto simp: serdes_def split: option.splits)
  have s: "0 < msgSize f" using w by simp
  have ty: "m_type g = HEAD \<or> m_type g = BODY" "m_id g = i" "m_vc g = ?vc"
    using bareD [OF g] i whole_message(1) [OF w(1) _ w(4)] w(1,2) by (auto simp: flit_type_of_def)
  note fp = floor_parts [OF w(1,2), of i]
  have "i * W div w * w + ?p * w = (i + 1) * W div w * w" by (simp add: algebra_simps)
  then have c: "serialize_count w W g b = Inr (?p, b\<lparr>sizeSent := (sizeSent b)[nat ?vc := (i + 1) * W div w * w],
        flitsSent := (flitsSent b)[nat ?vc := flitsSent b ! nat ?vc + ?p]\<rparr>)"
    using b(2-5) ty fp w(1) by (auto simp: serialize_count_def Let_def vget_ok vset_ok vmod_def)
  show ?thesis using serialize_step [OF w(1-3) s g st b(1) _ c, of per now] fp(2) by (auto split: if_splits)
qed

lemma serialize_odd_last:
  assumes w: "0 < w" "w < W" "W < 2 ^ 31" "msgSize f = w * W" "\<not> w dvd W" and g: "bare g = cut_flit f W (w - 1)"
    and st: "serdes self co (m_vc f) w W ((w - 1) * W div w * w) fsent q items links"
  shows "NetworkBridge_flitisizeAndSend per now g self links = Inl Assertion"
proof -
  let ?vc = "m_vc f" and ?p = "W - (w - 1) * W div w"
  obtain b where b: "nl_bridge (links ! nat self) = Some b" "0 \<le> ?vc"
      "?vc < int (length (sizeSent b))" "?vc < int (length (flitsSent b))" "sizeSent b ! nat ?vc = (w - 1) * W div w * w"
    using st by (auto simp: serdes_def split: option.splits)
  have s: "0 < msgSize f" using w by simp
  note m = whole_message [OF w(1) _ w(4)]
  have ty: "m_type g \<noteq> HEAD" "m_type g \<noteq> BODY" "m_type g \<noteq> CREDIT" "m_vc g = ?vc" "msgSize g = w * W"
    using bareD [OF g] m(1) w by (auto simp: flit_type_of_def)
  have "msgSize g - (w - 1) * W div w * w = w * ?p" using ty(5) by (simp add: algebra_simps)
  then have c: "serialize_count w W g b = Inr (?p, b\<lparr>sizeSent := (sizeSent b)[nat ?vc := 0], flitsSent := (flitsSent b)[nat ?vc := 0]\<rparr>)"
    using b(2-5) ty w(1) cl_multiple [OF w(1), of ?p] by (auto simp: serialize_count_def Let_def vget_ok vset_ok)
  show ?thesis using serialize_step [OF w(1-3) s g st b(1) _ c, of per now] last_part [OF w(1,2,5)] m(2) w(1,2) by simp
qed

lemma serialize_odd_run:
  assumes w: "0 < w" "w < W" "W < 2 ^ 31" "msgSize f = w * W" "\<not> w dvd W"
  shows "\<lbrakk>map bare gs = map (cut_flit f W) [i..w - 1]; 0 \<le> i; i < w;
      serdes self co (m_vc f) w W (i * W div w * w) fsent q items links\<rbrakk> \<Longrightarrow>
    rfold (send_next per now self) gs (links, ws) = Inl Assertion"
proof (induction gs arbitrary: i fsent q items links ws)
  case Nil
  then show ?case by simp
next
  case (Cons g gs)
  have "[i..w - 1] = i # [i + 1..w - 1]" using Cons.prems(3) by (simp add: upto_rec1)
  then have g: "bare g = cut_flit f W i" "map bare gs = map (cut_flit f W) [i + 1..w - 1]" using Cons.prems(1) by simp_all
  show ?case
  proof (cases "i = w - 1")
    case True
    then have "NetworkBridge_flitisizeAndSend per now g self links = Inl Assertion"
      using serialize_odd_last [OF w] g(1) Cons.prems(4) by simp
    then show ?thesis by (simp add: send_next_def)
  next
    case False
    then have "i < w - 1" using Cons.prems(3) by simp
    from serialize_odd_flit [OF w(1-4) g(1) Cons.prems(2) this Cons.prems(4), of per now] show ?thesis
    proof (elim disjE exE conjE)
      fix links' ws' fsent' q' items'
      assume "NetworkBridge_flitisizeAndSend per now g self links = Inr (links', ws')"
        "serdes self co (m_vc f) w W ((i + 1) * W div w * w) fsent' q' items' links'"
      then show ?thesis using Cons.IH [OF g(2) _ _, of fsent' q' items' links' "ws @ ws'"] Cons.prems(2) \<open>i < w - 1\<close>
        by (simp add: send_next_def)
    qed (simp add: send_next_def)
  qed
qed

section \<open>The properties\<close>

text \<open>
  C4. Serialising and deserialising a packet gives the packet back. Let the narrow width \<open>w\<close> divide
  the wide width, let the two bridges at the ends of a link be idle on the packet's virtual channel,
  and let the wide flits of a packet go through the first bridge. Both bridges return and fail no
  assertion; between them travels the packet that the message would have been cut into at the narrow
  width; what comes out of the second bridge is the wide packet, flit for flit (numbers, types,
  virtual channel, route, message, width). Both bridges are idle again afterwards, and both have told
  the bridges of the credits the same numbers of narrow flits.
\<close>

theorem serdes_roundtrip:
  assumes w: "0 < w" "1 < k" "w * k < 2 ^ 31" "0 < msgSize f"
    and wide: "map bare wide = packet f (w * k)"
    and s: "serdes self co (m_vc f) w (w * k) 0 0 q items links"
    and d: "serdes self' co' (m_vc f) (w * k) w 0 0 q' items' links'"
  shows "\<exists>l1 ws1 l2 ws2 ps. bridge_send per now self wide links = Inr (l1, ws1) \<and>
    serdes self co (m_vc f) w (w * k) 0 0 (q @ ps) (items @ packet f w) l1 \<and>
    bridge_send per' now' self' (drop (length items) (link_items (l1 ! nat self))) links' = Inr (l2, ws2) \<and>
    serdes self' co' (m_vc f) (w * k) w 0 0 (q' @ ps) (items' @ map bare wide) l2"
proof -
  let ?n = "cl (msgSize f) (w * k)" and ?m = "cl (msgSize f) w"
  have n: "0 < ?n" "0 < ?m" using wide_bounds(3) [OF w(1,2,4)] cl_pos [OF w(4,1)] by simp_all
  obtain l1 ws1 where a: "bridge_send per now self wide links = Inr (l1, ws1)"
      "serdes self co (m_vc f) w (w * k) 0 0 (q @ map (parts_of f w k) [0..?n - 1]) (items @ packet f w) l1"
    using serialize_run [OF w, of wide 0 self co 0 q items links per now "[]"] wide s n(1) by (auto simp: packet_def bridge_send_def)
  define gs where "gs = drop (length items) (link_items (l1 ! nat self))"
  have "map bare gs = packet f w" using a(2) by (auto simp: gs_def serdes_def drop_map [symmetric])
  then obtain l2 ws2 where "bridge_send per' now' self' gs links' = Inr (l2, ws2)"
      "serdes self' co' (m_vc f) (w * k) w 0 0 (q' @ map (parts_of f w k) [0..?n - 1]) (items' @ packet f (w * k)) l2"
    using deserialize_run [OF w, of gs 0 self' co' q' items' links' per' now' "[]"] d n(2) by (auto simp: packet_def bridge_send_def)
  then show ?thesis using a wide unfolding gs_def by metis
qed

text \<open>A link of 8 bits between two links of 16 bits, with its four bridges.\<close>

definition demo_br :: "int \<Rightarrow> int \<Rightarrow> bridge_type \<Rightarrow> bridge" where
  "demo_br co link ty =
     \<lparr>coBridge = Some co, nLink = link, enCdc = True, enSerDes = True, mType = ty, cdcLatency = 1, serDesLatency = 1, lastScheduledAt = 0,
      lenBuffer = [0], sizeSent = [0], flitsSent = [0], extraCredit = [[]]\<rparr>"

definition demo_bridges :: "NetworkLink list" where
  "demo_bridges =
     [(NetworkLink_new 0 1 1 [] 16)\<lparr>nl_bridge := Some (demo_br 3 1 OBJECT_LINK), link_consumer := Some (ToLink 1)\<rparr>,
      NetworkLink_new 1 1 1 [] 8,
      (NetworkLink_new 2 1 1 [] 16)\<lparr>nl_bridge := Some (demo_br 5 1 LINK_OBJECT), link_consumer := Some (ToRouter 1)\<rparr>,
      (NetworkLink_new 3 1 1 [] 16)\<lparr>nl_bridge := Some (demo_br 0 4 LINK_OBJECT), link_consumer := Some (ToRouter 0)\<rparr>,
      NetworkLink_new 4 1 1 [] 8,
      (NetworkLink_new 5 1 1 [] 16)\<lparr>nl_bridge := Some (demo_br 2 4 OBJECT_LINK), link_consumer := Some (ToLink 4)\<rparr>]"

definition demo_message :: flit where
  "demo_message = flit_new 7 0 0 0 (RouteInfo_new no_dest) 1 None 40 16 0"

theorem serdes_roundtrip_witness:
  "\<exists>l1 ws1 l2 ws2 ps. bridge_send (\<lambda>_. 1) 3 0 (packet demo_message 16) demo_bridges = Inr (l1, ws1) \<and>
    serdes 0 3 0 8 16 0 0 ps (packet demo_message 8) l1 \<and>
    bridge_send (\<lambda>_. 1) 9 2 (link_items (l1 ! 0)) demo_bridges = Inr (l2, ws2) \<and>
    serdes 2 5 0 16 8 0 0 ps (packet demo_message 16) l2"
proof -
  have p: "map bare (packet demo_message 16) = packet demo_message (8 * 2)" by code_simp
  have "serdes 0 3 0 8 16 0 0 [] [] demo_bridges" "serdes 2 5 0 16 8 0 0 [] [] demo_bridges" by code_simp+
  then show ?thesis
    using serdes_roundtrip [OF _ _ _ _ p, of 0 3 "[]" "[]" demo_bridges 2 5 "[]" "[]" demo_bridges "\<lambda>_. 1" 3 "\<lambda>_. 1" 9] p
    by (simp add: demo_message_def flit_new_def)
qed

text \<open>
  C23. The serialiser does not handle widths that do not divide. Let the narrow width \<open>w\<close> be smaller
  than the wide width \<open>W\<close> and not divide it, and let a message of \<open>w * W\<close> bits go through a bridge that
  is idle on its virtual channel: the assertion that the number of a narrow flit lies within the
  packet fails before the bridge has taken the whole packet.
\<close>

theorem serialize_odd_widths:
  assumes w: "0 < w" "w < W" "W < 2 ^ 31" "\<not> w dvd W" and size: "msgSize f = w * W"
    and wide: "map bare wide = packet f W" and s: "serdes self co (m_vc f) w W 0 0 q items links"
  shows "bridge_send per now self wide links = Inl Assertion"
proof -
  have "map bare wide = map (cut_flit f W) [0..w - 1]" using wide whole_message(1) [OF w(1) _ size] w(1,2) by (simp add: packet_def)
  then show ?thesis using serialize_odd_run [OF w(1-3) size w(4), of wide 0 self co 0 q items links per now "[]"] s w(1)
    by (simp add: bridge_send_def)
qed

text \<open>A link of 2 bits after a link of 3 bits, and a message of two flits of 3 bits.\<close>

definition demo_odd :: "NetworkLink list" where
  "demo_odd =
     [(NetworkLink_new 0 1 1 [] 3)\<lparr>nl_bridge := Some (demo_br 2 1 OBJECT_LINK), link_consumer := Some (ToLink 1)\<rparr>,
      NetworkLink_new 1 1 1 [] 2,
      (NetworkLink_new 2 1 1 [] 3)\<lparr>nl_bridge := Some (demo_br 0 1 LINK_OBJECT), link_consumer := Some (ToRouter 0)\<rparr>]"

definition demo_six :: flit where
  "demo_six = flit_new 7 0 0 0 (RouteInfo_new no_dest) 1 None 6 3 0"

theorem serialize_odd_widths_witness:
  "bridge_send (\<lambda>_. 1) 3 0 (packet demo_six 3) demo_odd = Inl Assertion"
proof -
  have "map bare (packet demo_six 3) = packet demo_six 3" by code_simp
  moreover have "serdes 0 2 (m_vc demo_six) 2 3 0 0 [] [] demo_odd" "msgSize demo_six = 2 * 3" by code_simp+
  ultimately show ?thesis using serialize_odd_widths [of 2 3 demo_six "packet demo_six 3" 0 2 "[]" "[]" demo_odd "\<lambda>_. 1" 3] by simp
qed

end
