(* ===== verification/Garnet_Bridge_Credit.thy ===== *)
theory Garnet_Bridge_Credit
  imports Garnet_Bridge_Props
begin

text \<open>
  The credits of a link whose width a bridge changes. The bridge that cut a wide flit into parts told
  the bridge that carries the credits how many parts it were; a credit for the wide flit is split
  into as many credits, and these are merged again at the other end.
\<close>

section \<open>The state of a bridge that carries credits\<close>

definition credit_bridge :: "int \<Rightarrow> int \<Rightarrow> int \<Rightarrow> int \<Rightarrow> int \<Rightarrow> int list \<Rightarrow> flit list \<Rightarrow> NetworkLink list \<Rightarrow> bool" where
  "credit_bridge self vc target cur len q items links =
     (0 \<le> self \<and> self < int (length links) \<and>
      (case nl_bridge (links ! nat self) of None \<Rightarrow> False
       | Some b \<Rightarrow> enSerDes b \<and> 0 \<le> vc \<and> vc < int (length (lenBuffer b)) \<and> vc < int (length (extraCredit b)) \<and>
           lenBuffer b ! nat vc = len \<and> extraCredit b ! nat vc = q) \<and>
      bridge_widths self links = Inr (target, cur) \<and> link_consumer (links ! nat self) \<noteq> None \<and>
      map bare (link_items (links ! nat self)) = items)"

definition credit :: "int \<Rightarrow> bool \<Rightarrow> flit" where
  "credit vc free = bare (Credit_new vc free 0)"

text \<open>The credits that a credit is split into: the last one frees the virtual channel.\<close>

definition credit_parts :: "int \<Rightarrow> int \<Rightarrow> bool \<Rightarrow> flit list" where
  "credit_parts vc p free = map (\<lambda>j. credit vc (j + 1 = p \<and> free)) [0..p - 1]"

lemma creditD:
  assumes "bare g = credit vc free"
  shows "m_type g = CREDIT" "m_vc g = vc" "m_is_free_signal g = Some free" "is_free_signal g = Inr free"
proof -
  have "m_type (bare g) = CREDIT" "m_vc (bare g) = vc" "m_is_free_signal (bare g) = Some free"
    unfolding assms credit_def by (simp_all add: bare_def)
  then show "m_type g = CREDIT" "m_vc g = vc" "m_is_free_signal g = Some free" "is_free_signal g = Inr free"
    by (simp_all add: bare_def is_free_signal_def)
qed

lemma credit_new [simp]: "bare (Credit_new vc free t) = credit vc free"
  by (simp add: credit_def bare_def Credit_new_def flit_new_def)

lemma credit_put:
  assumes "credit_bridge self vc target cur len q items links" "nl_bridge (links ! nat self) = Some b"
    and b': "b' = b\<lparr>lenBuffer := (lenBuffer b)[nat vc := len'], extraCredit := (extraCredit b)[nat vc := q']\<rparr>"
  shows "\<exists>links'. put_bridge self b' links = Inr links' \<and> credit_bridge self vc target cur len' q' items links' \<and>
    nl_bridge (links' ! nat self) = Some b'"
proof -
  let ?l = "links ! nat self"
  let ?ls = "links[nat self := ?l\<lparr>nl_bridge := Some b'\<rparr>]"
  have r: "0 \<le> self" "self < int (length links)" using assms(1) by (auto simp: credit_bridge_def)
  have "bridge_widths self ?ls = bridge_widths self links"
    by (rule bridge_widths_cong [OF map_bitWidth_update _ _ assms(2), where b' = b']) (use r in \<open>simp_all add: b' nat_less_iff\<close>)
  then have "credit_bridge self vc target cur len' q' items ?ls"
    using assms(1,2) r by (simp add: credit_bridge_def b' nat_less_iff link_items_def)
  moreover have "put_bridge self b' links = Inr ?ls" using r by (simp add: put_bridge_def mod_link_def vmod_ok)
  ultimately show ?thesis using r by (simp add: nat_less_iff)
qed

lemma credit_schedule:
  assumes "credit_bridge self vc target cur len q items links" "nl_bridge (links ! nat self) = Some b"
  shows "\<exists>links' ws t. NetworkBridge_scheduleFlit per now f lat self links = Inr (links', ws) \<and>
    credit_bridge self vc target cur len q (items @ [bare f]) links' \<and> nl_bridge (links' ! nat self) = Some (b\<lparr>lastScheduledAt := t\<rparr>)"
proof -
  let ?l = "links ! nat self"
  have r: "0 \<le> self" "self < int (length links)" using assms(1) by (auto simp: credit_bridge_def)
  obtain c where c: "link_consumer ?l = Some c" using assms(1) by (auto simp: credit_bridge_def)
  define t where "t = max (lastScheduledAt b + cyclesToTicks (per c) 1) (edge_at (per c) now (if enCdc b then lat + cdcLatency b else lat))"
  let ?ls = "links[nat self := ?l\<lparr>linkBuffer := flitBuffer_insert (f\<lparr>m_time := t\<rparr>) (linkBuffer ?l), nl_bridge := Some (b\<lparr>lastScheduledAt := t\<rparr>)\<rparr>]"
  have "bridge_widths self ?ls = bridge_widths self links"
    by (rule bridge_widths_cong [OF map_bitWidth_update _ _ assms(2), where b' = "b\<lparr>lastScheduledAt := t\<rparr>"]) (use r in \<open>simp_all add: nat_less_iff\<close>)
  then have "credit_bridge self vc target cur len q (items @ [bare f]) ?ls"
    using assms r by (auto simp: credit_bridge_def nat_less_iff link_items_def)
  moreover have "NetworkBridge_scheduleFlit per now f lat self links = Inr (?ls, [(c, At t)])"
    using r assms(2) c by (simp add: NetworkBridge_scheduleFlit_def get_bridge_def vget_ok vset_ok t_def Let_def)
  ultimately show ?thesis using r by (auto simp: nat_less_iff)
qed

section \<open>Splitting a credit\<close>

lemma split_parts_run:
  assumes g: "bare g = credit vc free"
  shows "\<lbrakk>credit_bridge self vc target cur len q items links; nl_bridge (links ! nat self) = Some b\<rbrakk> \<Longrightarrow>
    \<exists>links' ws'. rfold (serialize_part per now target p g lat self) js (links, ws) = Inr (links', ws') \<and>
      credit_bridge self vc target cur len q (items @ map (\<lambda>j. credit vc (j + 1 = p \<and> free)) js) links'"
proof (induction js arbitrary: items links b ws)
  case Nil
  then show ?case by simp
next
  case (Cons j js)
  let ?h = "Credit_new vc (j + 1 = p \<and> free) (m_time g)"
  have h: "serialize j p (word_of_int target) g = Inr ?h" using creditD [OF g] by (simp add: serialize_def Credit_serialize_def)
  obtain links1 ws1 t where s: "NetworkBridge_scheduleFlit per now ?h lat self links = Inr (links1, ws1)"
      "credit_bridge self vc target cur len q (items @ [bare ?h]) links1" "nl_bridge (links1 ! nat self) = Some (b\<lparr>lastScheduledAt := t\<rparr>)"
    using credit_schedule [OF Cons.prems] by blast
  have "serialize_part per now target p g lat self j (links, ws) = Inr (links1, ws @ ws1)" using h s(1) by (simp add: serialize_part_def)
  then show ?case using Cons.IH [OF s(2,3), of "ws @ ws1"] by auto
qed

lemma split_credit:
  assumes g: "bare g = credit vc free" and w: "target < cur" and p: "0 < p"
    and st: "credit_bridge self vc target cur len (p # q) items links"
  shows "\<exists>links' ws'. NetworkBridge_flitisizeAndSend per now g self links = Inr (links', ws') \<and>
    credit_bridge self vc target cur len q (items @ credit_parts vc p free) links'"
proof -
  obtain b where b: "nl_bridge (links ! nat self) = Some b" "enSerDes b" "0 \<le> vc" "vc < int (length (lenBuffer b))"
      "vc < int (length (extraCredit b))" "extraCredit b ! nat vc = p # q" "lenBuffer b ! nat vc = len"
    using st by (auto simp: credit_bridge_def split: option.splits)
  have r: "0 \<le> self" "self < int (length links)" "bridge_widths self links = Inr (target, cur)" using st by (auto simp: credit_bridge_def)
  define b1 where "b1 = b\<lparr>extraCredit := (extraCredit b)[nat vc := q]\<rparr>"
  have "b1 = b\<lparr>lenBuffer := (lenBuffer b)[nat vc := len], extraCredit := (extraCredit b)[nat vc := q]\<rparr>"
    using b(7) by (auto simp: b1_def)
  from credit_put [OF st b(1) this] obtain links1 where l1: "put_bridge self b1 links = Inr links1"
      "credit_bridge self vc target cur len q items links1" "nl_bridge (links1 ! nat self) = Some b1" by blast
  obtain links2 ws2 where l2: "rfold (serialize_part per now target p g (serDesLatency b1) self) [0..p - 1] (links1, []) = Inr (links2, ws2)"
      "credit_bridge self vc target cur len q (items @ credit_parts vc p free) links2"
    using split_parts_run [OF g l1(2,3), of per now p "serDesLatency b1" "[0..p - 1]" "[]"] by (auto simp: credit_parts_def)
  have c: "serialize_count target cur g b = Inr (p, b1)"
    using creditD [OF g] b p by (simp add: serialize_count_def Let_def vget_ok vset_ok front_credit_def b1_def)
  have "get_bridge self links = Inr b" using b(1) r by (simp add: get_bridge_def vget_ok)
  then have "NetworkBridge_flitisizeAndSend per now g self links = Inr (links2, ws2)"
    using r(3) b(2) w c l1(1) l2(1) creditD(1) [OF g] p
    by (simp add: NetworkBridge_flitisizeAndSend_def bridge_serialize_def)
  then show ?thesis using l2(2) by blast
qed

lemma split_run:
  assumes w: "target < cur"
  shows "\<lbrakk>map bare gs = map (credit vc) frees; length ps = length frees; list_all ((<) 0) ps;
      credit_bridge self vc target cur len (ps @ q) items links\<rbrakk> \<Longrightarrow>
    \<exists>links' ws'. rfold (send_next per now self) gs (links, ws) = Inr (links', ws') \<and>
      credit_bridge self vc target cur len q (items @ concat (map2 (credit_parts vc) ps frees)) links'"
proof (induction gs arbitrary: frees ps items links ws)
  case Nil
  then show ?case by auto
next
  case (Cons g gs)
  obtain fr frees' where f: "frees = fr # frees'" "bare g = credit vc fr" "map bare gs = map (credit vc) frees'"
    using Cons.prems(1) by (cases frees) auto
  obtain p ps' where p: "ps = p # ps'" "0 < p" "length ps' = length frees'" "list_all ((<) 0) ps'"
    using Cons.prems(2,3) f(1) by (cases ps) auto
  have "credit_bridge self vc target cur len (p # ps' @ q) items links" using Cons.prems(4) p(1) by simp
  from split_credit [OF f(2) w p(2) this, of per now] obtain links1 ws1 where
      s: "NetworkBridge_flitisizeAndSend per now g self links = Inr (links1, ws1)"
      "credit_bridge self vc target cur len (ps' @ q) (items @ credit_parts vc p fr) links1" by blast
  have "send_next per now self g (links, ws) = Inr (links1, ws @ ws1)" using s(1) by (simp add: send_next_def)
  then show ?case using Cons.IH [OF f(3) p(3,4) s(2), of "ws @ ws1"] by (auto simp: f(1) p(1))
qed

section \<open>Merging credits\<close>

lemma merge_credit:
  assumes g: "bare g = credit vc free" and w: "cur < target" and p: "0 < p"
    and st: "credit_bridge self vc target cur len (p # q) items links"
  shows "\<exists>links' ws'. NetworkBridge_flitisizeAndSend per now g self links = Inr (links', ws') \<and>
    (if len + 1 = p then credit_bridge self vc target cur 0 q (items @ [credit vc free]) links'
     else credit_bridge self vc target cur (len + 1) (p # q) items links')"
proof -
  obtain b where b: "nl_bridge (links ! nat self) = Some b" "enSerDes b" "0 \<le> vc" "vc < int (length (lenBuffer b))"
      "vc < int (length (extraCredit b))" "extraCredit b ! nat vc = p # q" "lenBuffer b ! nat vc = len"
    using st by (auto simp: credit_bridge_def split: option.splits)
  have r: "0 \<le> self" "self < int (length links)" "bridge_widths self links = Inr (target, cur)" using st by (auto simp: credit_bridge_def)
  have gb: "get_bridge self links = Inr b" using b(1) r by (simp add: get_bridge_def vget_ok)
  note cr = creditD [OF g]
  show ?thesis
  proof (cases "len + 1 = p")
    case True
    define b1 where "b1 = b\<lparr>lenBuffer := (lenBuffer b)[nat vc := 0], extraCredit := (extraCredit b)[nat vc := q]\<rparr>"
    from credit_put [OF st b(1) b1_def] obtain links1 where l1: "put_bridge self b1 links = Inr links1"
        "credit_bridge self vc target cur 0 q items links1" "nl_bridge (links1 ! nat self) = Some b1" by blast
    have "b1 = b1\<lparr>lenBuffer := (lenBuffer b1)[nat vc := 0], extraCredit := (extraCredit b1)[nat vc := q]\<rparr>" by (simp add: b1_def)
    from credit_put [OF l1(2,3) this] obtain links2 where l2: "put_bridge self b1 links1 = Inr links2"
        "credit_bridge self vc target cur 0 q items links2" "nl_bridge (links2 ! nat self) = Some b1" by blast
    let ?h = "Credit_new vc free (m_time g)"
    obtain links3 ws3 where l3: "NetworkBridge_scheduleFlit per now ?h (serDesLatency b1) self links2 = Inr (links3, ws3)"
        "credit_bridge self vc target cur 0 q (items @ [bare ?h]) links3" using credit_schedule [OF l2(2,3)] by blast
    have "deserialize_count target cur g b = Inr (1, 0, b1)"
      using cr b p True by (simp add: deserialize_count_def Let_def vget_ok vset_ok front_credit_def b1_def)
    moreover have "get_bridge self links1 = Inr b1" using l1(2,3) by (simp add: get_bridge_def vget_ok credit_bridge_def)
    moreover have "vget (lenBuffer b1) vc = Inr 0" "vset (lenBuffer b1) vc 0 = Inr (lenBuffer b1)"
      using b(3,4) by (simp_all add: b1_def vget_ok vset_ok)
    moreover have "deserialize 0 0 (word_of_int target) g = Inr ?h" using cr by (simp add: deserialize_def Credit_deserialize_def)
    ultimately have "NetworkBridge_flitisizeAndSend per now g self links = Inr (links3, ws3)"
      using gb r(3) b(2) w cr(1,2) l1(1) l2(1) l3(1) by (simp add: NetworkBridge_flitisizeAndSend_def bridge_deserialize_def)
    then show ?thesis using l3(2) True by simp
  next
    case False
    define b1 where "b1 = b\<lparr>lenBuffer := (lenBuffer b)[nat vc := len + 1]\<rparr>"
    have "(extraCredit b)[nat vc := p # q] = extraCredit b" using b(6) by (metis list_update_id)
    then have "b1 = b\<lparr>lenBuffer := (lenBuffer b)[nat vc := len + 1], extraCredit := (extraCredit b)[nat vc := p # q]\<rparr>"
      by (cases b) (simp add: b1_def)
    from credit_put [OF st b(1) this] obtain links1 where l1: "put_bridge self b1 links = Inr links1"
        "credit_bridge self vc target cur (len + 1) (p # q) items links1" by blast
    have "deserialize_count target cur g b = Inr (0, 0, b1)"
      using cr b p False by (simp add: deserialize_count_def Let_def vget_ok vset_ok front_credit_def b1_def)
    then have "NetworkBridge_flitisizeAndSend per now g self links = Inr (links1, [])"
      using gb r(3) b(2) w l1(1) by (simp add: NetworkBridge_flitisizeAndSend_def bridge_deserialize_def)
    then show ?thesis using l1(2) False by simp
  qed
qed

text \<open>The rest of the credits that one credit was split into.\<close>

lemma merge_parts:
  assumes w: "cur < target" and p: "0 < p"
  shows "\<lbrakk>map bare gs = map (\<lambda>j. credit vc (j + 1 = p \<and> free)) [len..p - 1]; 0 \<le> len; len < p;
      credit_bridge self vc target cur len (p # q) items links\<rbrakk> \<Longrightarrow>
    \<exists>links' ws'. rfold (send_next per now self) gs (links, ws) = Inr (links', ws') \<and>
      credit_bridge self vc target cur 0 q (items @ [credit vc free]) links'"
proof (induction gs arbitrary: len links ws)
  case Nil
  then show ?case by simp
next
  case (Cons g gs)
  have "[len..p - 1] = len # [len + 1..p - 1]" using Cons.prems(3) by (simp add: upto_rec1)
  then have g: "bare g = credit vc (len + 1 = p \<and> free)" "map bare gs = map (\<lambda>j. credit vc (j + 1 = p \<and> free)) [len + 1..p - 1]"
    using Cons.prems(1) by simp_all
  from merge_credit [OF g(1) w p Cons.prems(4), of per now] obtain links1 ws1 where
      s: "NetworkBridge_flitisizeAndSend per now g self links = Inr (links1, ws1)"
      "if len + 1 = p then credit_bridge self vc target cur 0 q (items @ [credit vc (len + 1 = p \<and> free)]) links1
       else credit_bridge self vc target cur (len + 1) (p # q) items links1" by blast
  have st: "send_next per now self g (links, ws) = Inr (links1, ws @ ws1)" using s(1) by (simp add: send_next_def)
  show ?case
  proof (cases "len + 1 = p")
    case True
    then have "gs = []" using g(2) by auto
    then show ?thesis using st s(2) True by auto
  next
    case False
    then show ?thesis using st s(2) Cons.IH [OF g(2), of links1 "ws @ ws1"] Cons.prems(2,3) by auto
  qed
qed

lemma merge_run:
  assumes w: "cur < target"
  shows "\<lbrakk>map bare gs = concat (map2 (credit_parts vc) ps frees); length ps = length frees; list_all ((<) 0) ps;
      credit_bridge self vc target cur 0 (ps @ q) items links\<rbrakk> \<Longrightarrow>
    \<exists>links' ws'. rfold (send_next per now self) gs (links, ws) = Inr (links', ws') \<and>
      credit_bridge self vc target cur 0 q (items @ map (credit vc) frees) links'"
proof (induction frees arbitrary: ps gs items links ws)
  case Nil
  then show ?case by auto
next
  case (Cons fr frees)
  obtain p ps' where p: "ps = p # ps'" "0 < p" "length ps' = length frees" "list_all ((<) 0) ps'"
    using Cons.prems(2,3) by (cases ps) auto
  obtain as bs where g: "gs = as @ bs" "map bare as = credit_parts vc p fr" "map bare bs = concat (map2 (credit_parts vc) ps' frees)"
    using Cons.prems(1) by (auto simp: p(1) map_eq_append_conv)
  have "credit_bridge self vc target cur 0 (p # ps' @ q) items links" using Cons.prems(4) p(1) by simp
  from merge_parts [OF w p(2) g(2)[unfolded credit_parts_def] _ p(2) this, of per now ws] obtain links1 ws1 where
      s: "rfold (send_next per now self) as (links, ws) = Inr (links1, ws1)"
      "credit_bridge self vc target cur 0 (ps' @ q) (items @ [credit vc fr]) links1" by auto
  from Cons.IH [OF g(3) p(3,4) s(2), of ws1] show ?case by (auto simp: g(1) rfold_append s(1))
qed

section \<open>The property\<close>

text \<open>
  C13. Credits survive a change of width. Let the two bridges that carry the credits of a link have been
  told the same numbers \<open>ps\<close> of parts (which is what the bridges that carry the flits leave behind), and let one credit for each
  of these wide flits arrive at the first bridge. It sends as many credits per wide flit as the flit
  had parts, of which only the last may free the virtual channel; the second bridge merges these
  credits into exactly the credits that arrived, in their order and with their free signals. Neither
  bridge fails, and both have used up the numbers they were told.
\<close>

theorem credit_roundtrip:
  assumes w: "w < W" and ps: "list_all ((<) 0) ps" "length ps = length frees" and gs: "map bare gs = map (credit vc) frees"
    and s: "credit_bridge self vc w W len (ps @ q) items links"
    and d: "credit_bridge self' vc W w 0 (ps @ q') items' links'"
  shows "\<exists>l1 ws1 l2 ws2. bridge_send per now self gs links = Inr (l1, ws1) \<and>
    credit_bridge self vc w W len q (items @ concat (map2 (credit_parts vc) ps frees)) l1 \<and>
    bridge_send per' now' self' (drop (length items) (link_items (l1 ! nat self))) links' = Inr (l2, ws2) \<and>
    credit_bridge self' vc W w 0 q' (items' @ map (credit vc) frees) l2"
proof -
  obtain l1 ws1 where a: "bridge_send per now self gs links = Inr (l1, ws1)"
      "credit_bridge self vc w W len q (items @ concat (map2 (credit_parts vc) ps frees)) l1"
    using split_run [OF w gs ps(2,1) s, of per now "[]"] by (auto simp: bridge_send_def)
  define hs where "hs = drop (length items) (link_items (l1 ! nat self))"
  have "map bare hs = concat (map2 (credit_parts vc) ps frees)" using a(2) by (auto simp: hs_def credit_bridge_def drop_map [symmetric])
  from merge_run [OF w this ps(2,1) d, of per' now' "[]"] show ?thesis using a unfolding hs_def bridge_send_def by blast
qed

text \<open>The bridges of the credits, told that the three wide flits of a message became five narrow ones.\<close>

definition demo_told :: "NetworkLink list" where
  "demo_told = map (\<lambda>l. l\<lparr>nl_bridge := map_option (\<lambda>b. b\<lparr>extraCredit := [[2, 2, 1]]\<rparr>) (nl_bridge l)\<rparr>) demo_bridges"

theorem credit_roundtrip_witness:
  "\<exists>l1 ws1 l2 ws2. bridge_send (\<lambda>_. 1) 3 5 (map (credit 0) [False, False, True]) demo_told = Inr (l1, ws1) \<and>
    credit_bridge 5 0 8 16 0 [] (map (credit 0) [False, False, False, False, True]) l1 \<and>
    bridge_send (\<lambda>_. 1) 9 3 (link_items (l1 ! 5)) demo_told = Inr (l2, ws2) \<and>
    credit_bridge 3 0 16 8 0 [] (map (credit 0) [False, False, True]) l2"
proof -
  have g: "map bare (map (credit 0) [False, False, True]) = map (credit 0) [False, False, True]" by code_simp
  have "credit_bridge 5 0 8 16 0 [2, 2, 1] [] demo_told" "credit_bridge 3 0 16 8 0 [2, 2, 1] [] demo_told" by code_simp+
  moreover have "concat (map2 (credit_parts 0) [2, 2, 1] [False, False, True]) = map (credit 0) [False, False, False, False, True]" by code_simp
  ultimately show ?thesis
    using credit_roundtrip [OF _ _ _ g, of 8 16 "[2, 2, 1]" 5 0 "[]" "[]" demo_told 3 "[]" "[]" demo_told "\<lambda>_. 1" 3 "\<lambda>_. 1" 9]
    by simp
qed

end
