(* ===== verification/Garnet_Trace_Props.thy ===== *)
theory Garnet_Trace_Props
  imports Garnet_Trace
begin

text \<open>
  Properties of the reading of a trace. A record that is written as ten decimal numbers on a line is
  read back (\<open>fgets\<close>, \<open>strtok\<close> and \<open>atoi\<close> together invert the printing); a wake-up of the network
  hands over the records of its cycle; and a trace in the order of time is replayed completely, each
  record at its own cycle.
\<close>

section \<open>Printing records\<close>

fun print_nat :: "nat \<Rightarrow> string" where
  "print_nat n = (if n < 10 then [char_of (48 + n)] else print_nat (n div 10) @ [char_of (48 + n mod 10)])"

declare print_nat.simps [simp del]

definition record_fields :: "NetworkTraceRecord \<Rightarrow> int list" where
  "record_fields r =
     [uint (tr_time r), tr_src_id r, tr_src_router_id r, tr_dest_id r, tr_dest_router_id r, tr_vnet r, tr_num_flits r,
      tr_network_idx r, tr_input_idx r, tr_phase_id r]"

fun join_line :: "string list \<Rightarrow> string" where
  "join_line [] = [newline]"
| "join_line [x] = x @ [newline]"
| "join_line (x # y # ys) = x @ CHR '' '' # join_line (y # ys)"

definition print_line :: "NetworkTraceRecord \<Rightarrow> string" where
  "print_line r = join_line (map (print_nat \<circ> nat) (record_fields r))"

definition trace_text :: "NetworkTraceRecord list \<Rightarrow> string" where
  "trace_text rs = concat (map print_line rs)"

text \<open>The records that the trace format can express, for a network of \<open>n\<close> interfaces.\<close>

definition record_ok :: "nat \<Rightarrow> NetworkTraceRecord \<Rightarrow> bool" where
  "record_ok n r =
     (tr_valid r \<and> list_all (\<lambda>v. 0 \<le> v \<and> v < 2 ^ 31) (record_fields r) \<and> tr_src_id r < int n \<and> tr_dest_id r < int n \<and>
      length (print_line r) \<le> 99)"

section \<open>Reading a number\<close>

lemma of_char_digit: "n < 10 \<Longrightarrow> (of_char (char_of (48 + n) :: char) :: nat) = 48 + n"
  by simp

lemma digit_plain:
  assumes "is_digit c"
  shows "c \<noteq> char_of (0 :: nat)" "\<not> is_delimiter c" "c \<noteq> newline" "\<not> is_space c" "c \<noteq> CHR ''-''" "c \<noteq> CHR ''+''"
  using assms by (auto simp: is_digit_def is_delimiter_def newline_def is_space_def Let_def)

lemma print_nat_digits: "list_all is_digit (print_nat n) \<and> print_nat n \<noteq> []"
proof (induction n rule: print_nat.induct)
  case (1 n)
  have d: "is_digit (char_of (48 + k))" if "k < 10" for k :: nat using that by (simp add: is_digit_def Let_def of_char_digit del: of_char_of)
  then have "is_digit (char_of (48 + n mod 10))" by simp
  then show ?case using 1 d [of n] by (subst (1 2) print_nat.simps) simp
qed

lemma takeWhile_digits: "list_all is_digit ds \<Longrightarrow> s = [] \<or> \<not> is_digit (hd s) \<Longrightarrow> takeWhile is_digit (ds @ s) = ds"
  by (induction ds) (auto simp: takeWhile_eq_Nil_iff)

lemma print_nat_value: "foldl (\<lambda>n c. n * 10 + (int (of_char c) - 48)) 0 (print_nat n) = int n"
proof (induction n rule: print_nat.induct)
  case (1 n)
  show ?case
  proof (cases "n < 10")
    case True
    then show ?thesis by (subst print_nat.simps) (simp add: of_char_digit del: of_char_of)
  next
    case False
    have "n mod 10 < 10" by simp
    then show ?thesis using 1 False by (subst print_nat.simps) (simp add: of_char_digit del: of_char_of; presburger)
  qed
qed

lemma atoi_print_nat:
  assumes "n < 2 ^ 31" "s = [] \<or> s = [newline]"
  shows "atoi (print_nat n @ s) = Inr (int n)"
proof -
  obtain c cs where c: "print_nat n = c # cs" "is_digit c" using print_nat_digits [of n] by (cases "print_nat n") auto
  have "s = [] \<or> \<not> is_digit (hd s)" using assms(2) digit_plain(3) [of newline] by auto
  then have "digits_value (print_nat n @ s) = int n"
    using takeWhile_digits [of "print_nat n" s] print_nat_digits [of n] print_nat_value [of n] by (simp add: digits_value_def)
  then show ?thesis using assms(1) c digit_plain(4-6) [OF c(2)] by (simp add: atoi_def Let_def check_def)
qed

section \<open>Reading a line\<close>

fun line_tokens :: "string list \<Rightarrow> string list" where
  "line_tokens [] = []"
| "line_tokens [x] = [x @ [newline]]"
| "line_tokens (x # y # ys) = x # line_tokens (y # ys)"

lemma strtok_token: "list_all (\<lambda>c. c \<noteq> char_of (0::nat) \<and> \<not> is_delimiter c) t \<Longrightarrow> strtok_all cur (t @ s) = strtok_all (rev t @ cur) s"
  by (induction t arbitrary: cur) simp_all

lemma newline_plain: "newline \<noteq> char_of (0 :: nat)" "\<not> is_delimiter newline" "CHR '' '' \<noteq> newline" "CHR '' '' \<noteq> char_of (0 :: nat)"
  by code_simp+

lemma strtok_line:
  "list_all (\<lambda>t. list_all is_digit t \<and> t \<noteq> []) ts \<Longrightarrow> ts \<noteq> [] \<Longrightarrow> strtok_all [] (join_line ts) = line_tokens ts"
proof (induction ts rule: join_line.induct)
  case (2 x)
  have "list_all (\<lambda>c. c \<noteq> char_of (0::nat) \<and> \<not> is_delimiter c) x" using 2 digit_plain by (auto simp: list_all_iff)
  then show ?case by (simp add: strtok_token newline_plain)
next
  case (3 x y ys)
  have "list_all (\<lambda>c. c \<noteq> char_of (0::nat) \<and> \<not> is_delimiter c) x" using 3(2) digit_plain by (auto simp: list_all_iff)
  then show ?case using 3 newline_plain(4) by (simp add: strtok_token is_delimiter_def)
qed simp

lemma fgets_join:
  assumes "newline \<notin> set l" "length l < n"
  shows "fgets_line n (l @ newline # rest) = (l @ [newline], rest)"
  using assms
proof (induction l arbitrary: n)
  case Nil
  then show ?case by (cases n) auto
next
  case (Cons c l)
  then show ?case by (cases n) auto
qed

lemma join_line_newline: "list_all (list_all is_digit) ts \<Longrightarrow> \<exists>l. join_line ts = l @ [newline] \<and> newline \<notin> set l"
proof (induction ts rule: join_line.induct)
  case (2 x)
  then show ?case using digit_plain(3) by (auto simp: list_all_iff)
next
  case (3 x y ys)
  then obtain l where l: "join_line (y # ys) = l @ [newline]" "newline \<notin> set l" by auto
  have "newline \<notin> set (x @ CHR '' '' # l)" using 3(2) l(2) digit_plain(3) newline_plain(3) by (auto simp: list_all_iff)
  then show ?case using l(1) by (intro exI [of _ "x @ CHR '' '' # l"]) simp
qed simp

lemma printed_digits: "list_all (\<lambda>t. list_all is_digit t \<and> t \<noteq> []) (map (print_nat \<circ> nat) vs)"
  using print_nat_digits by (simp add: list_all_iff)

lemma fgets_print_line:
  assumes "length (print_line r) \<le> 99"
  shows "fgets 100 (print_line r @ rest) = Some (print_line r, rest)"
proof -
  obtain l where l: "print_line r = l @ [newline]" "newline \<notin> set l"
    using join_line_newline [of "map (print_nat \<circ> nat) (record_fields r)"] printed_digits by (auto simp: print_line_def list_all_iff)
  then have "length l < 99" using assms by simp
  from fgets_join [OF l(2) this, of rest] show ?thesis by (simp add: fgets_def l(1))
qed

lemma print_line_tokens: "strtok_all [] (print_line r) = line_tokens (map (print_nat \<circ> nat) (record_fields r))"
  unfolding print_line_def by (rule strtok_line [OF printed_digits]) (simp add: record_fields_def)

lemma parse_record_print:
  assumes "list_all (\<lambda>v. 0 \<le> v \<and> v < 2 ^ 31) (record_fields r)"
  shows "parse_record (strtok_all [] (print_line r)) old = Inr (uint (tr_time r), r\<lparr>tr_valid := tr_valid old\<rparr>)"
proof -
  have a: "atoi (print_nat (nat v)) = Inr v" "atoi (print_nat (nat v) @ [newline]) = Inr v" if "0 \<le> v" "v < 2 ^ 31" for v
    using that atoi_print_nat [of "nat v" "[]"] atoi_print_nat [of "nat v" "[newline]"] by (simp_all add: nat_less_iff)
  have t: "atoi (print_nat (unat (tr_time r))) = Inr (uint (tr_time r))" using a(1) [of "uint (tr_time r)"] assms by (simp add: record_fields_def)
  show ?thesis using assms
    by (simp add: print_line_tokens record_fields_def parse_record_def optional_token_def token_int_def vget_def a t nth_Cons_numeral)
qed

lemma parse_print_line:
  assumes "record_ok n r"
  shows "\<exists>st. parse_line n (print_line r) g = Inr (Some (g\<lparr>trace_start_time := st, trace_next_packet := r\<rparr>))"
proof -
  have f: "list_all (\<lambda>v. 0 \<le> v \<and> v < 2 ^ 31) (record_fields r)" "tr_valid r" "tr_src_id r < int n" "tr_dest_id r < int n"
    using assms by (simp_all add: record_ok_def)
  have m: "tr_src_id r mod 2 ^ 64 = tr_src_id r" "tr_dest_id r mod 2 ^ 64 = tr_dest_id r" using f(1) by (simp_all add: record_fields_def)
  have "clamp_nodes n (r\<lparr>tr_valid := tr_valid (trace_next_packet g)\<rparr>) = r"
    using f m by (simp add: clamp_nodes_def out_of_range_def)
  moreover have "strtok_all [] (print_line r) \<noteq> []" by (simp add: print_line_tokens record_fields_def)
  ultimately show ?thesis using parse_record_print [OF f(1)]
    by (intro exI [of _ "if trace_num_packets_injected g = 0 then uint (tr_time r) else trace_start_time g"]) (simp add: parse_line_def Let_def)
qed

section \<open>A wake-up of the network\<close>

definition hand_over :: "NetworkInterface list \<Rightarrow> NetworkTraceRecord \<Rightarrow> NetworkInterface list" where
  "hand_over nis r = nis[nat (tr_src_id r) := fst (NI_enqueueTracePacket r (nis ! nat (tr_src_id r)))]"

definition hand_over_all :: "NetworkInterface list \<Rightarrow> NetworkTraceRecord list \<Rightarrow> NetworkInterface list" where
  "hand_over_all nis rs = foldl hand_over nis rs"

definition total_flits :: "NetworkTraceRecord list \<Rightarrow> int" where
  "total_flits rs = sum_list (map tr_num_flits rs)"

definition network_reqs :: "wakes \<Rightarrow> wake_req list" where
  "network_reqs ws = map snd (filter (\<lambda>(c, _). c = ToNetwork) ws)"

lemma network_reqs_simps [simp]:
  "network_reqs [] = []" "network_reqs (ws @ ws') = network_reqs ws @ network_reqs ws'" "network_reqs [(ToNetwork, q)] = [q]"
  "network_reqs (NI_schedule_wakeup ni) = []"
  by (simp_all add: network_reqs_def NI_schedule_wakeup_def)

lemma hand_over_all_simps [simp]:
  "hand_over_all nis [] = nis" "hand_over_all nis (r # rs) = hand_over_all (hand_over nis r) rs"
  "hand_over_all nis (rs @ rs') = hand_over_all (hand_over_all nis rs) rs'"
  by (simp_all add: hand_over_all_def)

lemma length_enqueue [simp]: "length (hand_over nis r) = length nis" "length (hand_over_all nis rs) = length nis"
proof -
  show a: "length (hand_over nis r) = length nis" for nis r by (simp add: hand_over_def)
  show "length (hand_over_all nis rs) = length nis" by (induction rs arbitrary: nis) (simp_all add: a)
qed

lemma inject_record:
  assumes "record_ok (length nis) (trace_next_packet g)" "tr_time (trace_next_packet g) = cycle_at p now"
  shows "\<exists>ws. inject_next p now (g, nis) =
      Inr (g\<lparr>trace_num_packets_injected := trace_num_packets_injected g + 1,
             trace_num_flits_injected := trace_num_flits_injected g + tr_num_flits (trace_next_packet g)\<rparr>,
           hand_over nis (trace_next_packet g), ws) \<and> network_reqs ws = []"
  using assms by (simp add: inject_next_def Let_def record_ok_def record_fields_def vget_ok vset_ok hand_over_def NI_enqueueTracePacket_def)

lemma read_text_end:
  "tracefile g = trace_text [] \<Longrightarrow> \<not> trace_broken g \<Longrightarrow> read_next p now n g = Inr (Stop (g\<lparr>end_simulation := Some True\<rparr>) [])"
  by (simp add: read_next_def trace_text_def fgets_def)

lemma read_text_record:
  assumes "tracefile g = trace_text (r # rs)" "record_ok n r" "m_trace_max_packets g < 0"
  shows "\<exists>st. read_next p now n g =
    (let g' = g\<lparr>tracefile := trace_text rs, trace_start_time := st, trace_next_packet := r\<rparr> in
     if tr_time r = cycle_at p now then Inr (Again g') else Inr (Stop g' [(ToNetwork, At (cyclesToTicks p (tr_time r)))]))"
proof -
  have f: "fgets 100 (tracefile g) = Some (print_line r, trace_text rs)"
    using fgets_print_line [of r "trace_text rs"] assms(1,2) by (simp add: trace_text_def record_ok_def)
  obtain st where "parse_line n (print_line r) (g\<lparr>tracefile := trace_text rs\<rparr>) =
      Inr (Some (g\<lparr>tracefile := trace_text rs, trace_start_time := st, trace_next_packet := r\<rparr>))"
    using parse_print_line [OF assms(2)] by blast
  then show ?thesis using f assms(3) by (intro exI [of _ st]) (simp add: read_next_def within_limit_def Let_def)
qed

text \<open>The state of the reader: the records still in the file, and the switches that do not change.\<close>

definition reader :: "garnet \<Rightarrow> NetworkTraceRecord list \<Rightarrow> bool" where
  "reader g rs = (tracefile g = trace_text rs \<and> m_trace_max_packets g < 0 \<and> \<not> trace_broken g)"

text \<open>What a wake-up of the network has done when it has handed over the records \<open>handed\<close> and \<open>todo\<close> are left.\<close>

definition handed_over :: "tick \<Rightarrow> NetworkTraceRecord list \<Rightarrow> NetworkTraceRecord list \<Rightarrow> garnet \<Rightarrow> garnet \<Rightarrow> wakes \<Rightarrow> bool" where
  "handed_over p handed todo g g' ws =
     (trace_num_packets_injected g' = trace_num_packets_injected g + int (length handed) \<and>
      trace_num_flits_injected g' = trace_num_flits_injected g + total_flits handed \<and>
      (case todo of
         [] \<Rightarrow> reader g' [] \<and> end_simulation g' = Some True \<and> network_reqs ws = []
       | r # rs \<Rightarrow> reader g' rs \<and> trace_next_packet g' = r \<and> network_reqs ws = [At (cyclesToTicks p (tr_time r))]))"

lemma handed_over_add:
  assumes "handed_over p handed todo g1 g' ws'" "network_reqs ws = []"
    "trace_num_packets_injected g1 = trace_num_packets_injected g + 1" "trace_num_flits_injected g1 = trace_num_flits_injected g + tr_num_flits r"
  shows "handed_over p (r # handed) todo g g' (ws @ ws')"
  using assms by (cases todo) (simp_all add: handed_over_def total_flits_def)

lemma wakeup_valid:
  "\<lbrakk>record_ok (length nis) (trace_next_packet g); tr_time (trace_next_packet g) = cycle_at p now; list_all (record_ok (length nis)) rs;
     reader g rs\<rbrakk> \<Longrightarrow>
   \<exists>g' ws. GarnetNetwork_wakeup p now (g, nis) =
       Inr (g', hand_over_all nis (trace_next_packet g # takeWhile (\<lambda>r. tr_time r = cycle_at p now) rs), ws) \<and>
     handed_over p (trace_next_packet g # takeWhile (\<lambda>r. tr_time r = cycle_at p now) rs)
       (dropWhile (\<lambda>r. tr_time r = cycle_at p now) rs) g g' ws"
proof (induction rs arbitrary: g nis)
  case Nil
  obtain ws where i: "inject_next p now (g, nis) =
      Inr (g\<lparr>trace_num_packets_injected := trace_num_packets_injected g + 1,
             trace_num_flits_injected := trace_num_flits_injected g + tr_num_flits (trace_next_packet g)\<rparr>,
           hand_over nis (trace_next_packet g), ws)" "network_reqs ws = []" using inject_record [OF Nil.prems(1,2)] by blast
  then show ?case using Nil.prems(4) by (subst GarnetNetwork_wakeup.simps) (simp add: read_text_end reader_def handed_over_def total_flits_def)
next
  case (Cons r rs)
  let ?g1 = "g\<lparr>trace_num_packets_injected := trace_num_packets_injected g + 1,
             trace_num_flits_injected := trace_num_flits_injected g + tr_num_flits (trace_next_packet g)\<rparr>"
  let ?n1 = "hand_over nis (trace_next_packet g)"
  obtain ws where i: "inject_next p now (g, nis) = Inr (?g1, ?n1, ws)" "network_reqs ws = []" using inject_record [OF Cons.prems(1,2)] by blast
  have "tracefile ?g1 = trace_text (r # rs)" "record_ok (length ?n1) r" "m_trace_max_packets ?g1 < 0"
    using Cons.prems(3,4) by (simp_all add: reader_def)
  from read_text_record [OF this, of p now] obtain st where rd: "read_next p now (length ?n1) ?g1 =
    (let g' = ?g1\<lparr>tracefile := trace_text rs, trace_start_time := st, trace_next_packet := r\<rparr> in
     if tr_time r = cycle_at p now then Inr (Again g') else Inr (Stop g' [(ToNetwork, At (cyclesToTicks p (tr_time r)))]))" by blast
  let ?g2 = "?g1\<lparr>tracefile := trace_text rs, trace_start_time := st, trace_next_packet := r\<rparr>"
  have g2: "reader ?g2 rs" using Cons.prems(4) by (simp add: reader_def)
  show ?case
  proof (cases "tr_time r = cycle_at p now")
    case False
    then show ?thesis using i rd g2 by (subst GarnetNetwork_wakeup.simps) (simp add: Let_def handed_over_def total_flits_def)
  next
    case True
    have "\<exists>g' ws'. GarnetNetwork_wakeup p now (?g2, ?n1) =
       Inr (g', hand_over_all ?n1 (r # takeWhile (\<lambda>r. tr_time r = cycle_at p now) rs), ws') \<and>
     handed_over p (r # takeWhile (\<lambda>r. tr_time r = cycle_at p now) rs) (dropWhile (\<lambda>r. tr_time r = cycle_at p now) rs) ?g2 g' ws'"
      using Cons.IH [of ?n1 ?g2] Cons.prems(3) True g2 by simp
    then obtain g' ws' where w: "GarnetNetwork_wakeup p now (?g2, ?n1) =
       Inr (g', hand_over_all ?n1 (r # takeWhile (\<lambda>r. tr_time r = cycle_at p now) rs), ws')"
     "handed_over p (r # takeWhile (\<lambda>r. tr_time r = cycle_at p now) rs) (dropWhile (\<lambda>r. tr_time r = cycle_at p now) rs) ?g2 g' ws'" by blast
    have "GarnetNetwork_wakeup p now (g, nis) = Inr (g', hand_over_all ?n1 (r # takeWhile (\<lambda>r. tr_time r = cycle_at p now) rs), ws @ ws')"
      using i(1) rd w(1) True by (subst GarnetNetwork_wakeup.simps) (simp add: Let_def)
    then show ?thesis using handed_over_add [OF w(2) i(2), of g "trace_next_packet g"] True by simp
  qed
qed

text \<open>The first wake-up, with no record read yet.\<close>

lemma wakeup_first:
  assumes "\<not> tr_valid (trace_next_packet g)" "list_all (record_ok (length nis)) rs" "reader g rs"
  shows "\<exists>g' ws. GarnetNetwork_wakeup p now (g, nis) =
       Inr (g', hand_over_all nis (takeWhile (\<lambda>r. tr_time r = cycle_at p now) rs), ws) \<and>
     handed_over p (takeWhile (\<lambda>r. tr_time r = cycle_at p now) rs) (dropWhile (\<lambda>r. tr_time r = cycle_at p now) rs) g g' ws"
proof (cases rs)
  case Nil
  then show ?thesis using assms
    by (subst GarnetNetwork_wakeup.simps) (simp add: inject_next_def Let_def read_text_end reader_def handed_over_def total_flits_def)
next
  case (Cons r rs')
  have i: "inject_next p now (g, nis) = Inr (g, nis, [])" using assms(1) by (simp add: inject_next_def Let_def)
  have "tracefile g = trace_text (r # rs')" "record_ok (length nis) r" "m_trace_max_packets g < 0" using assms(2,3) Cons by (simp_all add: reader_def)
  from read_text_record [OF this, of p now] obtain st where rd: "read_next p now (length nis) g =
    (let g' = g\<lparr>tracefile := trace_text rs', trace_start_time := st, trace_next_packet := r\<rparr> in
     if tr_time r = cycle_at p now then Inr (Again g') else Inr (Stop g' [(ToNetwork, At (cyclesToTicks p (tr_time r)))]))" by blast
  let ?g2 = "g\<lparr>tracefile := trace_text rs', trace_start_time := st, trace_next_packet := r\<rparr>"
  have g2: "reader ?g2 rs'" using assms(3) by (simp add: reader_def)
  show ?thesis
  proof (cases "tr_time r = cycle_at p now")
    case False
    then show ?thesis using i rd g2 Cons by (subst GarnetNetwork_wakeup.simps) (simp add: Let_def handed_over_def total_flits_def)
  next
    case True
    have "\<exists>g' ws'. GarnetNetwork_wakeup p now (?g2, nis) =
       Inr (g', hand_over_all nis (r # takeWhile (\<lambda>r. tr_time r = cycle_at p now) rs'), ws') \<and>
     handed_over p (r # takeWhile (\<lambda>r. tr_time r = cycle_at p now) rs') (dropWhile (\<lambda>r. tr_time r = cycle_at p now) rs') ?g2 g' ws'"
      using wakeup_valid [of nis ?g2 p now rs'] assms(2) Cons True g2 by simp
    then obtain g' ws' where w: "GarnetNetwork_wakeup p now (?g2, nis) =
       Inr (g', hand_over_all nis (r # takeWhile (\<lambda>r. tr_time r = cycle_at p now) rs'), ws')"
     "handed_over p (r # takeWhile (\<lambda>r. tr_time r = cycle_at p now) rs') (dropWhile (\<lambda>r. tr_time r = cycle_at p now) rs') ?g2 g' ws'" by blast
    have "GarnetNetwork_wakeup p now (g, nis) = Inr (g', hand_over_all nis (r # takeWhile (\<lambda>r. tr_time r = cycle_at p now) rs'), ws')"
      using i rd w(1) True by (subst GarnetNetwork_wakeup.simps) (simp add: Let_def)
    moreover have "handed_over p hs todo ?g2 g' ws' = handed_over p hs todo g g' ws'" for hs todo by (simp add: handed_over_def)
    ultimately show ?thesis using w(2) True Cons by simp
  qed
qed

section \<open>A replay\<close>

text \<open>
  The consumer of the network is woken up at the tick of its event, runs the wake-up of the network
  and schedules what this asks for. The replay ends when no event is left; the number of wake-ups is
  bounded by the first argument, and \<open>None\<close> says that it was used up.
\<close>

fun replay :: "nat \<Rightarrow> tick \<Rightarrow> consumer \<times> garnet \<times> NetworkInterface list \<Rightarrow> (garnet \<times> NetworkInterface list) option res" where
  "replay 0 p s = Inr None"
| "replay (Suc k) p (c, g, nis) =
     (case m_wakeup_event c of
        None \<Rightarrow> Inr (Some (g, nis))
      | Some now \<Rightarrow>
          rbind (GarnetNetwork_wakeup p now (g, nis)) (\<lambda>(g', nis', ws).
          rbind (processCurrentEvent p now (network_reqs ws) c) (\<lambda>c'. replay k p (c', g', nis'))))"

definition waiting_for :: "tick \<Rightarrow> cycles \<Rightarrow> consumer" where
  "waiting_for p t = \<lparr>m_wakeup_ticks = [p * t], m_wakeup_event = Some (p * t)\<rparr>"

text \<open>Periods and times for which ticks do not overflow.\<close>

definition replay_time :: "tick \<Rightarrow> cycles \<Rightarrow> bool" where
  "replay_time p t = (p \<noteq> 0 \<and> unat p < 2 ^ 32 \<and> unat t < 2 ^ 31)"

lemma replay_tick:
  assumes "replay_time p t"
  shows "unat (p * t) = unat p * unat t" "time_ok p (p * t)" "cycle_at p (p * t) = t" "edge_at p (p * t) 0 = p * t"
    "divCeil (p * t) p = Inr t"
proof -
  have u: "unat p < 2 ^ 32" "unat t < 2 ^ 31" "p \<noteq> 0" using assms by (simp_all add: replay_time_def)
  have "unat p * unat t \<le> 2 ^ 32 * 2 ^ 31" using u by (intro mult_le_mono) simp_all
  then have l: "unat p * unat t \<le> 2 ^ 63" by simp
  then show m: "unat (p * t) = unat p * unat t" using unat_times [of p t] by simp
  show ok: "time_ok p (p * t)" using u l by (simp add: time_ok_def m)
  have "ceil_div (unat p * unat t) (unat p) = unat t" using u(3) ceil_div_mult [of "unat p" "unat t"] by (simp add: unat_gt_0 mult.commute)
  then have "unat (cycle_at p (p * t)) = unat t" using unat_cycle_at [OF ok] m by simp
  then show c: "cycle_at p (p * t) = t" by (rule unsigned_word_eqI)
  show "edge_at p (p * t) 0 = p * t" by (simp add: edge_at_def c mult.commute)
  show "divCeil (p * t) p = Inr t" using c u(3) by (simp add: divCeil_def cycle_at_def)
qed

lemma event_without_request:
  assumes "replay_time p t"
  shows "processCurrentEvent p (p * t) [] (waiting_for p t) = Inr \<lparr>m_wakeup_ticks = [], m_wakeup_event = None\<rparr>"
  using replay_tick(4) [OF assms] by (simp add: processCurrentEvent_def waiting_for_def scheduleNextWakeup_def)

lemma event_with_request:
  assumes "replay_time p t" "replay_time p t'" "t \<le> t'"
  shows "processCurrentEvent p (p * t) [At (cyclesToTicks p t')] (waiting_for p t) = Inr (waiting_for p t')"
proof -
  have "p * t \<le> p * t'" using replay_tick(1) [OF assms(1)] replay_tick(1) [OF assms(2)] assms(3) by (simp add: word_le_nat_alt)
  then show ?thesis using replay_tick(4) [OF assms(1)] replay_tick(5) [OF assms(2)]
    by (simp add: processCurrentEvent_def waiting_for_def scheduleNextWakeup_def scheduleEventAbsolute_def cyclesToTicks_def mult.commute not_less [symmetric])
qed

lemma record_time: "record_ok n r \<Longrightarrow> p \<noteq> 0 \<Longrightarrow> unat p < 2 ^ 32 \<Longrightarrow> replay_time p (tr_time r)"
proof -
  assume "record_ok n r" and p: "p \<noteq> 0" "unat p < 2 ^ 32"
  then have "uint (tr_time r) < 2 ^ 31" by (simp add: record_ok_def record_fields_def)
  then have "int (unat (tr_time r)) < int (2 ^ 31)" by simp
  then show ?thesis using p by (simp only: replay_time_def of_nat_less_iff simp_thms)
qed

text \<open>One wake-up of a replay that waits for the next record, or for the first line of the trace.\<close>

lemma replay_step:
  assumes w: "GarnetNetwork_wakeup p (p * t) (g, nis) = Inr (g', nis', ws)" and h: "handed_over p handed todo g g' ws"
    and t: "replay_time p t" and todo: "todo = [] \<or> replay_time p (tr_time (hd todo)) \<and> t \<le> tr_time (hd todo)"
  shows "replay (Suc (Suc k)) p (waiting_for p t, g, nis) =
    (if todo = [] then Inr (Some (g', nis')) else replay (Suc k) p (waiting_for p (tr_time (hd todo)), g', nis'))"
proof (cases todo)
  case Nil
  then have "network_reqs ws = []" using h by (simp add: handed_over_def)
  moreover have "m_wakeup_event (waiting_for p t) = Some (p * t)" by (simp add: waiting_for_def)
  ultimately show ?thesis using w event_without_request [OF t] Nil by simp
next
  case (Cons r rs)
  then have "network_reqs ws = [At (cyclesToTicks p (tr_time r))]" using h by (simp add: handed_over_def)
  moreover have "m_wakeup_event (waiting_for p t) = Some (p * t)" by (simp add: waiting_for_def)
  ultimately show ?thesis using w event_with_request [OF t, of "tr_time r"] todo Cons by simp
qed

lemma handed_over_twice:
  assumes "handed_over p hs (r # rs) g g1 ws" "trace_num_packets_injected g' = trace_num_packets_injected g1 + int (length (r # rs))"
    "trace_num_flits_injected g' = trace_num_flits_injected g1 + total_flits (r # rs)"
  shows "trace_num_packets_injected g' = trace_num_packets_injected g + int (length (hs @ r # rs)) \<and>
    trace_num_flits_injected g' = trace_num_flits_injected g + total_flits (hs @ r # rs)"
  using assms by (simp add: handed_over_def total_flits_def)

lemma split_records:
  assumes "rs = xs @ r' # rs'" "list_all P (r # rs)" "sorted (map tr_time (r # rs))"
  shows "P r'" "list_all P rs'" "sorted (map tr_time (r' # rs'))" "tr_time r \<le> tr_time r'" "hand_over_all (hand_over_all nis (r # xs)) (r' # rs') = hand_over_all nis (r # rs)"
    "(r # xs) @ r' # rs' = r # rs"
  using assms by (simp_all add: sorted_append)

declare replay.simps [simp del]

lemma replay_rest:
  assumes p: "p \<noteq> 0" "unat p < 2 ^ 32"
  shows "\<lbrakk>list_all (record_ok (length nis)) (r # rs); sorted (map tr_time (r # rs)); trace_next_packet g = r; reader g rs; length rs \<le> k\<rbrakk> \<Longrightarrow>
    \<exists>g'. replay (Suc (Suc k)) p (waiting_for p (tr_time r), g, nis) = Inr (Some (g', hand_over_all nis (r # rs))) \<and>
      end_simulation g' = Some True \<and> trace_num_packets_injected g' = trace_num_packets_injected g + int (length (r # rs)) \<and>
      trace_num_flits_injected g' = trace_num_flits_injected g + total_flits (r # rs)"
proof (induction k arbitrary: r rs g nis rule: less_induct)
  case (less k)
  let ?t = "tr_time r"
  have t: "replay_time p ?t" using record_time [OF _ p, of "length nis" r] less.prems(1) by simp
  let ?P = "\<lambda>r. tr_time r = ?t"
  have c: "cycle_at p (p * ?t) = ?t" by (rule replay_tick(3) [OF t])
  obtain g1 ws where w: "GarnetNetwork_wakeup p (p * ?t) (g, nis) = Inr (g1, hand_over_all nis (r # takeWhile ?P rs), ws)"
      "handed_over p (r # takeWhile ?P rs) (dropWhile ?P rs) g g1 ws"
    using wakeup_valid [of nis g p "p * ?t" rs] less.prems(1,3,4) unfolding c by auto
  show ?case
  proof (cases "dropWhile ?P rs")
    case Nil
    then have tw: "takeWhile ?P rs = rs" by (metis append_Nil2 takeWhile_dropWhile_id)
    show ?thesis using replay_step [OF w t, of k] w(2) unfolding tw Nil by (simp add: handed_over_def)
  next
    case (Cons r' rs')
    have split: "rs = takeWhile ?P rs @ r' # rs'" using Cons by (metis takeWhile_dropWhile_id)
    note r' = split_records [OF split less.prems(1,2)]
    have l: "length rs' < length rs" using arg_cong [OF split, of length] by simp
    then obtain k' where k: "k = Suc k'" using less.prems(5) by (cases k) auto
    let ?n1 = "hand_over_all nis (r # takeWhile ?P rs)"
    have st: "replay (Suc (Suc k)) p (waiting_for p ?t, g, nis) = replay (Suc (Suc k')) p (waiting_for p (tr_time r'), g1, ?n1)"
      using replay_step [OF w t, of k] Cons r'(4) record_time [OF r'(1) p] by (simp add: k)
    have g1: "trace_next_packet g1 = r'" "reader g1 rs'" using w(2) Cons by (simp_all add: handed_over_def)
    have "\<exists>g'. replay (Suc (Suc k')) p (waiting_for p (tr_time r'), g1, ?n1) = Inr (Some (g', hand_over_all ?n1 (r' # rs'))) \<and>
      end_simulation g' = Some True \<and> trace_num_packets_injected g' = trace_num_packets_injected g1 + int (length (r' # rs')) \<and>
      trace_num_flits_injected g' = trace_num_flits_injected g1 + total_flits (r' # rs')"
      using r' g1 l less.prems(5) k by (intro less.IH) simp_all
    then obtain g' where g': "replay (Suc (Suc k')) p (waiting_for p (tr_time r'), g1, ?n1) = Inr (Some (g', hand_over_all ?n1 (r' # rs')))"
      "end_simulation g' = Some True" "trace_num_packets_injected g' = trace_num_packets_injected g1 + int (length (r' # rs'))"
      "trace_num_flits_injected g' = trace_num_flits_injected g1 + total_flits (r' # rs')" by blast
    have "handed_over p (r # takeWhile ?P rs) (r' # rs') g g1 ws" using w(2) unfolding Cons .
    from handed_over_twice [OF this g'(3,4)] show ?thesis using g'(1,2) unfolding st r'(5,6) by blast
  qed
qed

section \<open>The limit on packets\<close>

lemma inject_count:
  assumes "inject_next p now (g, nis) = Inr (g1, nis1, ws)"
  shows "trace_num_packets_injected g \<le> trace_num_packets_injected g1" "trace_num_packets_injected g1 \<le> trace_num_packets_injected g + 1"
    "m_trace_max_packets g1 = m_trace_max_packets g" "network_reqs ws = []"
  using assms by (auto simp: inject_next_def Let_def res_iff NI_enqueueTracePacket_def split: if_splits)

lemma read_count:
  assumes "read_next p now n g = Inr out"
  shows "case out of
      Again g' \<Rightarrow> trace_num_packets_injected g' = trace_num_packets_injected g \<and> m_trace_max_packets g' = m_trace_max_packets g \<and> within_limit g'
    | Stop g' ws \<Rightarrow> trace_num_packets_injected g' = trace_num_packets_injected g \<and> m_trace_max_packets g' = m_trace_max_packets g \<and>
        (network_reqs ws \<noteq> [] \<longrightarrow> within_limit g')"
proof (cases "fgets 100 (tracefile g)")
  case None
  then show ?thesis using assms by (auto simp: read_next_def)
next
  case (Some a)
  then obtain line rest where a: "fgets 100 (tracefile g) = Some (line, rest)" by (cases a) simp
  obtain parsed where pl: "parse_line n line (g\<lparr>tracefile := rest\<rparr>) = Inr parsed" using assms a by (auto simp: read_next_def res_iff)
  show ?thesis
  proof (cases parsed)
    case None
    then show ?thesis using assms a pl by (auto simp: read_next_def)
  next
    case (Some g')
    then have g': "trace_num_packets_injected g' = trace_num_packets_injected g" "m_trace_max_packets g' = m_trace_max_packets g"
      using pl by (auto simp: parse_line_def Let_def res_iff split: if_splits)
    then show ?thesis using assms a pl Some
      by (cases "within_limit g'"; cases "tr_time (trace_next_packet g') = cycle_at p now") (auto simp: read_next_def)
  qed
qed

lemma wakeup_limit:
  "\<lbrakk>GarnetNetwork_wakeup p now gn = Inr (g', nis', ws); 0 \<le> m_trace_max_packets (fst gn);
     trace_num_packets_injected (fst gn) \<le> m_trace_max_packets (fst gn)\<rbrakk> \<Longrightarrow>
   m_trace_max_packets g' = m_trace_max_packets (fst gn) \<and> trace_num_packets_injected g' \<le> m_trace_max_packets (fst gn) + 1 \<and>
   (network_reqs ws \<noteq> [] \<longrightarrow> trace_num_packets_injected g' \<le> m_trace_max_packets (fst gn))"
proof (induction p now gn arbitrary: g' nis' ws rule: GarnetNetwork_wakeup.induct)
  case (1 p now gn)
  obtain g nis where gn: "gn = (g, nis)" by (cases gn)
  from 1(2) obtain g1 nis1 ws1 out where i: "inject_next p now gn = Inr (g1, nis1, ws1)" and r: "read_next p now (length nis1) g1 = Inr out"
      and w: "(case out of Stop g2 ws2 \<Rightarrow> Inr (g2, nis1, ws1 @ ws2)
        | Again g2 \<Rightarrow> rbind (GarnetNetwork_wakeup p now (g2, nis1)) (\<lambda>(g3, nis3, ws3). Inr (g3, nis3, ws1 @ ws3))) = Inr (g', nis', ws)"
    by (subst (asm) GarnetNetwork_wakeup.simps) (auto simp: res_iff)
  note ic = inject_count [OF i [unfolded gn]] and rc = read_count [OF r]
  show ?case
  proof (cases out)
    case (Stop g2 ws2)
    then show ?thesis using w rc ic 1(3,4) gn by (auto simp: within_limit_def)
  next
    case (Again g2)
    from w obtain ws3 where w3: "GarnetNetwork_wakeup p now (g2, nis1) = Inr (g', nis', ws3)" "ws = ws1 @ ws3" by (auto simp: Again res_iff)
    have "trace_num_packets_injected g2 \<le> m_trace_max_packets g2" "m_trace_max_packets g2 = m_trace_max_packets g"
      using rc ic 1(3) gn by (auto simp: Again within_limit_def)
    then show ?thesis using 1(1) [OF i refl refl r Again w3(1)] ic(4) w3(2) 1(3) gn by simp
  qed
qed

section \<open>The properties\<close>

text \<open>Two interfaces, and a trace of three packets, two of them for the same cycle.\<close>

definition demo_line :: "cycles \<Rightarrow> int \<Rightarrow> NetworkTraceRecord" where
  "demo_line t src =
     \<lparr>tr_valid = True, tr_time = t, tr_src_id = src, tr_src_router_id = 0, tr_dest_id = 1 - src, tr_dest_router_id = 0, tr_vnet = 0,
      tr_num_flits = 2, tr_network_idx = 0, tr_input_idx = 0, tr_phase_id = 12\<rparr>"

definition demo_lines :: "NetworkTraceRecord list" where
  "demo_lines = [demo_line 3 0, demo_line 3 1, demo_line 40 0]"

definition demo_interfaces :: "NetworkInterface list" where
  "demo_interfaces = [NI_new 0 1 100, NI_new 1 1 100]"

lemma demo_lines_ok: "list_all (record_ok (length demo_interfaces)) demo_lines"
  by code_simp

text \<open>
  C15. A trace line is read back as it was printed. If the fields of a record are numbers that fit into
  an \<open>int\<close>, its nodes exist and its line has at most 99 characters, then \<open>fgets\<close> takes exactly this
  line from the file, and its tokens, converted by \<open>atoi\<close>, make up the record as the next packet.
\<close>

theorem trace_line_roundtrip:
  assumes "record_ok n r"
  shows "\<exists>st. fgets 100 (print_line r @ rest) = Some (print_line r, rest) \<and>
    parse_line n (print_line r) g = Inr (Some (g\<lparr>trace_start_time := st, trace_next_packet := r\<rparr>))"
  using parse_print_line [OF assms] fgets_print_line [of r rest] assms by (simp add: record_ok_def)

theorem trace_line_roundtrip_witness:
  "\<exists>st. fgets 100 (print_line (demo_line 40 0) @ ''5'') = Some (print_line (demo_line 40 0), ''5'') \<and>
    parse_line 2 (print_line (demo_line 40 0)) demo_garnet = Inr (Some (demo_garnet\<lparr>trace_start_time := st, trace_next_packet := demo_line 40 0\<rparr>))"
proof -
  have "record_ok 2 (demo_line 40 0)" using demo_lines_ok by (simp add: demo_lines_def demo_interfaces_def numeral_2_eq_2)
  from trace_line_roundtrip [OF this] show ?thesis .
qed

text \<open>
  C8. A trace in the order of time is replayed completely. From the first wake-up of a network without
  a limit on packets, whose trace file holds the lines of records in the order of their times (none
  before the first wake-up), the wake-ups of the network, driven by its consumer's schedule, return
  without a failed assertion. They hand every record to the interface of its source, in the order of
  the file, count all packets and flits, and then know that the trace has ended. As many wake-ups as
  there are records and two more are enough.
\<close>

theorem trace_replay_complete:
  assumes p: "p \<noteq> 0" "unat p < 2 ^ 32" and first: "unat t < 2 ^ 31" "\<not> tr_valid (trace_next_packet g)"
    and g: "tracefile g = trace_text rs" "m_trace_max_packets g < 0" "\<not> trace_broken g"
    and rs: "list_all (record_ok (length nis)) rs" "sorted (map tr_time rs)" "list_all (\<lambda>r. t \<le> tr_time r) rs"
  shows "\<exists>g'. replay (length rs + 2) p (waiting_for p t, g, nis) = Inr (Some (g', hand_over_all nis rs)) \<and>
    end_simulation g' = Some True \<and> trace_num_packets_injected g' = trace_num_packets_injected g + int (length rs) \<and>
    trace_num_flits_injected g' = trace_num_flits_injected g + total_flits rs"
proof -
  let ?P = "\<lambda>r. tr_time r = t"
  have t: "replay_time p t" using p first(1) by (simp add: replay_time_def)
  have "reader g rs" using g by (simp add: reader_def)
  from wakeup_first [OF first(2) rs(1) this, of p "p * t"] obtain g1 ws where
      w: "GarnetNetwork_wakeup p (p * t) (g, nis) = Inr (g1, hand_over_all nis (takeWhile ?P rs), ws)"
      "handed_over p (takeWhile ?P rs) (dropWhile ?P rs) g g1 ws" unfolding replay_tick(3) [OF t] by blast
  show ?thesis
  proof (cases "dropWhile ?P rs")
    case Nil
    then have tw: "takeWhile ?P rs = rs" by (metis append_Nil2 takeWhile_dropWhile_id)
    show ?thesis using replay_step [OF w t, of "length rs"] w(2) unfolding tw Nil by (simp add: handed_over_def)
  next
    case (Cons r' rs')
    have split: "rs = takeWhile ?P rs @ r' # rs'" using Cons by (metis takeWhile_dropWhile_id)
    define xs where "xs = takeWhile ?P rs"
    have e: "rs = xs @ r' # rs'" using split by (simp add: xs_def)
    have r': "list_all (record_ok (length nis)) (r' # rs')" "sorted (map tr_time (r' # rs'))" "t \<le> tr_time r'"
      using rs by (simp_all add: e sorted_append)
    obtain k where k: "length rs = Suc k" "length rs' \<le> k" using arg_cong [OF e, of length] by simp
    have h: "handed_over p xs (r' # rs') g g1 ws" using w(2) unfolding Cons xs_def .
    then have "trace_next_packet g1 = r'" "reader g1 rs'" by (simp_all add: handed_over_def)
    then obtain g' where g': "replay (Suc (Suc k)) p (waiting_for p (tr_time r'), g1, hand_over_all nis xs) =
        Inr (Some (g', hand_over_all (hand_over_all nis xs) (r' # rs')))" "end_simulation g' = Some True"
        "trace_num_packets_injected g' = trace_num_packets_injected g1 + int (length (r' # rs'))"
        "trace_num_flits_injected g' = trace_num_flits_injected g1 + total_flits (r' # rs')"
      using replay_rest [OF p, of "hand_over_all nis xs" r' rs' g1 k] r'(1,2) k(2) by auto
    have "replay (Suc (Suc (Suc k))) p (waiting_for p t, g, nis) = replay (Suc (Suc k)) p (waiting_for p (tr_time r'), g1, hand_over_all nis xs)"
      using replay_step [OF w t, of "Suc k"] Cons r'(3) record_time [OF _ p, of "length nis" r'] r'(1) by (simp add: xs_def)
    then show ?thesis using g'(1,2) handed_over_twice [OF h g'(3,4)] k(1) by (simp add: e)
  qed
qed

theorem trace_replay_complete_witness:
  "\<exists>g'. replay 5 10 (waiting_for 10 1, demo_garnet\<lparr>m_trace_max_packets := -1, tracefile := trace_text demo_lines\<rparr>, demo_interfaces) =
      Inr (Some (g', hand_over_all demo_interfaces demo_lines)) \<and> end_simulation g' = Some True \<and>
    trace_num_packets_injected g' = trace_num_packets_injected demo_garnet + 3 \<and> trace_num_flits_injected g' = trace_num_flits_injected demo_garnet + 6"
proof -
  have "sorted (map tr_time demo_lines)" "list_all (\<lambda>r. 1 \<le> tr_time r) demo_lines" "length demo_lines = 3" "total_flits demo_lines = 6"
    by (simp_all add: demo_lines_def demo_line_def total_flits_def)
  then show ?thesis
    using trace_replay_complete [of 10 1 "demo_garnet\<lparr>m_trace_max_packets := -1, tracefile := trace_text demo_lines\<rparr>" demo_lines demo_interfaces] demo_lines_ok
    by (simp add: demo_garnet_def demo_record_def)
qed

text \<open>
  C31. The limit on trace packets is exceeded by one. A wake-up that begins within the limit leaves at
  most one packet more than the limit injected, and asks for another wake-up only when the limit is
  kept; but a wake-up that finds a record waiting when the limit is reached still injects it.
\<close>

theorem trace_limit:
  assumes w: "GarnetNetwork_wakeup p now (g, nis) = Inr (g', nis', ws)" and m: "0 \<le> m_trace_max_packets g"
    and n: "trace_num_packets_injected g \<le> m_trace_max_packets g"
  shows "trace_num_packets_injected g' \<le> m_trace_max_packets g + 1 \<and>
    (network_reqs ws \<noteq> [] \<longrightarrow> trace_num_packets_injected g' \<le> m_trace_max_packets g) \<and>
    (tr_valid (trace_next_packet g) \<and> trace_num_packets_injected g = m_trace_max_packets g \<longrightarrow>
      trace_num_packets_injected g' = m_trace_max_packets g + 1)"
proof -
  have le: "trace_num_packets_injected g' = m_trace_max_packets g + 1"
    if v: "tr_valid (trace_next_packet g)" "trace_num_packets_injected g = m_trace_max_packets g"
  proof -
    from w obtain g1 nis1 ws1 out where i: "inject_next p now (g, nis) = Inr (g1, nis1, ws1)" and r: "read_next p now (length nis1) g1 = Inr out"
        and o: "(case out of Stop g2 ws2 \<Rightarrow> Inr (g2, nis1, ws1 @ ws2)
          | Again g2 \<Rightarrow> rbind (GarnetNetwork_wakeup p now (g2, nis1)) (\<lambda>(g3, nis3, ws3). Inr (g3, nis3, ws1 @ ws3))) = Inr (g', nis', ws)"
      by (subst (asm) GarnetNetwork_wakeup.simps) (auto simp: res_iff)
    have "trace_num_packets_injected g1 = m_trace_max_packets g + 1" "m_trace_max_packets g1 = m_trace_max_packets g"
      using i v by (auto simp: inject_next_def Let_def res_iff split: prod.splits)
    then show ?thesis using read_count [OF r] o m by (cases out) (auto simp: within_limit_def)
  qed
  show ?thesis using wakeup_limit [OF w] m n le by simp
qed

theorem trace_limit_witness:
  "\<exists>g' nis' ws. GarnetNetwork_wakeup 1 3 (demo_garnet\<lparr>m_trace_max_packets := 0, trace_next_packet := demo_line 3 0\<rparr>, demo_interfaces) = Inr (g', nis', ws) \<and>
    trace_num_packets_injected g' = 1"
proof -
  let ?g = "demo_garnet\<lparr>m_trace_max_packets := 0, trace_next_packet := demo_line 3 0\<rparr>"
  have f: "trace_next_packet ?g = demo_line 3 0" "tr_time (demo_line 3 0) = 3" "tracefile ?g = trace_text []" "\<not> trace_broken ?g" "cycle_at 1 3 = 3"
    by (simp_all add: demo_garnet_def demo_line_def trace_text_def cycle_at_def)
  have "record_ok (length demo_interfaces) (demo_line 3 0)" using demo_lines_ok by (simp add: demo_lines_def)
  then obtain ws0 where "inject_next 1 3 (?g, demo_interfaces) = Inr (?g\<lparr>trace_num_packets_injected := trace_num_packets_injected ?g + 1,
      trace_num_flits_injected := trace_num_flits_injected ?g + 2\<rparr>, hand_over demo_interfaces (demo_line 3 0), ws0)"
    using inject_record [of demo_interfaces ?g 1 3] f by (auto simp: demo_line_def)
  then obtain g' nis' ws where w: "GarnetNetwork_wakeup 1 3 (?g, demo_interfaces) = Inr (g', nis', ws)"
    using f(3,4) by (subst (asm) GarnetNetwork_wakeup.simps) (simp add: read_text_end)
  have "m_trace_max_packets ?g = 0" "trace_num_packets_injected ?g = 0" "tr_valid (trace_next_packet ?g)"
    by (simp_all add: demo_garnet_def demo_line_def)
  then show ?thesis using trace_limit [OF w] w by auto
qed

lemma token_int_fault: "token_int tokens i = Inl e \<Longrightarrow> e = Undefined"
  by (auto simp: token_int_def vget_def atoi_def Let_def rbind_eq_Inl split: if_splits)

lemma rbind_undefined: "(\<And>e. m = Inl e \<Longrightarrow> e = Undefined) \<Longrightarrow> (\<And>x. f x = Inl Undefined) \<Longrightarrow> rbind m f = Inl Undefined"
  by (cases m) auto

text \<open>
  C32. A line with too few numbers is fatal. If the next line of the trace has at least one token and
  fewer than seven, as an empty line has (the line break is a token of its own), reading it ends in
  undefined behaviour: a null pointer is converted to a number.
\<close>

theorem short_line_undefined:
  assumes "fgets 100 (tracefile g) = Some (line, rest)" "strtok_all [] line \<noteq> []" "length (strtok_all [] line) < 7"
  shows "read_next p now n g = Inl Undefined"
proof -
  have t: "token_int (strtok_all [] line) 6 = Inl Undefined" using assms(3) by (simp add: token_int_def vget_def)
  have "parse_record (strtok_all [] line) r = Inl Undefined" for r
    unfolding parse_record_def t rbind_Inl by (rule rbind_undefined, erule token_int_fault)+ (rule refl)
  then show ?thesis using assms(1,2) by (simp add: read_next_def parse_line_def Let_def)
qed

theorem short_line_undefined_witness:
  "read_next 1 0 2 (demo_garnet\<lparr>tracefile := [newline]\<rparr>) = Inl Undefined"
proof -
  have "fgets 100 (tracefile (demo_garnet\<lparr>tracefile := [newline]\<rparr>)) = Some ([newline], [])" by code_simp
  moreover have "strtok_all [] [newline] \<noteq> []" "length (strtok_all [] [newline]) < 7" by code_simp+
  ultimately show ?thesis by (rule short_line_undefined)
qed

text \<open>
  C33. An interface cannot inject the last records of its trace. If it has no flit left to inject and
  all the records that wait carry the same time (as when records come one cycle at a time), moving
  them to the injection queue empties the queue of records and then reads its first element.
\<close>

theorem trace_transfer_undefined:
  assumes "m_trace_injection_queue ni = []" "m_trace_record_queue ni \<noteq> []"
    "list_all (\<lambda>r. tr_time r = tr_time (hd (m_trace_record_queue ni))) (m_trace_record_queue ni)"
  shows "replay_trace env (ni, w) = Inl Undefined"
proof (cases "m_trace_record_queue ni")
  case (Cons r rs)
  then have "dropWhile (\<lambda>q. tr_time q = tr_time r) rs = []" using assms(3) by (simp add: list_all_iff)
  then show ?thesis using assms(1) Cons by (simp add: replay_trace_def NI_transferTraceRecordsToInjectionQueue_def del: dropWhile_eq_Nil_conv)
qed (use assms(2) in simp)

theorem trace_transfer_undefined_witness:
  "\<forall>env w. replay_trace env ((NI_new 0 1 100)\<lparr>m_trace_record_queue := [demo_line 3 0, demo_line 3 0]\<rparr>, w) = Inl Undefined"
proof (intro allI)
  fix env w
  let ?ni = "(NI_new 0 1 100)\<lparr>m_trace_record_queue := [demo_line 3 0, demo_line 3 0]\<rparr>"
  show "replay_trace env (?ni, w) = Inl Undefined" using trace_transfer_undefined [of ?ni env w] by (simp add: NI_new_def)
qed

end
