(* ===== verification/Garnet_Traffic.thy ===== *)
theory Garnet_Traffic
  imports Garnet_Clock
begin

text \<open>
  The synthetic traffic generator (cpu/testers/garnet_synthetic_traffic/GarnetSyntheticTraffic.cc
  and .hh): the choice of a destination by the traffic pattern, the packet that is made for it, and
  the events of a tester.

  The random numbers of an event and the answers of the port to the memory system are arguments
  (\<open>draws\<close>). The injection rate is a floating-point number that the code only compares: \<open>d_try\<close> is
  the outcome of the comparison in one cycle and \<open>injects\<close> says that the rate is not zero. The
  constant \<open>TESTER_NETWORK\<close>, which numbers the testers, is an argument of the constructor. Freed
  memory is not modelled.
\<close>

unbundle bit_operations_syntax

section \<open>Definitions: the traffic patterns\<close>

datatype TrafficType =
  BIT_COMPLEMENT | BIT_REVERSE | BIT_ROTATION | NEIGHBOR | SHUFFLE | TORNADO | TRANSPOSE | UNIFORM_RANDOM | NUM_TRAFFIC_PATTERNS

definition trafficStringToEnum :: "string \<Rightarrow> TrafficType option" where
  "trafficStringToEnum = map_of
     [(''bit_complement'', BIT_COMPLEMENT), (''bit_reverse'', BIT_REVERSE), (''bit_rotation'', BIT_ROTATION),
      (''neighbor'', NEIGHBOR), (''shuffle'', SHUFFLE), (''tornado'', TORNADO), (''transpose'', TRANSPOSE),
      (''uniform_random'', UNIFORM_RANDOM)]"

text \<open>
  The remainder of C, and the conversions to \<open>int\<close> of the square root and the binary logarithm of an
  \<open>int\<close>, which a \<open>double\<close> represents exactly enough for the rounding to be downwards.
\<close>

definition crem :: "int \<Rightarrow> int \<Rightarrow> int res" where
  "crem a b = rbind (cdiv a b) (\<lambda>q. Inr (a - q * b))"

fun isqrt :: "nat \<Rightarrow> nat" where
  "isqrt 0 = 0"
| "isqrt (Suc n) = (let r = isqrt n in if (r + 1) * (r + 1) \<le> Suc n then r + 1 else r)"

fun ilog2 :: "nat \<Rightarrow> nat" where
  "ilog2 n = (if n < 2 then 0 else Suc (ilog2 (n div 2)))"

definition int_sqrt :: "int \<Rightarrow> int res" where
  "int_sqrt n = (if n < 0 then Inl Undefined else Inr (int (isqrt (nat n))))"

definition int_log2 :: "int \<Rightarrow> int res" where
  "int_log2 n = (if n \<le> 0 then Inl Undefined else Inr (int (ilog2 (nat n))))"

text \<open>The loop of the bit reversal.\<close>

fun reverse_bits :: "nat \<Rightarrow> u32 \<Rightarrow> u32 \<Rightarrow> u32" where
  "reverse_bits 0 straight reverse = reverse"
| "reverse_bits (Suc n) straight reverse =
     (let straight' = drop_bit 1 straight in reverse_bits n straight' (push_bit 1 reverse OR (straight' AND 1)))"

section \<open>Definitions: the tester\<close>

datatype command = ReadReq | WriteReq

record request =
  rq_paddr :: "64 word"
  rq_size :: u32
  rq_inst_fetch :: bool
  rq_context :: int

record traffic_packet =
  pk_req :: request
  pk_cmd :: command

record tester =
  retryPkt :: "traffic_packet option"
  t_id :: int
  blockSizeBits :: u32
  noResponseCycles :: tick
  numDestinations :: int
  simCycles :: tick
  numPacketsMax :: int
  numPacketsSent :: int
  singleSender :: int
  singleDest :: int
  traffic :: TrafficType
  injects :: bool
  injVnet :: int
  responseLimit :: cycles
  tickEvent :: "tick option"

record draws =
  d_try :: bool
  d_dest :: u32
  d_vnet :: int
  d_accept :: bool

record tester_params =
  tp_block_offset :: u32
  tp_num_dest :: int
  tp_sim_cycles :: tick
  tp_num_packets_max :: int
  tp_single_sender :: int
  tp_single_dest :: int
  tp_traffic_type :: string
  tp_injects :: bool
  tp_inj_vnet :: int
  tp_response_limit :: cycles

definition GarnetSyntheticTraffic_new :: "tester_params \<Rightarrow> int \<Rightarrow> (tester \<times> int) res" where
  "GarnetSyntheticTraffic_new p TESTER_NETWORK =
     (case trafficStringToEnum (tp_traffic_type p) of
        None \<Rightarrow> Inl Fatal
      | Some tr \<Rightarrow> Inr (\<lparr>retryPkt = None, t_id = TESTER_NETWORK, blockSizeBits = tp_block_offset p, noResponseCycles = 0,
          numDestinations = tp_num_dest p, simCycles = tp_sim_cycles p, numPacketsMax = tp_num_packets_max p, numPacketsSent = 0,
          singleSender = tp_single_sender p, singleDest = tp_single_dest p, traffic = tr, injects = tp_injects p,
          injVnet = tp_inj_vnet p, responseLimit = tp_response_limit p, tickEvent = Some 0\<rparr>, TESTER_NETWORK + 1))"

definition tester_init :: "tester \<Rightarrow> tester" where
  "tester_init t = t\<lparr>numPacketsSent := 0\<rparr>"

definition traffic_destination :: "tester \<Rightarrow> u32 \<Rightarrow> u32 res" where
  "traffic_destination t draw =
     (let num_destinations = numDestinations t; source = t_id t in
      rbind (int_sqrt num_destinations) (\<lambda>radix.
      rbind (crem source radix) (\<lambda>src_x.
      rbind (cdiv source radix) (\<lambda>src_y.
      if 0 \<le> singleDest t then Inr (word_of_int (singleDest t))
      else
        case traffic t of
          UNIFORM_RANDOM \<Rightarrow> Inr draw
        | BIT_COMPLEMENT \<Rightarrow>
            let dest_x = radix - src_x - 1; dest_y = radix - src_y - 1 in Inr (word_of_int (dest_y * radix + dest_x))
        | BIT_REVERSE \<Rightarrow>
            rbind (int_log2 num_destinations) (\<lambda>num_bits.
            Inr (reverse_bits (nat (num_bits - 1)) (word_of_int source) (word_of_int source AND 1)))
        | BIT_ROTATION \<Rightarrow>
            rbind (crem source 2) (\<lambda>r.
            rbind (cdiv source 2) (\<lambda>half.
            rbind (cdiv num_destinations 2) (\<lambda>middle.
            Inr (word_of_int (if r = 0 then half else half + middle)))))
        | NEIGHBOR \<Rightarrow>
            rbind (crem (src_x + 1) radix) (\<lambda>dest_x. Inr (word_of_int (src_y * radix + dest_x)))
        | SHUFFLE \<Rightarrow>
            rbind (cdiv num_destinations 2) (\<lambda>middle.
            Inr (word_of_int (if source < middle then source * 2 else source * 2 - num_destinations + 1)))
        | TRANSPOSE \<Rightarrow>
            let dest_x = src_y; dest_y = src_x in Inr (word_of_int (dest_y * radix + dest_x))
        | TORNADO \<Rightarrow>
            rbind (cdiv radix 2) (\<lambda>half.
            rbind (crem (src_x + half - 1) radix) (\<lambda>dest_x. Inr (word_of_int (src_y * radix + dest_x))))
        | NUM_TRAFFIC_PATTERNS \<Rightarrow> Inl Fatal))))"

text \<open>A packet that the port accepts is handed to the memory system, the second component of the result.\<close>

definition sendPkt :: "bool \<Rightarrow> traffic_packet \<Rightarrow> tester \<Rightarrow> tester \<times> traffic_packet list" where
  "sendPkt accepts pkt t =
     ((if accepts then t else t\<lparr>retryPkt := Some pkt\<rparr>)\<lparr>numPacketsSent := numPacketsSent t + 1\<rparr>, if accepts then [pkt] else [])"

definition make_packet :: "tester \<Rightarrow> 64 word \<Rightarrow> int \<Rightarrow> traffic_packet" where
  "make_packet t paddr injReqType =
     (let access_size = 1 in
      if injReqType = 0 then
        \<lparr>pk_req = \<lparr>rq_paddr = paddr, rq_size = access_size, rq_inst_fetch = False, rq_context = t_id t\<rparr>, pk_cmd = ReadReq\<rparr>
      else if injReqType = 1 then
        \<lparr>pk_req = \<lparr>rq_paddr = paddr, rq_size = access_size, rq_inst_fetch = True, rq_context = t_id t\<rparr>, pk_cmd = ReadReq\<rparr>
      else
        \<lparr>pk_req = \<lparr>rq_paddr = paddr, rq_size = access_size, rq_inst_fetch = False, rq_context = t_id t\<rparr>, pk_cmd = WriteReq\<rparr>)"

definition generatePkt :: "draws \<Rightarrow> tester \<Rightarrow> (tester \<times> traffic_packet list) res" where
  "generatePkt d t =
     rbind (traffic_destination t (d_dest d)) (\<lambda>destination.
     rbind (check Undefined (blockSizeBits t < 64)) (\<lambda>_.
     let paddr = push_bit (unat (blockSizeBits t)) (ucast destination :: 64 word);
         injReqType = (if injVnet t < 0 \<or> 2 < injVnet t then d_vnet d else injVnet t) in
     Inr (sendPkt (d_accept d) (make_packet t paddr injReqType) t)))"

text \<open>
  One cycle, run by the event queue, which has taken the event out of its schedule. The third
  component of the result says that the end of the simulation was asked for.
\<close>

definition senderEnable :: "tester \<Rightarrow> bool" where
  "senderEnable t =
     (\<not> (0 \<le> numPacketsMax t \<and> numPacketsMax t \<le> numPacketsSent t) \<and> \<not> (0 \<le> singleSender t \<and> t_id t \<noteq> singleSender t))"

definition schedule_tick :: "tick \<Rightarrow> tick \<Rightarrow> tester \<Rightarrow> tester \<times> bool" where
  "schedule_tick p now t =
     (if injects t then
        if simCycles t \<le> now then (t, True)
        else (if tickEvent t = None then t\<lparr>tickEvent := Some (edge_at p now 1)\<rparr> else t, False)
      else (t, False))"

definition tester_tick :: "tick \<Rightarrow> tick \<Rightarrow> draws \<Rightarrow> tester \<Rightarrow> (tester \<times> traffic_packet list \<times> bool) res" where
  "tester_tick p now d t =
     (let t1 = t\<lparr>noResponseCycles := noResponseCycles t + 1, tickEvent := None\<rparr> in
      rbind (check Fatal (\<not> responseLimit t1 \<le> noResponseCycles t1)) (\<lambda>_.
      rbind (if d_try d \<and> senderEnable t1 then generatePkt d t1 else Inr (t1, [])) (\<lambda>(t2, sent).
      let (t3, stop) = schedule_tick p now t2 in Inr (t3, sent, stop))))"

definition completeRequest :: "bool \<Rightarrow> tester \<Rightarrow> tester res" where
  "completeRequest isResponse t = rbind (check Assertion isResponse) (\<lambda>_. Inr (t\<lparr>noResponseCycles := 0\<rparr>))"

definition doRetry :: "bool \<Rightarrow> tester \<Rightarrow> (tester \<times> traffic_packet list) res" where
  "doRetry accepts t =
     (case retryPkt t of
        None \<Rightarrow> Inl Undefined
      | Some pkt \<Rightarrow> Inr (if accepts then (t\<lparr>retryPkt := None\<rparr>, [pkt]) else (t, [])))"

text \<open>The events of a tester and the packets that they hand to the memory system.\<close>

datatype tester_event = TickAt tick draws | Response bool | Retry bool

fun tester_run :: "tick \<Rightarrow> tester_event list \<Rightarrow> tester \<Rightarrow> (tester \<times> traffic_packet list) res" where
  "tester_run p [] t = Inr (t, [])"
| "tester_run p (e # es) t =
     rbind (case e of
        TickAt now d \<Rightarrow> rbind (tester_tick p now d t) (\<lambda>(t', out, _). Inr (t', out))
      | Response r \<Rightarrow> rbind (completeRequest r t) (\<lambda>t'. Inr (t', []))
      | Retry a \<Rightarrow> doRetry a t) (\<lambda>(t', out).
     rbind (tester_run p es t') (\<lambda>(t'', out'). Inr (t'', out @ out')))"

declare ilog2.simps [simp del]

section \<open>Arithmetic\<close>

lemma isqrt_spec: "isqrt n * isqrt n \<le> n \<and> n < (isqrt n + 1) * (isqrt n + 1)"
proof (induction n)
  case (Suc n)
  then show ?case by (auto simp: Let_def algebra_simps)
qed simp

lemma isqrt_square [simp]: "isqrt (r * r) = r"
proof (rule ccontr)
  let ?q = "isqrt (r * r)"
  assume "?q \<noteq> r"
  then consider "r + 1 \<le> ?q" | "?q + 1 \<le> r" by linarith
  then show False
  proof cases
    case 1
    then show False using isqrt_spec [of "r * r"] mult_le_mono [OF 1 1] by simp
  next
    case 2
    then show False using isqrt_spec [of "r * r"] mult_le_mono [OF 2 2] by linarith
  qed
qed

lemma isqrt_pos: "0 < n \<Longrightarrow> 0 < isqrt n"
  using isqrt_spec [of n] by (cases "isqrt n") auto

lemma ilog2_power [simp]: "ilog2 (2 ^ k) = k"
proof (induction k)
  case (Suc k)
  have "\<not> (2::nat) ^ Suc k < 2" by simp
  then show ?case using Suc by (subst ilog2.simps) simp
qed (simp add: ilog2.simps)

lemma crem_nonneg: "0 \<le> a \<Longrightarrow> 0 < b \<Longrightarrow> crem a b = Inr (a mod b)"
  by (simp add: crem_def cdiv_nonneg minus_div_mult_eq_mod)

lemma int_word_id: "0 \<le> a \<Longrightarrow> a < 2 ^ 32 \<Longrightarrow> uint (word_of_int a :: u32) = a"
  by (simp add: word_of_int_inverse uint_word_of_int)

text \<open>The bit reversal exchanges bit \<open>j\<close> with bit \<open>k - 1 - j\<close>.\<close>

lemma bit_double_word: "bit (r * 2 :: u32) j \<longleftrightarrow> 0 < j \<and> j < 32 \<and> bit r (j - 1)"
  using bit_double_iff [of r j] by (auto simp: mult.commute)

lemma bit_reverse_bits:
  "n < 32 \<Longrightarrow> bit (reverse_bits n s r) j \<longleftrightarrow> j < 32 \<and> (if j < n then bit s (n - j) else bit r (j - n))"
proof (induction n arbitrary: s r)
  case 0
  then show ?case by (auto dest: bit_imp_le_length)
next
  case (Suc n)
  then show ?case
    by (auto simp: Let_def bit_simps bit_double_word not_less Suc_diff_le less_Suc_eq)
qed

definition reversed :: "nat \<Rightarrow> u32 \<Rightarrow> u32" where
  "reversed k s = reverse_bits (k - 1) s (s AND 1)"

lemma bit_reversed: "0 < k \<Longrightarrow> k \<le> 32 \<Longrightarrow> bit (reversed k s) j \<longleftrightarrow> j < k \<and> bit s (k - 1 - j)"
  by (cases k) (auto simp: reversed_def bit_reverse_bits bit_simps)

lemma bit_uint32: "bit (uint (w :: u32)) j \<longleftrightarrow> bit w j"
  by (metis bit_imp_le_length bit_uint_iff)

lemma low_word: "uint (w :: u32) < 2 ^ k \<longleftrightarrow> (\<forall>j\<ge>k. \<not> bit w j)"
proof
  assume "uint w < 2 ^ k"
  then have "take_bit k (uint w) = uint w" by (simp add: take_bit_int_eq_self_iff)
  then have "bit w j = (j < k \<and> bit w j)" for j by (metis bit_take_bit_iff bit_uint32)
  then show "\<forall>j\<ge>k. \<not> bit w j" by (meson not_less)
next
  assume a: "\<forall>j\<ge>k. \<not> bit w j"
  have "bit (take_bit k (uint w)) j = bit (uint w) j" for j
    unfolding bit_take_bit_iff bit_uint32 using a by (meson not_less)
  then have "take_bit k (uint w) = uint w" by (intro bit_eqI) simp
  then show "uint w < 2 ^ k" by (simp add: take_bit_int_eq_self_iff)
qed

lemma reversed_range:
  assumes "k \<le> 32" "uint s < 2 ^ k"
  shows "uint (reversed k s) < 2 ^ k" "reversed k (reversed k s) = s"
proof -
  show "uint (reversed k s) < 2 ^ k"
  proof (cases "k = 0")
    case True
    then have "uint s = 0" using assms(2) uint_nonnegative [of s] by (simp only: True power_0)
    then have "s = 0" by (simp add: uint_0_iff)
    then show ?thesis using True by (simp add: reversed_def)
  next
    case False
    then show ?thesis using assms(1) by (subst low_word) (simp add: bit_reversed)
  qed
  show "reversed k (reversed k s) = s"
  proof (cases "k = 0")
    case True
    then have "uint s = 0" using assms(2) uint_nonnegative [of s] by (simp only: True power_0)
    then have "s = 0" by (simp add: uint_0_iff)
    then show ?thesis using True by (simp add: reversed_def)
  next
    case False
    have "\<forall>j\<ge>k. \<not> bit s j" using assms(2) by (simp add: low_word)
    then have "bit (reversed k (reversed k s)) j = bit s j" for j
      using False assms(1) by (cases "j < k") (simp_all add: bit_reversed Suc_diff_Suc not_less)
    then show ?thesis by (intro bit_word_eqI) simp
  qed
qed

text \<open>A shift within the rows of a mesh.\<close>

definition row_shift :: "int \<Rightarrow> int \<Rightarrow> int \<Rightarrow> int" where
  "row_shift r c s = s div r * r + (s mod r + c) mod r"

lemma row_shift_inverse: "0 < r \<Longrightarrow> row_shift r (- c) (row_shift r c s) = s"
  by (simp add: row_shift_def mod_diff_left_eq)

lemma mesh_range: "0 \<le> x \<Longrightarrow> x < r \<Longrightarrow> 0 \<le> y \<Longrightarrow> y < r \<Longrightarrow> 0 \<le> y * r + x \<and> y * r + x < r * r" for r x y :: int
proof -
  assume a: "0 \<le> x" "x < r" "0 \<le> y" "y < r"
  have "(y + 1) * r \<le> r * r" using a by (intro mult_right_mono) simp_all
  then show "0 \<le> y * r + x \<and> y * r + x < r * r" using a by (auto simp: algebra_simps)
qed

lemma row_range:
  fixes r s :: int
  assumes "0 < r" "0 \<le> s" "s < r * r"
  shows "0 \<le> s div r" "s div r < r" "0 \<le> s mod r" "s mod r < r"
proof -
  have "s div r * r < r * r" using assms div_mult_mod_eq [of s r] pos_mod_sign [of r s] by linarith
  then show "s div r < r" using assms(1) by (simp add: mult_less_cancel_right)
qed (use assms in \<open>simp_all add: pos_imp_zdiv_nonneg_iff\<close>)

section \<open>Patterns as permutations\<close>

definition pattern_dest :: "TrafficType \<Rightarrow> int \<Rightarrow> int \<Rightarrow> int" where
  "pattern_dest tr n s =
     (let r = int (isqrt (nat n)) in
      case tr of
        BIT_COMPLEMENT \<Rightarrow> n - 1 - s
      | BIT_REVERSE \<Rightarrow> uint (reversed (ilog2 (nat n)) (word_of_int s))
      | BIT_ROTATION \<Rightarrow> if even s then s div 2 else s div 2 + n div 2
      | NEIGHBOR \<Rightarrow> row_shift r 1 s
      | SHUFFLE \<Rightarrow> if s < n div 2 then s * 2 else s * 2 - n + 1
      | TORNADO \<Rightarrow> row_shift r (r div 2 - 1) s
      | TRANSPOSE \<Rightarrow> s mod r * r + s div r
      | _ \<Rightarrow> s)"

text \<open>
  The numbers of destinations that a pattern is meant for: a square for the patterns of a mesh, a
  power of two for the reversal, an even number for rotation and shuffle.
\<close>

definition pattern_ok :: "TrafficType \<Rightarrow> int \<Rightarrow> bool" where
  "pattern_ok tr n =
     (0 < n \<and> n \<le> 2 ^ 30 \<and>
      (case tr of
        BIT_COMPLEMENT \<Rightarrow> int (isqrt (nat n) * isqrt (nat n)) = n
      | BIT_REVERSE \<Rightarrow> 2 ^ ilog2 (nat n) = n
      | BIT_ROTATION \<Rightarrow> even n
      | NEIGHBOR \<Rightarrow> int (isqrt (nat n) * isqrt (nat n)) = n
      | SHUFFLE \<Rightarrow> even n
      | TORNADO \<Rightarrow> int (isqrt (nat n) * isqrt (nat n)) = n
      | TRANSPOSE \<Rightarrow> int (isqrt (nat n) * isqrt (nat n)) = n
      | _ \<Rightarrow> False))"

lemma crem_pos_divisor: "0 < b \<Longrightarrow> - b < a \<Longrightarrow> a < 0 \<Longrightarrow> crem a b = Inr a" for a b :: int
  by (simp add: crem_def cdiv_def sgn_if)

lemma traffic_destination_pattern:
  assumes ok: "pattern_ok (traffic t) n" and s: "0 \<le> s" "s < n" and d: "singleDest t < 0" and n: "numDestinations t = n" "t_id t = s"
  shows "traffic_destination t draw = Inr (word_of_int (pattern_dest (traffic t) n s))"
proof -
  define r where "r = int (isqrt (nat n))"
  have r: "0 < r" "int_sqrt n = Inr r" using ok isqrt_pos [of "nat n"] by (simp_all add: pattern_ok_def r_def int_sqrt_def)
  have x: "crem s r = Inr (s mod r)" "cdiv s r = Inr (s div r)" using s r by (simp_all add: crem_nonneg cdiv_nonneg)
  have m: "0 \<le> s mod r" "s mod r < r" using r by simp_all
  have h: "cdiv n 2 = Inr (n div 2)" "cdiv s 2 = Inr (s div 2)" "crem s 2 = Inr (s mod 2)" "cdiv r 2 = Inr (r div 2)"
    using s r by (simp_all add: crem_nonneg cdiv_nonneg)
  have nb: "crem (s mod r + 1) r = Inr ((s mod r + 1) mod r)" using m by (simp add: crem_nonneg)
  have to: "crem (s mod r + r div 2 - 1) r = Inr ((s mod r + r div 2 - 1) mod r)"
  proof (cases "s mod r + r div 2 = 0")
    case True
    then have "r = 1" using m r by linarith
    then show ?thesis by (simp add: crem_def cdiv_def)
  next
    case False
    moreover have "0 \<le> r div 2" using r by (simp add: pos_imp_zdiv_nonneg_iff)
    ultimately show ?thesis using m r by (intro crem_nonneg) linarith+
  qed
  note base = traffic_destination_def Let_def n r(2) x pattern_dest_def r_def [symmetric]
  show ?thesis
  proof (cases "traffic t")
    case BIT_COMPLEMENT
    then have "r * r = n" using ok by (simp add: pattern_ok_def r_def)
    then have "(r - s div r - 1) * r + (r - s mod r - 1) = n - 1 - s"
      using div_mult_mod_eq [of s r] by (simp add: algebra_simps)
    then have "(word_of_int ((r - s div r - 1) * r + (r - s mod r - 1)) :: u32) = word_of_int (n - 1 - s)" by (rule arg_cong)
    then show ?thesis using BIT_COMPLEMENT d by (simp add: base del: of_int_add of_int_diff of_int_mult)
  next
    case BIT_REVERSE
    have "nat (int (ilog2 (nat n)) - 1) = ilog2 (nat n) - 1" by simp
    then show ?thesis using BIT_REVERSE d s by (simp add: base int_log2_def reversed_def)
  next
    case TORNADO
    then show ?thesis using TORNADO d by (simp add: base h to row_shift_def add_diff_eq del: of_int_add of_int_diff of_int_mult)
  next
    case BIT_ROTATION
    have "s mod 2 = 0 \<longleftrightarrow> even s" by presburger
    then show ?thesis using BIT_ROTATION d by (simp add: base h del: of_int_add of_int_diff of_int_mult)
  next
    case SHUFFLE
    then show ?thesis using d by (simp add: base h del: of_int_add of_int_diff of_int_mult)
  next
    case NEIGHBOR
    then show ?thesis using d by (simp add: base nb row_shift_def del: of_int_add of_int_diff of_int_mult)
  next
    case TRANSPOSE
    then show ?thesis using d by (simp add: base del: of_int_add of_int_diff of_int_mult)
  next
    case UNIFORM_RANDOM
    then show ?thesis using ok by (simp add: pattern_ok_def)
  next
    case NUM_TRAFFIC_PATTERNS
    then show ?thesis using ok by (simp add: pattern_ok_def)
  qed
qed

definition pattern_source :: "TrafficType \<Rightarrow> int \<Rightarrow> int \<Rightarrow> int" where
  "pattern_source tr n d =
     (let r = int (isqrt (nat n)) in
      case tr of
        BIT_ROTATION \<Rightarrow> pattern_dest SHUFFLE n d
      | SHUFFLE \<Rightarrow> pattern_dest BIT_ROTATION n d
      | NEIGHBOR \<Rightarrow> row_shift r (- 1) d
      | TORNADO \<Rightarrow> row_shift r (- (r div 2 - 1)) d
      | _ \<Rightarrow> pattern_dest tr n d)"

lemma square_pattern:
  assumes "pattern_ok tr n" "tr \<in> {BIT_COMPLEMENT, NEIGHBOR, TORNADO, TRANSPOSE}" "0 \<le> s" "s < n"
  defines "r \<equiv> int (isqrt (nat n))"
  shows "0 < r" "n = r * r" "0 \<le> s div r" "s div r < r" "0 \<le> s mod r" "s mod r < r"
proof -
  show r: "0 < r" "n = r * r" using assms(1,2) isqrt_pos [of "nat n"] by (auto simp: r_def pattern_ok_def)
  show "0 \<le> s div r" "s div r < r" "0 \<le> s mod r" "s mod r < r" using row_range [of r s] r assms(3,4) by simp_all
qed

lemma row_shift_range:
  assumes "0 < r" "0 \<le> s" "s < r * r"
  shows "0 \<le> row_shift r c s \<and> row_shift r c s < r * r"
  unfolding row_shift_def using row_range [OF assms] assms(1) by (intro mesh_range) simp_all

lemma reverse_pattern:
  assumes "pattern_ok BIT_REVERSE n" "0 \<le> s" "s < n"
  defines "k \<equiv> ilog2 (nat n)"
  shows "k \<le> 32" "uint (word_of_int s :: u32) = s" "s < 2 ^ k" "n = 2 ^ k"
proof -
  show n: "n = 2 ^ k" using assms(1) by (simp add: pattern_ok_def k_def)
  then show "s < 2 ^ k" using assms(3) by simp
  have "(2::int) ^ k \<le> 2 ^ 30" using assms(1) n by (simp add: pattern_ok_def)
  then have "k \<le> 30" by (rule power_le_imp_le_exp [rotated]) simp
  then show "k \<le> 32" by simp
  have "n \<le> 2 ^ 30" using assms(1) by (simp add: pattern_ok_def)
  then show "uint (word_of_int s :: u32) = s" using assms(2,3) by (intro int_word_id) simp_all
qed

lemma pattern_range:
  assumes ok: "pattern_ok tr n" and s: "0 \<le> s" "s < n"
  shows "0 \<le> pattern_dest tr n s \<and> pattern_dest tr n s < n"
proof (cases tr)
  case BIT_REVERSE
  then show ?thesis using reverse_pattern [of n s] ok s reversed_range(1) [of "ilog2 (nat n)" "word_of_int s"]
    by (simp add: pattern_dest_def)
next
  case TRANSPOSE
  then show ?thesis using square_pattern [OF ok _ s] mesh_range [of "s div int (isqrt (nat n))" "int (isqrt (nat n))" "s mod int (isqrt (nat n))"]
    by (simp add: pattern_dest_def Let_def)
next
  case NEIGHBOR
  then show ?thesis using square_pattern [OF ok _ s] row_shift_range [of "int (isqrt (nat n))" s] s by (simp add: pattern_dest_def Let_def)
next
  case TORNADO
  then show ?thesis using square_pattern [OF ok _ s] row_shift_range [of "int (isqrt (nat n))" s] s by (simp add: pattern_dest_def Let_def)
next
  case BIT_ROTATION
  then show ?thesis using ok s by (auto simp: pattern_dest_def pattern_ok_def elim!: evenE oddE)
qed (use ok s in \<open>auto simp: pattern_dest_def pattern_ok_def\<close>)

lemma pattern_source_range: "pattern_ok tr n \<Longrightarrow> 0 \<le> d \<Longrightarrow> d < n \<Longrightarrow> 0 \<le> pattern_source tr n d \<and> pattern_source tr n d < n"
  using pattern_range [of tr n d] pattern_range [of SHUFFLE n d] pattern_range [of BIT_ROTATION n d]
    square_pattern [of tr n d] row_shift_range [of "int (isqrt (nat n))" d]
  by (cases tr) (simp_all add: pattern_source_def Let_def pattern_ok_def)

lemma rotation_shuffle:
  assumes "even n" "0 \<le> s" "s < n"
  shows "pattern_dest BIT_ROTATION n (pattern_dest SHUFFLE n s) = s" "pattern_dest SHUFFLE n (pattern_dest BIT_ROTATION n s) = s"
proof -
  obtain m where m: "n = 2 * m" using assms(1) by (rule evenE)
  show "pattern_dest BIT_ROTATION n (pattern_dest SHUFFLE n s) = s" by (auto simp: pattern_dest_def m)
  show "pattern_dest SHUFFLE n (pattern_dest BIT_ROTATION n s) = s"
    using assms(2,3) by (cases "even s") (auto simp: pattern_dest_def m elim!: evenE oddE)
qed

lemma pattern_inverse:
  assumes ok: "pattern_ok tr n" and s: "0 \<le> s" "s < n"
  shows "pattern_source tr n (pattern_dest tr n s) = s" "pattern_dest tr n (pattern_source tr n s) = s"
proof -
  have "pattern_source tr n (pattern_dest tr n s) = s \<and> pattern_dest tr n (pattern_source tr n s) = s"
  proof (cases tr)
    case BIT_REVERSE
    then show ?thesis using reverse_pattern [of n s] ok s reversed_range(2) [of "ilog2 (nat n)" "word_of_int s"]
      by (simp add: pattern_dest_def pattern_source_def)
  next
    case TRANSPOSE
    then show ?thesis using square_pattern [OF ok _ s] by (simp add: pattern_dest_def pattern_source_def Let_def)
  next
    case NEIGHBOR
    then show ?thesis using square_pattern(1) [OF ok _ s] row_shift_inverse [of "int (isqrt (nat n))" 1 s] row_shift_inverse [of "int (isqrt (nat n))" "- 1" s]
      by (simp add: pattern_dest_def pattern_source_def Let_def)
  next
    case TORNADO
    let ?r = "int (isqrt (nat n))"
    have "0 < ?r" using square_pattern(1) [OF ok _ s] TORNADO by simp
    then show ?thesis using TORNADO row_shift_inverse [of ?r "?r div 2 - 1" s] row_shift_inverse [of ?r "- (?r div 2 - 1)" s]
      by (simp add: pattern_dest_def pattern_source_def Let_def)
  next
    case BIT_ROTATION
    then show ?thesis using rotation_shuffle [OF _ s] ok by (simp add: pattern_ok_def pattern_source_def)
  next
    case SHUFFLE
    then show ?thesis using rotation_shuffle [OF _ s] ok by (simp add: pattern_ok_def pattern_source_def)
  qed (use ok in \<open>simp_all add: pattern_dest_def pattern_source_def pattern_ok_def\<close>)
  then show "pattern_source tr n (pattern_dest tr n s) = s" "pattern_dest tr n (pattern_source tr n s) = s" by simp_all
qed

lemma pattern_bij: "pattern_ok tr n \<Longrightarrow> bij_betw (pattern_dest tr n) {0..<n} {0..<n}"
  by (rule bij_betw_byWitness [where f' = "pattern_source tr n"])
    (auto simp: pattern_inverse dest: pattern_range pattern_source_range)

section \<open>Runs of a tester\<close>

definition pending :: "tester \<Rightarrow> int" where
  "pending t = (if retryPkt t = None then 0 else 1)"

definition budget :: "tester \<Rightarrow> bool" where
  "budget t = (0 \<le> numPacketsMax t \<longrightarrow> numPacketsSent t \<le> numPacketsMax t)"

lemma generatePkt_cases:
  assumes "generatePkt d t = Inr (t', out)"
  shows "numPacketsSent t' = numPacketsSent t + 1" "int (length out) + pending t' \<le> pending t + 1"
    "numPacketsMax t' = numPacketsMax t" "singleSender t' = singleSender t" "t_id t' = t_id t"
    "noResponseCycles t' = noResponseCycles t" "responseLimit t' = responseLimit t"
    "t'\<lparr>retryPkt := None, numPacketsSent := 0\<rparr> = t\<lparr>retryPkt := None, numPacketsSent := 0\<rparr>"
proof -
  obtain pkt where "sendPkt (d_accept d) pkt t = (t', out)"
    using assms by (auto simp: generatePkt_def Let_def res_iff)
  then show "numPacketsSent t' = numPacketsSent t + 1" "int (length out) + pending t' \<le> pending t + 1"
    "numPacketsMax t' = numPacketsMax t" "singleSender t' = singleSender t" "t_id t' = t_id t"
    "noResponseCycles t' = noResponseCycles t" "responseLimit t' = responseLimit t"
    "t'\<lparr>retryPkt := None, numPacketsSent := 0\<rparr> = t\<lparr>retryPkt := None, numPacketsSent := 0\<rparr>"
    by (auto simp: sendPkt_def pending_def split: if_splits)
qed

text \<open>One event: every packet handed over or set aside is counted, and the limits are kept.\<close>

definition step_ok :: "tester \<Rightarrow> tester \<Rightarrow> traffic_packet list \<Rightarrow> bool" where
  "step_ok t t' out =
     (int (length out) + pending t' \<le> pending t + (numPacketsSent t' - numPacketsSent t) \<and> (budget t \<longrightarrow> budget t') \<and>
      numPacketsMax t' = numPacketsMax t \<and> singleSender t' = singleSender t \<and> t_id t' = t_id t \<and>
      (0 \<le> singleSender t \<and> t_id t \<noteq> singleSender t \<longrightarrow> numPacketsSent t' = numPacketsSent t))"

lemma step_ok_event [simp]: "step_ok t (t2\<lparr>tickEvent := e\<rparr>) out = step_ok t t2 out"
  by (simp add: step_ok_def budget_def pending_def)

lemma schedule_tick_frame: "\<exists>e. fst (schedule_tick p now t) = t\<lparr>tickEvent := e\<rparr>"
proof (cases "injects t \<and> \<not> simCycles t \<le> now \<and> tickEvent t = None")
  case True
  then show ?thesis by (intro exI [of _ "Some (edge_at p now 1)"]) (simp add: schedule_tick_def)
next
  case False
  then have "fst (schedule_tick p now t) = t" by (auto simp: schedule_tick_def)
  then show ?thesis by (intro exI [of _ "tickEvent t"]) simp
qed

lemma senderEnable_frame [simp]: "senderEnable (t\<lparr>noResponseCycles := n, tickEvent := e\<rparr>) = senderEnable t"
  by (simp add: senderEnable_def)

lemma tick_ok:
  assumes "tester_tick p now d t = Inr (t', out, stop)"
  shows "step_ok t t' out"
proof -
  let ?t1 = "t\<lparr>noResponseCycles := noResponseCycles t + 1, tickEvent := None\<rparr>"
  obtain t2 where t2: "(if d_try d \<and> senderEnable t then generatePkt d ?t1 else Inr (?t1, [])) = Inr (t2, out)"
      and "t' = fst (schedule_tick p now t2)"
    using assms unfolding tester_tick_def Let_def by (auto simp: res_iff case_prod_beta)
  then obtain e where t': "t' = t2\<lparr>tickEvent := e\<rparr>" using schedule_tick_frame [of p now t2] by blast
  have "step_ok t t2 out"
  proof (cases "d_try d \<and> senderEnable t")
    case True
    then have "generatePkt d ?t1 = Inr (t2, out)" using t2 by simp
    note g = generatePkt_cases(1-5) [OF this]
    show ?thesis using g True unfolding step_ok_def budget_def pending_def senderEnable_def by (auto split: if_splits)
  next
    case False
    then have "t2 = ?t1" "out = []" using t2 by (auto split: if_splits)
    then show ?thesis by (simp add: step_ok_def budget_def pending_def)
  qed
  then show ?thesis unfolding t' by simp
qed

lemma retry_ok: "doRetry a t = Inr (t', out) \<Longrightarrow> step_ok t t' out"
  by (auto simp: doRetry_def step_ok_def pending_def budget_def split: option.splits if_splits)

lemma response_ok: "completeRequest r t = Inr t' \<Longrightarrow> step_ok t t' []"
  by (auto simp: completeRequest_def check_def step_ok_def pending_def budget_def split: if_splits)

lemma step_ok_trans: "step_ok t t1 o1 \<Longrightarrow> step_ok t1 t2 o2 \<Longrightarrow> step_ok t t2 (o1 @ o2)"
  by (auto simp: step_ok_def)

lemma run_ok: "tester_run p es t = Inr (t', out) \<Longrightarrow> step_ok t t' out"
proof (induction es arbitrary: t out)
  case Nil
  then show ?case by (auto simp: step_ok_def)
next
  case (Cons e es)
  from Cons.prems obtain t1 o1 o2 where e: "(case e of
        TickAt now d \<Rightarrow> rbind (tester_tick p now d t) (\<lambda>(t', out, _). Inr (t', out))
      | Response r \<Rightarrow> rbind (completeRequest r t) (\<lambda>t'. Inr (t', []))
      | Retry a \<Rightarrow> doRetry a t) = Inr (t1, o1)" and r: "tester_run p es t1 = Inr (t', o2)" "out = o1 @ o2"
    by (auto simp: res_iff)
  have "step_ok t t1 o1"
    using e by (cases e) (auto simp: res_iff intro: tick_ok retry_ok response_ok)
  then show ?case using step_ok_trans Cons.IH [OF r(1)] r(2) by simp
qed

text \<open>
  The conditions under which a destination can be computed: the tester is one of the destinations
  and, unless a single destination is configured, a uniform destination is drawn from its range and the
  number of destinations fits any other pattern. The code checks none of them.
\<close>

definition destination_ok :: "tester \<Rightarrow> u32 \<Rightarrow> bool" where
  "destination_ok t draw =
     (0 < numDestinations t \<and> numDestinations t \<le> 2 ^ 30 \<and> 0 \<le> t_id t \<and> t_id t < numDestinations t \<and>
      (if 0 \<le> singleDest t then True
       else if traffic t = UNIFORM_RANDOM then uint draw < numDestinations t
       else pattern_ok (traffic t) (numDestinations t)))"

lemma destination_range:
  assumes "destination_ok t draw"
  shows "\<exists>d. traffic_destination t draw = Inr d \<and>
    (if 0 \<le> singleDest t then d = word_of_int (singleDest t) else uint d < numDestinations t)"
proof -
  let ?n = "numDestinations t" and ?s = "t_id t"
  have n: "0 < ?n" "?n \<le> 2 ^ 30" "0 \<le> ?s" "?s < ?n" using assms by (auto simp: destination_ok_def)
  have r: "0 < int (isqrt (nat ?n))" "int_sqrt ?n = Inr (int (isqrt (nat ?n)))" using n isqrt_pos [of "nat ?n"] by (simp_all add: int_sqrt_def)
  note x = crem_nonneg [OF n(3) r(1)] cdiv_nonneg [OF n(3) r(1)]
  consider "0 \<le> singleDest t" | "singleDest t < 0" "traffic t = UNIFORM_RANDOM" | "singleDest t < 0" "traffic t \<noteq> UNIFORM_RANDOM" by linarith
  then show ?thesis
  proof cases
    case 1
    then show ?thesis using n r x by (simp add: destination_ok_def traffic_destination_def Let_def)
  next
    case 2
    then show ?thesis using assms n r x by (simp add: destination_ok_def traffic_destination_def Let_def)
  next
    case 3
    then have ok: "pattern_ok (traffic t) ?n" using assms by (simp add: destination_ok_def)
    then show ?thesis using 3(1) traffic_destination_pattern [OF ok n(3,4) 3(1), of draw] pattern_range [OF ok n(3,4)] n
        int_word_id [of "pattern_dest (traffic t) ?n ?s"] by simp
  qed
qed

lemma address_decodes: "b \<le> 32 \<Longrightarrow> drop_bit b (push_bit b (ucast (d :: u32) :: 64 word)) = ucast d"
  by (rule bit_word_eqI) (auto simp: bit_simps dest: bit_imp_le_length)

text \<open>A cycle without a response.\<close>

lemma tick_returns:
  assumes "destination_ok t (d_dest d)" "blockSizeBits t \<le> 32" "noResponseCycles t + 1 < responseLimit t"
  shows "\<exists>t' out stop. tester_tick p now d t = Inr (t', out, stop) \<and> noResponseCycles t' = noResponseCycles t + 1 \<and>
    t'\<lparr>retryPkt := None, numPacketsSent := 0, noResponseCycles := 0, tickEvent := None\<rparr> =
      t\<lparr>retryPkt := None, numPacketsSent := 0, noResponseCycles := 0, tickEvent := None\<rparr>"
proof -
  let ?t1 = "t\<lparr>noResponseCycles := noResponseCycles t + 1, tickEvent := None\<rparr>"
  have "destination_ok ?t1 (d_dest d)" using assms(1) by (simp add: destination_ok_def cong: if_cong)
  from destination_range [OF this] obtain de where "traffic_destination ?t1 (d_dest d) = Inr de" by blast
  moreover have "blockSizeBits t < 64" using assms(2) by (rule le_less_trans) simp
  ultimately have "\<exists>t2 out. (if d_try d \<and> senderEnable t then generatePkt d ?t1 else Inr (?t1, [])) = Inr (t2, out) \<and>
      noResponseCycles t2 = noResponseCycles t + 1 \<and>
      t2\<lparr>retryPkt := None, numPacketsSent := 0\<rparr> = ?t1\<lparr>retryPkt := None, numPacketsSent := 0\<rparr>"
    by (auto simp: generatePkt_def sendPkt_def Let_def)
  then obtain t2 out where t2: "(if d_try d \<and> senderEnable t then generatePkt d ?t1 else Inr (?t1, [])) = Inr (t2, out)"
      "noResponseCycles t2 = noResponseCycles t + 1" "t2\<lparr>retryPkt := None, numPacketsSent := 0\<rparr> = ?t1\<lparr>retryPkt := None, numPacketsSent := 0\<rparr>"
    by blast
  obtain e where e: "fst (schedule_tick p now t2) = t2\<lparr>tickEvent := e\<rparr>" using schedule_tick_frame by blast
  have "tester_tick p now d t = Inr (t2\<lparr>tickEvent := e\<rparr>, out, snd (schedule_tick p now t2))"
    using assms(3) t2(1) e by (simp add: tester_tick_def Let_def not_le case_prod_beta)
  then show ?thesis using t2(2,3) by (cases t2; cases t) simp
qed

text \<open>A run of cycles without a response.\<close>

lemma ticks_run:
  "\<lbrakk>list_all (\<lambda>(now, d). destination_ok t (d_dest d)) ds; blockSizeBits t \<le> 32; responseLimit t \<noteq> 0;
     unat (noResponseCycles t) < unat (responseLimit t)\<rbrakk> \<Longrightarrow>
   if unat (responseLimit t) \<le> unat (noResponseCycles t) + length ds
   then tester_run p (map (\<lambda>(now, d). TickAt now d) ds) t = Inl Fatal
   else returns (tester_run p (map (\<lambda>(now, d). TickAt now d) ds) t)"
proof (induction ds arbitrary: t)
  case Nil
  then show ?case by simp
next
  case (Cons x ds)
  obtain now d where x: "x = (now, d)" by (cases x)
  have u: "unat (noResponseCycles t + 1) = unat (noResponseCycles t) + 1"
    using Cons.prems(4) unsigned_less [of "responseLimit t", where ?'a = nat] unat_plus [of "noResponseCycles t" 1] by simp
  show ?case
  proof (cases "unat (responseLimit t) = unat (noResponseCycles t) + 1")
    case True
    then have "responseLimit t \<le> noResponseCycles t + 1" using u by (simp add: word_le_nat_alt)
    then have "tester_tick p now d t = Inl Fatal" by (simp add: tester_tick_def Let_def)
    then show ?thesis using True by (simp add: x)
  next
    case False
    then have l: "noResponseCycles t + 1 < responseLimit t" using u Cons.prems(4) by (simp add: word_less_nat_alt)
    have "destination_ok t (d_dest d)" using Cons.prems(1) x by simp
    from tick_returns [OF this Cons.prems(2) l] obtain t' out stop where t': "tester_tick p now d t = Inr (t', out, stop)"
        "noResponseCycles t' = noResponseCycles t + 1"
        "t'\<lparr>retryPkt := None, numPacketsSent := 0, noResponseCycles := 0, tickEvent := None\<rparr> =
          t\<lparr>retryPkt := None, numPacketsSent := 0, noResponseCycles := 0, tickEvent := None\<rparr>" by blast
    have s: "responseLimit t' = responseLimit t" "blockSizeBits t' = blockSizeBits t" "destination_ok t' = destination_ok t"
      using t'(3) by (cases t; cases t'; simp add: destination_ok_def fun_eq_iff)+
    have "if unat (responseLimit t) \<le> unat (noResponseCycles t) + 1 + length ds
      then tester_run p (map (\<lambda>(now, d). TickAt now d) ds) t' = Inl Fatal
      else returns (tester_run p (map (\<lambda>(now, d). TickAt now d) ds) t')"
      using Cons.IH [of t'] Cons.prems(1-3) l u unfolding s t'(2) by (simp add: word_less_nat_alt)
    then show ?thesis using t'(1) by (auto simp: x returns_iff split: if_splits)
  qed
qed

section \<open>The properties\<close>

text \<open>The tester numbered 1 of four that send along a pattern.\<close>

definition demo_tester :: "TrafficType \<Rightarrow> tester" where
  "demo_tester tr =
     \<lparr>retryPkt = None, t_id = 1, blockSizeBits = 6, noResponseCycles = 0, numDestinations = 4, simCycles = 1000, numPacketsMax = 2,
      numPacketsSent = 0, singleSender = -1, singleDest = -1, traffic = tr, injects = True, injVnet = 0, responseLimit = 3, tickEvent = Some 0\<rparr>"

definition demo_draws :: "bool \<Rightarrow> draws" where
  "demo_draws accept = \<lparr>d_try = True, d_dest = 0, d_vnet = 2, d_accept = accept\<rparr>"

text \<open>
  C17. Every deterministic traffic pattern is a permutation. For a number of destinations that the
  pattern is meant for (a square for complement, neighbor, tornado and transpose, a power of two for
  bit reversal, an even number for rotation and shuffle) the destinations of the sources
  \<open>0, ..., n - 1\<close> are the values of a bijection of these numbers: no computation fails, every
  destination exists, and every node receives the packets of exactly one sender.
\<close>

theorem traffic_is_permutation:
  assumes "pattern_ok (traffic t) (numDestinations t)" "singleDest t < 0"
  shows "\<exists>f. bij_betw f {0..<numDestinations t} {0..<numDestinations t} \<and>
    map (\<lambda>s. traffic_destination (t\<lparr>t_id := s\<rparr>) draw) [0..numDestinations t - 1] =
      map (\<lambda>s. Inr (word_of_int (f s))) [0..numDestinations t - 1]"
proof (intro exI conjI)
  let ?n = "numDestinations t"
  show "bij_betw (pattern_dest (traffic t) ?n) {0..<?n} {0..<?n}" by (rule pattern_bij [OF assms(1)])
  have "traffic_destination (t\<lparr>t_id := s\<rparr>) draw = Inr (word_of_int (pattern_dest (traffic t) ?n s))" if "0 \<le> s" "s < ?n" for s
    using traffic_destination_pattern [of "t\<lparr>t_id := s\<rparr>" ?n s draw] assms that by simp
  then show "map (\<lambda>s. traffic_destination (t\<lparr>t_id := s\<rparr>) draw) [0..?n - 1] =
      map (\<lambda>s. Inr (word_of_int (pattern_dest (traffic t) ?n s))) [0..?n - 1]" by simp
qed

theorem traffic_is_permutation_witness:
  "\<exists>f. bij_betw f {0..<4} {0..<4} \<and>
    map (\<lambda>s. traffic_destination (demo_tester TORNADO\<lparr>t_id := s\<rparr>) 0) [0..3] = map (\<lambda>s. Inr (word_of_int (f s))) [0..3]"
proof -
  have "pattern_ok (traffic (demo_tester TORNADO)) (numDestinations (demo_tester TORNADO))" by code_simp
  moreover have "singleDest (demo_tester TORNADO) < 0" "numDestinations (demo_tester TORNADO) = 4" by code_simp+
  ultimately show ?thesis using traffic_is_permutation [of "demo_tester TORNADO" 0] by (simp del: upto.simps)
qed

definition inverse_traffic :: "TrafficType \<Rightarrow> TrafficType" where
  "inverse_traffic tr = (case tr of BIT_ROTATION \<Rightarrow> SHUFFLE | SHUFFLE \<Rightarrow> BIT_ROTATION | _ \<Rightarrow> tr)"

lemma pattern_source_inverse:
  "tr \<noteq> NEIGHBOR \<Longrightarrow> tr \<noteq> TORNADO \<Longrightarrow> pattern_dest (inverse_traffic tr) n d = pattern_source tr n d"
  by (cases tr) (simp_all add: pattern_source_def inverse_traffic_def)

lemma inverse_ok: "pattern_ok (inverse_traffic tr) n = pattern_ok tr n"
  by (cases tr) (simp_all add: pattern_ok_def inverse_traffic_def)

text \<open>
  C27. Patterns undo each other. A node that answers along the inverse pattern (rotation for shuffle
  and shuffle for rotation; complement, reversal and transposition are their own inverses) answers
  the sender: the destination of the destination is the source.
\<close>

theorem traffic_inverse:
  assumes ok: "pattern_ok (traffic t) (numDestinations t)" and one: "singleDest t < 0" and tr: "traffic t \<noteq> NEIGHBOR" "traffic t \<noteq> TORNADO"
    and s: "0 \<le> t_id t" "t_id t < numDestinations t"
  shows "\<exists>d. traffic_destination t draw = Inr d \<and>
    traffic_destination (t\<lparr>t_id := uint d, traffic := inverse_traffic (traffic t)\<rparr>) draw' = Inr (word_of_int (t_id t))"
proof -
  let ?n = "numDestinations t" and ?tr = "traffic t"
  let ?d = "pattern_dest ?tr ?n (t_id t)"
  note r = pattern_range [OF ok s]
  have "?n \<le> 2 ^ 30" using ok by (simp add: pattern_ok_def)
  then have u: "uint (word_of_int ?d :: u32) = ?d" using r by (intro int_word_id) simp_all
  let ?t' = "t\<lparr>t_id := ?d, traffic := inverse_traffic ?tr\<rparr>"
  have "traffic_destination ?t' draw' = Inr (word_of_int (pattern_dest (inverse_traffic ?tr) ?n ?d))"
    using traffic_destination_pattern [of ?t' ?n ?d draw'] ok one r by (simp add: inverse_ok)
  then show ?thesis
    using traffic_destination_pattern [OF ok s one, of draw] pattern_source_inverse [OF tr] pattern_inverse(1) [OF ok s] u by simp
qed

theorem traffic_inverse_witness:
  "\<exists>d. traffic_destination (demo_tester SHUFFLE) 0 = Inr d \<and>
    traffic_destination ((demo_tester SHUFFLE)\<lparr>t_id := uint d, traffic := BIT_ROTATION\<rparr>) 0 = Inr 1"
proof -
  let ?t = "demo_tester SHUFFLE"
  have "pattern_ok (traffic ?t) (numDestinations ?t)" "singleDest ?t < 0" "traffic ?t \<noteq> NEIGHBOR" "traffic ?t \<noteq> TORNADO"
    "0 \<le> t_id ?t" "t_id ?t < numDestinations ?t" by code_simp+
  from traffic_inverse [OF this, of 0 0] show ?thesis by (simp add: demo_tester_def inverse_traffic_def)
qed

text \<open>
  C28. Where packets go. Take a tester that is one of at most \<open>2 ^ 30\<close> destinations, with at most 32 bits
  of block offset. Three things are asked of the configuration, which the code does not check: a single
  destination, if there is one, fits an \<open>unsigned\<close>; a uniform destination is drawn from the range of
  the destinations; and the number of destinations fits any other pattern (\<open>pattern_ok\<close>: a square for
  the patterns of a mesh, a power of two for the reversal, an even number for rotation and shuffle).
  Then \<open>generatePkt\<close> returns, and the packet that it hands to the port or keeps for a retry carries an
  address from which dropping the bits of the block offset gives the destination: the single
  destination, existing or not, if one is configured, and otherwise a number below the number of destinations.
\<close>

theorem packet_address_in_range:
  assumes node: "0 \<le> t_id t" "t_id t < numDestinations t" and size: "numDestinations t \<le> 2 ^ 30" "blockSizeBits t \<le> 32"
    and single: "singleDest t < 2 ^ 32"
    and uniform: "singleDest t < 0 \<Longrightarrow> traffic t = UNIFORM_RANDOM \<Longrightarrow> uint (d_dest d) < numDestinations t"
    and pattern: "singleDest t < 0 \<Longrightarrow> traffic t \<noteq> UNIFORM_RANDOM \<Longrightarrow> pattern_ok (traffic t) (numDestinations t)"
  shows "\<exists>t' out pkt dest. generatePkt d t = Inr (t', out) \<and> (if d_accept d then out = [pkt] else out = [] \<and> retryPkt t' = Some pkt) \<and>
    traffic_destination t (d_dest d) = Inr dest \<and> drop_bit (unat (blockSizeBits t)) (rq_paddr (pk_req pkt)) = ucast dest \<and>
    (if 0 \<le> singleDest t then uint dest = singleDest t else uint dest < numDestinations t)"
proof -
  have "destination_ok t (d_dest d)" using node size uniform pattern by (auto simp: destination_ok_def)
  from destination_range [OF this] obtain dest where de: "traffic_destination t (d_dest d) = Inr dest"
      "if 0 \<le> singleDest t then dest = word_of_int (singleDest t) else uint dest < numDestinations t" by blast
  have range: "if 0 \<le> singleDest t then uint dest = singleDest t else uint dest < numDestinations t"
    using de(2) int_word_id [of "singleDest t"] single by (simp split: if_splits)
  have b: "blockSizeBits t < 64" using size(2) by (rule le_less_trans) simp
  define pkt where "pkt = make_packet t (push_bit (unat (blockSizeBits t)) (ucast dest)) (if injVnet t < 0 \<or> 2 < injVnet t then d_vnet d else injVnet t)"
  have "unat (blockSizeBits t) \<le> 32" using size(2) by (simp add: word_le_nat_alt)
  from address_decodes [OF this] have a: "drop_bit (unat (blockSizeBits t)) (rq_paddr (pk_req pkt)) = ucast dest"
    by (simp add: pkt_def make_packet_def)
  have g: "generatePkt d t = Inr (sendPkt (d_accept d) pkt t)" using de(1) b by (simp add: generatePkt_def pkt_def Let_def)
  obtain t' out where s: "sendPkt (d_accept d) pkt t = (t', out)" by fastforce
  then have "if d_accept d then out = [pkt] else out = [] \<and> retryPkt t' = Some pkt" by (auto simp: sendPkt_def)
  then show ?thesis using a g s range by (intro exI [of _ t'] exI [of _ out] exI [of _ pkt] exI [of _ dest]) (simp add: de(1))
qed

theorem packet_address_in_range_witness:
  "\<exists>t' pkt dest. generatePkt (demo_draws True) (demo_tester TRANSPOSE) = Inr (t', [pkt]) \<and>
    drop_bit 6 (rq_paddr (pk_req pkt)) = ucast (dest :: u32) \<and> uint dest < 4"
proof -
  let ?t = "demo_tester TRANSPOSE"
  have "0 \<le> t_id ?t" "t_id ?t < numDestinations ?t" "numDestinations ?t \<le> 2 ^ 30" "blockSizeBits ?t \<le> 32" "singleDest ?t < 2 ^ 32"
    "pattern_ok (traffic ?t) (numDestinations ?t)" by code_simp+
  moreover have "unat (blockSizeBits ?t) = 6" "d_accept (demo_draws True)" "numDestinations ?t = 4" "\<not> 0 \<le> singleDest ?t" by code_simp+
  ultimately show ?thesis using packet_address_in_range [of ?t "demo_draws True"] by (auto simp: demo_tester_def)
qed

text \<open>
  C35. The neighbour pattern needs a square. If the number of destinations is not a multiple of the side
  that the code computes, the integer part of its square root, the last tester sends to the
  destination just past the last one, which does not exist.
\<close>

theorem neighbor_leaves_the_network:
  assumes n: "0 < numDestinations t" "numDestinations t \<le> 2 ^ 30" "t_id t = numDestinations t - 1"
    and r: "numDestinations t mod int (isqrt (nat (numDestinations t))) \<noteq> 0"
    and p: "traffic t = NEIGHBOR" "singleDest t < 0"
  shows "\<exists>dest. traffic_destination t draw = Inr dest \<and> uint dest = numDestinations t"
proof -
  define n r where "n = numDestinations t" and "r = int (isqrt (nat n))"
  have q: "0 < n" "0 < r" "int_sqrt n = Inr r" "n mod r \<noteq> 0" using assms isqrt_pos [of "nat n"] by (simp_all add: n_def r_def int_sqrt_def)
  have x: "crem (n - 1) r = Inr ((n - 1) mod r)" "cdiv (n - 1) r = Inr ((n - 1) div r)"
    using q by (simp_all add: crem_nonneg cdiv_nonneg)
  have m: "(n - 1) mod r + 1 = n mod r"
    using q(2,4) by (smt (verit) mod_add_left_eq mod_pos_pos_trivial pos_mod_bound pos_mod_sign mod_self)
  have "crem ((n - 1) mod r + 1) r = Inr (n mod r)" using q by (simp add: m crem_nonneg)
  moreover have "(n - 1) div r * r + n mod r = n" using m div_mult_mod_eq [of "n - 1" r] by linarith
  ultimately have "traffic_destination t draw = Inr (word_of_int n)"
    using assms q x by (simp add: traffic_destination_def Let_def n_def [symmetric] del: of_int_add of_int_mult)
  moreover have "uint (word_of_int n :: u32) = n" using q(1) n(2) by (intro int_word_id) (simp_all add: n_def)
  ultimately show ?thesis by (simp add: n_def)
qed

theorem neighbor_leaves_the_network_witness:
  "\<exists>dest. traffic_destination (demo_tester NEIGHBOR\<lparr>numDestinations := 5, t_id := 4\<rparr>) 0 = Inr dest \<and> uint dest = 5"
proof -
  let ?t = "demo_tester NEIGHBOR\<lparr>numDestinations := 5, t_id := 4\<rparr>"
  have "0 < numDestinations ?t" "numDestinations ?t \<le> 2 ^ 30" "t_id ?t = numDestinations ?t - 1"
    "numDestinations ?t mod int (isqrt (nat (numDestinations ?t))) \<noteq> 0" "traffic ?t = NEIGHBOR" "singleDest ?t < 0" by code_simp+
  from neighbor_leaves_the_network [OF this, of 0] show ?thesis by simp
qed

text \<open>
  C29. A tester keeps its limits. Over any run of cycles, responses and retries of a new tester, the
  packets handed to the memory system and the one waiting for a retry are at most as many as the
  tester counts as sent; with a maximal number of packets it counts no more than that number; and with
  a single sender the other testers send nothing.
\<close>

theorem tester_keeps_limits:
  assumes new: "GarnetSyntheticTraffic_new params i = Inr (t, j)" and run: "tester_run p es t = Inr (t', out)"
  shows "int (length out) + pending t' \<le> numPacketsSent t' \<and>
    (0 \<le> tp_num_packets_max params \<longrightarrow> numPacketsSent t' \<le> tp_num_packets_max params) \<and>
    (0 \<le> tp_single_sender params \<and> i \<noteq> tp_single_sender params \<longrightarrow> out = [] \<and> numPacketsSent t' = 0)"
proof -
  have t: "retryPkt t = None" "numPacketsSent t = 0" "numPacketsMax t = tp_num_packets_max params" "singleSender t = tp_single_sender params" "t_id t = i"
    using new by (auto simp: GarnetSyntheticTraffic_new_def split: option.splits)
  have s: "step_ok t t' out" by (rule run_ok [OF run])
  have b: "budget t" using t by (simp add: budget_def)
  have a: "int (length out) + pending t' \<le> numPacketsSent t'" using s t by (simp add: step_ok_def pending_def)
  have c: "0 \<le> tp_single_sender params \<and> i \<noteq> tp_single_sender params \<longrightarrow> numPacketsSent t' = 0" using s t by (simp add: step_ok_def)
  have d: "out = []" if "numPacketsSent t' = 0" using a that by (cases out) (simp_all add: pending_def split: if_splits)
  have "0 \<le> tp_num_packets_max params \<longrightarrow> numPacketsSent t' \<le> tp_num_packets_max params" using s b t(3) by (auto simp: step_ok_def budget_def)
  then show ?thesis using a c d by blast
qed

definition demo_tester_params :: tester_params where
  "demo_tester_params =
     \<lparr>tp_block_offset = 6, tp_num_dest = 4, tp_sim_cycles = 1000, tp_num_packets_max = 2, tp_single_sender = -1, tp_single_dest = -1,
      tp_traffic_type = ''transpose'', tp_injects = True, tp_inj_vnet = 0, tp_response_limit = 9\<rparr>"

definition demo_cycles :: "tester_event list" where
  "demo_cycles = [TickAt 0 (demo_draws True), TickAt 1 (demo_draws False), Response True, Retry True, TickAt 2 (demo_draws True)]"

theorem tester_keeps_limits_witness:
  "\<exists>t j t' out. GarnetSyntheticTraffic_new demo_tester_params 1 = Inr (t, j) \<and> tester_run 1 demo_cycles t = Inr (t', out) \<and>
    int (length out) + pending t' \<le> numPacketsSent t' \<and> numPacketsSent t' \<le> 2"
proof -
  obtain t j where t: "GarnetSyntheticTraffic_new demo_tester_params 1 = Inr (t, j)"
    by (auto simp: GarnetSyntheticTraffic_new_def demo_tester_params_def trafficStringToEnum_def)
  have "returns (rbind (GarnetSyntheticTraffic_new demo_tester_params 1) (\<lambda>(t, j). tester_run 1 demo_cycles t))" by code_simp
  then obtain t' out where r: "tester_run 1 demo_cycles t = Inr (t', out)" using t by (auto simp: returns_iff)
  show ?thesis using t r tester_keeps_limits [OF t r] by (simp add: demo_tester_params_def)
qed

text \<open>
  C30. A tester that is not answered stops the simulation at its limit. In a run of cycles without a
  response, in which a destination can be computed whenever one is needed (\<open>destination_ok\<close>), the cycle that brings the count of cycles to the
  response limit ends in the fatal error, and no run that is shorter fails.
\<close>

theorem deadlock_is_reported:
  assumes "list_all (\<lambda>(now, d). destination_ok t (d_dest d)) ds" "blockSizeBits t \<le> 32" "responseLimit t \<noteq> 0" "noResponseCycles t = 0"
  shows "if unat (responseLimit t) \<le> length ds then tester_run p (map (\<lambda>(now, d). TickAt now d) ds) t = Inl Fatal
    else returns (tester_run p (map (\<lambda>(now, d). TickAt now d) ds) t)"
proof -
  have "0 < unat (responseLimit t)" using assms(3) by (simp add: unat_gt_0)
  then show ?thesis using ticks_run [OF assms(1-3), of p] assms(4) by simp
qed

theorem deadlock_is_reported_witness:
  "tester_run 1 [TickAt 0 (demo_draws True), TickAt 1 (demo_draws True), TickAt 2 (demo_draws True)] (demo_tester TRANSPOSE) = Inl Fatal \<and>
   returns (tester_run 1 [TickAt 0 (demo_draws True), TickAt 1 (demo_draws True)] (demo_tester TRANSPOSE))"
proof -
  let ?t = "demo_tester TRANSPOSE" and ?d = "demo_draws True"
  have o: "destination_ok ?t (d_dest ?d)" "blockSizeBits ?t \<le> 32" "responseLimit ?t \<noteq> 0" "noResponseCycles ?t = 0" "unat (responseLimit ?t) = 3"
    by code_simp+
  show ?thesis using deadlock_is_reported [of ?t "[(0, ?d), (1, ?d), (2, ?d)]" 1] deadlock_is_reported [of ?t "[(0, ?d), (1, ?d)]" 1] o by simp
qed



end
