(* ===== verification/Garnet_MessageBuffer_Props.thy ===== *)
theory Garnet_MessageBuffer_Props
  imports Garnet_MessageBuffer
begin

text \<open>
  Properties of message buffers beyond the order of an ordered one: the slots that a sender is
  promised are there after any run of the buffer, setting messages aside and taking them back does
  not change what the receiver gets, and what a functional read of several messages reports.
\<close>

section \<open>Available slots\<close>

text \<open>
  The size a sender sees at time \<open>t\<close>, and the invariant that it is not below the real size: removals
  of the current cycle are hidden, insertions are not.
\<close>

definition visible_size :: "tick \<Rightarrow> MessageBuffer \<Rightarrow> nat" where
  "visible_size t b =
     (if m_time_last_time_pop b < t then length (mb_msgs b)
      else unat (m_size_at_cycle_start b) + unat (m_stalled_at_cycle_start b) +
        (if m_time_last_time_enqueue b < t then 0 else unat (m_msgs_this_cycle b)))"

definition cap_ok :: "MessageBuffer \<Rightarrow> bool" where
  "cap_ok b =
     (m_time_last_time_enqueue b \<le> m_time_last_time_pop b \<longrightarrow>
      length (mb_msgs b) \<le> unat (m_size_at_cycle_start b) + unat (m_stalled_at_cycle_start b) +
        (if m_time_last_time_enqueue b < m_time_last_time_pop b then 0 else unat (m_msgs_this_cycle b)))"

text \<open>The buffer's clocks are not ahead of \<open>t\<close>, and counts stay below the range of \<open>unsigned\<close>.\<close>

definition at_time :: "tick \<Rightarrow> MessageBuffer \<Rightarrow> bool" where
  "at_time t b = (m_time_last_time_enqueue b \<le> t \<and> m_time_last_time_pop b \<le> t)"

lemma visible_size_ge: "cap_ok b \<Longrightarrow> at_time t b \<Longrightarrow> length (mb_msgs b) \<le> visible_size t b"
  by (auto simp: cap_ok_def visible_size_def at_time_def split: if_splits)

lemma unat_sum32: "unat a + unat b < 2 ^ 32 \<Longrightarrow> unat (a + b) = unat a + unat b" for a b :: u32
  using unat_add_lem [of a b] by simp

lemma unat_of_nat32: "n < 2 ^ 32 \<Longrightarrow> unat (of_nat n :: u32) = n"
  by (simp add: unat_of_nat)

lemma unat_u32_size: "length xs < 2 ^ 32 \<Longrightarrow> unat (u32_size xs) = length xs"
  unfolding u32_size_def by (rule unat_of_nat32)

lemma areNSlotsAvailable_iff:
  assumes "mb_ok b" "visible_size t b + unat n < 2 ^ 32" "m_max_size b \<noteq> 0"
  shows "fst (MessageBuffer_areNSlotsAvailable n t b) \<longleftrightarrow> visible_size t b + unat n \<le> unat (m_max_size b)"
proof -
  obtain cs ss where c: "current_sizes t b = (cs, ss)" by fastforce
  have stall: "m_stall_map_size b = int (length (stalled_msgs b))" using assms(1) by (simp add: mb_ok_def)
  have "unat cs + unat ss = visible_size t b"
  proof (cases "m_time_last_time_pop b < t")
    case True
    then have l: "length (m_prio_heap b) < 2 ^ 32" "length (stalled_msgs b) < 2 ^ 32"
      using assms(2) by (auto simp: visible_size_def mb_msgs_def)
    have "ss = of_nat (length (stalled_msgs b))" "cs = u32_size (m_prio_heap b)" using True c stall by (auto simp: current_sizes_def)
    then show ?thesis using True l unat_u32_size unat_of_nat32 [of "length (stalled_msgs b)"]
      by (simp add: visible_size_def mb_msgs_def)
  next
    case False
    then show ?thesis using c assms(2) unat_sum32 [of "m_size_at_cycle_start b" "m_msgs_this_cycle b"]
      by (auto simp: current_sizes_def visible_size_def split: if_splits)
  qed
  then have "unat (cs + ss + n) = visible_size t b + unat n"
    using assms(2) unat_sum32 [of cs ss] unat_sum32 [of "cs + ss" n] by simp
  then show ?thesis using c assms(3) by (simp add: MessageBuffer_areNSlotsAvailable_def word_le_nat_alt)
qed

text \<open>What an insertion that the capacity allows needs besides.\<close>

definition enqueue_ready :: "ruby_system \<Rightarrow> tick \<Rightarrow> tick \<Rightarrow> MessageBuffer \<Rightarrow> bool" where
  "enqueue_ready rs t d b =
     (m_consumer b \<noteq> None \<and> \<not> randomized rs b \<and> \<not> rs_warmup_enabled rs \<and> d \<noteq> 0 \<and> t \<le> t + d \<and>
      (m_strict_fifo b \<longrightarrow> m_last_arrival_time b \<le> t + d))"

definition has_slots :: "tick \<Rightarrow> nat \<Rightarrow> MessageBuffer \<Rightarrow> bool" where
  "has_slots t k b =
     (m_stall_map_size b = int (length (stalled_msgs b)) \<and> cap_ok b \<and> at_time t b \<and>
      visible_size t b + k < 2 ^ 32 \<and> (m_max_size b = 0 \<or> visible_size t b + k \<le> unat (m_max_size b)))"

lemma enqueue_takes_slot:
  assumes s: "has_slots t (Suc k) b" and r: "enqueue_ready rs t d b" and m: "m_LastEnqueueTime m \<le> t"
  shows "\<exists>b' c. MessageBuffer_enqueue rs rnd (Some m) t d False b = Inr (b', [(c, At (t + d))]) \<and>
    has_slots t k b' \<and> enqueue_ready rs t d b' \<and> length (mb_msgs b') = Suc (length (mb_msgs b)) \<and> m_max_size b' = m_max_size b"
proof -
  obtain c where c: "m_consumer b = Some c" using r by (auto simp: enqueue_ready_def)
  define b' where "b' = (count_enqueue t b)\<lparr>m_prio_heap := push_heap Message_greater (m_prio_heap b @ [stamped t (t + d) b m]),
      m_last_arrival_time := t + d, m_last_message_strict_fifo_bypassed := False, m_buf_msgs := m_buf_msgs b + 1\<rparr>"
  have len: "length (mb_msgs b') = Suc (length (mb_msgs b))"
    using mh.length_push by (simp add: b'_def mb_msgs_def stalled_msgs_def)
  have vis: "length (mb_msgs b) \<le> visible_size t b" using s visible_size_ge by (simp add: has_slots_def)
  have "arrival_time rs rnd t d (count_enqueue t b) = (t + d, count_enqueue t b)"
    using r by (simp add: arrival_time_def enqueue_ready_def randomized_def)
  moreover have "m_max_size b = 0 \<or> int (length (m_prio_heap b)) + 1 + m_stall_map_size b \<le> uint (m_max_size b)"
  proof (rule disjCI)
    assume "\<not> int (length (m_prio_heap b)) + 1 + m_stall_map_size b \<le> uint (m_max_size b)"
    moreover have "int (unat (m_max_size b)) = uint (m_max_size b)" by simp
    moreover have "m_stall_map_size b = int (length (stalled_msgs b))"
        "length (m_prio_heap b) + length (stalled_msgs b) \<le> visible_size t b"
        "m_max_size b = 0 \<or> visible_size t b + Suc k \<le> unat (m_max_size b)"
      using s vis by (simp_all add: has_slots_def mb_msgs_def)
    ultimately show "m_max_size b = 0" by linarith
  qed
  ultimately have e: "MessageBuffer_enqueue rs rnd (Some m) t d False b = Inr (b', [(c, At (t + d))])"
    using r c m mh.length_push
    by (auto simp: MessageBuffer_enqueue_def b'_def Let_def enqueue_ready_def stamp_message_def stamped_def
        Message_updateDelayedTicks_def heap_insert_def wake_consumer_def not_less)
  have v: "visible_size t b' = Suc (visible_size t b)" and at: "at_time t b'" and cap: "cap_ok b'"
  proof -
    have one: "unat (m_msgs_this_cycle b + 1) = unat (m_msgs_this_cycle b) + 1"
      if "\<not> m_time_last_time_pop b < t" "\<not> m_time_last_time_enqueue b < t"
      using s that unat_sum32 [of "m_msgs_this_cycle b" 1] by (simp add: has_slots_def visible_size_def)
    have at0: "m_time_last_time_enqueue b \<le> t" "m_time_last_time_pop b \<le> t" using s by (auto simp: has_slots_def at_time_def)
    show v: "visible_size t b' = Suc (visible_size t b)"
      using len one by (auto simp: visible_size_def b'_def count_enqueue_def Let_def)
    have E: "m_time_last_time_enqueue b' = t" "m_time_last_time_pop b' = m_time_last_time_pop b"
      using at0 by (auto simp: b'_def count_enqueue_def Let_def)
    then show at: "at_time t b'" using at0 by (simp add: at_time_def)
    show "cap_ok b'" using v vis len E at0 by (auto simp: cap_ok_def visible_size_def)
  qed
  have "has_slots t k b'" using s v at cap by (auto simp: has_slots_def b'_def stalled_msgs_def)
  moreover have "enqueue_ready rs t d b'" using r by (auto simp: enqueue_ready_def b'_def randomized_def)
  ultimately show ?thesis using e len by (auto simp: b'_def)
qed

definition enqueue_all ::
    "ruby_system \<Rightarrow> tick \<times> tick \<times> tick \<Rightarrow> tick \<Rightarrow> tick \<Rightarrow> message list \<Rightarrow> MessageBuffer \<Rightarrow> MessageBuffer res" where
  "enqueue_all rs rnd t d = rfold (\<lambda>m b. rbind (MessageBuffer_enqueue rs rnd (Some m) t d False b) (\<lambda>(b', _). Inr b'))"

lemma enqueue_all_returns:
  assumes "has_slots t (length ms) b" "enqueue_ready rs t d b" "\<forall>m\<in>set ms. m_LastEnqueueTime m \<le> t"
  shows "\<exists>b'. enqueue_all rs rnd t d ms b = Inr b' \<and> length (mb_msgs b') = length (mb_msgs b) + length ms \<and>
    m_max_size b' = m_max_size b \<and> has_slots t 0 b'"
  using assms
proof (induction ms arbitrary: b)
  case Nil
  then show ?case by (simp add: enqueue_all_def)
next
  case (Cons m ms)
  then obtain b1 c where e: "MessageBuffer_enqueue rs rnd (Some m) t d False b = Inr (b1, [(c, At (t + d))])"
    and s: "has_slots t (length ms) b1" "enqueue_ready rs t d b1" "length (mb_msgs b1) = Suc (length (mb_msgs b))"
      "m_max_size b1 = m_max_size b"
    using enqueue_takes_slot [of t "length ms" b rs d m rnd] by auto
  from Cons.IH [OF s(1,2)] Cons.prems(3) obtain b' where
      "enqueue_all rs rnd t d ms b1 = Inr b'" "length (mb_msgs b') = length (mb_msgs b1) + length ms"
      "m_max_size b' = m_max_size b1" "has_slots t 0 b'" by auto
  then show ?case using e s by (simp add: enqueue_all_def)
qed

lemma areNSlotsAvailable_slots:
  assumes "mb_ok b" "cap_ok b" "at_time t b" "visible_size t b + unat n < 2 ^ 32"
    and "fst (MessageBuffer_areNSlotsAvailable n t b)"
  shows "has_slots t (unat n) b"
  using assms areNSlotsAvailable_iff [OF assms(1,4)] by (auto simp: has_slots_def mb_ok_def)

section \<open>Stalling and taking back\<close>

text \<open>The messages of the buffer, wherever they are kept.\<close>

lemma amap_push_msgs: "mset (concat (map snd (amap_push a v g))) = add_mset v (mset (concat (map snd g)))"
  by (induction g rule: amap_push.induct) auto

lemma amap_push_keys: "fst ` set (amap_push a v g) = insert a (fst ` set g)"
  by (induction g rule: amap_push.induct) auto

lemma amap_push_distinct:
  "sorted (map fst g) \<Longrightarrow> distinct (map fst g) \<Longrightarrow>
   sorted (map fst (amap_push a v g)) \<and> distinct (map fst (amap_push a v g))"
proof (induction g rule: amap_push.induct)
  case (2 a v a' vs g)
  have k: "fst ` set (amap_push a v g) = insert a (fst ` set g)" by (rule amap_push_keys)
  show ?case
  proof (cases "a = a' \<or> a < a'")
    case True
    then show ?thesis using 2 by (auto intro: order_trans less_imp_le)
  next
    case False
    then have "a' < a" by auto
    then show ?thesis using 2 k False by (auto simp: image_iff)
  qed
qed simp

lemma mset_erase:
  "distinct (map fst g) \<Longrightarrow> mset (concat (map snd (amap_erase a g))) + mset (amap_get a g) = mset (concat (map snd g))"
proof (induction g)
  case (Cons e g)
  have "amap_erase (fst e) g = g" if "fst e \<notin> fst ` set g" unfolding amap_erase_def
    by (rule filter_True) (use that in \<open>auto intro: rev_image_eqI\<close>)
  then show ?case using Cons by (cases e) (auto simp: amap_erase_def amap_get_def split: option.splits)
qed (simp add: amap_erase_def amap_get_def)

lemma reanalyze_oneD: "reanalyze_one t m (b, ws) = Inr s \<Longrightarrow> \<exists>w. s = (heap_insert m b, ws @ w)"
  by (auto simp: reanalyze_one_def rbind_eq_Inr)

lemma reanalyzeListD:
  assumes "MessageBuffer_reanalyzeList lt t (b, ws) = Inr (b', ws')"
  shows "\<exists>h. b' = b\<lparr>m_prio_heap := h\<rparr> \<and> mset h = mset (m_prio_heap b) + mset lt \<and>
    (is_heap mkey (m_prio_heap b) \<longrightarrow> is_heap mkey h)"
  using assms unfolding MessageBuffer_reanalyzeList_def
proof (induction lt arbitrary: b ws)
  case Nil
  then show ?case by (auto intro: exI [of _ "m_prio_heap b"])
next
  case (Cons m lt)
  then obtain w where "rfold (reanalyze_one t) lt (heap_insert m b, ws @ w) = Inr (b', ws')"
    by (auto simp: rbind_eq_Inr dest!: reanalyze_oneD)
  from Cons.IH [OF this] obtain h where "b' = (heap_insert m b)\<lparr>m_prio_heap := h\<rparr>"
      "mset h = mset (m_prio_heap (heap_insert m b)) + mset lt"
      "is_heap mkey (m_prio_heap (heap_insert m b)) \<longrightarrow> is_heap mkey h" by blast
  then show ?case using mh.mset_push mh.heap_push by (intro exI [of _ h]) (auto simp: heap_insert_def)
qed

lemma amap_get_push: "a \<notin> fst ` set g \<Longrightarrow> amap_get a (amap_push a v g) = [v]"
  by (induction g rule: amap_push.induct) (auto simp: amap_get_def)

text \<open>A head exchanged for one with the same key keeps its place.\<close>

lemma queue_payloads:
  assumes h: "is_heap mkey (m # ms)" "distinct (map m_msg_counter (m # ms))"
    and m': "mkey m' = mkey m" "msg_payload m' = msg_payload m" and g: "mset g = mset (m' # ms)"
  shows "map msg_payload (sort_key mkey g) = map msg_payload (sort_key mkey (m # ms))"
proof -
  have h': "is_heap mkey (m' # ms)" using mh.heap_cong [OF h(1)] m'(1) by simp
  have d': "inj_on mkey (set (m' # ms))" using h(2) m'(1) by (intro inj_mkey) (auto simp: mkey_def)
  have "sort_key mkey g = m' # sort_key mkey ms"
    using mh.sequence_unique [OF g d'] mh.sequence_Cons [OF h' d'] by simp
  moreover have "sort_key mkey (m # ms) = m # sort_key mkey ms"
    by (rule mh.sequence_Cons [OF h(1) inj_mkey [OF h(2)]])
  ultimately show ?thesis using m'(2) by simp
qed

lemma stallMessageD:
  assumes "MessageBuffer_stallMessage rs now a t b = Inr (b1, ws)"
  obtains m ms m' where "m_prio_heap b = m # ms" "m_LastEnqueueTime m \<le> t" "mkey m' = mkey m" "msg_payload m' = msg_payload m"
    "m_prio_heap b1 = m_prio_heap (heap_remove b)" "m_stall_msg_map b1 = amap_push a m' (m_stall_msg_map b)"
    "m_stall_map_size b1 = m_stall_map_size b + 1" "m_consumer b1 = m_consumer b"
    "m_max_dequeue_rate b1 = m_max_dequeue_rate b" "m_time_last_time_pop b \<le> t" "m_time_last_time_pop b1 = t"
proof -
  obtain d m' b2 ws1 where d: "MessageBuffer_dequeue now t False b = Inr (d, m', b2, ws1)"
      and b1: "b1 = b2\<lparr>m_stall_msg_map := amap_push a m' (m_stall_msg_map b2),
        m_stall_map_size := m_stall_map_size b2 + 1, mb_stall_count := mb_stall_count b2 + 1\<rparr>"
    using assms by (auto simp: MessageBuffer_stallMessage_def rbind_eq_Inr)
  obtain m ms st mc bm where "m_prio_heap b = m # ms" "m_LastEnqueueTime m \<le> t" "m_time_last_time_pop b \<le> t"
      and m': "m' = m\<lparr>m_DelayedTicks := m_DelayedTicks m + (t - m_LastEnqueueTime m)\<rparr>"
      and b2: "b2 = (heap_remove (count_pop t b))\<lparr>m_stall_time := st, m_msg_count := mc, m_buf_msgs := bm\<rparr>"
    using dequeueD [OF d] by metis
  moreover from this have "m_consumer (count_pop t b) = m_consumer b" "m_max_dequeue_rate (count_pop t b) = m_max_dequeue_rate b"
      "m_time_last_time_pop (count_pop t b) = t" by (simp_all add: count_pop_def Let_def)
  ultimately show thesis by (intro that [of m ms m']) (simp_all add: b1 b2 m' mkey_def heap_remove_def)
qed

section \<open>Runs of a buffer\<close>

text \<open>The operations of the sender and of the receiver, each with the time of the call.\<close>

datatype buffer_op =
    Insert message tick tick "tick \<times> tick \<times> tick" bool
  | Remove tick tick bool
  | Stall tick addr tick
  | Reanalyze addr tick
  | ReanalyzeAll tick
  | Recycle tick tick

fun op_time :: "buffer_op \<Rightarrow> tick" where
  "op_time (Insert m t d rnd byp) = t"
| "op_time (Remove now t dec) = t"
| "op_time (Stall now a t) = t"
| "op_time (Reanalyze a t) = t"
| "op_time (ReanalyzeAll t) = t"
| "op_time (Recycle t latency) = t"

fun buffer_exec :: "ruby_system \<Rightarrow> buffer_op \<Rightarrow> MessageBuffer \<Rightarrow> MessageBuffer res" where
  "buffer_exec rs (Insert m t d rnd byp) b = rbind (MessageBuffer_enqueue rs rnd (Some m) t d byp b) (\<lambda>(b', _). Inr b')"
| "buffer_exec rs (Remove now t dec) b = rbind (MessageBuffer_dequeue now t dec b) (\<lambda>(_, _, b', _). Inr b')"
| "buffer_exec rs (Stall now a t) b = rbind (MessageBuffer_stallMessage rs now a t b) (\<lambda>(b', _). Inr b')"
| "buffer_exec rs (Reanalyze a t) b = rbind (MessageBuffer_reanalyzeMessages a t b) (\<lambda>(b', _). Inr b')"
| "buffer_exec rs (ReanalyzeAll t) b = rbind (MessageBuffer_reanalyzeAllMessages t b) (\<lambda>(b', _). Inr b')"
| "buffer_exec rs (Recycle t latency) b = rbind (MessageBuffer_recycle t latency b) (\<lambda>(b', _). Inr b')"

text \<open>Moving messages about, and changing anything but their numbers, keeps the invariant of the buffer.\<close>

lemma mb_ok_counters:
  assumes "mb_ok b" "mset (map m_msg_counter (mb_msgs b')) = mset (map m_msg_counter (mb_msgs b))"
    and "is_heap mkey (m_prio_heap b')" "distinct (map fst (m_stall_msg_map b'))"
    and "m_stall_map_size b' = int (length (stalled_msgs b'))" "mb_msg_counter b' = mb_msg_counter b"
  shows "mb_ok b'" "length (mb_msgs b') = length (mb_msgs b)"
proof -
  have "distinct (map m_msg_counter (mb_msgs b'))"
    using assms(1) mset_eq_imp_distinct_iff [OF assms(2)] by (simp add: mb_ok_def)
  moreover have "m_msg_counter ` set (mb_msgs b') = m_msg_counter ` set (mb_msgs b)"
    using arg_cong [OF assms(2), of set_mset] by simp
  then have "\<forall>m\<in>set (mb_msgs b'). m_msg_counter m \<le> mb_msg_counter b" using assms(1) unfolding mb_ok_def by (metis imageE image_eqI)
  ultimately show "mb_ok b'" using assms(3-6) by (simp add: mb_ok_def)
  show "length (mb_msgs b') = length (mb_msgs b)" using arg_cong [OF assms(2), of size] by simp
qed

text \<open>
  What moving messages about leaves alone: the counters from which the sender's view is computed
  (those of the current cycle and the sizes at its start) and the configuration.
\<close>

definition same_counters :: "MessageBuffer \<Rightarrow> MessageBuffer \<Rightarrow> bool" where
  "same_counters b b' =
     (m_time_last_time_enqueue b' = m_time_last_time_enqueue b \<and> m_time_last_time_pop b' = m_time_last_time_pop b \<and>
      m_size_at_cycle_start b' = m_size_at_cycle_start b \<and> m_stalled_at_cycle_start b' = m_stalled_at_cycle_start b \<and>
      m_msgs_this_cycle b' = m_msgs_this_cycle b \<and> mb_msg_counter b' = mb_msg_counter b \<and>
      m_max_dequeue_rate b' = m_max_dequeue_rate b \<and> m_consumer b' = m_consumer b)"

lemma stall_step:
  assumes ok: "mb_ok b" "sorted (map fst (m_stall_msg_map b))" and s: "MessageBuffer_stallMessage rs now a t b = Inr (b', ws)"
  shows "mb_ok b' \<and> sorted (map fst (m_stall_msg_map b')) \<and> length (mb_msgs b') = length (mb_msgs b) \<and>
    same_counters (count_pop t b) b'"
proof -
  obtain d m' b2 ws1 where d: "MessageBuffer_dequeue now t False b = Inr (d, m', b2, ws1)"
      and b': "b' = b2\<lparr>m_stall_msg_map := amap_push a m' (m_stall_msg_map b2),
        m_stall_map_size := m_stall_map_size b2 + 1, mb_stall_count := mb_stall_count b2 + 1\<rparr>"
    using s by (auto simp: MessageBuffer_stallMessage_def rbind_eq_Inr)
  obtain m ms st mc bm where h: "m_prio_heap b = m # ms" "m_time_last_time_pop b \<le> t"
      and m': "m' = m\<lparr>m_DelayedTicks := m_DelayedTicks m + (t - m_LastEnqueueTime m)\<rparr>"
      and b2: "b2 = (heap_remove (count_pop t b))\<lparr>m_stall_time := st, m_msg_count := mc, m_buf_msgs := bm\<rparr>"
    using dequeueD [OF d] by metis
  have ok': "mb_ok (count_pop t b)" using ok by (simp add: mb_ok_def mb_msgs_def stalled_msgs_def)
  note r = heap_remove_msgs [OF ok', of m ms]
  have f: "m_prio_heap b' = m_prio_heap (heap_remove (count_pop t b))" "m_stall_msg_map b' = amap_push a m' (m_stall_msg_map b)"
      "m_stall_map_size b' = m_stall_map_size b + 1" "mb_msg_counter b' = mb_msg_counter b" by (simp_all add: b' b2 heap_remove_def)
  have push: "mset (stalled_msgs b') = add_mset m' (mset (stalled_msgs b))" using amap_push_msgs f(2) by (simp add: stalled_msgs_def)
  have "mset (map m_msg_counter (mb_msgs b')) = mset (map m_msg_counter (mb_msgs b))"
    using r(1) h push f(1) m' by (simp add: mb_msgs_def)
  moreover have k: "sorted (map fst (m_stall_msg_map b')) \<and> distinct (map fst (m_stall_msg_map b'))"
    unfolding f(2) using ok by (intro amap_push_distinct) (simp_all add: mb_ok_def)
  moreover have "m_stall_map_size b' = int (length (stalled_msgs b'))"
    using arg_cong [OF push, of size] ok(1) f(3) by (simp add: mb_ok_def)
  ultimately have "mb_ok b'" "length (mb_msgs b') = length (mb_msgs b)"
    using mb_ok_counters [OF ok(1)] r(2) h(1) f(1,4) by simp_all
  moreover have "same_counters (count_pop t b) b'"
    by (simp add: same_counters_def b' b2 heap_remove_def count_pop_def Let_def)
  ultimately show ?thesis using k by simp
qed

lemma sorted_erase: "sorted (map fst g) \<Longrightarrow> sorted (map fst (amap_erase a g))"
  unfolding amap_erase_def by (rule sorted_filter)

lemma reanalyze_step:
  assumes ok: "mb_ok b" "sorted (map fst (m_stall_msg_map b))" and r: "MessageBuffer_reanalyzeMessages a t b = Inr (b', ws)"
  shows "mb_ok b' \<and> sorted (map fst (m_stall_msg_map b')) \<and> length (mb_msgs b') = length (mb_msgs b) \<and>
    same_counters b b'"
proof -
  let ?lt = "amap_get a (m_stall_msg_map b)"
  let ?b1 = "b\<lparr>m_stall_map_size := m_stall_map_size b - int (length ?lt)\<rparr>"
  obtain b2 where l: "MessageBuffer_reanalyzeList ?lt t (?b1, []) = Inr (b2, ws)"
      and b': "b' = b2\<lparr>m_stall_msg_map := amap_erase a (m_stall_msg_map b2)\<rparr>"
    using r by (auto simp: MessageBuffer_reanalyzeMessages_def rbind_eq_Inr Let_def)
  obtain h where h: "b2 = ?b1\<lparr>m_prio_heap := h\<rparr>" "mset h = mset (m_prio_heap b) + mset ?lt" "is_heap mkey h"
    using reanalyzeListD [OF l] ok(1) by (auto simp: mb_ok_def)
  have d: "distinct (map fst (m_stall_msg_map b))" using ok(1) by (simp add: mb_ok_def)
  have e: "mset (stalled_msgs b') + mset ?lt = mset (stalled_msgs b)" using mset_erase [OF d, of a] h(1) by (simp add: b' stalled_msgs_def)
  then have "mset (mb_msgs b') = mset (mb_msgs b)" using h(1,2) by (simp add: b' mb_msgs_def ac_simps)
  then have "mset (map m_msg_counter (mb_msgs b')) = mset (map m_msg_counter (mb_msgs b))" by simp
  moreover have "m_stall_map_size b' = int (length (stalled_msgs b'))"
    using arg_cong [OF e, of size] ok(1) h(1) by (simp add: b' mb_ok_def)
  moreover have "distinct (map fst (m_stall_msg_map b'))" using d h(1) by (simp add: b' amap_erase_def distinct_map_filter)
  ultimately have "mb_ok b'" "length (mb_msgs b') = length (mb_msgs b)"
    using mb_ok_counters [OF ok(1)] h(1,3) by (simp_all add: b')
  then show ?thesis using sorted_erase [OF ok(2), of a] h(1) by (simp add: b' same_counters_def)
qed

lemma reanalyze_groups:
  assumes "rfold (reanalyze_group t) g (b, ws) = Inr (b', ws')" "is_heap mkey (m_prio_heap b)"
  shows "\<exists>h. b' = b\<lparr>m_stall_map_size := m_stall_map_size b - int (length (concat (map snd g))), m_prio_heap := h\<rparr> \<and>
    mset h = mset (m_prio_heap b) + mset (concat (map snd g)) \<and> is_heap mkey h"
  using assms
proof (induction g arbitrary: b ws)
  case Nil
  then show ?case by (auto intro: exI [of _ "m_prio_heap b"])
next
  case (Cons e g)
  obtain a lt where e: "e = (a, lt)" by (cases e)
  let ?b1 = "b\<lparr>m_stall_map_size := m_stall_map_size b - int (length lt)\<rparr>"
  obtain b2 ws2 where l: "MessageBuffer_reanalyzeList lt t (?b1, ws) = Inr (b2, ws2)" and rest: "rfold (reanalyze_group t) g (b2, ws2) = Inr (b', ws')"
    using Cons.prems(1) by (auto simp: e reanalyze_group_def rbind_eq_Inr Let_def)
  obtain h where h: "b2 = ?b1\<lparr>m_prio_heap := h\<rparr>" "mset h = mset (m_prio_heap b) + mset lt" "is_heap mkey h"
    using reanalyzeListD [OF l] Cons.prems(2) by auto
  from Cons.IH [OF rest] h show ?case by (auto simp: e ac_simps)
qed

lemma reanalyze_all_step:
  assumes ok: "mb_ok b" and r: "MessageBuffer_reanalyzeAllMessages t b = Inr (b', ws)"
  shows "mb_ok b' \<and> sorted (map fst (m_stall_msg_map b')) \<and> length (mb_msgs b') = length (mb_msgs b) \<and>
    same_counters b b'"
proof -
  obtain b2 where g: "rfold (reanalyze_group t) (m_stall_msg_map b) (b, []) = Inr (b2, ws)" and b': "b' = b2\<lparr>m_stall_msg_map := []\<rparr>"
    using r by (auto simp: MessageBuffer_reanalyzeAllMessages_def rbind_eq_Inr)
  obtain h where h: "b2 = b\<lparr>m_stall_map_size := m_stall_map_size b - int (length (stalled_msgs b)), m_prio_heap := h\<rparr>"
      "mset h = mset (m_prio_heap b) + mset (stalled_msgs b)" "is_heap mkey h"
    using reanalyze_groups [OF g] ok by (auto simp: mb_ok_def stalled_msgs_def)
  have "mset (mb_msgs b') = mset (mb_msgs b)" using h(1,2) by (simp add: b' mb_msgs_def stalled_msgs_def)
  then have "mset (map m_msg_counter (mb_msgs b')) = mset (map m_msg_counter (mb_msgs b))" by simp
  then have "mb_ok b'" "length (mb_msgs b') = length (mb_msgs b)"
    using mb_ok_counters [OF ok, of b'] h(1,3) ok by (simp_all add: b' mb_ok_def stalled_msgs_def)
  then show ?thesis using h(1) by (simp add: b' same_counters_def)
qed

lemma recycle_step:
  assumes ok: "mb_ok b" and r: "MessageBuffer_recycle t lat b = Inr (b', ws)"
  shows "mb_ok b' \<and> m_stall_msg_map b' = m_stall_msg_map b \<and> length (mb_msgs b') = length (mb_msgs b) \<and>
    same_counters b b'"
proof -
  obtain m ms where h: "m_prio_heap b = m # ms"
    using r by (cases "m_prio_heap b") (auto simp: MessageBuffer_recycle_def MessageBuffer_peekMsgPtr_def rbind_eq_Inr)
  let ?m = "m\<lparr>m_LastEnqueueTime := t + lat\<rparr>"
  have b': "b' = heap_insert ?m (heap_remove b)"
    using r h by (auto simp: MessageBuffer_recycle_def MessageBuffer_peekMsgPtr_def rbind_eq_Inr Let_def)
  note q = heap_remove_msgs [OF ok h]
  have "mset (map m_msg_counter (mb_msgs b')) = mset (map m_msg_counter (mb_msgs b))"
    using q(1) h mh.mset_push by (simp add: b' mb_msgs_def stalled_msgs_def heap_insert_def) (simp add: heap_remove_def)
  moreover have "is_heap mkey (m_prio_heap b')" using mh.heap_push [OF q(2)] by (simp add: b' heap_insert_def)
  ultimately have "mb_ok b'" "length (mb_msgs b') = length (mb_msgs b)"
    using mb_ok_counters [OF ok, of b'] ok by (simp_all add: b' heap_insert_def heap_remove_def mb_ok_def stalled_msgs_def)
  then show ?thesis by (simp add: b' heap_insert_def heap_remove_def same_counters_def)
qed

section \<open>The sender's view is never below the real size\<close>

text \<open>The configuration of a buffer.\<close>

definition mb_config :: "MessageBuffer \<Rightarrow> u32 \<times> cref option" where
  "mb_config b = (m_max_dequeue_rate b, m_consumer b)"

text \<open>
  The invariant after at most \<open>k\<close> operations, the last at time \<open>T\<close>.
\<close>

definition slots_inv :: "tick \<Rightarrow> nat \<Rightarrow> MessageBuffer \<Rightarrow> bool" where
  "slots_inv T k b =
     (mb_ok b \<and> sorted (map fst (m_stall_msg_map b)) \<and> at_time T b \<and> cap_ok b \<and>
      unat (mb_msg_counter b) \<le> k \<and> length (mb_msgs b) \<le> k \<and> unat (m_msgs_this_cycle b) \<le> k \<and>
      unat (m_size_at_cycle_start b) + unat (m_stalled_at_cycle_start b) \<le> k)"

lemma slots_keep:
  assumes "slots_inv T k b" "T \<le> t" "mb_ok b'" "sorted (map fst (m_stall_msg_map b'))"
    and "length (mb_msgs b') = length (mb_msgs b)" "same_counters b b'"
  shows "slots_inv t (Suc k) b' \<and> mb_config b' = mb_config b"
  using assms by (auto simp: slots_inv_def same_counters_def at_time_def cap_ok_def mb_config_def)

lemma slots_pop:
  assumes s: "slots_inv T k b" "T \<le> t" "k < 2 ^ 31" and ok: "mb_ok b'" "sorted (map fst (m_stall_msg_map b'))"
    and l: "length (mb_msgs b') \<le> length (mb_msgs b)" and c: "same_counters (count_pop t b) b'"
  shows "slots_inv t (Suc k) b' \<and> mb_config b' = mb_config b"
proof (cases "m_time_last_time_pop b < t")
  case True
  have f: "m_time_last_time_enqueue b' = m_time_last_time_enqueue b" "m_time_last_time_pop b' = t"
      "m_msgs_this_cycle b' = m_msgs_this_cycle b" "mb_msg_counter b' = mb_msg_counter b"
      "m_size_at_cycle_start b' = u32_size (m_prio_heap b)" "m_stalled_at_cycle_start b' = word_of_int (m_stall_map_size b)"
    using True c by (simp_all add: same_counters_def count_pop_def Let_def)
  have "length (m_prio_heap b) + length (stalled_msgs b) \<le> k" using s(1) by (simp add: slots_inv_def mb_msgs_def)
  then have "length (m_prio_heap b) < 2 ^ 32" "length (stalled_msgs b) < 2 ^ 32" using s(3) by simp_all
  moreover have "m_stall_map_size b = int (length (stalled_msgs b))" using s(1) by (simp add: slots_inv_def mb_ok_def)
  ultimately have "unat (m_size_at_cycle_start b') + unat (m_stalled_at_cycle_start b') = length (mb_msgs b)"
    using unat_u32_size [of "m_prio_heap b"] unat_of_nat32 [of "length (stalled_msgs b)"] f(5,6) by (simp add: mb_msgs_def)
  moreover have "mb_config b' = mb_config b" using c by (simp add: same_counters_def mb_config_def count_pop_def Let_def)
  ultimately show ?thesis using s ok l f by (auto simp: slots_inv_def at_time_def cap_ok_def)
next
  case False
  then have "m_time_last_time_pop b = t" using s by (auto simp: slots_inv_def at_time_def)
  moreover have "same_counters b b'" using False c by (simp add: same_counters_def count_pop_def Let_def)
  ultimately show ?thesis using s ok l by (auto simp: slots_inv_def same_counters_def at_time_def cap_ok_def mb_config_def)
qed

lemma slots_enqueue:
  assumes s: "slots_inv T k b" "T \<le> t" "k < 2 ^ 31" and e: "MessageBuffer_enqueue rs rnd msg t d byp b = Inr (b', ws)"
  shows "slots_inv t (Suc k) b' \<and> mb_config b' = mb_config b"
proof -
  obtain m c a l where b': "b' = (count_enqueue t b)\<lparr>m_prio_heap := push_heap Message_greater (m_prio_heap b @ [stamped t a b m]),
      m_last_arrival_time := l, m_last_message_strict_fifo_bypassed := byp, m_buf_msgs := m_buf_msgs b + 1\<rparr>"
    using enqueueD [OF e] by metis
  have at: "m_time_last_time_enqueue b \<le> t" "m_time_last_time_pop b \<le> t" using s by (auto simp: slots_inv_def at_time_def)
  have n: "unat (mb_msg_counter b) \<le> k" "unat (m_msgs_this_cycle b) \<le> k" using s(1) by (simp_all add: slots_inv_def)
  have len: "length (mb_msgs b') = Suc (length (mb_msgs b))"
    using mh.length_push by (simp add: b' mb_msgs_def stalled_msgs_def)
  have one: "unat (m_msgs_this_cycle b + 1) = unat (m_msgs_this_cycle b) + 1"
    using n(2) s(3) unat_sum32 [of "m_msgs_this_cycle b" 1] by simp
  have count: "unat (mb_msg_counter b + 1) = unat (mb_msg_counter b) + 1"
    using n(1) s(3) unat_plus [of "mb_msg_counter b" 1] by simp
  have ok: "mb_ok b'" using s(1,3) n(1) by (intro enqueue_mb_ok [OF _ e]) (simp_all add: slots_inv_def)
  have m: "unat (m_msgs_this_cycle b') = (if m_time_last_time_enqueue b < t then 1 else Suc (unat (m_msgs_this_cycle b)))"
      "m_time_last_time_enqueue b' = t"
    using one at by (auto simp: b' count_enqueue_def Let_def)
  have "cap_ok b'" using s(1) m len at by (auto simp: slots_inv_def cap_ok_def b')
  moreover have "at_time t b'" using m(2) at by (simp add: at_time_def b')
  moreover have "unat (m_msgs_this_cycle b') \<le> Suc k" using m(1) n(2) by simp
  moreover have "unat (mb_msg_counter b') \<le> Suc k" using count n(1) by (simp add: b')
  moreover have "mb_config b' = mb_config b" by (simp add: mb_config_def b' count_enqueue_def Let_def)
  ultimately show ?thesis using s(1) ok len by (simp add: slots_inv_def b')
qed

lemma slots_exec:
  assumes s: "slots_inv T k b" "T \<le> op_time op" "k < 2 ^ 31" and e: "buffer_exec rs op b = Inr b'"
  shows "slots_inv (op_time op) (Suc k) b' \<and> mb_config b' = mb_config b"
proof -
  have ok: "mb_ok b" "sorted (map fst (m_stall_msg_map b))" using s(1) by (simp_all add: slots_inv_def)
  show ?thesis
  proof (cases op)
    case (Insert m t d rnd byp)
    then obtain ws where "MessageBuffer_enqueue rs rnd (Some m) t d byp b = Inr (b', ws)" using e by (auto simp: rbind_eq_Inr)
    from slots_enqueue [OF s(1) _ s(3) this] show ?thesis using s(2) Insert by simp
  next
    case (Remove now t dec)
    then obtain delay m' ws where d: "MessageBuffer_dequeue now t dec b = Inr (delay, m', b', ws)" using e by (auto simp: rbind_eq_Inr)
    obtain m ms st mc bm where h: "m_prio_heap b = m # ms"
        and b': "b' = (heap_remove (count_pop t b))\<lparr>m_stall_time := st, m_msg_count := mc, m_buf_msgs := bm\<rparr>"
      using dequeueD [OF d] by metis
    have "mset (m_prio_heap (heap_remove b)) = mset ms" by (rule heap_remove_msgs [OF ok(1) h])
    from mset_eq_length [OF this] have "length (m_prio_heap b') = length ms" by (simp add: b' heap_remove_def)
    then have "length (mb_msgs b') \<le> length (mb_msgs b)" using h by (simp add: mb_msgs_def stalled_msgs_def b' heap_remove_def)
    moreover have "same_counters (count_pop t b) b'" "m_stall_msg_map b' = m_stall_msg_map b"
      by (simp_all add: same_counters_def b' heap_remove_def)
    ultimately show ?thesis using slots_pop [of T k b t b'] s Remove dequeue_mb_ok [OF ok(1) d] ok(2) by simp
  next
    case (Stall now a t)
    then obtain ws where "MessageBuffer_stallMessage rs now a t b = Inr (b', ws)" using e by (auto simp: rbind_eq_Inr)
    from stall_step [OF ok this] show ?thesis using slots_pop [of T k b t b'] s Stall by simp
  next
    case (Reanalyze a t)
    then obtain ws where "MessageBuffer_reanalyzeMessages a t b = Inr (b', ws)" using e by (auto simp: rbind_eq_Inr)
    from reanalyze_step [OF ok this] show ?thesis using slots_keep [of T k b t b'] s Reanalyze by simp
  next
    case (ReanalyzeAll t)
    then obtain ws where "MessageBuffer_reanalyzeAllMessages t b = Inr (b', ws)" using e by (auto simp: rbind_eq_Inr)
    from reanalyze_all_step [OF ok(1) this] show ?thesis using slots_keep [of T k b t b'] s ReanalyzeAll by simp
  next
    case (Recycle t lat)
    then obtain ws where "MessageBuffer_recycle t lat b = Inr (b', ws)" using e by (auto simp: rbind_eq_Inr)
    from recycle_step [OF ok(1) this] show ?thesis using slots_keep [of T k b t b'] s Recycle ok(2) by simp
  qed
qed

lemma slots_run:
  assumes "rfold (buffer_exec rs) ops b = Inr b'" "slots_inv T k b" "sorted (T # map op_time ops @ [t])" "k + length ops < 2 ^ 31"
  shows "slots_inv t (k + length ops) b' \<and> mb_config b' = mb_config b"
  using assms
proof (induction ops arbitrary: b T k)
  case Nil
  then show ?case by (auto simp: slots_inv_def at_time_def)
next
  case (Cons op ops)
  then obtain b1 where e: "buffer_exec rs op b = Inr b1" and r: "rfold (buffer_exec rs) ops b1 = Inr b'" by (auto simp: rbind_eq_Inr)
  have "slots_inv (op_time op) (Suc k) b1" "mb_config b1 = mb_config b"
    using slots_exec [OF Cons.prems(2) _ _ e] Cons.prems(3,4) by simp_all
  with Cons.IH [OF r this(1)] Cons.prems(3,4) show ?case by simp
qed

lemma slots_visible:
  assumes "slots_inv t k b"
  shows "visible_size t b \<le> 2 * k"
  using assms by (auto simp: slots_inv_def visible_size_def)

lemma slots_new:
  assumes "MessageBuffer_setConsumer c (MessageBuffer_new sz rate ord rand zl pr) = Inr b"
  shows "slots_inv 0 0 b \<and> mb_config b = (rate, Some c)"
proof -
  have "b = (MessageBuffer_new sz rate ord rand zl pr)\<lparr>m_consumer := Some c\<rparr>"
    using assms by (auto simp: MessageBuffer_setConsumer_def res_iff)
  then show ?thesis using mb_ok_new [of sz rate ord rand zl pr]
    by (simp add: slots_inv_def mb_ok_def mb_msgs_def stalled_msgs_def MessageBuffer_new_def at_time_def cap_ok_def mb_config_def)
qed

text \<open>
  C21. The slots that are promised are there. Take a new buffer and any run of insertions, removals,
  stalls, reanalyses (of one address or of all) and recyclings, at times that do not decrease. If
  \<open>areNSlotsAvailable\<close> then answers yes for \<open>n\<close> slots at time \<open>t\<close>, the sender can insert
  \<open>n\<close> messages in this cycle: none of the insertions fails an assertion, the buffer holds exactly
  \<open>n\<close> messages more (those set aside included), and a bounded buffer is not above its size. Removals
  earlier in the same cycle, which the answer hides, make no difference. The bound on the length of the
  run keeps the sizes within \<open>unsigned int\<close>; \<open>enqueue_ready\<close> asks for what an insertion
  needs besides a slot: a consumer, no randomisation, no warm-up, a delay that is not 0 and does not overflow and, in an
  ordered buffer, an arrival not before the last one.
\<close>

theorem available_slots_suffice:
  assumes new: "MessageBuffer_setConsumer c (MessageBuffer_new sz rate ord rand zl pr) = Inr b0"
    and run: "rfold (buffer_exec rs) ops b0 = Inr b" and times: "sorted (map op_time ops @ [t])"
    and bound: "2 * length ops + unat n < 2 ^ 32"
    and yes: "fst (MessageBuffer_areNSlotsAvailable n t b)"
    and ready: "enqueue_ready rs t d b" and ms: "length ms = unat n" "\<forall>m\<in>set ms. m_LastEnqueueTime m \<le> t"
  shows "\<exists>b'. enqueue_all rs rnd t d ms b = Inr b' \<and> length (mb_msgs b') = length (mb_msgs b) + unat n \<and>
    (m_max_size b = 0 \<or> length (mb_msgs b') \<le> unat (m_max_size b))"
proof -
  have inv: "slots_inv t (length ops) b"
    using slots_run [OF run conjunct1 [OF slots_new [OF new]], of t] times bound by simp
  then have "visible_size t b + unat n < 2 ^ 32" using slots_visible [OF inv] bound by simp
  then have "has_slots t (unat n) b"
    using inv yes by (intro areNSlotsAvailable_slots) (simp_all add: slots_inv_def)
  then obtain b' where b': "enqueue_all rs rnd t d ms b = Inr b'" "length (mb_msgs b') = length (mb_msgs b) + length ms"
      "m_max_size b' = m_max_size b" "has_slots t 0 b'"
    using enqueue_all_returns [of t ms b rs d rnd] ready ms by auto
  then have "length (mb_msgs b') \<le> visible_size t b'" "m_max_size b = 0 \<or> visible_size t b' \<le> unat (m_max_size b)"
    using visible_size_ge [of b' t] by (simp_all add: has_slots_def)
  then show ?thesis using b' ms(1) by (intro exI [of _ b']) auto
qed

text \<open>A run that removes, stalls and inserts at the time of the question.\<close>

definition demo_run :: "buffer_op list" where
  "demo_run = [Insert (demo_msg 1) 10 1 (0, 0, 0) False, Insert (demo_msg 2) 10 1 (0, 0, 0) False,
     Insert (demo_msg 3) 11 1 (0, 0, 0) False, Remove 12 12 True, Stall 12 64 12, Insert (demo_msg 4) 12 1 (0, 0, 0) False]"

definition demo_after :: "MessageBuffer res" where
  "demo_after = rbind (MessageBuffer_setConsumer (ToNI 0) (MessageBuffer_new 6 0 True MR_disabled False 0)) (rfold (buffer_exec demo_rs) demo_run)"

theorem available_slots_suffice_witness:
  "\<exists>b b'. demo_after = Inr b \<and> enqueue_all demo_rs (0, 0, 0) 12 1 [demo_msg 5, demo_msg 6] b = Inr b' \<and>
    length (mb_msgs b') = length (mb_msgs b) + 2"
proof -
  have "case demo_after of Inl _ \<Rightarrow> False | Inr b \<Rightarrow> fst (MessageBuffer_areNSlotsAvailable 2 12 b) \<and>
      (case m_consumer b of None \<Rightarrow> False | Some _ \<Rightarrow> True) \<and> \<not> randomized demo_rs b \<and> m_last_arrival_time b \<le> 12 + 1" by code_simp
  then obtain b0 b where r: "MessageBuffer_setConsumer (ToNI 0) (MessageBuffer_new 6 0 True MR_disabled False 0) = Inr b0"
      "rfold (buffer_exec demo_rs) demo_run b0 = Inr b" "demo_after = Inr b" "fst (MessageBuffer_areNSlotsAvailable 2 12 b)"
      "m_consumer b \<noteq> None" "\<not> randomized demo_rs b" "m_last_arrival_time b \<le> 12 + 1"
    by (auto simp: demo_after_def rbind_eq_Inr split: sum.splits option.splits)
  have "enqueue_ready demo_rs 12 1 b" using r(5-7) by (simp add: enqueue_ready_def demo_rs_def)
  moreover have "sorted (map op_time demo_run @ [12])" "2 * length demo_run + unat (2 :: u32) < 2 ^ 32" by (simp_all add: demo_run_def)
  ultimately show ?thesis
    using available_slots_suffice [OF r(1,2), of 12 2 1 "[demo_msg 5, demo_msg 6]" "(0, 0, 0)"] r(3,4) by (auto simp: demo_msg_def)
qed

section \<open>Emptying a buffer\<close>

text \<open>\<open>n\<close> removals in a row, with what they take out.\<close>

fun remove_n :: "nat \<Rightarrow> tick \<Rightarrow> tick \<Rightarrow> MessageBuffer \<Rightarrow> int list res" where
  "remove_n 0 now t b = Inr []"
| "remove_n (Suc n) now t b =
     rbind (MessageBuffer_dequeue now t True b) (\<lambda>(_, m, b', _).
     rbind (remove_n n now t b') (\<lambda>ps. Inr (msg_payload m # ps)))"

text \<open>All messages have arrived, and the number of removals in a cycle is not limited.\<close>

definition all_ready :: "tick \<Rightarrow> MessageBuffer \<Rightarrow> bool" where
  "all_ready t b =
     (m_max_dequeue_rate b = 0 \<and> m_time_last_time_pop b \<le> t \<and> (\<forall>m\<in>set (m_prio_heap b). m_LastEnqueueTime m \<le> t))"

lemma dequeue_all_ready:
  assumes ok: "mb_ok b" and r: "all_ready t b" "m_prio_heap b = m # ms"
  shows "\<exists>delay m' b' ws. MessageBuffer_dequeue now t True b = Inr (delay, m', b', ws) \<and> all_ready t b' \<and> length (m_prio_heap b') = length ms"
proof -
  let ?b = "heap_remove (count_pop t b)"
  have "m_LastEnqueueTime m \<le> t" using r by (simp add: all_ready_def)
  then obtain delay m' b' ws where d: "MessageBuffer_dequeue now t True b = Inr (delay, m', b', ws)"
    using r by (auto simp: MessageBuffer_dequeue_def MessageBuffer_isReady_def MessageBuffer_peekMsgPtr_def
        Message_updateDelayedTicks_def all_ready_def Let_def)
  obtain st mc bm where b': "b' = ?b\<lparr>m_stall_time := st, m_msg_count := mc, m_buf_msgs := bm\<rparr>" using dequeueD [OF d] by metis
  have "mb_ok (count_pop t b)" using ok by (simp add: mb_ok_def mb_msgs_def stalled_msgs_def)
  then have h: "mset (m_prio_heap ?b) = mset ms" using heap_remove_msgs(1) [of "count_pop t b" m ms] r(2) by simp
  then have "set (m_prio_heap ?b) = set ms" "length (m_prio_heap ?b) = length ms"
    by (auto dest: mset_eq_setD mset_eq_length)
  moreover have "m_max_dequeue_rate ?b = 0" "m_time_last_time_pop ?b \<le> t"
    using r(1) by (auto simp: heap_remove_def count_pop_def Let_def all_ready_def)
  ultimately have "all_ready t b'" "length (m_prio_heap b') = length ms" using r by (simp_all add: all_ready_def b')
  then show ?thesis using d by blast
qed

lemma remove_n_queue:
  assumes "mb_ok b" "all_ready t b" "length (m_prio_heap b) = n"
  shows "remove_n n now t b = Inr (map msg_payload (MessageBuffer_queue b))"
  using assms
proof (induction n arbitrary: b)
  case 0
  then show ?case by (simp add: MessageBuffer_queue_def)
next
  case (Suc n)
  then obtain m ms where h: "m_prio_heap b = m # ms" "length ms = n" by (auto simp: length_Suc_conv)
  obtain delay m' b' ws where d: "MessageBuffer_dequeue now t True b = Inr (delay, m', b', ws)"
      and r: "all_ready t b'" "length (m_prio_heap b') = n"
    using dequeue_all_ready [OF Suc.prems(1,2) h(1), of now] h(2) by metis
  have "remove_n n now t b' = Inr (map msg_payload (MessageBuffer_queue b'))"
    by (rule Suc.IH [OF dequeue_mb_ok [OF Suc.prems(1) d] r])
  then show ?case using d dequeue_queue [OF Suc.prems(1) d] by auto
qed

text \<open>Taking back the one message that is set aside for an address.\<close>

lemma reanalyze_one_returns:
  assumes "mb_ok b" "amap_get a (m_stall_msg_map b) = [m]" "a \<in> fst ` set (m_stall_msg_map b)"
    and "m_LastEnqueueTime m \<le> t" "m_consumer b = Some c"
  obtains b2 where "MessageBuffer_reanalyzeMessages a t b = Inr (b2, [(c, At t)])"
    "m_prio_heap b2 = push_heap Message_greater (m_prio_heap b @ [m])" "m_max_dequeue_rate b2 = m_max_dequeue_rate b"
    "m_time_last_time_pop b2 = m_time_last_time_pop b"
proof -
  have "mset (stalled_msgs b) = mset (concat (map snd (amap_erase a (m_stall_msg_map b)))) + {#m#}"
    using mset_erase [of "m_stall_msg_map b" a] assms(1,2) by (simp add: mb_ok_def stalled_msgs_def)
  from arg_cong [OF this, of size] have "0 \<le> m_stall_map_size b - 1" using assms(1) by (simp add: mb_ok_def)
  then show thesis using assms(2-5)
    by (intro that [of "b\<lparr>m_stall_map_size := m_stall_map_size b - 1, m_prio_heap := push_heap Message_greater (m_prio_heap b @ [m]),
          m_stall_msg_map := amap_erase a (m_stall_msg_map b)\<rparr>"])
      (auto simp: MessageBuffer_reanalyzeMessages_def MessageBuffer_reanalyzeList_def reanalyze_one_def
        wake_consumer_def heap_insert_def)
qed

text \<open>
  C22. Setting a message aside and taking it back does not change what the receiver gets. Take a
  buffer reached by any run from a new one. If the message at the head is stalled for an
  address that has no stalled message yet, a later \<open>reanalyzeMessages\<close> for this address
  returns. Emptying the buffer afterwards, by one call of \<open>dequeue\<close> per message at a time
  at which all have arrived, succeeds and takes out the same messages in the same order as emptying it
  without the detour. The removals of a cycle are not limited here.
\<close>

theorem stall_reanalyze_roundtrip:
  assumes new: "MessageBuffer_setConsumer c (MessageBuffer_new sz 0 ord rand zl pr) = Inr b0"
    and run: "rfold (buffer_exec rs) ops b0 = Inr b" and times: "sorted (map op_time ops @ [t])" "length ops < 2 ^ 31"
    and s: "MessageBuffer_stallMessage rs now a t b = Inr (b1, ws)" and a: "\<not> MessageBuffer_hasStalledMsg a b"
    and later: "t \<le> t'" "t' \<le> T" and arrived: "\<forall>m\<in>set (m_prio_heap b). m_LastEnqueueTime m \<le> T"
  shows "\<exists>b2 ws2 ps. MessageBuffer_reanalyzeMessages a t' b1 = Inr (b2, ws2) \<and>
    remove_n (length (m_prio_heap b)) now' T b = Inr ps \<and> remove_n (length (m_prio_heap b)) now' T b2 = Inr ps \<and>
    length ps = length (m_prio_heap b)"
proof -
  note r0 = slots_new [OF new]
  have "slots_inv t (length ops) b" "mb_config b = (0, Some c)"
    using slots_run [OF run conjunct1 [OF r0], of t] r0 times by simp_all
  then have ok: "mb_ok b" "sorted (map fst (m_stall_msg_map b))" and conf: "m_max_dequeue_rate b = 0" "m_consumer b = Some c"
    by (simp_all add: slots_inv_def mb_config_def)
  obtain m ms m' where h: "m_prio_heap b = m # ms" "m_LastEnqueueTime m \<le> t" "mkey m' = mkey m" "msg_payload m' = msg_payload m"
    and b1: "m_prio_heap b1 = m_prio_heap (heap_remove b)" "m_stall_msg_map b1 = amap_push a m' (m_stall_msg_map b)"
      "m_consumer b1 = m_consumer b" "m_max_dequeue_rate b1 = m_max_dequeue_rate b"
    and pop: "m_time_last_time_pop b \<le> t" "m_time_last_time_pop b1 = t"
    by (rule stallMessageD [OF s])
  have ok1: "mb_ok b1" "sorted (map fst (m_stall_msg_map b1))" using stall_step [OF ok s] by simp_all
  have g: "amap_get a (m_stall_msg_map b1) = [m']" using a b1(2) amap_get_push by (simp add: MessageBuffer_hasStalledMsg_def)
  have k: "a \<in> fst ` set (m_stall_msg_map b1)" using amap_push_keys [of a m' "m_stall_msg_map b"] b1(2) by simp
  have le: "m_LastEnqueueTime m' = m_LastEnqueueTime m" using h(3) by (simp add: mkey_def)
  have early: "m_LastEnqueueTime m' \<le> t'" "m_consumer b1 = Some c" using le h(2) later(1) b1(3) conf(2) by simp_all
  obtain b2 where r: "MessageBuffer_reanalyzeMessages a t' b1 = Inr (b2, [(c, At t')])"
      and b2: "m_prio_heap b2 = push_heap Message_greater (m_prio_heap b1 @ [m'])" "m_max_dequeue_rate b2 = m_max_dequeue_rate b1"
        "m_time_last_time_pop b2 = m_time_last_time_pop b1"
    by (rule reanalyze_one_returns [OF ok1(1) g k early])
  have q: "mset (m_prio_heap b2) = mset (m' # ms)" using mh.mset_push heap_remove_msgs(1) [OF ok(1) h(1)] b1(1) b2(1) by simp
  have "is_heap mkey (m # ms)" "distinct (map m_msg_counter (m # ms))" using ok(1) h(1) by (auto simp: mb_ok_def mb_msgs_def)
  then have same: "map msg_payload (MessageBuffer_queue b2) = map msg_payload (MessageBuffer_queue b)"
    using queue_payloads [OF _ _ h(3,4) q] h(1) by (simp add: MessageBuffer_queue_def)
  have "all_ready T b" using conf(1) pop(1) later arrived by (auto simp: all_ready_def)
  moreover have "all_ready T b2"
    using conf(1) pop(2) later arrived b1(4) b2(2,3) mset_eq_setD [OF q] le h(1) by (auto simp: all_ready_def)
  moreover have "length (m_prio_heap b2) = length (m_prio_heap b)" using mset_eq_length [OF q] h(1) by simp
  moreover have "mb_ok b2" using reanalyze_step [OF ok1 r] by simp
  ultimately show ?thesis using r same remove_n_queue ok(1)
    by (intro exI [of _ b2] exI [of _ "[(c, At t')]"] exI [of _ "map msg_payload (MessageBuffer_queue b)"]) (simp add: MessageBuffer_queue_def)
qed

text \<open>A run that leaves three messages.\<close>

definition demo_three :: "buffer_op list" where
  "demo_three = [Insert (demo_msg 1) 10 1 (0, 0, 0) False, Insert (demo_msg 2) 10 1 (0, 0, 0) False,
     Insert (demo_msg 3) 11 1 (0, 0, 0) False]"

definition demo_filled :: "MessageBuffer res" where
  "demo_filled = rbind (MessageBuffer_setConsumer (ToNI 0) (MessageBuffer_new 6 0 True MR_disabled False 0)) (rfold (buffer_exec demo_rs) demo_three)"

theorem stall_reanalyze_roundtrip_witness:
  "\<exists>b b1 ws b2 ws2. demo_filled = Inr b \<and> MessageBuffer_stallMessage demo_rs 12 64 12 b = Inr (b1, ws) \<and>
    MessageBuffer_reanalyzeMessages 64 13 b1 = Inr (b2, ws2) \<and> remove_n 3 14 14 b2 = remove_n 3 14 14 b"
proof -
  have "case demo_filled of Inl _ \<Rightarrow> False | Inr b \<Rightarrow> returns (MessageBuffer_stallMessage demo_rs 12 64 12 b) \<and>
      \<not> MessageBuffer_hasStalledMsg 64 b \<and> length (m_prio_heap b) = 3 \<and> (\<forall>m\<in>set (m_prio_heap b). m_LastEnqueueTime m \<le> 14)" by code_simp
  then obtain b0 b b1 ws where r: "MessageBuffer_setConsumer (ToNI 0) (MessageBuffer_new 6 0 True MR_disabled False 0) = Inr b0"
      "rfold (buffer_exec demo_rs) demo_three b0 = Inr b" "MessageBuffer_stallMessage demo_rs 12 64 12 b = Inr (b1, ws)" "demo_filled = Inr b"
      "\<not> MessageBuffer_hasStalledMsg 64 b" "length (m_prio_heap b) = 3" "\<forall>m\<in>set (m_prio_heap b). m_LastEnqueueTime m \<le> 14"
    by (auto simp: demo_filled_def rbind_eq_Inr returns_iff split: sum.splits)
  have "sorted (map op_time demo_three @ [12])" "length demo_three < 2 ^ 31" by (simp_all add: demo_three_def)
  from stall_reanalyze_roundtrip [OF r(1,2) this r(3,5), of 13 14 14] r(4,6,7)
  obtain b2 ws2 ps where "MessageBuffer_reanalyzeMessages 64 13 b1 = Inr (b2, ws2)" "remove_n 3 14 14 b = Inr ps" "remove_n 3 14 14 b2 = Inr ps"
    by auto
  then show ?thesis using r(3,4)
    by (intro exI [of _ b] exI [of _ b1] exI [of _ ws] exI [of _ b2] exI [of _ ws2]) simp
qed

section \<open>Functional reads\<close>

text \<open>
  A packet shown to all messages in turn: how many answer, and the packet afterwards; and a packet
  shown to them until the first answers.
\<close>

fun read_through :: "(message \<Rightarrow> 'pk \<Rightarrow> bool \<times> 'pk) \<Rightarrow> message list \<Rightarrow> 'pk \<Rightarrow> nat \<times> 'pk" where
  "read_through fr [] pk = (0, pk)"
| "read_through fr (m # ms) pk =
     (let (hit, pk1) = fr m pk; (n, pk2) = read_through fr ms pk1 in (if hit then Suc n else n, pk2))"

fun read_first :: "(message \<Rightarrow> 'pk \<Rightarrow> bool \<times> 'pk) \<Rightarrow> message list \<Rightarrow> 'pk \<Rightarrow> bool \<times> 'pk" where
  "read_first fr [] pk = (False, pk)"
| "read_first fr (m # ms) pk = (let (hit, pk1) = fr m pk in if hit then (True, pk1) else read_first fr ms pk1)"

abbreviation read_acc :: "(message \<Rightarrow> 'pk \<Rightarrow> bool \<times> 'pk) \<Rightarrow> 'pk \<Rightarrow> message \<Rightarrow> bool \<times> 'pk \<times> message" where
  "read_acc fr \<equiv> \<lambda>pk m. (fst (fr m pk), snd (fr m pk), m)"

lemma read_through_append:
  "read_through fr (xs @ ys) pk =
     (let (n, pk1) = read_through fr xs pk; (k, pk2) = read_through fr ys pk1 in (n + k, pk2))"
  by (induction xs arbitrary: pk) (auto simp: Let_def split: prod.splits)

lemma read_first_append:
  "read_first fr (xs @ ys) pk = (let (hit, pk1) = read_first fr xs pk in if hit then (True, pk1) else read_first fr ys pk1)"
  by (induction xs arbitrary: pk) (auto simp: Let_def split: prod.splits)

lemma read_through_le: "fst (read_through fr ms pk) \<le> length ms"
proof (induction ms arbitrary: pk)
  case (Cons m ms)
  from Cons.IH [of "snd (fr m pk)"] show ?case by (auto simp: Let_def split: prod.splits)
qed simp

lemma access_msgs_through:
  "access_msgs (read_acc fr) False ms pk = (of_nat (fst (read_through fr ms pk)), False, snd (read_through fr ms pk), ms)"
  by (induction ms arbitrary: pk) (auto simp: Let_def split: prod.splits)

lemma access_groups_through:
  "access_groups (read_acc fr) False g pk =
     (of_nat (fst (read_through fr (concat (map snd g)) pk)), snd (read_through fr (concat (map snd g)) pk), g)"
proof (induction g arbitrary: pk)
  case (Cons e g)
  then show ?case by (cases e) (simp add: access_msgs_through read_through_append Let_def split: prod.splits)
qed simp

lemma access_msgs_first:
  "access_msgs (read_acc fr) True ms pk =
     (if fst (read_first fr ms pk) then 1 else 0, fst (read_first fr ms pk), snd (read_first fr ms pk), ms)"
  by (induction ms arbitrary: pk) (auto simp: Let_def split: prod.splits)

lemma access_groups_first:
  "access_groups (read_acc fr) True g pk =
     (if fst (read_first fr (concat (map snd g)) pk) then 1 else 0, snd (read_first fr (concat (map snd g)) pk), g)"
proof (induction g arbitrary: pk)
  case (Cons e g)
  then show ?case by (cases e) (simp add: access_msgs_first read_first_append Let_def split: prod.splits)
qed simp

text \<open>
  C24. What a functional read of a buffer reports. It goes over the heap and then over the messages
  set aside, address by address. With a mask the packet is shown to all of them, and the
  result is whether exactly one message answered: if two or more do, each fills its part of the
  packet and the read is still reported as failed. Without a mask the read stops at the first message
  that answers and succeeds if there is one.
\<close>

theorem functional_read_reports:
  assumes "length (mb_msgs b) < 2 ^ 32"
  shows "MessageBuffer_functionalRead fr True pk b =
      (fst (read_through fr (mb_msgs b) pk) = 1, snd (read_through fr (mb_msgs b) pk)) \<and>
    MessageBuffer_functionalRead fr False pk b = read_first fr (mb_msgs b) pk"
proof -
  let ?n = "fst (read_through fr (mb_msgs b) pk)"
  have "?n < 2 ^ 32" using read_through_le [of fr "mb_msgs b" pk] assms by simp
  from unat_of_nat32 [OF this] have n: "of_nat ?n = (1 :: u32) \<longleftrightarrow> ?n = 1" by (metis of_nat_1 unat_1)
  have "MessageBuffer_functionalAccess (read_acc fr) False pk b = (of_nat ?n, snd (read_through fr (mb_msgs b) pk), b)"
    by (simp add: MessageBuffer_functionalAccess_def access_msgs_through access_groups_through mb_msgs_def stalled_msgs_def
        read_through_append Let_def split: prod.splits)
  then have masked: "MessageBuffer_functionalRead fr True pk b = (?n = 1, snd (read_through fr (mb_msgs b) pk))"
    using n by (simp add: MessageBuffer_functionalRead_def)
  have "MessageBuffer_functionalAccess (read_acc fr) True pk b =
      (if fst (read_first fr (mb_msgs b) pk) then 1 else 0, snd (read_first fr (mb_msgs b) pk), b)"
    by (simp add: MessageBuffer_functionalAccess_def access_msgs_first access_groups_first mb_msgs_def stalled_msgs_def
        read_first_append Let_def split: prod.splits)
  then have "MessageBuffer_functionalRead fr False pk b = read_first fr (mb_msgs b) pk"
    by (simp add: MessageBuffer_functionalRead_def) (simp add: prod_eq_iff)
  with masked show ?thesis by blast
qed

text \<open>One message waits and one is set aside; both answer.\<close>

definition demo_read :: MessageBuffer where
  "demo_read = (MessageBuffer_new 6 0 True MR_disabled False 0)\<lparr>m_prio_heap := [demo_msg 1],
     m_stall_msg_map := [(64, [demo_msg 2])], m_stall_map_size := 1\<rparr>"

theorem functional_read_reports_witness:
  "MessageBuffer_functionalRead (\<lambda>m pk. (True, pk + msg_payload m)) True (0 :: int) demo_read = (False, 3) \<and>
   MessageBuffer_functionalRead (\<lambda>m pk. (True, pk + msg_payload m)) False (0 :: int) demo_read = (True, 1)"
  using functional_read_reports [of demo_read "\<lambda>m pk. (True, pk + msg_payload m)" 0]
  by (simp add: demo_read_def demo_msg_def mb_msgs_def stalled_msgs_def MessageBuffer_new_def)

end
