(* ===== verification/Spec2Isabelle.thy ===== *)
theory Spec2Isabelle
  imports Garnet_Router_Props Garnet_ShortestPath Garnet_Network_Props Garnet_Bridge_Credit Garnet_Trace_Props Garnet_Traffic
    Garnet_MessageBuffer_Props
begin

text \<open>
  A verification development for the Garnet network-on-chip of CHIPSIM's gem5: the code under
  \<^verbatim>\<open>src/integrations/gem5/src/mem/ruby/network/garnet\<close>, the Ruby classes that it is built on
  (\<^verbatim>\<open>mem/ruby/network\<close>, \<^verbatim>\<open>mem/ruby/common\<close>) and the synthetic traffic generator that drives it. File names
  below are relative to these directories.

  \<^bold>\<open>The program.\<close> Network interfaces cut messages, or the records of a trace, into flits and send them
  over links to routers. A router receives flits in input units, allocates virtual channels and its
  crossbar in a switch allocator, and sends through output units, which count the credits that the
  receiver returns. Bridges change the width and the clock of a link. The routing tables are computed
  by the topology. Every object is a consumer that the event queue wakes up at clock edges. CHIPSIM
  feeds the network with a trace and reads latencies per phase.

  \<^bold>\<open>Conventions.\<close> An operation that can fail returns \<open>fault + 'a\<close>: \<open>Assertion\<close>, \<open>Panic\<close>, \<open>Fatal\<close>,
  \<open>Exception\<close>, or \<open>Undefined\<close> for undefined behaviour of C++ (\<open>Garnet_Prelude\<close>). \<open>Tick\<close> and \<open>Cycles\<close> are 64-bit
  words, widths 32-bit words; a C++ \<open>int\<close> is an \<open>int\<close>, whose overflow is
  not modelled, and quotients that the code rounds after a floating-point division are exact. Classes are records and their methods functions
  on them. Links and bridges are shared by pointers in the code; here they are indices into one list.
  Wake-ups that an operation schedules are returned as a list of requests.

  \<^bold>\<open>Theories.\<close>
  \<^item> \<open>Garnet_Clock\<close>: \<open>Clocked\<close> (sim/clocked_object.hh) and \<open>Consumer\<close> (common/Consumer.cc). The cache of the clock is
    invisible; no requested wake-up is lost; a request for the past breaks the consumer.
  \<^item> \<open>Garnet_NetDest\<close>: \<open>Set\<close> and \<open>NetDest\<close> (common/Set.hh, NetDest.cc), both instances of the locale \<open>dest_set\<close>.
  \<^item> \<open>Garnet_Flit\<close>, \<open>Garnet_VC\<close>, \<open>Garnet_NetworkLink\<close>: flit.cc, Credit.cc, flitBuffer.cc, VirtualChannel.cc,
    OutVcState.cc, NetworkLink.cc; flit buffers and virtual channels are instances of the locale \<open>fifo\<close>,
    the state of an output virtual channel one of \<open>credit_counter\<close>.
  \<^item> \<open>Garnet_RoutingUnit\<close>, \<open>Garnet_OutputUnit\<close>, \<open>Garnet_InputUnit\<close>, \<open>Garnet_Router\<close>: the files of these names with
    SwitchAllocator.cc and CrossbarSwitch.cc. \<open>Garnet_Router_Flow\<close> shows that flits are conserved,
    \<open>Garnet_Router_Safe\<close> and \<open>Garnet_Router_Step\<close> that the stages of a wake-up keep the invariant of a
    router and do not fail, \<open>Garnet_Router_Props\<close> states the results for a whole wake-up.
  \<^item> \<open>Garnet_Topology\<close>, \<open>Garnet_ShortestPath\<close>: Topology.cc; the relaxation terminates with the least
    distances, and following the routing entries reaches the destination.
  \<^item> \<open>Garnet_Heap\<close>, \<open>Garnet_MessageBuffer\<close>: MessageBuffer.cc over the heap operations of the C++ library
    (locale \<open>heap_ops\<close>); an ordered buffer is a queue. \<open>Garnet_MessageBuffer_Props\<close> is about runs of all
    operations of sender and receiver: promised slots are there, stalling is undone as the receiver
    sees it; and about what a functional read reports.
  \<^item> \<open>Garnet_Counters\<close>, \<open>Garnet_NetworkInterface\<close>, \<open>Garnet_Trace\<close>: the statistics and the trace reader of
    GarnetNetwork.cc and NetworkInterface.cc. \<open>Garnet_Trace_Props\<close> shows that lines are read back, that
    a trace in the order of time is replayed completely, and what malformed lines do.
  \<^item> \<open>Garnet_Bridge\<close>, \<open>Garnet_Bridge_Props\<close>, \<open>Garnet_Bridge_Credit\<close>: NetworkBridge.cc; packets and credits
    survive a change of width, if the narrow width divides the wide one and not otherwise.
  \<^item> \<open>Garnet_Network\<close>: Network.cc, GarnetLink.cc and the rest of GarnetNetwork.cc: node numbers, the
    construction of links and ports, and the wake-up of each object of a network.
  \<^item> \<open>Garnet_Flow\<close>: the locale \<open>flow_component\<close>, the contract of credit-based flow control, and its
    consequences. \<open>Garnet_Router_Credit\<close> and \<open>Garnet_NI_Credit\<close> prove it for routers and interfaces,
    \<open>Garnet_Network_Flow\<close> interprets it on both, \<open>Garnet_Network_Run\<close> relates runs of network events to
    steps of the contract, and \<open>Garnet_Network_Props\<close> states that credits are conserved and that no
    buffer overflows.
  \<^item> \<open>Garnet_Traffic\<close>: GarnetSyntheticTraffic.cc; for the numbers of destinations they are
    meant for, which the code does not check, the patterns are permutations and packets carry addresses in
    range; limits are kept, missing responses are reported.

  \<^bold>\<open>Bounds and fuel.\<close> The relaxation of the shortest paths and the trace reader are total functions with
  termination proofs. Only \<open>replay\<close> of \<open>Garnet_Trace_Props\<close> has fuel, one unit per wake-up of the network; the
  number of records and two more is enough, which is part of its theorem. Times are bounded where a
  64-bit tick could overflow (\<open>time_ok\<close>, \<open>replay_time\<close>), widths and numbers of destinations where a 32-bit
  number could, and the length of a run of a message buffer where a 32-bit size could. The credit theorems are about networks without bridges, whose accounts are the subject of
  the two bridge theories.

  \<^bold>\<open>Parameters.\<close> Random numbers, the answers of the memory system's port, the decoding of message
  contents and the outcome of comparisons with the floating-point injection rate are arguments.

  \<^bold>\<open>Not modelled.\<close> Debug output, printing and registration of statistics; freed memory; the fault model, which
  is a table of floating-point probabilities; the address map of Network.cc; the opening of the trace as
  a pipe (the text it yields is the state); the simple network, an alternative that CHIPSIM does not
  use; the Python parts of CHIPSIM, which prepare traces and read results and are not part of the
  simulated network.
\<close>

text \<open>
  C18. \<open>NetDest::intersectionIsNotEmpty\<close>, which decides in the routing table whether an output
  link leads to a destination of a message, returns (it fails no assertion) for two destination
  sets of the same machine configuration, and its result is that the two sets of machines share
  a member.
\<close>

theorem intersection_decides_common_destination:
  assumes "NetDest_compat nb d r"
  shows "NetDest_intersectionIsNotEmpty r d = Inr (\<exists>m. m \<in> NetDest_elems d \<and> m \<in> NetDest_elems r)"
  using NetDest_intersectionIsNotEmpty_iff [OF assms] by auto

theorem intersection_decides_common_destination_witness:
  "NetDest_intersectionIsNotEmpty
     \<lparr>m_bits = [\<lparr>m_nSize = 2, bits = [True, False]\<rparr>]\<rparr> \<lparr>m_bits = [\<lparr>m_nSize = 2, bits = [True, True]\<rparr>]\<rparr> =
   Inr (\<exists>m. m \<in> NetDest_elems \<lparr>m_bits = [\<lparr>m_nSize = 2, bits = [True, True]\<rparr>]\<rparr> \<and>
            m \<in> NetDest_elems \<lparr>m_bits = [\<lparr>m_nSize = 2, bits = [True, False]\<rparr>]\<rparr>)"
  by (rule intersection_decides_common_destination [of 2])
    (auto simp: NetDest_compat_def Set_compat_def Set_wf_def Set_elems_def)

end
